(* ===== verification/Prelude.thy ===== *)
theory Prelude
  imports Main "HOL-Library.Word" "HOL-Library.Multiset" "HOL-Library.AList" "HOL-Library.List_Lexorder" "HOL-Library.Char_ord"
begin

text \<open>
  What every component of the development shares: the run-time failures of Go as values, the
  total-correctness predicate the proofs are written with, Go's maps (nil or a finite
  association of distinct keys), the order in which a range statement visits a map, the
  decoding of a Go string into runes, and the decimal and hexadecimal verbs of \<open>fmt\<close>.
\<close>

unbundle bit_operations_syntax

section \<open>Run-time panics as values\<close>

datatype panic = NilDeref | IndexOutOfRange | NilMapWrite | DivideByZero | PanicMsg string

type_synonym 'a res = "panic + 'a"

definition bind_res :: "'a res \<Rightarrow> ('a \<Rightarrow> 'b res) \<Rightarrow> 'b res" where
  "bind_res m f = (case m of Inl e \<Rightarrow> Inl e | Inr x \<Rightarrow> f x)"

lemma bind_res_simps [simp]:
  "bind_res (Inl e) f = Inl e"
  "bind_res (Inr x) f = f x"
  by (simp_all add: bind_res_def)

lemma bind_res_assoc: "bind_res (bind_res m f) g = bind_res m (\<lambda>x. bind_res (f x) g)"
  by (cases m) simp_all

text \<open>
  \<open>ok m P\<close>: the computation does not panic and its value satisfies \<open>P\<close>. The equations
  below make the simplifier a verification-condition generator for sequences of calls.
\<close>

definition ok :: "'a res \<Rightarrow> ('a \<Rightarrow> bool) \<Rightarrow> bool" where
  "ok m P = (case m of Inl e \<Rightarrow> False | Inr x \<Rightarrow> P x)"

lemma ok_simps [simp]:
  "ok (Inl e) P = False"
  "ok (Inr x) P = P x"
  by (simp_all add: ok_def)

lemma ok_bind [simp]: "ok (bind_res m f) P = ok m (\<lambda>x. ok (f x) P)"
  by (cases m) simp_all

lemma ok_mono: "ok m P \<Longrightarrow> (\<And>x. P x \<Longrightarrow> Q x) \<Longrightarrow> ok m Q"
  by (cases m) auto

lemma ok_monoI: "ok m P \<Longrightarrow> (\<And>x. m = Inr x \<Longrightarrow> P x \<Longrightarrow> Q x) \<Longrightarrow> ok m Q"
  by (cases m) auto

lemma ok_conj: "ok m (\<lambda>x. P x \<and> Q x) = (ok m P \<and> ok m Q)"
  by (cases m) auto

lemma ok_iff: "ok m P \<longleftrightarrow> (\<exists>x. m = Inr x \<and> P x)"
  by (cases m) auto

lemma okE [elim]: "ok m P \<Longrightarrow> (\<And>x. m = Inr x \<Longrightarrow> P x \<Longrightarrow> R) \<Longrightarrow> R"
  by (cases m) auto

text \<open>The rule for a sequence: what the first call establishes is what the rest may assume.\<close>

lemma ok_bindI: "ok m P \<Longrightarrow> (\<And>x. P x \<Longrightarrow> ok (f x) Q) \<Longrightarrow> ok (bind_res m f) Q"
  by (cases m) auto

lemma bind_res_Inr: "bind_res m f = Inr y \<longleftrightarrow> (\<exists>x. m = Inr x \<and> f x = Inr y)"
  by (cases m) auto

text \<open>Reading through a pointer: a nil pointer panics.\<close>

definition deref :: "'a option \<Rightarrow> 'a res" where
  "deref p = (case p of None \<Rightarrow> Inl NilDeref | Some x \<Rightarrow> Inr x)"

lemma deref_simps [simp]: "deref None = Inl NilDeref" "deref (Some x) = Inr x"
  by (simp_all add: deref_def)

text \<open>Indexing a slice panics out of range.\<close>

definition index_at :: "'a list \<Rightarrow> nat \<Rightarrow> 'a res" where
  "index_at xs i = (if i < length xs then Inr (xs ! i) else Inl IndexOutOfRange)"

text \<open>A loop whose body may panic: the fold of the body over what it ranges over.\<close>

fun fold_res :: "('a \<Rightarrow> 's \<Rightarrow> 's res) \<Rightarrow> 'a list \<Rightarrow> 's \<Rightarrow> 's res" where
  "fold_res f [] s = Inr s"
| "fold_res f (x # xs) s = bind_res (f x s) (fold_res f xs)"

lemma fold_res_append: "fold_res f (xs @ ys) s = bind_res (fold_res f xs s) (fold_res f ys)"
  by (induction xs arbitrary: s) (auto simp: bind_res_def split: sum.splits)

lemma fold_res_total: "fold_res (\<lambda>x s. Inr (f x s)) xs s = Inr (fold f xs s)"
  by (induction xs arbitrary: s) simp_all

text \<open>The loop rule: an invariant over the elements done so far.\<close>

lemma fold_res_inv:
  assumes "I [] s"
    and "\<And>done x t. I done t \<Longrightarrow> x \<in> set xs \<Longrightarrow> ok (f x t) (I (done @ [x]))"
  shows "ok (fold_res f xs s) (I xs)"
proof -
  have "ok (fold_res f ys t) (I (zs @ ys))" if "I zs t" "set ys \<subseteq> set xs" for ys zs t
    using that
  proof (induction ys arbitrary: zs t)
    case Nil
    then show ?case by simp
  next
    case (Cons y ys)
    then have "ok (f y t) (I (zs @ [y]))"
      using assms(2) by simp
    then show ?case
      using Cons.IH [of "zs @ [y]"] Cons.prems(2) by (auto elim!: ok_mono)
  qed
  from this [of "[]" s xs] assms(1) show ?thesis by simp
qed

section \<open>Maps and the order of a range statement\<close>

text \<open>
  A Go map is nil or a finite set of entries with distinct keys. Reading a nil map finds
  nothing; writing to one panics. \<open>kvs_ok\<close> is what every map satisfies: no key twice.
\<close>

type_synonym 'v entries = "(string \<times> 'v) list"
type_synonym 'v gomap = "'v entries option"

definition entries :: "'v gomap \<Rightarrow> 'v entries" where
  "entries m = (case m of None \<Rightarrow> [] | Some kvs \<Rightarrow> kvs)"

definition kvs_ok :: "'v entries \<Rightarrow> bool" where
  "kvs_ok kvs = distinct (map fst kvs)"

definition map_get :: "'v gomap \<Rightarrow> string \<Rightarrow> 'v option" where
  "map_get m k = map_of (entries m) k"

definition map_put :: "'v gomap \<Rightarrow> string \<Rightarrow> 'v \<Rightarrow> 'v gomap res" where
  "map_put m k v = (case m of None \<Rightarrow> Inl NilMapWrite | Some kvs \<Rightarrow> Inr (Some (AList.update k v kvs)))"

definition map_del :: "'v gomap \<Rightarrow> string \<Rightarrow> 'v gomap" where
  "map_del m k = map_option (AList.delete k) m"

lemma entries_simps [simp]: "entries None = []" "entries (Some kvs) = kvs"
  by (simp_all add: entries_def)

lemma map_get_simps [simp]:
  "map_get None k = None"
  "map_get (Some kvs) k = map_of kvs k"
  by (simp_all add: map_get_def)

lemma map_put_simps [simp]:
  "map_put None k v = Inl NilMapWrite"
  "map_put (Some kvs) k v = Inr (Some (AList.update k v kvs))"
  by (simp_all add: map_put_def)

lemma map_del_simps [simp]:
  "map_del None k = None"
  "map_del (Some kvs) k = Some (AList.delete k kvs)"
  by (simp_all add: map_del_def)

lemma kvs_ok_simps [simp]: "kvs_ok []" "kvs_ok ((k, v) # kvs) = (k \<notin> fst ` set kvs \<and> kvs_ok kvs)"
  by (simp_all add: kvs_ok_def)

lemma kvs_ok_update [simp]: "kvs_ok kvs \<Longrightarrow> kvs_ok (AList.update k v kvs)"
  by (simp add: kvs_ok_def distinct_update)

lemma kvs_ok_delete [simp]: "kvs_ok kvs \<Longrightarrow> kvs_ok (AList.delete k kvs)"
  by (simp add: kvs_ok_def AList.distinct_delete)

lemma map_of_AList_update [simp]:
  "map_of (AList.update k v kvs) k' = (if k' = k then Some v else map_of kvs k')"
  by (simp add: update_conv')

lemma map_of_AList_delete [simp]:
  "map_of (AList.delete k kvs) k' = (if k' = k then None else map_of kvs k')"
  by (simp add: delete_conv')

lemma kvs_ok_map_of: "kvs_ok kvs \<Longrightarrow> map_of kvs k = Some v \<longleftrightarrow> (k, v) \<in> set kvs"
  by (simp add: kvs_ok_def)

text \<open>
  The runtime chooses the order in which \<open>for k, v := range m\<close> visits a map. A call takes
  that choice as an argument: a function from the list of keys to the list in the order
  visited, at each range statement (named by a string) of the call. \<open>fair\<close> is what the
  language promises: each key is visited once.
\<close>

type_synonym order = "string list \<Rightarrow> string list"
type_synonym ranger = "string \<Rightarrow> order"

definition fair :: "order \<Rightarrow> bool" where
  "fair ro \<longleftrightarrow> (\<forall>ks. mset (ro ks) = mset ks)"

definition fair_ranger :: "ranger \<Rightarrow> bool" where
  "fair_ranger rr \<longleftrightarrow> (\<forall>site. fair (rr site))"

text \<open>The range statements below a call at \<open>site\<close>.\<close>

definition at_site :: "ranger \<Rightarrow> string \<Rightarrow> ranger" where
  "at_site rr site = (\<lambda>inner. rr (site @ ''.'' @ inner))"

text \<open>The entries of a map in the order they are visited.\<close>

definition range_over :: "order \<Rightarrow> 'v entries \<Rightarrow> 'v entries" where
  "range_over ro kvs =
     concat (map (\<lambda>k. case map_of kvs k of None \<Rightarrow> [] | Some v \<Rightarrow> [(k, v)]) (ro (map fst kvs)))"

lemma fair_id [simp, intro]: "fair (\<lambda>ks. ks)"
  by (simp add: fair_def)

lemma fair_rev [simp, intro]: "fair rev"
  by (simp add: fair_def)

lemma fair_rangerI [intro]: "(\<And>site. fair (rr site)) \<Longrightarrow> fair_ranger rr"
  by (simp add: fair_ranger_def)

lemma fair_rangerD [simp]: "fair_ranger rr \<Longrightarrow> fair (rr site)"
  by (simp add: fair_ranger_def)

lemma fair_at_site [simp]: "fair_ranger rr \<Longrightarrow> fair_ranger (at_site rr site)"
  by (simp add: fair_ranger_def at_site_def)

lemma fair_set: "fair ro \<Longrightarrow> set (ro ks) = set ks"
  by (metis fair_def set_mset_mset)

lemma fair_distinct: "fair ro \<Longrightarrow> distinct (ro ks) = distinct ks"
  by (metis fair_def mset_eq_imp_distinct_iff)

lemma range_over_subset: "(k, v) \<in> set (range_over ro kvs) \<Longrightarrow> (k, v) \<in> set kvs"
  by (auto simp: range_over_def intro: map_of_SomeD split: option.splits)

lemma fair_length: "fair ro \<Longrightarrow> length (ro ks) = length ks"
  unfolding fair_def by (metis mset_eq_length)

lemma set_range_over: "fair ro \<Longrightarrow> kvs_ok kvs \<Longrightarrow> set (range_over ro kvs) = set kvs"
  by (auto simp: range_over_def fair_set kvs_ok_map_of split: option.splits)
     (metis fst_conv image_eqI kvs_ok_map_of option.distinct(1))+

lemma map_fst_range_over:
  assumes "fair ro"
  shows "map fst (range_over ro kvs) = ro (map fst kvs)"
proof -
  have "map fst (concat (map (\<lambda>k. case map_of kvs k of None \<Rightarrow> [] | Some v \<Rightarrow> [(k, v)]) ks)) = ks"
    if "set ks \<subseteq> set (map fst kvs)" for ks
    using that
    by (induction ks) (auto split: option.splits simp: map_of_eq_None_iff image_iff)
  then show ?thesis
    using assms by (simp add: range_over_def fair_set)
qed

lemma kvs_ok_range_over: "fair ro \<Longrightarrow> kvs_ok kvs \<Longrightarrow> kvs_ok (range_over ro kvs)"
  by (simp add: kvs_ok_def map_fst_range_over fair_distinct)

lemma map_of_range_over: "fair ro \<Longrightarrow> kvs_ok kvs \<Longrightarrow> map_of (range_over ro kvs) = map_of kvs"
  by (rule ext)
     (metis kvs_ok_map_of kvs_ok_range_over not_Some_eq set_range_over)

section \<open>Strings\<close>

text \<open>
  A Go string is a sequence of bytes. Ranging over it decodes UTF-8: \<open>decode_rune b bs\<close>
  gives the rune that starts with byte \<open>b\<close> and how many of the following bytes it takes;
  an invalid byte is U+FFFD and takes one byte only.
\<close>

definition cont_byte :: "nat \<Rightarrow> bool" where
  "cont_byte b \<longleftrightarrow> 0x80 \<le> b \<and> b \<le> 0xBF"

definition decode_rune :: "nat \<Rightarrow> nat list \<Rightarrow> nat \<times> nat" where
  "decode_rune b bs =
     (if b < 0x80 then (b, 0)
      else if 0xC2 \<le> b \<and> b \<le> 0xDF \<and> 1 \<le> length bs \<and> cont_byte (bs ! 0)
      then ((b - 0xC0) * 0x40 + (bs ! 0 - 0x80), 1)
      else if 0xE0 \<le> b \<and> b \<le> 0xEF \<and> 2 \<le> length bs \<and> cont_byte (bs ! 0) \<and> cont_byte (bs ! 1)
              \<and> (b = 0xE0 \<longrightarrow> 0xA0 \<le> bs ! 0) \<and> (b = 0xED \<longrightarrow> bs ! 0 \<le> 0x9F)
      then ((b - 0xE0) * 0x1000 + (bs ! 0 - 0x80) * 0x40 + (bs ! 1 - 0x80), 2)
      else if 0xF0 \<le> b \<and> b \<le> 0xF4 \<and> 3 \<le> length bs \<and> cont_byte (bs ! 0) \<and> cont_byte (bs ! 1)
              \<and> cont_byte (bs ! 2) \<and> (b = 0xF0 \<longrightarrow> 0x90 \<le> bs ! 0) \<and> (b = 0xF4 \<longrightarrow> bs ! 0 \<le> 0x8F)
      then ((b - 0xF0) * 0x40000 + (bs ! 0 - 0x80) * 0x1000 + (bs ! 1 - 0x80) * 0x40 + (bs ! 2 - 0x80), 3)
      else (0xFFFD, 0))"

fun decode_runes :: "nat list \<Rightarrow> nat list" where
  "decode_runes [] = []"
| "decode_runes (b # bs) = fst (decode_rune b bs) # decode_runes (drop (snd (decode_rune b bs)) bs)"

definition runes :: "string \<Rightarrow> nat list" where
  "runes s = decode_runes (map of_char s)"

lemma length_decode_runes: "length (decode_runes bs) \<le> length bs"
proof (induction bs rule: decode_runes.induct)
  case (2 b bs)
  then have "length (decode_runes (drop (snd (decode_rune b bs)) bs)) \<le> length bs"
    by (metis diff_le_self dual_order.trans length_drop)
  then show ?case by simp
qed simp

lemma length_runes: "length (runes s) \<le> length s"
  using length_decode_runes [of "map of_char s"] by (simp add: runes_def)

lemma decode_runes_ascii: "\<forall>b \<in> set bs. b < 0x80 \<Longrightarrow> decode_runes bs = bs"
  by (induction bs) (simp_all add: decode_rune_def)

lemma decode_runes_bound:
  "\<forall>b \<in> set bs. b < 0x100 \<Longrightarrow> r \<in> set (decode_runes bs) \<Longrightarrow> r < 0x110000"
proof (induction bs rule: decode_runes.induct)
  case (2 b bs)
  have "fst (decode_rune b bs) < 0x110000"
    using "2.prems"(1) by (auto simp: decode_rune_def cont_byte_def)
  moreover have "\<forall>x \<in> set (drop (snd (decode_rune b bs)) bs). x < 0x100"
    using "2.prems"(1) by (auto dest: in_set_dropD)
  ultimately show ?case
    using 2 by auto
qed simp

lemma runes_bound: "r \<in> set (runes s) \<Longrightarrow> r < 0x110000"
  unfolding runes_def
  by (rule decode_runes_bound) auto

lemma unat_ucast_8_32: "unat (ucast a :: 32 word) = unat a" for a :: "8 word"
proof -
  have "unat a < 2 ^ LENGTH(8)" by (rule unsigned_less)
  then show ?thesis by (simp add: unsigned_ucast_eq take_bit_nat_eq_self)
qed

text \<open>\<open>%d\<close> and \<open>%x\<close> of an unsigned value.\<close>

definition digit_char :: "nat \<Rightarrow> char" where
  "digit_char d = (if d < 10 then char_of (48 + d) else char_of (87 + d))"

fun digits_in :: "nat \<Rightarrow> nat \<Rightarrow> string" where
  "digits_in base n =
     (if base < 2 \<or> n < base then [digit_char n] else digits_in base (n div base) @ [digit_char (n mod base)])"

declare digits_in.simps [simp del]

definition fmt_d :: "nat \<Rightarrow> string" where
  "fmt_d n = digits_in 10 n"

definition fmt_x :: "nat \<Rightarrow> string" where
  "fmt_x n = digits_in 16 n"

text \<open>A hexadecimal digit in either case.\<close>

definition hex_digit :: "char \<Rightarrow> nat option" where
  "hex_digit c =
     (let n = of_char c :: nat in
      if 48 \<le> n \<and> n \<le> 57 then Some (n - 48)
      else if 97 \<le> n \<and> n \<le> 102 then Some (n - 87)
      else if 65 \<le> n \<and> n \<le> 70 then Some (n - 55)
      else None)"

text \<open>The strings of \<open>strings.Join\<close> and \<open>strings.Split\<close> for a one-byte separator.\<close>

fun join :: "string \<Rightarrow> string list \<Rightarrow> string" where
  "join sep [] = []"
| "join sep [x] = x"
| "join sep (x # y # xs) = x @ sep @ join sep (y # xs)"

fun split_on :: "char \<Rightarrow> string \<Rightarrow> string list" where
  "split_on c [] = [[]]"
| "split_on c (x # xs) =
     (if x = c then [] # split_on c xs
      else (case split_on c xs of [] \<Rightarrow> [[x]] | y # ys \<Rightarrow> (x # y) # ys))"

lemma split_on_not_Nil [simp]: "split_on c s \<noteq> []"
  by (cases s) (auto split: list.splits)

lemma join_split_on: "join [c] (split_on c s) = s"
proof (induction s)
  case (Cons x xs)
  show ?case
  proof (cases "split_on c xs")
    case (Cons y ys)
    with Cons.IH show ?thesis
      by (cases ys) auto
  qed simp
qed simp

lemma split_on_no_sep: "y \<in> set (split_on c s) \<Longrightarrow> c \<notin> set y"
  by (induction s arbitrary: y) (auto split: if_splits list.splits)

end
