(* ===== verification/Iodup.thy ===== *)
theory Iodup
  imports Machines
begin

text \<open>
  \<open>pkg/iodup\<close>: one source of bytes read by several readers. A goroutine (the pump) reads the
  source into a ring of buffers and forwards each filled piece, as a slice of its buffer, to
  the channel of every reader. Buffers are shared, so a slice is a reference: which buffers,
  which of them, and the part of it. The buffers of finished streams are kept for new ones.
\<close>

section \<open>State\<close>

record slice =
  SL_buf :: nat
  SL_off :: nat
  SL_len :: nat

text \<open>The current slice of a reader is nil at first and when its channel has been drained.\<close>

record Out =
  outBuf :: "slice option"
  bufChan :: "slice list"
  chanClosed :: bool

text \<open>
  What the next calls of the source's \<open>Read\<close> return: bytes, and whether an error came with
  them (the end of the data is one); or they panic. Where the pump is: reading, forwarding a
  piece (to which reader, its length, whether an error came with it), closing or done.
\<close>

datatype src_result = SrcData string bool | SrcPanic
datatype pump = Reading | Forwarding nat nat bool | Closing | Done

record Iodup =
  ID_bufs :: nat
  ID_output :: "Out list"
  ID_inBufIndex :: nat
  ID_src :: "src_result list"
  ID_pump :: pump

text \<open>The memory: by address, rows of buffers.\<close>

type_synonym memory = "string list list"

record IoDups =
  IDS_stashed :: "nat list"
  IDS_numOutputs :: nat
  IDS_numBufs :: nat
  IDS_sizeBuf :: nat

definition default_numBufs :: nat where "default_numBufs = 128"
definition default_sizeBuf :: nat where "default_sizeBuf = 8192"

definition at_least :: "nat \<Rightarrow> nat \<Rightarrow> nat \<Rightarrow> nat" where
  "at_least least dflt n = (if n < least then dflt else n)"

definition NewIoDups :: "nat list \<Rightarrow> IoDups res" where
  "NewIoDups params =
     (case params of
        [] \<Rightarrow> Inr \<lparr>IDS_stashed = [], IDS_numOutputs = 2, IDS_numBufs = default_numBufs, IDS_sizeBuf = default_sizeBuf\<rparr>
      | [a] \<Rightarrow> Inr \<lparr>IDS_stashed = [], IDS_numOutputs = at_least 2 2 a, IDS_numBufs = default_numBufs, IDS_sizeBuf = default_sizeBuf\<rparr>
      | [a, b] \<Rightarrow> Inr \<lparr>IDS_stashed = [], IDS_numOutputs = at_least 2 2 a, IDS_numBufs = at_least 3 default_numBufs b,
                     IDS_sizeBuf = default_sizeBuf\<rparr>
      | [a, b, c] \<Rightarrow> Inr \<lparr>IDS_stashed = [], IDS_numOutputs = at_least 2 2 a, IDS_numBufs = at_least 3 default_numBufs b,
                     IDS_sizeBuf = at_least 1 1 c\<rparr>
      | _ \<Rightarrow> Inl (PanicMsg ''too many params in newStream''))"

section \<open>Operations\<close>

definition new_Out :: Out where
  "new_Out = \<lparr>outBuf = None, bufChan = [], chanClosed = False\<rparr>"

text \<open>A stream on the buffers of a finished one, or on new ones; None is the stream of a nil source.\<close>

definition NewIoDup :: "src_result list option \<Rightarrow> memory \<Rightarrow> IoDups \<Rightarrow> memory \<times> IoDups \<times> Iodup option" where
  "NewIoDup src m ids =
     (case src of
        None \<Rightarrow> (m, ids, None)
      | Some src \<Rightarrow>
          (let (m, ids, a) =
             (case IDS_stashed ids of
                a # rest \<Rightarrow> (m, ids\<lparr>IDS_stashed := rest\<rparr>, a)
              | [] \<Rightarrow> (m @ [replicate (IDS_numBufs ids) (replicate (IDS_sizeBuf ids) (CHR 0x00))], ids, length m))
           in (m, ids, Some \<lparr>ID_bufs = a, ID_output = replicate (IDS_numOutputs ids) new_Out, ID_inBufIndex = 0,
                             ID_src = src, ID_pump = Reading\<rparr>)))"

definition stash :: "Iodup \<Rightarrow> IoDups \<Rightarrow> IoDups" where
  "stash iod ids = ids\<lparr>IDS_stashed := IDS_stashed ids @ [ID_bufs iod]\<rparr>"

text \<open>Reading fills the front of the buffer.\<close>

definition fill :: "nat \<Rightarrow> nat \<Rightarrow> string \<Rightarrow> memory \<Rightarrow> memory" where
  "fill a i d m = m[a := (m ! a)[i := d @ drop (length d) (m ! a ! i)]]"

definition close_outputs :: "Iodup \<Rightarrow> Iodup" where
  "close_outputs iod = iod\<lparr>ID_output := map (\<lambda>out. out\<lparr>chanClosed := True\<rparr>) (ID_output iod)\<rparr>"

definition readFromSrc :: "memory \<Rightarrow> Iodup \<Rightarrow> (memory \<times> Iodup \<times> nat \<times> bool) option" where
  "readFromSrc m iod =
     (case ID_src iod of
        [] \<Rightarrow> None
      | SrcPanic # rest \<Rightarrow> Some (m, close_outputs (iod\<lparr>ID_src := rest\<rparr>), 0, True)
      | SrcData d e # rest \<Rightarrow>
          Some (fill (ID_bufs iod) (ID_inBufIndex iod) d m, iod\<lparr>ID_src := rest\<rparr>, length d, e))"

text \<open>One step of \<open>forwardToOut\<close>: a send blocks while the channel is full.\<close>

definition forward :: "nat \<Rightarrow> nat \<Rightarrow> nat \<Rightarrow> Iodup \<Rightarrow> Iodup option" where
  "forward numBufs j n iod =
     (let out = ID_output iod ! j in
      if length (bufChan out) < numBufs - 2
      then Some (iod\<lparr>ID_output := (ID_output iod)[j := out\<lparr>bufChan := bufChan out @ [\<lparr>SL_buf = ID_inBufIndex iod, SL_off = 0, SL_len = n\<rparr>]\<rparr>]\<rparr>)
      else None)"

text \<open>A step of the pump; None when it is blocked or done.\<close>

definition pump_step :: "nat \<Rightarrow> memory \<Rightarrow> Iodup \<Rightarrow> (memory \<times> Iodup) option" where
  "pump_step numBufs m iod =
     (case ID_pump iod of
        Reading \<Rightarrow>
          (case readFromSrc m iod of
             None \<Rightarrow> None
           | Some (m, iod, n, err) \<Rightarrow>
               Some (m, iod\<lparr>ID_pump := if n > 0 then Forwarding 0 n err else if err then Closing else Reading\<rparr>))
      | Forwarding j n err \<Rightarrow>
          if j < length (ID_output iod)
          then map_option (\<lambda>iod. (m, iod\<lparr>ID_pump := Forwarding (j + 1) n err\<rparr>)) (forward numBufs j n iod)
          else Some (m, iod\<lparr>ID_inBufIndex := (ID_inBufIndex iod + 1) mod numBufs, ID_pump := if err then Closing else Reading\<rparr>)
      | Closing \<Rightarrow> Some (m, (close_outputs iod)\<lparr>ID_pump := Done\<rparr>)
      | Done \<Rightarrow> None)"

text \<open>The bytes a slice refers to.\<close>

definition slice_bytes :: "string list \<Rightarrow> slice \<Rightarrow> string" where
  "slice_bytes bufs sl = take (SL_len sl) (drop (SL_off sl) (bufs ! SL_buf sl))"

text \<open>\<open>Read\<close> of a reader with room for \<open>room\<close> bytes: None when it blocks; else the bytes, or the end.\<close>

definition Out_Read :: "string list \<Rightarrow> nat \<Rightarrow> Out \<Rightarrow> (Out \<times> string option) option" where
  "Out_Read bufs room out =
     (let cur = (case outBuf out of Some sl \<Rightarrow> if SL_len sl = 0 then None else Some sl | None \<Rightarrow> None) in
      let taken =
        (case cur of
           Some sl \<Rightarrow> Some (out, Some sl)
         | None \<Rightarrow>
             (case bufChan out of
                sl # rest \<Rightarrow> Some (out\<lparr>bufChan := rest, outBuf := Some sl\<rparr>, Some sl)
              | [] \<Rightarrow> if chanClosed out then Some (out\<lparr>outBuf := None\<rparr>, None) else None))
      in case taken of
           None \<Rightarrow> None
         | Some (out, None) \<Rightarrow> Some (out, None)
         | Some (out, Some sl) \<Rightarrow>
             (let n = min room (SL_len sl) in
              Some (out\<lparr>outBuf := Some (sl\<lparr>SL_off := SL_off sl + n, SL_len := SL_len sl - n\<rparr>)\<rparr>,
                    Some (take n (slice_bytes bufs sl)))))"

section \<open>A stream as a state machine\<close>

text \<open>
  The steps of the pump and of the readers, in any order, with their history: how many pieces
  have been forwarded to all, the bytes of those, and what each reader has been given.
\<close>

record history =
  H_pieces :: nat
  H_bytes :: string
  H_given :: "string list"

datatype label = PumpStep | ReadStep nat nat

definition current_piece :: "memory \<Rightarrow> Iodup \<Rightarrow> string" where
  "current_piece m iod =
     (case ID_pump iod of
        Forwarding j n err \<Rightarrow> take n (m ! ID_bufs iod ! ID_inBufIndex iod)
      | _ \<Rightarrow> '''')"

definition after_pump :: "Iodup \<Rightarrow> memory \<Rightarrow> history \<Rightarrow> history" where
  "after_pump iod m h =
     (case ID_pump iod of
        Forwarding j n err \<Rightarrow>
          if j < length (ID_output iod) then h
          else h\<lparr>H_pieces := H_pieces h + 1, H_bytes := H_bytes h @ current_piece m iod\<rparr>
      | _ \<Rightarrow> h)"

inductive stream_step :: "nat \<Rightarrow> label \<Rightarrow> memory \<times> Iodup \<times> history \<Rightarrow> memory \<times> Iodup \<times> history \<Rightarrow> bool" for numBufs where
  Pump: "pump_step numBufs m iod = Some (m', iod') \<Longrightarrow>
     stream_step numBufs PumpStep (m, iod, h) (m', iod', after_pump iod m h)"
| Read: "\<lbrakk>j < length (ID_output iod); Out_Read (m ! ID_bufs iod) room (ID_output iod ! j) = Some (out', got)\<rbrakk> \<Longrightarrow>
     stream_step numBufs (ReadStep j room) (m, iod, h)
       (m, iod\<lparr>ID_output := (ID_output iod)[j := out']\<rparr>,
        h\<lparr>H_given := (H_given h)[j := H_given h ! j @ (case got of None \<Rightarrow> '''' | Some bs \<Rightarrow> bs)]\<rparr>)"

inductive_cases stream_step_elim: "stream_step numBufs l st st'"
lemmas stream_stepE = stream_step_elim [consumes 1, case_names Pump Read]

text \<open>A source never returns more bytes than the buffer it is given has room for.\<close>

fun src_fits :: "nat \<Rightarrow> src_result list \<Rightarrow> bool" where
  "src_fits n [] = True"
| "src_fits n (SrcPanic # rest) = src_fits n rest"
| "src_fits n (SrcData d e # rest) = (length d \<le> n \<and> src_fits n rest)"

text \<open>How a stream starts, on buffers of the right sizes with whatever they held before.\<close>

definition stream_start :: "nat \<Rightarrow> nat \<Rightarrow> src_result list \<Rightarrow> memory \<times> Iodup \<times> history \<Rightarrow> bool" where
  "stream_start numBufs sizeBuf src st \<longleftrightarrow>
     (case st of (m, iod, h) \<Rightarrow>
        3 \<le> numBufs \<and> ID_bufs iod < length m \<and> length (m ! ID_bufs iod) = numBufs
        \<and> (\<forall>b \<in> set (m ! ID_bufs iod). length b = sizeBuf)
        \<and> src_fits sizeBuf src
        \<and> ID_output iod = replicate (length (ID_output iod)) new_Out \<and> ID_inBufIndex iod = 0 \<and> ID_src iod = src \<and> ID_pump iod = Reading
        \<and> h = \<lparr>H_pieces = 0, H_bytes = '''', H_given = replicate (length (ID_output iod)) ''''\<rparr>)"

text \<open>What the source delivers: up to its first error.\<close>

fun delivered :: "src_result list \<Rightarrow> string" where
  "delivered [] = ''''"
| "delivered (SrcPanic # rest) = ''''"
| "delivered (SrcData d e # rest) = d @ (if e then '''' else delivered rest)"

section \<open>The invariant\<close>

text \<open>The slices a reader still has to read, oldest first.\<close>

definition pending :: "Out \<Rightarrow> slice list" where
  "pending out = (case outBuf out of Some sl \<Rightarrow> if SL_len sl = 0 then [] else [sl] | None \<Rightarrow> []) @ bufChan out"

definition sent_current :: "Iodup \<Rightarrow> nat \<Rightarrow> bool" where
  "sent_current iod j \<longleftrightarrow> (case ID_pump iod of Forwarding k n err \<Rightarrow> j < k | _ \<Rightarrow> False)"

text \<open>
  The pieces are numbered in the order they are forwarded; those pending at a reader are the
  last ones it was sent, and piece \<open>k\<close> lies in buffer \<open>k mod numBufs\<close>.
\<close>

definition ring_ok :: "nat \<Rightarrow> nat \<Rightarrow> slice list \<Rightarrow> bool" where
  "ring_ok numBufs tip q \<longleftrightarrow> length q \<le> tip \<and> map SL_buf q = map (\<lambda>k. k mod numBufs) [tip - length q ..< tip]"

definition reader_ok :: "nat \<Rightarrow> string list \<Rightarrow> Iodup \<Rightarrow> history \<Rightarrow> nat \<Rightarrow> string \<Rightarrow> bool" where
  "reader_ok numBufs bufs iod h j cur \<longleftrightarrow>
     (let out = ID_output iod ! j; tip = H_pieces h + (if sent_current iod j then 1 else 0) in
      length (bufChan out) \<le> numBufs - 2 \<and> ring_ok numBufs tip (pending out)
      \<and> H_given h ! j @ concat (map (slice_bytes bufs) (pending out)) = H_bytes h @ (if sent_current iod j then cur else ''''))"

definition pump_ok :: "nat \<Rightarrow> string list \<Rightarrow> Iodup \<Rightarrow> bool" where
  "pump_ok sizeBuf bufs iod \<longleftrightarrow>
     (case ID_pump iod of Forwarding j n err \<Rightarrow> 0 < n \<and> n \<le> sizeBuf \<and> j \<le> length (ID_output iod) | _ \<Rightarrow> True)"

text \<open>What has been read of the source and what is left of it.\<close>

definition source_ok :: "src_result list \<Rightarrow> Iodup \<Rightarrow> history \<Rightarrow> string \<Rightarrow> bool" where
  "source_ok src iod h cur \<longleftrightarrow> 
     delivered src = H_bytes h @ cur @
       (case ID_pump iod of
          Reading \<Rightarrow> delivered (ID_src iod)
        | Forwarding j n err \<Rightarrow> if err then '''' else delivered (ID_src iod)
        | _ \<Rightarrow> '''')"

definition closed_ok :: "Iodup \<Rightarrow> bool" where
  "closed_ok iod \<longleftrightarrow> (\<forall>out \<in> set (ID_output iod). chanClosed out \<longrightarrow> ID_pump iod \<in> {Closing, Done})"

definition stream_inv :: "nat \<Rightarrow> nat \<Rightarrow> src_result list \<Rightarrow> memory \<times> Iodup \<times> history \<Rightarrow> bool" where
  "stream_inv numBufs sizeBuf src st \<longleftrightarrow>
     (case st of (m, iod, h) \<Rightarrow>
        3 \<le> numBufs \<and> ID_bufs iod < length m \<and> length (m ! ID_bufs iod) = numBufs
        \<and> (\<forall>b \<in> set (m ! ID_bufs iod). length b = sizeBuf)
        \<and> src_fits sizeBuf (ID_src iod)
        \<and> ID_inBufIndex iod = H_pieces h mod numBufs \<and> length (H_given h) = length (ID_output iod)
        \<and> pump_ok sizeBuf (m ! ID_bufs iod) iod \<and> closed_ok iod \<and> source_ok src iod h (current_piece m iod)
        \<and> (\<forall>j < length (ID_output iod). reader_ok numBufs (m ! ID_bufs iod) iod h j (current_piece m iod)))"

text \<open>Filling the next buffer does not touch a pending slice: fewer pieces are pending than there are buffers.\<close>

lemma pending_not_overwritten:
  assumes "ring_ok numBufs tip q" and "length q < numBufs" and "sl \<in> set q"
  shows "SL_buf sl \<noteq> tip mod numBufs"
proof -
  have "SL_buf sl \<in> set (map SL_buf q)" using assms(3) by simp
  then obtain k where k: "SL_buf sl = k mod numBufs" "tip - length q \<le> k" "k < tip" "length q \<le> tip"
    using assms(1) unfolding ring_ok_def by auto
  have "tip - k < numBufs" "0 < tip - k" using k assms(2) by linarith+
  then have "(tip - k) mod numBufs \<noteq> 0" by simp
  then show ?thesis
    using k(1,3) mod_eq_dvd_iff_nat [of k tip numBufs] by (auto simp: dvd_eq_mod_eq_0)
qed

lemma ring_ok_suffix:
  assumes "ring_ok numBufs tip q" and "map SL_buf q = pre @ map SL_buf q'"
  shows "ring_ok numBufs tip q'"
proof -
  have len: "length q = length pre + length q'" using arg_cong [OF assms(2), of length] by simp
  have "map SL_buf q' = drop (length pre) (map SL_buf q)" using assms(2) by simp
  also have "\<dots> = map (\<lambda>k. k mod numBufs) (drop (length pre) [tip - length q ..< tip])"
    using assms(1) by (simp add: ring_ok_def drop_map)
  also have "drop (length pre) [tip - length q ..< tip] = [tip - length q' ..< tip]"
    using assms(1) len by (simp add: ring_ok_def)
  finally show ?thesis using assms(1) len by (simp add: ring_ok_def)
qed

lemma ring_ok_snoc:
  assumes "ring_ok numBufs tip q" and "SL_buf sl = tip mod numBufs"
  shows "ring_ok numBufs (tip + 1) (q @ [sl])"
  using assms by (simp add: ring_ok_def Suc_diff_le upt_Suc)

text \<open>What a read does to a reader: it is given the front of what is pending, or there is nothing left.\<close>

lemma Out_Read_pending:
  assumes "Out_Read bufs room out = Some (out', got)"
  shows "(case got of None \<Rightarrow> '''' | Some bs \<Rightarrow> bs) @ concat (map (slice_bytes bufs) (pending out')) = concat (map (slice_bytes bufs) (pending out))"
    and "length (bufChan out') \<le> length (bufChan out)" and "chanClosed out' = chanClosed out"
    and "\<exists>pre. map SL_buf (pending out) = pre @ map SL_buf (pending out')"
    and "got = None \<Longrightarrow> pending out = [] \<and> chanClosed out"
proof -
  have rest: "take n (slice_bytes bufs sl) @ slice_bytes bufs (sl\<lparr>SL_off := SL_off sl + n, SL_len := SL_len sl - n\<rparr>) = slice_bytes bufs sl"
    if "n \<le> SL_len sl" for n sl
  proof -
    let ?x = "drop (SL_off sl) (bufs ! SL_buf sl)"
    have "take n (take (SL_len sl) ?x) = take n ?x" using that by (simp add: min_def)
    moreover have "take (SL_len sl) ?x = take n ?x @ take (SL_len sl - n) (drop n ?x)"
      using that take_add [of n "SL_len sl - n" ?x] by simp
    moreover have "drop (SL_off sl + n) (bufs ! SL_buf sl) = drop n ?x" by (simp add: add.commute)
    ultimately show ?thesis by (simp add: slice_bytes_def del: take_take drop_drop)
  qed
  have none: "SL_len sl = 0 \<Longrightarrow> slice_bytes bufs sl = ''''" for sl by (simp add: slice_bytes_def)
  consider (cur) sl where "outBuf out = Some sl" "SL_len sl \<noteq> 0"
    | (chan) sl q where "\<And>sl. outBuf out = Some sl \<Longrightarrow> SL_len sl = 0" "bufChan out = sl # q"
    | (eof) "\<And>sl. outBuf out = Some sl \<Longrightarrow> SL_len sl = 0" "bufChan out = []"
    by (cases "outBuf out"; cases "bufChan out") auto
  then have "((case got of None \<Rightarrow> '''' | Some bs \<Rightarrow> bs) @ concat (map (slice_bytes bufs) (pending out')) = concat (map (slice_bytes bufs) (pending out)))
    \<and> length (bufChan out') \<le> length (bufChan out) \<and> chanClosed out' = chanClosed out
    \<and> (\<exists>pre. map SL_buf (pending out) = pre @ map SL_buf (pending out'))
    \<and> (got = None \<longrightarrow> pending out = [] \<and> chanClosed out)"
  proof cases
    case cur
    let ?n = "min room (SL_len sl)"
    let ?sl = "sl\<lparr>SL_off := SL_off sl + ?n, SL_len := SL_len sl - ?n\<rparr>"
    have o: "out' = out\<lparr>outBuf := Some ?sl\<rparr>" "got = Some (take ?n (slice_bytes bufs sl))"
      using assms cur by (auto simp: Out_Read_def Let_def)
    have p: "pending out = sl # bufChan out" "pending out' = (if SL_len ?sl = 0 then [] else [?sl]) @ bufChan out"
      using cur by (simp_all add: pending_def o(1))
    have "concat (map (slice_bytes bufs) (if SL_len ?sl = 0 then [] else [?sl])) = slice_bytes bufs ?sl"
      using none [of ?sl] by simp
    moreover have "\<exists>pre. map SL_buf (pending out) = pre @ map SL_buf (pending out')"
      unfolding p by (rule exI [of _ "if SL_len ?sl = 0 then [SL_buf sl] else []"]) simp
    ultimately show ?thesis
      using rest [of ?n sl] unfolding p o(2) by (simp add: o(1))
  next
    case chan
    let ?n = "min room (SL_len sl)"
    let ?sl = "sl\<lparr>SL_off := SL_off sl + ?n, SL_len := SL_len sl - ?n\<rparr>"
    have "(case outBuf out of Some sl \<Rightarrow> if SL_len sl = 0 then None else Some sl | None \<Rightarrow> None) = None"
      using chan(1) by (cases "outBuf out") auto
    then have o: "out' = out\<lparr>bufChan := q, outBuf := Some ?sl\<rparr>" "got = Some (take ?n (slice_bytes bufs sl))"
      using assms chan(2) by (auto simp: Out_Read_def Let_def)
    have p: "pending out = sl # q" "pending out' = (if SL_len ?sl = 0 then [] else [?sl]) @ q"
      using chan by (auto simp: pending_def o(1) split: option.splits)
    have "concat (map (slice_bytes bufs) (if SL_len ?sl = 0 then [] else [?sl])) = slice_bytes bufs ?sl"
      using none [of ?sl] by simp
    moreover have "\<exists>pre. map SL_buf (pending out) = pre @ map SL_buf (pending out')"
      unfolding p by (rule exI [of _ "if SL_len ?sl = 0 then [SL_buf sl] else []"]) simp
    ultimately show ?thesis
      using rest [of ?n sl] chan(2) unfolding p o(2) by (simp add: o(1))
  next
    case eof
    have "(case outBuf out of Some sl \<Rightarrow> if SL_len sl = 0 then None else Some sl | None \<Rightarrow> None) = None"
      using eof(1) by (cases "outBuf out") auto
    then have o: "out' = out\<lparr>outBuf := None\<rparr>" "got = None" "chanClosed out"
      using assms eof(2) by (auto simp: Out_Read_def Let_def split: if_splits)
    have "pending out = []" "pending out' = []" using eof by (auto simp: pending_def o(1) split: option.splits)
    then show ?thesis using o eof(2) by simp
  qed
  then show "(case got of None \<Rightarrow> '''' | Some bs \<Rightarrow> bs) @ concat (map (slice_bytes bufs) (pending out')) = concat (map (slice_bytes bufs) (pending out))"
    and "length (bufChan out') \<le> length (bufChan out)" and "chanClosed out' = chanClosed out"
    and "\<exists>pre. map SL_buf (pending out) = pre @ map SL_buf (pending out')"
    and "got = None \<Longrightarrow> pending out = [] \<and> chanClosed out"
    by blast+
qed

section \<open>Every step keeps the invariant\<close>

lemma pending_short:
  assumes "length (bufChan out) \<le> numBufs - 2" and "3 \<le> numBufs"
  shows "length (pending out) < numBufs"
  using assms by (auto simp: pending_def split: option.splits)

lemma sent_current_simps [simp]:
  "ID_pump iod = Reading \<Longrightarrow> \<not> sent_current iod j" "ID_pump iod = Closing \<Longrightarrow> \<not> sent_current iod j"
  "ID_pump iod = Done \<Longrightarrow> \<not> sent_current iod j"
  "ID_pump iod = Forwarding k n err \<Longrightarrow> sent_current iod j = (j < k)"
  by (simp_all add: sent_current_def)

lemma current_piece_simps [simp]:
  "ID_pump iod = Reading \<Longrightarrow> current_piece m iod = ''''" "ID_pump iod = Closing \<Longrightarrow> current_piece m iod = ''''"
  "ID_pump iod = Done \<Longrightarrow> current_piece m iod = ''''"
  "ID_pump iod = Forwarding k n err \<Longrightarrow> current_piece m iod = take n (m ! ID_bufs iod ! ID_inBufIndex iod)"
  by (simp_all add: current_piece_def)

lemma fill_simps:
  assumes "a < length m" and "i < length (m ! a)" and "\<forall>b \<in> set (m ! a). length b = sizeBuf" and "length d \<le> sizeBuf"
  shows "length (fill a i d m) = length m" and "length (fill a i d m ! a) = length (m ! a)"
    and "\<forall>b \<in> set (fill a i d m ! a). length b = sizeBuf" and "take (length d) (fill a i d m ! a ! i) = d"
    and "k \<noteq> i \<Longrightarrow> fill a i d m ! a ! k = m ! a ! k"
proof -
  let ?x = "d @ drop (length d) (m ! a ! i)"
  have "length (m ! a ! i) = sizeBuf" using assms(2,3) by simp
  then have "length ?x = sizeBuf" using assms(4) by simp
  then have fits: "\<forall>b \<in> set ((m ! a)[i := ?x]). length b = sizeBuf"
    using assms(3) set_update_subset_insert [of "m ! a" i ?x] by blast

  have row: "fill a i d m ! a = (m ! a)[i := ?x]"
    unfolding fill_def by (rule nth_list_update_eq) (rule assms(1))
  show "\<forall>b \<in> set (fill a i d m ! a). length b = sizeBuf" unfolding row by (rule fits)
  show "length (fill a i d m) = length m" by (simp add: fill_def)
  show "length (fill a i d m ! a) = length (m ! a)" unfolding row by simp
  show "take (length d) (fill a i d m ! a ! i) = d" unfolding row using assms(2) by simp
  show "fill a i d m ! a ! k = m ! a ! k" if "k \<noteq> i" unfolding row using that by simp
qed

text \<open>The pump fills its buffer: what is pending at the readers does not change.\<close>

lemma fill_keeps_readers:
  assumes "reader_ok numBufs bufs iod h j cur" and "ID_pump iod = Reading" and "3 \<le> numBufs"
    and "\<And>k. k \<noteq> H_pieces h mod numBufs \<Longrightarrow> bufs' ! k = bufs ! k" and "ID_output iod' = ID_output iod"
    and "\<not> sent_current iod' j"
  shows "reader_ok numBufs bufs' iod' h j cur'"
proof -
  let ?q = "pending (ID_output iod ! j)"
  have r: "length (bufChan (ID_output iod ! j)) \<le> numBufs - 2" "ring_ok numBufs (H_pieces h) ?q"
      "H_given h ! j @ concat (map (slice_bytes bufs) ?q) = H_bytes h"
    using assms(1,2) by (simp_all add: reader_ok_def Let_def)
  have "SL_buf sl \<noteq> H_pieces h mod numBufs" if "sl \<in> set ?q" for sl
    by (rule pending_not_overwritten [OF r(2) pending_short [OF r(1) assms(3)] that])
  then have "map (slice_bytes bufs') ?q = map (slice_bytes bufs) ?q"
    using assms(4) by (simp add: slice_bytes_def)
  then show ?thesis using r assms(5,6) by (simp add: reader_ok_def Let_def del: map_eq_conv)
qed

lemma pump_reading_ok:
  assumes "stream_inv numBufs sizeBuf src (m, iod, h)" and "ID_pump iod = Reading" and "pump_step numBufs m iod = Some (m', iod')"
  shows "stream_inv numBufs sizeBuf src (m', iod', h)"
proof -
  let ?a = "ID_bufs iod" and ?i = "ID_inBufIndex iod"
  have inv: "3 \<le> numBufs" "?a < length m" "length (m ! ?a) = numBufs" "\<forall>b \<in> set (m ! ?a). length b = sizeBuf"
      "src_fits sizeBuf (ID_src iod)" "?i = H_pieces h mod numBufs"
      "length (H_given h) = length (ID_output iod)" "closed_ok iod" "delivered src = H_bytes h @ delivered (ID_src iod)"
      "\<forall>j < length (ID_output iod). reader_ok numBufs (m ! ?a) iod h j ''''"
    using assms(1,2) by (simp_all add: stream_inv_def source_ok_def)
  have i: "?i < length (m ! ?a)" using inv(1,3,6) by simp
  show ?thesis
  proof (cases "ID_src iod")
    case Nil
    then show ?thesis using assms(2,3) by (simp add: pump_step_def readFromSrc_def)
  next
    case (Cons r rest)
    show ?thesis
    proof (cases r)
      case SrcPanic
      have eq: "m' = m" "iod' = (close_outputs (iod\<lparr>ID_src := rest\<rparr>))\<lparr>ID_pump := Closing\<rparr>"
        using assms(2,3) Cons SrcPanic by (auto simp: pump_step_def readFromSrc_def)
      have "reader_ok numBufs (m ! ?a) iod' h j ''''" if "j < length (ID_output iod)" for j
      proof -
        have "reader_ok numBufs (m ! ?a) iod h j ''''" using inv(10) that by blast
        then show ?thesis using that assms(2) by (simp add: eq(2) reader_ok_def Let_def close_outputs_def pending_def)
      qed
      moreover have "delivered src = H_bytes h" using inv(9) Cons SrcPanic by simp
      ultimately show ?thesis
        using inv Cons SrcPanic unfolding eq(1) by (simp add: stream_inv_def eq(2) close_outputs_def pump_ok_def closed_ok_def source_ok_def)
    next
      case (SrcData d e)
      have d: "length d \<le> sizeBuf" using inv(5) Cons SrcData by simp
      have eq: "m' = fill ?a ?i d m"
          "iod' = iod\<lparr>ID_src := rest, ID_pump := if length d > 0 then Forwarding 0 (length d) e else if e then Closing else Reading\<rparr>"
        using assms(2,3) Cons SrcData by (auto simp: pump_step_def readFromSrc_def)
      note f = fill_simps [OF inv(2) i inv(4) d]
      have "reader_ok numBufs (m' ! ?a) iod' h j cur" if "j < length (ID_output iod)" for j cur
      proof (rule fill_keeps_readers [OF _ assms(2) inv(1)])
        show "reader_ok numBufs (m ! ?a) iod h j ''''" using inv(10) that by blast
        show "m' ! ?a ! k = m ! ?a ! k" if "k \<noteq> H_pieces h mod numBufs" for k
          using f(5) that inv(6) by (simp add: eq(1))
        show "ID_output iod' = ID_output iod" "\<not> sent_current iod' j" by (simp_all add: eq(2) sent_current_def)
      qed
      moreover have "closed_ok iod'" using inv(8) assms(2) by (simp add: closed_ok_def eq(2))
      moreover have "pump_ok sizeBuf (m' ! ?a) iod'" using d by (simp add: pump_ok_def eq(2))
      moreover have "source_ok src iod' h (current_piece m' iod')"
        using inv(9) Cons SrcData f(4) by (cases "d = ''''"; cases e) (simp_all add: source_ok_def eq)
      ultimately show ?thesis
        using inv f(1-3) Cons SrcData by (simp add: stream_inv_def eq)
    qed
  qed
qed

lemma pump_forwarding_ok:
  assumes "stream_inv numBufs sizeBuf src (m, iod, h)" and "ID_pump iod = Forwarding j n err" and "pump_step numBufs m iod = Some (m', iod')"
  shows "stream_inv numBufs sizeBuf src (m', iod', after_pump iod m h)"
proof -
  let ?a = "ID_bufs iod" and ?i = "ID_inBufIndex iod"
  let ?cur = "take n (m ! ?a ! ?i)"
  have inv: "3 \<le> numBufs" "?a < length m" "length (m ! ?a) = numBufs" "\<forall>b \<in> set (m ! ?a). length b = sizeBuf"
      "src_fits sizeBuf (ID_src iod)" "?i = H_pieces h mod numBufs"
      "length (H_given h) = length (ID_output iod)" "closed_ok iod" "0 < n" "n \<le> sizeBuf" "j \<le> length (ID_output iod)"
      "delivered src = H_bytes h @ ?cur @ (if err then '''' else delivered (ID_src iod))"
    using assms(1,2) by (simp_all add: stream_inv_def source_ok_def pump_ok_def)
  have cp: "current_piece m iod = ?cur" using assms(2) by simp
  have readers: "reader_ok numBufs (m ! ?a) iod h k ?cur" if "k < length (ID_output iod)" for k
    using assms(1) that unfolding stream_inv_def prod.case cp by blast
  have open_chans: "\<forall>out \<in> set (ID_output iod). \<not> chanClosed out"
    using inv(8) assms(2) by (simp add: closed_ok_def)
  show ?thesis
  proof (cases "j < length (ID_output iod)")
    case True
    let ?out = "ID_output iod ! j"
    let ?sl = "\<lparr>SL_buf = ?i, SL_off = 0, SL_len = n\<rparr>"
    let ?out' = "?out\<lparr>bufChan := bufChan ?out @ [?sl]\<rparr>"
    have room: "length (bufChan ?out) < numBufs - 2"
      using assms(2,3) True by (auto simp: pump_step_def forward_def Let_def split: if_splits)
    have eq: "m' = m" "iod' = iod\<lparr>ID_output := (ID_output iod)[j := ?out'], ID_pump := Forwarding (j + 1) n err\<rparr>"
      using assms(2,3) True room by (auto simp: pump_step_def forward_def Let_def)
    have h: "after_pump iod m h = h" using assms(2) True by (simp add: after_pump_def)
    have "reader_ok numBufs (m ! ?a) iod' h k ?cur" if k: "k < length (ID_output iod)" for k
    proof (cases "k = j")
      case False
      then show ?thesis using readers [OF k] assms(2) by (simp add: reader_ok_def eq(2) Let_def less_Suc_eq)
    next
      case True
      have r: "ring_ok numBufs (H_pieces h) (pending ?out)"
          "H_given h ! j @ concat (map (slice_bytes (m ! ?a)) (pending ?out)) = H_bytes h"
        using readers [OF k] assms(2) True by (simp_all add: reader_ok_def Let_def)
      have p: "pending ?out' = pending ?out @ [?sl]" by (simp add: pending_def split: option.split)
      have "ring_ok numBufs (H_pieces h + 1) (pending ?out')"
        unfolding p by (rule ring_ok_snoc [OF r(1)]) (simp add: inv(6))
      moreover have "H_given h ! j @ concat (map (slice_bytes (m ! ?a)) (pending ?out')) = H_bytes h @ ?cur"
        unfolding p using r(2) by (simp add: slice_bytes_def)
      moreover have "length (bufChan ?out') \<le> numBufs - 2" using room by simp
      ultimately show ?thesis using k True by (simp add: reader_ok_def eq(2) Let_def)
    qed
    moreover have "closed_ok iod'"
      using open_chans True set_update_subset_insert [of "ID_output iod" j ?out'] by (auto simp: closed_ok_def eq(2))
    ultimately show ?thesis
      using inv True unfolding h by (simp add: stream_inv_def eq pump_ok_def source_ok_def)
  next
    case False
    have j: "j = length (ID_output iod)" using False inv(11) by simp
    have eq: "m' = m" "iod' = iod\<lparr>ID_inBufIndex := (?i + 1) mod numBufs, ID_pump := if err then Closing else Reading\<rparr>"
      using assms(2,3) False by (auto simp: pump_step_def)
    let ?h = "h\<lparr>H_pieces := H_pieces h + 1, H_bytes := H_bytes h @ ?cur\<rparr>"
    have h: "after_pump iod m h = ?h" using assms(2) False by (simp add: after_pump_def)
    have "reader_ok numBufs (m ! ?a) iod' ?h k ''''" if k: "k < length (ID_output iod)" for k
      using readers [OF k] assms(2) k j by (cases err) (simp_all add: reader_ok_def eq(2) Let_def)
    moreover have "(?i + 1) mod numBufs = (H_pieces h + 1) mod numBufs" unfolding inv(6) by (simp add: mod_simps)
    ultimately show ?thesis
      using inv open_chans unfolding h by (cases err) (simp_all add: stream_inv_def eq pump_ok_def source_ok_def closed_ok_def)
  qed
qed

lemma pump_closing_ok:
  assumes "stream_inv numBufs sizeBuf src (m, iod, h)" and "ID_pump iod = Closing" and "pump_step numBufs m iod = Some (m', iod')"
  shows "stream_inv numBufs sizeBuf src (m', iod', h)"
proof -
  have eq: "m' = m" "iod' = (close_outputs iod)\<lparr>ID_pump := Done\<rparr>" using assms(2,3) by (simp_all add: pump_step_def)
  have "reader_ok numBufs (m ! ID_bufs iod) iod' h k ''''" if "k < length (ID_output iod)" for k
  proof -
    have "reader_ok numBufs (m ! ID_bufs iod) iod h k ''''" using assms(1,2) that by (simp add: stream_inv_def)
    then show ?thesis using that assms(2) by (simp add: reader_ok_def eq(2) Let_def close_outputs_def pending_def)
  qed
  then show ?thesis
    using assms(1,2) by (simp add: stream_inv_def eq close_outputs_def pump_ok_def closed_ok_def source_ok_def)
qed

lemma read_ok:
  assumes "stream_inv numBufs sizeBuf src (m, iod, h)" and "j < length (ID_output iod)"
    and "Out_Read (m ! ID_bufs iod) room (ID_output iod ! j) = Some (out', got)"
  shows "stream_inv numBufs sizeBuf src (m, iod\<lparr>ID_output := (ID_output iod)[j := out']\<rparr>,
      h\<lparr>H_given := (H_given h)[j := H_given h ! j @ (case got of None \<Rightarrow> '''' | Some bs \<Rightarrow> bs)]\<rparr>)"
proof -
  let ?iod = "iod\<lparr>ID_output := (ID_output iod)[j := out']\<rparr>"
  let ?h = "h\<lparr>H_given := (H_given h)[j := H_given h ! j @ (case got of None \<Rightarrow> '''' | Some bs \<Rightarrow> bs)]\<rparr>"
  let ?cur = "current_piece m iod"
  note p = Out_Read_pending [OF assms(3)]
  have readers: "\<And>k. k < length (ID_output iod) \<Longrightarrow> reader_ok numBufs (m ! ID_bufs iod) iod h k ?cur"
    and len: "length (H_given h) = length (ID_output iod)" and closed: "closed_ok iod"
    using assms(1) by (simp_all add: stream_inv_def)
  have cur: "current_piece m ?iod = ?cur" "sent_current ?iod k = sent_current iod k" for k
    by (simp_all add: current_piece_def sent_current_def split: pump.split)
  have "reader_ok numBufs (m ! ID_bufs iod) ?iod ?h k ?cur" if k: "k < length (ID_output iod)" for k
  proof (cases "k = j")
    case False
    then show ?thesis using readers [OF k] by (simp add: reader_ok_def Let_def cur)
  next
    case True
    note r = readers [OF k, unfolded True reader_ok_def Let_def]
    obtain pre where "map SL_buf (pending (ID_output iod ! j)) = pre @ map SL_buf (pending out')" using p(4) by blast
    then have "ring_ok numBufs (H_pieces h + (if sent_current iod j then 1 else 0)) (pending out')"
      using r ring_ok_suffix by blast
    moreover have "length (bufChan out') \<le> numBufs - 2" using p(2) r by linarith
    moreover have "(H_given h ! j @ (case got of None \<Rightarrow> '''' | Some bs \<Rightarrow> bs)) @ concat (map (slice_bytes (m ! ID_bufs iod)) (pending out'))
        = H_bytes h @ (if sent_current iod j then ?cur else '''')"
      using r p(1) by simp
    ultimately show ?thesis
      using k len True by (simp add: reader_ok_def Let_def cur)
  qed
  moreover have "closed_ok ?iod"
  proof -
    have "chanClosed x \<longrightarrow> ID_pump iod \<in> {Closing, Done}" if "x \<in> set ((ID_output iod)[j := out'])" for x
      using that closed p(3) assms(2) set_update_subset_insert [of "ID_output iod" j out'] unfolding closed_ok_def
      by (metis insert_iff nth_mem subsetD)
    then show ?thesis by (simp add: closed_ok_def)
  qed
  moreover have "source_ok src ?iod ?h ?cur = source_ok src iod h ?cur" "pump_ok sizeBuf bufs ?iod = pump_ok sizeBuf bufs iod" for bufs
    by (simp_all add: source_ok_def pump_ok_def split: pump.split)
  ultimately show ?thesis
    using assms(1) len by (simp add: stream_inv_def cur)
qed

lemma stream_step_ok: "stream_inv numBufs sizeBuf src st \<Longrightarrow> stream_step numBufs l st st' \<Longrightarrow> stream_inv numBufs sizeBuf src st'"
proof (erule stream_stepE, goal_cases)
  case (1 m iod m' iod' h)
  have h: "after_pump iod m h = h" if "\<And>j n err. ID_pump iod \<noteq> Forwarding j n err"
    using that by (cases "ID_pump iod") (auto simp: after_pump_def)
  have inv: "stream_inv numBufs sizeBuf src (m, iod, h)" using 1 by simp
  have "stream_inv numBufs sizeBuf src (m', iod', after_pump iod m h)"
  proof (cases "ID_pump iod")
    case Reading
    then show ?thesis using pump_reading_ok [OF inv Reading 1(5)] h by simp
  next
    case (Forwarding j n err)
    then show ?thesis using pump_forwarding_ok [OF inv Forwarding 1(5)] by simp
  next
    case Closing
    then show ?thesis using pump_closing_ok [OF inv Closing 1(5)] h by simp
  next
    case Done
    then show ?thesis using 1(5) by (simp add: pump_step_def)
  qed
  then show ?case using 1 by simp
next
  case (2 j iod m room out' got h)
  then show ?case using read_ok [of numBufs sizeBuf src m iod h j room out' got] by simp
qed

section \<open>Properties\<close>

interpretation stream: machine "stream_start numBufs sizeBuf src" "\<lambda>x y. \<exists>l. stream_step numBufs l x y"
  "stream_inv numBufs sizeBuf src"
  for numBufs sizeBuf src
proof
  fix st assume "stream_start numBufs sizeBuf src st"
  then show "stream_inv numBufs sizeBuf src st"
  proof (cases st)
    case (fields m iod h)
    then have s: "ID_output iod = replicate (length (ID_output iod)) new_Out" "h = \<lparr>H_pieces = 0, H_bytes = '''', H_given = replicate (length (ID_output iod)) ''''\<rparr>"
        "ID_pump iod = Reading" "ID_src iod = src" "ID_inBufIndex iod = 0" "3 \<le> numBufs" "ID_bufs iod < length m" "length (m ! ID_bufs iod) = numBufs"
        "\<forall>b \<in> set (m ! ID_bufs iod). length b = sizeBuf" "src_fits sizeBuf src"
      using \<open>stream_start numBufs sizeBuf src st\<close> by (simp_all add: stream_start_def)
    have out: "ID_output iod ! j = new_Out" if "j < length (ID_output iod)" for j
      using that s(1) by (metis nth_replicate)
    have "\<forall>x \<in> set (ID_output iod). x = new_Out" using s(1) by (metis in_set_replicate)
    then have "closed_ok iod" by (auto simp: closed_ok_def new_Out_def)
    moreover have "reader_ok numBufs (m ! ID_bufs iod) iod h j ''''" if "j < length (ID_output iod)" for j
      using that s(2,3) out [OF that] by (simp add: reader_ok_def new_Out_def pending_def ring_ok_def Let_def)
    ultimately show ?thesis
      using s by (simp add: fields stream_inv_def pump_ok_def source_ok_def)
  qed
qed (auto intro: stream_step_ok)

text \<open>
  C10. However the pump and the readers interleave, and however the source cuts its bytes, each
  reader is given a prefix of exactly what the source delivers up to its first error, and all
  of it when it is told the end: no buffer is overwritten while a slice of it is pending.
\<close>

theorem readers_read_the_source:
  assumes "reachable (stream_start numBufs sizeBuf src) (\<lambda>x y. \<exists>l. stream_step numBufs l x y) (m, iod, h)"
    and "j < length (ID_output iod)"
  shows "\<exists>rest. delivered src = H_given h ! j @ rest
    \<and> (\<forall>room out'. Out_Read (m ! ID_bufs iod) room (ID_output iod ! j) = Some (out', None) \<longrightarrow> rest = '''')"
proof -
  have inv: "stream_inv numBufs sizeBuf src (m, iod, h)" by (rule stream.inv_reachable [OF assms(1)])
  let ?q = "concat (map (slice_bytes (m ! ID_bufs iod)) (pending (ID_output iod ! j)))"
  have r: "H_given h ! j @ ?q = H_bytes h @ (if sent_current iod j then current_piece m iod else '''')"
    using inv assms(2) by (simp add: stream_inv_def reader_ok_def Let_def)
  obtain more where d: "delivered src = H_bytes h @ current_piece m iod @ more"
    using inv by (simp add: stream_inv_def source_ok_def)
  let ?rest = "?q @ (if sent_current iod j then '''' else current_piece m iod) @ more"
  have "delivered src = H_given h ! j @ ?rest"
  proof -
    have "delivered src = (H_bytes h @ (if sent_current iod j then current_piece m iod else '''')) @
        (if sent_current iod j then '''' else current_piece m iod) @ more" using d by simp
    also have "\<dots> = (H_given h ! j @ ?q) @ (if sent_current iod j then '''' else current_piece m iod) @ more" using r by (simp only:)
    finally show ?thesis by simp
  qed
  moreover have "?rest = ''''" if eof: "Out_Read (m ! ID_bufs iod) room (ID_output iod ! j) = Some (out', None)" for room out'
  proof -
    have e: "pending (ID_output iod ! j) = []" "chanClosed (ID_output iod ! j)" using Out_Read_pending(5) [OF eof] by auto
    have "closed_ok iod" using inv by (simp add: stream_inv_def)
    then have "ID_pump iod \<in> {Closing, Done}" using e(2) nth_mem [OF assms(2)] unfolding closed_ok_def by blast
    then have "current_piece m iod = ''''" "\<not> sent_current iod j" "delivered src = H_bytes h"
      using inv by (auto simp: stream_inv_def source_ok_def)
    then show ?thesis using e(1) d by simp
  qed
  ultimately show ?thesis by blast
qed

theorem readers_read_the_source_witness:
  "\<exists>m iod rest. NewIoDup (Some [SrcData ''ab'' False, SrcData ''c'' True]) []
      \<lparr>IDS_stashed = [], IDS_numOutputs = 2, IDS_numBufs = 3, IDS_sizeBuf = 2\<rparr> = (m, \<lparr>IDS_stashed = [], IDS_numOutputs = 2, IDS_numBufs = 3, IDS_sizeBuf = 2\<rparr>, Some iod)
    \<and> delivered [SrcData ''ab'' False, SrcData ''c'' True] = H_given \<lparr>H_pieces = 0, H_bytes = '''', H_given = ['''', '''']\<rparr> ! 1 @ rest
    \<and> rest = ''abc''"
proof -
  let ?ids = "\<lparr>IDS_stashed = [], IDS_numOutputs = 2, IDS_numBufs = 3, IDS_sizeBuf = 2\<rparr>"
  let ?src = "[SrcData ''ab'' False, SrcData ''c'' True]"
  let ?h = "\<lparr>H_pieces = 0, H_bytes = '''', H_given = ['''', '''']\<rparr>"
  obtain m iod where n: "NewIoDup (Some ?src) [] ?ids = (m, ?ids, Some iod)" "length (ID_output iod) = 2"
      "stream_start 3 2 ?src (m, iod, ?h)"
    by (simp add: NewIoDup_def stream_start_def numeral_2_eq_2)
  have "\<exists>rest. delivered ?src = H_given ?h ! 1 @ rest
    \<and> (\<forall>room out'. Out_Read (m ! ID_bufs iod) room (ID_output iod ! 1) = Some (out', None) \<longrightarrow> rest = '''')"
    using readers_read_the_source [of 3 2 ?src m iod ?h 1] n by (simp add: reachable_start)
  then show ?thesis using n(1) by auto
qed

text \<open>How many buffers the pieces of a source take.\<close>

fun pieces :: "src_result list \<Rightarrow> nat" where
  "pieces [] = 0"
| "pieces (SrcPanic # rest) = 0"
| "pieces (SrcData d e # rest) = (if d = '''' then 0 else 1) + (if e then 0 else pieces rest)"

text \<open>A run in which the second reader does not read.\<close>

definition second_idle :: "nat \<Rightarrow> memory \<times> Iodup \<times> history \<Rightarrow> memory \<times> Iodup \<times> history \<Rightarrow> bool" where
  "second_idle numBufs st st' \<longleftrightarrow> (\<exists>l. (\<forall>room. l \<noteq> ReadStep 1 room) \<and> stream_step numBufs l st st')"

definition long_start :: "nat \<Rightarrow> nat \<Rightarrow> src_result list \<Rightarrow> memory \<times> Iodup \<times> history \<Rightarrow> bool" where
  "long_start numBufs sizeBuf src st \<longleftrightarrow> stream_start numBufs sizeBuf src st \<and> 1 < length (ID_output (fst (snd st)))
     \<and> numBufs - 2 < pieces src"

definition stalled :: "nat \<Rightarrow> src_result list \<Rightarrow> memory \<times> Iodup \<times> history \<Rightarrow> bool" where
  "stalled numBufs src st \<longleftrightarrow>
     (case st of (m, iod, h) \<Rightarrow>
        numBufs - 2 < pieces src \<and> 1 < length (ID_output iod) \<and> (\<forall>out \<in> set (ID_output iod). \<not> chanClosed out)
        \<and> length (bufChan (ID_output iod ! 1)) = H_pieces h + (if sent_current iod 1 then 1 else 0)
        \<and> length (bufChan (ID_output iod ! 1)) \<le> numBufs - 2
        \<and> (case ID_pump iod of
             Reading \<Rightarrow> pieces src = H_pieces h + pieces (ID_src iod)
           | Forwarding j n err \<Rightarrow> pieces src = H_pieces h + 1 + (if err then 0 else pieces (ID_src iod))
           | _ \<Rightarrow> False))"

lemma all_update: "\<forall>x \<in> set xs. P x \<Longrightarrow> P y \<Longrightarrow> \<forall>x \<in> set (xs[i := y]). P x"
  using set_update_subset_insert [of xs i y] by blast

lemma stalled_step:
  assumes "stalled numBufs src st" and "second_idle numBufs st st'"
  shows "stalled numBufs src st'"
proof -
  obtain l where l: "\<forall>room. l \<noteq> ReadStep 1 room" "stream_step numBufs l st st'"
    using assms(2) by (auto simp: second_idle_def)
  from l(2) show ?thesis
  proof (cases rule: stream_stepE)
    case (Pump m iod m' iod' h)
    have s: "numBufs - 2 < pieces src" "1 < length (ID_output iod)" "\<forall>out \<in> set (ID_output iod). \<not> chanClosed out"
        "length (bufChan (ID_output iod ! 1)) = H_pieces h + (if sent_current iod 1 then 1 else 0)"
        "length (bufChan (ID_output iod ! 1)) \<le> numBufs - 2"
      using assms(1) Pump by (simp_all add: stalled_def)
    show ?thesis
    proof (cases "ID_pump iod")
      case Reading
      have p: "pieces src = H_pieces h + pieces (ID_src iod)" "after_pump iod m h = h"
        using assms(1) Pump Reading by (simp_all add: stalled_def after_pump_def)
      have left: "0 < pieces (ID_src iod)" using p(1) s Reading by simp
      obtain d e rest where src: "ID_src iod = SrcData d e # rest"
        using left by (cases "ID_src iod" rule: pieces.cases) auto
      then have "iod' = iod\<lparr>ID_src := rest, ID_pump := if length d > 0 then Forwarding 0 (length d) e else if e then Closing else Reading\<rparr>"
        using Pump(4) Reading by (auto simp: pump_step_def readFromSrc_def)
      then show ?thesis
        using s p src left Reading Pump(2,3) by (cases "d = ''''"; cases e) (simp_all add: stalled_def sent_current_def)
    next
      case (Forwarding j n err)
      have p: "pieces src = H_pieces h + 1 + (if err then 0 else pieces (ID_src iod))"
        using assms(1) Pump Forwarding by (simp add: stalled_def)
      show ?thesis
      proof (cases "j < length (ID_output iod)")
        case True
        let ?out = "ID_output iod ! j"
        let ?out' = "?out\<lparr>bufChan := bufChan ?out @ [\<lparr>SL_buf = ID_inBufIndex iod, SL_off = 0, SL_len = n\<rparr>]\<rparr>"
        have room: "length (bufChan ?out) < numBufs - 2" and
          eq: "iod' = iod\<lparr>ID_output := (ID_output iod)[j := ?out'], ID_pump := Forwarding (j + 1) n err\<rparr>"
          using Pump(4) Forwarding True by (auto simp: pump_step_def forward_def Let_def split: if_splits)
        have "\<forall>out \<in> set (ID_output iod'). \<not> chanClosed out"
          using all_update [OF s(3), of ?out' j] s(3) True by (simp add: eq)
        moreover have "after_pump iod m h = h" using Forwarding True by (simp add: after_pump_def)
        ultimately show ?thesis
          using s p room Forwarding Pump(2,3) by (cases "j = 1") (simp_all add: stalled_def eq less_Suc_eq)
      next
        case False
        then have "1 < j" using s(2) by simp
        then have n: "H_pieces h + 1 \<le> numBufs - 2" using s(4,5) Forwarding by simp
        then have "\<not> err" using p s(1) by auto
        then have eq: "iod' = iod\<lparr>ID_inBufIndex := (ID_inBufIndex iod + 1) mod numBufs, ID_pump := Reading\<rparr>"
          using Pump(4) Forwarding False by (simp add: pump_step_def)
        show ?thesis
          using s p \<open>\<not> err\<close> \<open>1 < j\<close> Forwarding False Pump(2,3) by (simp add: stalled_def eq after_pump_def sent_current_def)
      qed
    qed (use assms(1) Pump in \<open>simp_all add: stalled_def\<close>)
  next
    case (Read j iod m room out' got h)
    have "j \<noteq> 1" using l(1) Read(1) by auto
    have c: "chanClosed out' = chanClosed (ID_output iod ! j)" by (rule Out_Read_pending(3) [OF Read(5)])
    have s: "\<forall>out \<in> set (ID_output iod). \<not> chanClosed out" using assms(1) Read(2) by (simp add: stalled_def)
    then have "\<forall>out \<in> set ((ID_output iod)[j := out']). \<not> chanClosed out"
      using c Read(4) by (intro all_update) simp_all
    moreover have "sent_current (iod\<lparr>ID_output := outs\<rparr>) k = sent_current iod k" for outs k
      by (simp add: sent_current_def split: pump.split)
    ultimately show ?thesis
      using assms(1) Read(2,3) \<open>j \<noteq> 1\<close> by (simp add: stalled_def split: pump.splits)
  qed
qed

interpretation one_reader: machine "long_start numBufs sizeBuf src" "second_idle numBufs" "stalled numBufs src"
  for numBufs sizeBuf src
proof
  fix st assume long: "long_start numBufs sizeBuf src st"
  obtain m iod h where st: "st = (m, iod, h)" by (cases st)
  have s: "ID_output iod = replicate (length (ID_output iod)) new_Out" "ID_pump iod = Reading" "ID_src iod = src"
      "H_pieces h = 0" "1 < length (ID_output iod)" "numBufs - 2 < pieces src"
    using long by (simp_all add: st long_start_def stream_start_def)
  have "\<forall>x \<in> set (ID_output iod). x = new_Out" using s(1) by (metis in_set_replicate)
  then have "\<forall>x \<in> set (ID_output iod). \<not> chanClosed x" by (auto simp: new_Out_def)
  moreover have "ID_output iod ! 1 = new_Out" using s(1,5) by (metis nth_replicate)
  then have "bufChan (ID_output iod ! 1) = []" by (simp add: new_Out_def)
  ultimately show "stalled numBufs src st"
    using s(2-6) by (simp add: st stalled_def)
qed (rule stalled_step)

text \<open>
  Reading one output to its end while nobody reads the other one stalls: when the source
  comes in more pieces than the channel of the second reader holds (126 with the buffers of the
  gate, that is less than the megabyte it analyses, and far less when the pieces are small),
  the first reader is never told the end.
\<close>

theorem long_source_stalls:
  assumes "reachable (long_start numBufs sizeBuf src) (second_idle numBufs) (m, iod, h)"
  shows "ID_pump iod \<noteq> Done \<and> Out_Read (m ! ID_bufs iod) room (ID_output iod ! 0) \<noteq> Some (out', None)"
proof -
  have s: "stalled numBufs src (m, iod, h)" by (rule one_reader.inv_reachable [OF assms])
  then have "ID_pump iod \<noteq> Done" "0 < length (ID_output iod)" "\<forall>out \<in> set (ID_output iod). \<not> chanClosed out"
    by (auto simp: stalled_def)
  then show ?thesis using Out_Read_pending(5) [of "m ! ID_bufs iod" room "ID_output iod ! 0" out' None] nth_mem by blast
qed

theorem long_source_stalls_witness:
  "\<exists>m ids iod. NewIoDup (Some [SrcData ''a'' False, SrcData ''b'' True]) []
      \<lparr>IDS_stashed = [], IDS_numOutputs = 2, IDS_numBufs = 3, IDS_sizeBuf = 1\<rparr> = (m, ids, Some iod)
    \<and> ID_pump iod \<noteq> Done \<and> Out_Read (m ! ID_bufs iod) 1 (ID_output iod ! 0) \<noteq> Some (new_Out, None)"
proof -
  let ?ids = "\<lparr>IDS_stashed = [], IDS_numOutputs = 2, IDS_numBufs = 3, IDS_sizeBuf = 1\<rparr>"
  let ?src = "[SrcData ''a'' False, SrcData ''b'' True]"
  obtain m iod where n: "NewIoDup (Some ?src) [] ?ids = (m, ?ids, Some iod)"
      "long_start 3 1 ?src (m, iod, \<lparr>H_pieces = 0, H_bytes = '''', H_given = ['''', '''']\<rparr>)"
    by (simp add: NewIoDup_def long_start_def stream_start_def numeral_2_eq_2)
  have "reachable (long_start 3 1 ?src) (second_idle 3) (m, iod, \<lparr>H_pieces = 0, H_bytes = '''', H_given = ['''', '''']\<rparr>)"
    by (rule reachable_start) (rule n(2))
  from long_source_stalls [OF this, of 1 new_Out] show ?thesis using n(1) by blast
qed

text \<open>The pump runs for a number of steps, as long as it can.\<close>

fun pump_run :: "nat \<Rightarrow> nat \<Rightarrow> memory \<times> Iodup \<Rightarrow> memory \<times> Iodup" where
  "pump_run numBufs 0 x = x"
| "pump_run numBufs (Suc k) (m, iod) =
     (case pump_step numBufs m iod of None \<Rightarrow> (m, iod) | Some x \<Rightarrow> pump_run numBufs k x)"

lemma one_byte_run:
  "pump_run 3 5 ([[[z], [z], [z]]], \<lparr>ID_bufs = 0, ID_output = [new_Out, new_Out], ID_inBufIndex = 0, ID_src = [SrcData [x] True], ID_pump = Reading\<rparr>)
   = ([[[x], [z], [z]]],
      \<lparr>ID_bufs = 0, ID_output = [new_Out\<lparr>bufChan := [\<lparr>SL_buf = 0, SL_off = 0, SL_len = 1\<rparr>], chanClosed := True\<rparr>,
         new_Out\<lparr>bufChan := [\<lparr>SL_buf = 0, SL_off = 0, SL_len = 1\<rparr>], chanClosed := True\<rparr>],
       ID_inBufIndex = 1, ID_src = [], ID_pump = Done\<rparr>)"
  (is "pump_run 3 5 (?m, ?s) = (?m', ?s')")
proof -
  let ?sl = "\<lparr>SL_buf = 0, SL_off = 0, SL_len = 1\<rparr>"
  let ?at = "\<lambda>outs i p. \<lparr>ID_bufs = 0, ID_output = outs, ID_inBufIndex = i, ID_src = [], ID_pump = p\<rparr>"
  let ?out = "new_Out\<lparr>bufChan := [?sl]\<rparr>"
  have steps: "pump_step 3 ?m ?s = Some (?m', ?at [new_Out, new_Out] 0 (Forwarding 0 1 True))"
    "pump_step 3 ?m' (?at [new_Out, new_Out] 0 (Forwarding 0 1 True)) = Some (?m', ?at [?out, new_Out] 0 (Forwarding 1 1 True))"
    "pump_step 3 ?m' (?at [?out, new_Out] 0 (Forwarding 1 1 True)) = Some (?m', ?at [?out, ?out] 0 (Forwarding 2 1 True))"
    "pump_step 3 ?m' (?at [?out, ?out] 0 (Forwarding 2 1 True)) = Some (?m', ?at [?out, ?out] 1 Closing)"
    "pump_step 3 ?m' (?at [?out, ?out] 1 Closing) = Some (?m', ?s')"
    by (simp_all add: pump_step_def readFromSrc_def fill_def forward_def close_outputs_def new_Out_def)
  have "5 = Suc (Suc (Suc (Suc (Suc 0))))" by simp
  then show ?thesis using steps by (simp only: pump_run.simps option.case)
qed

text \<open>
  C37. The buffers of a stream are given to the next one as soon as its source has ended, even
  though its readers have not read them: a reader that comes late is given the bytes of the
  other stream. Here a stream of one byte has ended, another one starts and fills its first
  buffer, and the second reader of the first stream reads the byte of the other.
\<close>

theorem late_reader_gets_other_stream:
  "\<exists>m s m' s' t m'' t' out.
     NewIoDup (Some [SrcData [x] True]) [] \<lparr>IDS_stashed = [], IDS_numOutputs = 2, IDS_numBufs = 3, IDS_sizeBuf = 1\<rparr>
       = (m, \<lparr>IDS_stashed = [], IDS_numOutputs = 2, IDS_numBufs = 3, IDS_sizeBuf = 1\<rparr>, Some s)
     \<and> pump_run 3 5 (m, s) = (m', s') \<and> ID_pump s' = Done
     \<and> NewIoDup (Some [SrcData [y] True]) m'
         (stash s' \<lparr>IDS_stashed = [], IDS_numOutputs = 2, IDS_numBufs = 3, IDS_sizeBuf = 1\<rparr>)
       = (m', \<lparr>IDS_stashed = [], IDS_numOutputs = 2, IDS_numBufs = 3, IDS_sizeBuf = 1\<rparr>, Some t)
     \<and> pump_run 3 1 (m', t) = (m'', t')
     \<and> Out_Read (m'' ! ID_bufs s') 1 (ID_output s' ! 1) = Some (out, Some [y])"
proof -
  let ?z = "CHR 0x00"
  let ?ids = "\<lparr>IDS_stashed = [], IDS_numOutputs = 2, IDS_numBufs = 3, IDS_sizeBuf = 1\<rparr>"
  let ?s = "\<lambda>x. \<lparr>ID_bufs = 0, ID_output = [new_Out, new_Out], ID_inBufIndex = 0, ID_src = [SrcData [x] True], ID_pump = Reading\<rparr>"
  let ?out = "new_Out\<lparr>bufChan := [\<lparr>SL_buf = 0, SL_off = 0, SL_len = 1\<rparr>], chanClosed := True\<rparr>"
  let ?s' = "\<lparr>ID_bufs = 0, ID_output = [?out, ?out], ID_inBufIndex = 1, ID_src = [], ID_pump = Done\<rparr>"
  have new: "NewIoDup (Some [SrcData [x] True]) [] ?ids = ([[[?z], [?z], [?z]]], ?ids, Some (?s x))"
    by (simp add: NewIoDup_def eval_nat_numeral)
  have again: "NewIoDup (Some [SrcData [y] True]) [[[x], [?z], [?z]]] (stash ?s' ?ids) = ([[[x], [?z], [?z]]], ?ids, Some (?s y))"
    by (simp add: NewIoDup_def stash_def eval_nat_numeral)
  obtain t' where fill: "pump_run 3 1 ([[[x], [?z], [?z]]], ?s y) = ([[[y], [?z], [?z]]], t')"
    by (simp add: pump_step_def readFromSrc_def fill_def)
  obtain out where "Out_Read ([[[y], [?z], [?z]]] ! ID_bufs ?s') 1 (ID_output ?s' ! 1) = Some (out, Some [y])"
    by (simp add: Out_Read_def slice_bytes_def new_Out_def Let_def)
  moreover have "ID_pump ?s' = Done" by simp
  ultimately show ?thesis using new one_byte_run [of ?z x] again fill by blast
qed

end
