(* ===== verification/Dup_Views.thy ===== *)
theory Dup_Views
  imports Iodup
begin

text \<open>
  What the first reader of a duplicated source (\<open>pkg/iodup\<close>) can be given while nobody reads the
  second one, as a function of the source: this is how the gate analyses the body of a message.
\<close>

section \<open>The view as a function\<close>

text \<open>What the source delivers in its first pieces.\<close>

fun delivered_upto :: "nat \<Rightarrow> src_result list \<Rightarrow> string" where
  "delivered_upto n [] = ''''"
| "delivered_upto n (SrcPanic # rest) = ''''"
| "delivered_upto n (SrcData d e # rest) =
     (if d = '''' then (if e then '''' else delivered_upto n rest)
      else case n of 0 \<Rightarrow> '''' | Suc k \<Rightarrow> d @ (if e then '''' else delivered_upto k rest))"

text \<open>
  The bytes the first reader gets in the end, and whether it is then told the end: the pump sends
  a piece to the first reader and then blocks when the channel of the second one is full.
\<close>

definition dup_view :: "nat \<Rightarrow> src_result list \<Rightarrow> string \<times> bool" where
  "dup_view numBufs src = (delivered_upto (numBufs - 1) src, pieces src \<le> numBufs - 2)"

lemma delivered_upto_all: "pieces src \<le> n \<Longrightarrow> delivered_upto n src = delivered src"
  by (induction src arbitrary: n rule: pieces.induct) (auto split: nat.splits if_splits)

lemma delivered_upto_mono: "n \<le> k \<Longrightarrow> \<exists>r. delivered_upto k src = delivered_upto n src @ r"
proof (induction src arbitrary: n k rule: pieces.induct)
  case (3 d e rest)
  show ?case
  proof (cases "e")
    case True
    then show ?thesis using 3(2) by (auto split: nat.splits)
  next
    case False
    then show ?thesis using 3(1) [OF False] 3(2) by (cases n; cases k) auto
  qed
qed auto

lemma dup_view_end: "snd (dup_view numBufs src) \<Longrightarrow> fst (dup_view numBufs src) = delivered src"
  by (simp add: dup_view_def delivered_upto_all)

section \<open>It is what happens\<close>

text \<open>How much of the source lies behind the pieces forwarded so far.\<close>

definition counted :: "src_result list \<Rightarrow> memory \<times> Iodup \<times> history \<Rightarrow> bool" where
  "counted src st \<longleftrightarrow>
     (case st of (m, iod, h) \<Rightarrow> \<forall>k. delivered_upto (H_pieces h + k) src = H_bytes h @
        (case ID_pump iod of
           Reading \<Rightarrow> delivered_upto k (ID_src iod)
         | Forwarding j n err \<Rightarrow>
             (if k = 0 then '''' else current_piece m iod @ (if err then '''' else delivered_upto (k - 1) (ID_src iod)))
         | _ \<Rightarrow> ''''))"

lemma counted_reading:
  assumes "counted src (m, iod, h)" and "stream_inv numBufs sizeBuf src (m, iod, h)" and "ID_pump iod = Reading"
    and "pump_step numBufs m iod = Some (m', iod')"
  shows "counted src (m', iod', h)"
proof (cases "ID_src iod")
  case Nil
  then show ?thesis using assms(3,4) by (simp add: pump_step_def readFromSrc_def)
next
  case (Cons r rest)
  have c: "delivered_upto (H_pieces h + k) src = H_bytes h @ delivered_upto k (r # rest)" for k
    using assms(1,3) Cons by (simp add: counted_def)
  show ?thesis
  proof (cases r)
    case SrcPanic
    then have "ID_pump iod' = Closing" using assms(3,4) Cons by (auto simp: pump_step_def readFromSrc_def)
    then show ?thesis using c SrcPanic by (simp add: counted_def)
  next
    case (SrcData d e)
    let ?a = "ID_bufs iod" and ?i = "ID_inBufIndex iod"
    have inv: "?a < length m" "?i < length (m ! ?a)" "\<forall>b \<in> set (m ! ?a). length b = sizeBuf" "length d \<le> sizeBuf"
      using assms(2) Cons SrcData by (auto simp: stream_inv_def)
    have eq: "m' = fill ?a ?i d m"
        "iod' = iod\<lparr>ID_src := rest, ID_pump := if length d > 0 then Forwarding 0 (length d) e else if e then Closing else Reading\<rparr>"
      using assms(3,4) Cons SrcData by (auto simp: pump_step_def readFromSrc_def)
    have "current_piece m' iod' = d" if "d \<noteq> ''''"
      using that fill_simps(4) [OF inv] by (simp add: eq current_piece_def)
    then show ?thesis
      using c SrcData by (cases "d = ''''"; cases e) (auto simp: counted_def eq(2) split: nat.splits)
  qed
qed

lemma counted_step:
  assumes "counted src st" and "stream_inv numBufs sizeBuf src st" and "stream_step numBufs l st st'"
  shows "counted src st'"
  using assms(3)
proof (cases rule: stream_stepE)
  case (Pump m iod m' iod' h)
  show ?thesis
  proof (cases "ID_pump iod")
    case Reading
    then have "after_pump iod m h = h" by (simp add: after_pump_def)
    then show ?thesis using counted_reading [of src m iod h numBufs sizeBuf m' iod'] assms(1,2) Pump Reading by simp
  next
    case (Forwarding j n err)
    have c: "delivered_upto (H_pieces h + k) src = H_bytes h @
        (if k = 0 then '''' else current_piece m iod @ (if err then '''' else delivered_upto (k - 1) (ID_src iod)))" for k
      using assms(1) Pump Forwarding by (simp add: counted_def)
    show ?thesis
    proof (cases "j < length (ID_output iod)")
      case True
      then obtain iod1 where f: "forward numBufs j n iod = Some iod1" "m' = m" "iod' = iod1\<lparr>ID_pump := Forwarding (j + 1) n err\<rparr>"
        using Pump Forwarding by (auto simp: pump_step_def)
      then have "ID_src iod' = ID_src iod" "current_piece m' iod' = current_piece m iod"
        using Forwarding by (auto simp: forward_def Let_def current_piece_def split: if_splits)
      then show ?thesis using c Pump True Forwarding f by (simp add: counted_def after_pump_def)
    next
      case False
      then have eq: "m' = m" "iod' = iod\<lparr>ID_inBufIndex := (ID_inBufIndex iod + 1) mod numBufs, ID_pump := if err then Closing else Reading\<rparr>"
        using Pump Forwarding by (auto simp: pump_step_def)
      have "delivered_upto (H_pieces h + 1 + k) src = H_bytes h @ current_piece m iod @ (if err then '''' else delivered_upto k (ID_src iod))" for k
        using c [of "k + 1"] by simp
      then show ?thesis using Pump False Forwarding eq by (simp add: counted_def after_pump_def)
    qed
  next
    case Closing
    then show ?thesis using assms(1) Pump by (auto simp: counted_def pump_step_def after_pump_def)
  next
    case Done
    then show ?thesis using Pump by (simp add: pump_step_def)
  qed
next
  case (Read j iod m room out' got h)
  then show ?thesis using assms(1) by (cases "ID_pump iod") (auto simp: counted_def current_piece_def)
qed

text \<open>A run of the gate: two readers, of which the second does not read.\<close>

definition view_start :: "nat \<Rightarrow> nat \<Rightarrow> src_result list \<Rightarrow> memory \<times> Iodup \<times> history \<Rightarrow> bool" where
  "view_start numBufs sizeBuf src st \<longleftrightarrow> stream_start numBufs sizeBuf src st \<and> 1 < length (ID_output (fst (snd st)))"

definition view_inv :: "nat \<Rightarrow> nat \<Rightarrow> src_result list \<Rightarrow> memory \<times> Iodup \<times> history \<Rightarrow> bool" where
  "view_inv numBufs sizeBuf src st \<longleftrightarrow> stream_inv numBufs sizeBuf src st \<and> counted src st \<and> 1 < length (ID_output (fst (snd st)))
     \<and> (numBufs - 2 < pieces src \<longrightarrow> stalled numBufs src st)"

lemma step_outputs: "stream_step numBufs l st st' \<Longrightarrow> length (ID_output (fst (snd st'))) = length (ID_output (fst (snd st)))"
  by (erule stream_stepE)
    (auto simp: pump_step_def readFromSrc_def forward_def close_outputs_def Let_def split: pump.splits list.splits src_result.splits if_splits)

interpretation view: machine "view_start numBufs sizeBuf src" "second_idle numBufs" "view_inv numBufs sizeBuf src"
  for numBufs sizeBuf src
proof
  fix st assume s: "view_start numBufs sizeBuf src st"
  then have "counted src st" by (auto simp: view_start_def stream_start_def counted_def split: prod.splits)
  moreover have "stalled numBufs src st" if "numBufs - 2 < pieces src"
    using one_reader.inv_start [of numBufs sizeBuf src st] s that by (simp add: view_start_def long_start_def)
  ultimately show "view_inv numBufs sizeBuf src st"
    using s stream.inv_start [of numBufs sizeBuf src st] by (simp add: view_inv_def view_start_def)
next
  fix st st' assume v: "view_inv numBufs sizeBuf src st" and s: "second_idle numBufs st st'"
  then obtain l where l: "stream_step numBufs l st st'" by (auto simp: second_idle_def)
  then show "view_inv numBufs sizeBuf src st'"
    using v s stream_step_ok [OF _ l] counted_step [OF _ _ l] stalled_step [OF _ s] step_outputs [OF l] by (auto simp: view_inv_def)
qed

lemma stalled_pieces: "stalled numBufs src (m, iod, h) \<Longrightarrow> H_pieces h \<le> numBufs - 2"
  by (auto simp: stalled_def split: if_splits)

text \<open>What has been given to a reader lies within the view, and the end is told only where the view says so.\<close>

lemma given_within_view:
  assumes "view_inv numBufs sizeBuf src (m, iod, h)"
  shows "\<exists>rest. fst (dup_view numBufs src) = H_given h ! 0 @ rest"
proof -
  have inv: "stream_inv numBufs sizeBuf src (m, iod, h)" and c: "counted src (m, iod, h)" and len: "0 < length (ID_output iod)"
    using assms by (auto simp: view_inv_def)
  let ?cur = "if sent_current iod 0 then current_piece m iod else ''''"
  have r: "H_given h ! 0 @ concat (map (slice_bytes (m ! ID_bufs iod)) (pending (ID_output iod ! 0))) = H_bytes h @ ?cur"
    using inv len by (simp add: stream_inv_def reader_ok_def Let_def)
  define n where "n = H_pieces h + (if sent_current iod 0 then 1 else 0)"
  have "\<exists>more. delivered_upto n src = H_bytes h @ ?cur @ more"
  proof (cases "ID_pump iod")
    case (Forwarding j k err)
    have "delivered_upto (H_pieces h + i) src = H_bytes h @ (if i = 0 then '''' else current_piece m iod @ (if err then '''' else delivered_upto (i - 1) (ID_src iod)))" for i
      using c Forwarding by (simp add: counted_def)
    from this [of 1] this [of 0] show ?thesis by (auto simp: n_def)
  qed (use c [unfolded counted_def, simplified, THEN spec, of 0] in \<open>auto simp: n_def sent_current_def\<close>)
  then obtain more where d: "delivered_upto n src = H_bytes h @ ?cur @ more" by blast
  have "\<exists>r. delivered_upto (numBufs - 1) src = delivered_upto n src @ r"
  proof (cases "numBufs - 2 < pieces src")
    case True
    then have "H_pieces h \<le> numBufs - 2" using assms stalled_pieces by (auto simp: view_inv_def)
    moreover have "3 \<le> numBufs" using inv by (simp add: stream_inv_def)
    ultimately show ?thesis by (intro delivered_upto_mono) (auto simp: n_def)
  next
    case False
    then have "delivered_upto (max n (numBufs - 1)) src = delivered_upto (numBufs - 1) src" by (simp add: delivered_upto_all)
    then show ?thesis using delivered_upto_mono [of n "max n (numBufs - 1)" src] by simp
  qed
  then obtain q where "delivered_upto (numBufs - 1) src = (H_given h ! 0 @ concat (map (slice_bytes (m ! ID_bufs iod)) (pending (ID_output iod ! 0)))) @ more @ q"
    unfolding r using d by auto
  then show ?thesis by (simp add: dup_view_def)
qed

lemma end_within_view:
  assumes "view_inv numBufs sizeBuf src (m, iod, h)" and "Out_Read (m ! ID_bufs iod) room (ID_output iod ! 0) = Some (out', None)"
  shows "snd (dup_view numBufs src) \<and> H_given h ! 0 = fst (dup_view numBufs src)"
proof -
  have inv: "stream_inv numBufs sizeBuf src (m, iod, h)" and len: "0 < length (ID_output iod)"
    using assms(1) by (auto simp: view_inv_def)
  have e: "pending (ID_output iod ! 0) = []" "chanClosed (ID_output iod ! 0)" using Out_Read_pending(5) [OF assms(2)] by auto
  have ns: "\<not> stalled numBufs src (m, iod, h)" using e(2) len nth_mem by (auto simp: stalled_def)
  then have view: "snd (dup_view numBufs src)" using assms(1) by (auto simp: view_inv_def dup_view_def not_less)
  have "closed_ok iod" using inv by (simp add: stream_inv_def)
  then have "ID_pump iod \<in> {Closing, Done}" using e(2) nth_mem [OF len] unfolding closed_ok_def by blast
  then have "\<not> sent_current iod 0" "delivered src = H_bytes h" using inv by (auto simp: stream_inv_def source_ok_def)
  moreover have "reader_ok numBufs (m ! ID_bufs iod) iod h 0 (current_piece m iod)" using inv len by (simp add: stream_inv_def)
  then have "H_given h ! 0 = H_bytes h @ (if sent_current iod 0 then current_piece m iod else '''')"
    using e(1) by (simp add: reader_ok_def Let_def)
  ultimately show ?thesis using view dup_view_end [OF view] by simp
qed

section \<open>A short source is read to its end\<close>

fun ends :: "src_result list \<Rightarrow> bool" where
  "ends [] = False"
| "ends (SrcPanic # rest) = True"
| "ends (SrcData d e # rest) = (e \<or> ends rest)"

text \<open>While nobody reads, every channel holds the pieces forwarded to it.\<close>

definition filling :: "src_result list \<Rightarrow> Iodup \<Rightarrow> history \<Rightarrow> bool" where
  "filling src iod h \<longleftrightarrow>
     (\<forall>j < length (ID_output iod). length (bufChan (ID_output iod ! j)) = H_pieces h + (if sent_current iod j then 1 else 0))
     \<and> (case ID_pump iod of
          Reading \<Rightarrow> pieces src = H_pieces h + pieces (ID_src iod) \<and> ends (ID_src iod)
        | Forwarding j n err \<Rightarrow> j \<le> length (ID_output iod)
            \<and> pieces src = H_pieces h + 1 + (if err then 0 else pieces (ID_src iod)) \<and> (err \<or> ends (ID_src iod))
        | Closing \<Rightarrow> True
        | Done \<Rightarrow> \<forall>out \<in> set (ID_output iod). chanClosed out)"

text \<open>The steps the pump has left.\<close>

definition pump_left :: "Iodup \<Rightarrow> nat" where
  "pump_left iod = length (ID_src iod) * (length (ID_output iod) + 4)
     + (case ID_pump iod of Reading \<Rightarrow> 3 | Forwarding j n err \<Rightarrow> length (ID_output iod) - j + 4 | Closing \<Rightarrow> 1 | Done \<Rightarrow> 0)"

lemma filling_step:
  assumes "filling src iod h" and "pieces src \<le> numBufs - 2" and "ID_pump iod \<noteq> Done"
  shows "\<exists>m' iod'. pump_step numBufs m iod = Some (m', iod') \<and> filling src iod' (after_pump iod m h) \<and> pump_left iod' < pump_left iod"
proof (cases "ID_pump iod")
  case Reading
  then obtain r rest where r: "ID_src iod = r # rest" using assms(1) by (cases "ID_src iod") (auto simp: filling_def)
  show ?thesis
  proof (cases r)
    case SrcPanic
    then show ?thesis using assms(1) Reading r
      by (simp add: pump_step_def readFromSrc_def filling_def after_pump_def pump_left_def close_outputs_def)
  next
    case (SrcData d e)
    then show ?thesis using assms(1) Reading r
      by (cases "d = ''''"; cases e) (auto simp: pump_step_def readFromSrc_def filling_def after_pump_def pump_left_def)
  qed
next
  case (Forwarding j n err)
  show ?thesis
  proof (cases "j < length (ID_output iod)")
    case True
    then have "length (bufChan (ID_output iod ! j)) < numBufs - 2"
      using assms(1,2) Forwarding by (auto simp: filling_def)
    then show ?thesis using assms(1) Forwarding True
      by (auto simp: pump_step_def forward_def Let_def filling_def after_pump_def pump_left_def nth_list_update less_Suc_eq)
  next
    case False
    then show ?thesis using assms(1) Forwarding
      by (cases err) (auto simp: pump_step_def filling_def after_pump_def pump_left_def)
  qed
next
  case Closing
  then show ?thesis using assms(1) by (auto simp: pump_step_def filling_def after_pump_def pump_left_def close_outputs_def)
next
  case Done
  then show ?thesis using assms(3) by simp
qed

lemma filling_run:
  assumes "filling src iod h" and "stream_inv numBufs sizeBuf src (m, iod, h)" and "pieces src \<le> numBufs - 2"
  shows "\<exists>k m' iod' h'. pump_run numBufs k (m, iod) = (m', iod') \<and> ID_pump iod' = Done \<and> filling src iod' h'
    \<and> stream_inv numBufs sizeBuf src (m', iod', h') \<and> H_given h' = H_given h"
  using assms(1,2)
proof (induction "pump_left iod" arbitrary: iod h m rule: less_induct)
  case less
  show ?case
  proof (cases "ID_pump iod = Done")
    case True
    have "pump_run numBufs 0 (m, iod) = (m, iod)" by simp
    then show ?thesis using True less.prems by blast
  next
    case False
    obtain m' iod' where s: "pump_step numBufs m iod = Some (m', iod')" "filling src iod' (after_pump iod m h)" "pump_left iod' < pump_left iod"
      using filling_step [OF less.prems(1) assms(3) False, of m] by blast
    have i: "stream_inv numBufs sizeBuf src (m', iod', after_pump iod m h)"
      by (rule stream_step_ok [OF less.prems(2) Pump [OF s(1)]])
    have g: "H_given (after_pump iod m h) = H_given h" by (simp add: after_pump_def split: pump.split)
    obtain k m2 iod2 h2 where k: "pump_run numBufs k (m', iod') = (m2, iod2)" "ID_pump iod2 = Done" "filling src iod2 h2"
        "stream_inv numBufs sizeBuf src (m2, iod2, h2)" "H_given h2 = H_given h"
      using less.hyps [OF s(3,2) i] g by auto
    have "pump_run numBufs (Suc k) (m, iod) = (m2, iod2)" using s(1) k(1) by simp
    then show ?thesis using k(2-5) by blast
  qed
qed

text \<open>
  C25. A source that ends and comes in no more pieces than a channel holds is read to its end by the
  pump alone, however slow the readers are: the pump finishes, and every reader has exactly what
  the source delivers before it, followed by the end.
\<close>

theorem short_source_completes:
  assumes "stream_start numBufs sizeBuf src (m, iod, h)" and "pieces src \<le> numBufs - 2" and "ends src"
  shows "\<exists>k m' iod'. pump_run numBufs k (m, iod) = (m', iod') \<and> ID_pump iod' = Done
    \<and> (\<forall>j < length (ID_output iod). concat (map (slice_bytes (m' ! ID_bufs iod')) (pending (ID_output iod' ! j))) = delivered src
        \<and> chanClosed (ID_output iod' ! j))"
proof -
  let ?n = "length (ID_output iod)"
  have s: "ID_output iod = replicate ?n new_Out" "h = \<lparr>H_pieces = 0, H_bytes = '''', H_given = replicate ?n ''''\<rparr>"
      "ID_pump iod = Reading" "ID_src iod = src"
    using assms(1) by (simp_all add: stream_start_def)
  have out: "ID_output iod ! j = new_Out" if "j < ?n" for j using that s(1) by (metis nth_replicate)
  have f: "filling src iod h" using s(2-4) assms(3) out by (simp add: filling_def new_Out_def)
  obtain k m' iod' h' where k: "pump_run numBufs k (m, iod) = (m', iod')" "ID_pump iod' = Done" "filling src iod' h'"
      "stream_inv numBufs sizeBuf src (m', iod', h')" "H_given h' = H_given h"
    using filling_run [OF f stream.inv_start [OF assms(1)] assms(2)] by blast
  have n: "length (ID_output iod') = ?n" using k(4,5) s(2) by (simp add: stream_inv_def)
  have "concat (map (slice_bytes (m' ! ID_bufs iod')) (pending (ID_output iod' ! j))) = delivered src
      \<and> chanClosed (ID_output iod' ! j)" if "j < ?n" for j
  proof -
    have "reader_ok numBufs (m' ! ID_bufs iod') iod' h' j (current_piece m' iod')" "delivered src = H_bytes h'"
      using k(2,4) n that by (simp_all add: stream_inv_def source_ok_def)
    moreover have "\<not> sent_current iod' j" "H_given h' ! j = ''''" using k(2,5) s(2) that by simp_all
    moreover have "chanClosed (ID_output iod' ! j)" using k(2,3) n that nth_mem [of j "ID_output iod'"] by (simp add: filling_def)
    ultimately show ?thesis by (simp add: reader_ok_def Let_def)
  qed
  then show ?thesis using k(1,2) by blast
qed

theorem short_source_completes_witness:
  "\<exists>m iod k m' iod'. NewIoDup (Some [SrcData ''ab'' False, SrcData ''c'' True]) []
      \<lparr>IDS_stashed = [], IDS_numOutputs = 2, IDS_numBufs = 4, IDS_sizeBuf = 2\<rparr> = (m, \<lparr>IDS_stashed = [], IDS_numOutputs = 2, IDS_numBufs = 4, IDS_sizeBuf = 2\<rparr>, Some iod)
    \<and> pump_run 4 k (m, iod) = (m', iod') \<and> ID_pump iod' = Done
    \<and> concat (map (slice_bytes (m' ! ID_bufs iod')) (pending (ID_output iod' ! 1))) = ''abc''"
proof -
  let ?ids = "\<lparr>IDS_stashed = [], IDS_numOutputs = 2, IDS_numBufs = 4, IDS_sizeBuf = 2\<rparr>"
  let ?src = "[SrcData ''ab'' False, SrcData ''c'' True]"
  obtain m iod where n: "NewIoDup (Some ?src) [] ?ids = (m, ?ids, Some iod)" "length (ID_output iod) = 2"
      "stream_start 4 2 ?src (m, iod, \<lparr>H_pieces = 0, H_bytes = '''', H_given = ['''', '''']\<rparr>)"
    by (simp add: NewIoDup_def stream_start_def numeral_2_eq_2)
  obtain k m' iod' where "pump_run 4 k (m, iod) = (m', iod')" "ID_pump iod' = Done"
      "concat (map (slice_bytes (m' ! ID_bufs iod')) (pending (ID_output iod' ! 1))) = delivered ?src"
    using short_source_completes [OF n(3)] n(2) by auto
  then show ?thesis using n(1) by auto
qed

end
