(* ===== verification/Decisions.thy ===== *)
theory Decisions
  imports Prelude
begin

text \<open>
  \<open>pkg/apis/guard/v1alpha1/v1alpha1.go\<close>: the tree of findings a criteria reports about a
  profile, how it grows, how it is printed, and the list of alerts that counts it. A Decision
  is reached through a pointer, nil when nothing is wrong: \<open>decision option\<close>.
\<close>

section \<open>Decisions\<close>

datatype decision =
  Decision (Children: "(string \<times> decision) list") (Reasons: "string list") (Result: int)

definition new_decision :: "decision option \<Rightarrow> decision" where
  "new_decision current = (case current of None \<Rightarrow> Decision [] [] 0 | Some d \<Rightarrow> d)"

definition DecideInner :: "decision option \<Rightarrow> int \<Rightarrow> string \<Rightarrow> decision option" where
  "DecideInner current res reason =
     (let d = new_decision current
      in Some (Decision (Children d) (Reasons d @ [reason]) (Result d + res)))"

definition DecideChild :: "decision option \<Rightarrow> decision option \<Rightarrow> string \<Rightarrow> decision option" where
  "DecideChild current childDecision tag =
     (case childDecision of
        None \<Rightarrow> current
      | Some child \<Rightarrow>
          (let d = new_decision current
           in Some (Decision (AList.update tag child (Children d)) (Reasons d) (Result d + Result child))))"

definition Summary :: "decision \<Rightarrow> string" where
  "Summary parent = (if Result parent > 0 then ''Fail ('' @ fmt_d (nat (Result parent)) @ '')'' else '''')"

text \<open>The children are printed in the order the map range visits them.\<close>

fun SpillOut :: "order \<Rightarrow> decision \<Rightarrow> string" where
  "SpillOut ro (Decision cs rs n) =
     ''['' @ concat (map (\<lambda>(tag, s). tag @ '':'' @ s @ '','') (range_over ro (map (\<lambda>(tag, c). (tag, SpillOut ro c)) cs)))
     @ concat (map (\<lambda>r. r @ '','') rs) @ '']''"

definition String_of :: "order \<Rightarrow> decision \<Rightarrow> string \<Rightarrow> string" where
  "String_of ro parent tag = (if Result parent > 0 then tag @ SpillOut ro parent else '''')"

text \<open>
  \<open>SortedSpillOut\<close> prints the children by sorted tag and the reasons sorted; it sorts the
  slice of reasons in place, in this node and in every child: \<open>sort_reasons\<close> is that effect.
\<close>

fun SortedSpillOut :: "decision \<Rightarrow> string" where
  "SortedSpillOut (Decision cs rs n) =
     ''['' @ concat (map (\<lambda>(tag, s). tag @ '':'' @ s @ '','') (sort_key fst (map (\<lambda>(tag, c). (tag, SortedSpillOut c)) cs)))
     @ concat (map (\<lambda>r. r @ '','') (sort rs)) @ '']''"

fun sort_reasons :: "decision \<Rightarrow> decision" where
  "sort_reasons (Decision cs rs n) = Decision (map (\<lambda>(tag, c). (tag, sort_reasons c)) cs) (sort rs) n"

definition SortedString :: "decision \<Rightarrow> string \<Rightarrow> string \<times> decision" where
  "SortedString parent tag =
     (if Result parent > 0 then (tag @ SortedSpillOut parent, sort_reasons parent) else ('''', parent))"

subsection \<open>Every decision is an alert\<close>

text \<open>
  A decision is \<open>grave\<close> when its result is positive, in every node of the tree: then it is
  printed (an empty string otherwise), and the alert that carries it is reported.
\<close>

fun grave :: "decision \<Rightarrow> bool" where
  "grave (Decision cs rs n) = (n > 0 \<and> (\<forall>(tag, c) \<in> set cs. grave c))"

definition grave_opt :: "decision option \<Rightarrow> bool" where
  "grave_opt d = (case d of None \<Rightarrow> True | Some d' \<Rightarrow> grave d')"

lemma grave_opt_simps [simp]: "grave_opt None" "grave_opt (Some d) = grave d"
  by (simp_all add: grave_opt_def)

lemma grave_Result: "grave d \<Longrightarrow> Result d > 0"
  by (cases d) simp

lemma set_AList_update: "set (AList.update k v kvs) \<subseteq> insert (k, v) (set kvs)"
  by (induction kvs) auto

lemma grave_DecideInner [simp]: "grave_opt cur \<Longrightarrow> res > 0 \<Longrightarrow> grave_opt (DecideInner cur res r)"
  by (cases cur; cases "the cur") (auto simp: DecideInner_def new_decision_def)

lemma grave_DecideChild [simp]: "grave_opt cur \<Longrightarrow> grave_opt child \<Longrightarrow> grave_opt (DecideChild cur child tag)"
proof (cases child)
  case (Some c)
  assume "grave_opt cur" "grave_opt child"
  with Some show ?thesis
    using set_AList_update [of tag c "Children (new_decision cur)"]
    by (cases cur; cases "the cur") (auto simp: DecideChild_def new_decision_def dest: grave_Result)
qed (simp add: DecideChild_def)

lemma DecideInner_Some [simp]: "DecideInner cur res r \<noteq> None"
  by (simp add: DecideInner_def Let_def)

lemma DecideChild_None [simp]: "DecideChild cur child tag = None \<longleftrightarrow> cur = None \<and> child = None"
  by (auto simp: DecideChild_def Let_def split: option.splits)

lemma DecideChild_nil [simp]: "DecideChild cur None tag = cur"
  by (simp add: DecideChild_def)

text \<open>A loop that reports the elements that fail a test, and one that collects children.\<close>

lemma fold_DecideInner_None [simp]:
  "fold (\<lambda>x cur. if P x then cur else DecideInner cur n (f x)) xs cur = None
     \<longleftrightarrow> cur = None \<and> (\<forall>x \<in> set xs. P x)"
  by (induction xs arbitrary: cur) auto

lemma fold_DecideInner_grave [simp]:
  "grave_opt cur \<Longrightarrow> n > 0 \<Longrightarrow>
     grave_opt (fold (\<lambda>x cur. if P x then cur else DecideInner cur n (f x)) xs cur)"
  by (induction xs arbitrary: cur) auto

lemma fold_DecideInner_Reasons:
  "fold (\<lambda>x cur. if P x then cur else DecideInner cur 1 (f x)) xs cur =
     (if filter (\<lambda>x. \<not> P x) xs = [] then cur
      else Some (Decision (Children (new_decision cur))
        (Reasons (new_decision cur) @ map f (filter (\<lambda>x. \<not> P x) xs))
        (Result (new_decision cur) + int (length (filter (\<lambda>x. \<not> P x) xs)))))"
  by (induction xs arbitrary: cur)
     (auto simp: DecideInner_def Let_def new_decision_def split: option.splits)

subsection \<open>The sorted string does not depend on orders\<close>

text \<open>
  Two decisions are the same finding when their maps of children and their multisets of reasons
  agree: map iteration and evaluation order may have built them in different orders.
\<close>

inductive same_decision :: "decision \<Rightarrow> decision \<Rightarrow> bool" where
  same: "same_decision (Decision cs rs n) (Decision cs' rs' n)"
  if "kvs_ok cs" "kvs_ok cs'" "fst ` set cs = fst ` set cs'"
    and "\<And>t c c'. (t, c) \<in> set cs \<Longrightarrow> (t, c') \<in> set cs' \<Longrightarrow> same_decision c c'"
    and "mset rs = mset rs'"

inductive_cases same_decisionE: "same_decision (Decision cs rs n) d'"

lemma same_decision_Result: "same_decision d d' \<Longrightarrow> Result d = Result d'"
  by (auto elim: same_decision.cases)

lemma sort_key_cong_mset:
  assumes "mset xs = mset ys" and "distinct (map fst xs)"
  shows "sort_key fst xs = sort_key fst ys"
  using assms by (intro sort_key_inj_key_eq) (auto simp: distinct_map)

lemma same_rendering:
  assumes "kvs_ok cs" "kvs_ok cs'" "fst ` set cs = fst ` set cs'"
    and "\<And>t c c'. (t, c) \<in> set cs \<Longrightarrow> (t, c') \<in> set cs' \<Longrightarrow> f c = f c'"
  shows "mset (map (\<lambda>(tag, c). (tag, f c)) cs) = mset (map (\<lambda>(tag, c). (tag, f c)) cs')"
proof -
  have d: "distinct (map (\<lambda>(tag, c). (tag, f c)) xs)" if "kvs_ok xs" for xs
  proof -
    have "distinct (map fst (map (\<lambda>(tag, c). (tag, f c)) xs))"
      using that by (simp add: kvs_ok_def case_prod_unfold comp_def)
    then show ?thesis
      using distinct_map [of fst "map (\<lambda>(tag, c). (tag, f c)) xs"] by blast
  qed
  have sub: "set (map (\<lambda>(tag, c). (tag, f c)) xs) \<subseteq> set (map (\<lambda>(tag, c). (tag, f c)) ys)"
    if "fst ` set xs \<subseteq> fst ` set ys"
      and "\<And>t c c'. (t, c) \<in> set xs \<Longrightarrow> (t, c') \<in> set ys \<Longrightarrow> f c = f c'" for xs ys
  proof
    fix p assume "p \<in> set (map (\<lambda>(tag, c). (tag, f c)) xs)"
    then obtain t c where tc: "(t, c) \<in> set xs" and p: "p = (t, f c)" by auto
    with that(1) obtain c' where c': "(t, c') \<in> set ys" by force
    with that(2) [OF tc c'] p show "p \<in> set (map (\<lambda>(tag, c). (tag, f c)) ys)" by force
  qed
  have "set (map (\<lambda>(tag, c). (tag, f c)) cs) = set (map (\<lambda>(tag, c). (tag, f c)) cs')"
    using sub [of cs cs'] sub [of cs' cs] assms(3,4) by (metis equalityI set_eq_subset)
  then show ?thesis
    using assms(1,2) d by (metis mset_set_set)
qed

lemma SortedSpillOut_same: "same_decision d d' \<Longrightarrow> SortedSpillOut d = SortedSpillOut d'"
proof (induction rule: same_decision.induct)
  case (same cs cs' rs rs' n)
  let ?r = "map (\<lambda>(tag, c). (tag, SortedSpillOut c))"
  have "mset (?r cs) = mset (?r cs')"
    using same by (intro same_rendering) auto
  moreover have "distinct (map fst (?r cs))"
    using same(1) by (simp add: kvs_ok_def case_prod_unfold comp_def)
  ultimately have "sort_key fst (?r cs) = sort_key fst (?r cs')"
    by (rule sort_key_cong_mset)
  moreover have "sort rs = sort rs'"
    using same(5) by (metis properties_for_sort mset_sort sorted_sort)
  ultimately show ?case by simp
qed

lemma SortedString_same: "same_decision d d' \<Longrightarrow> fst (SortedString d tag) = fst (SortedString d' tag)"
  by (simp add: SortedString_def SortedSpillOut_same same_decision_Result)

text \<open>
  C32. Two gates, or two runs, that reach the same finding print it as the same string, in
  whatever order the maps of children were built or visited and the reasons appended: the
  string \<open>AddAlert\<close> compares is canonical.
\<close>

theorem SortedString_canonical:
  assumes "same_decision d d'"
  shows "fst (SortedString d tag) = fst (SortedString d' tag)"
  using assms by (rule SortedString_same)

section \<open>Alerts\<close>

record alert =
  str :: string
  alert_decision :: decision
  Time :: int
  Level :: string
  alert_Count :: "64 word"

text \<open>
  \<open>AddAlert alerts decision level now\<close>: the alerts after the call, and the decision as the
  call leaves it (its reasons sorted). \<open>now\<close> is \<open>time.Now().Unix()\<close>.
\<close>

fun bump :: "string \<Rightarrow> alert list \<Rightarrow> alert list option" where
  "bump s [] = None"
| "bump s (a # as) =
     (if str a = s then Some (a\<lparr>alert_Count := alert_Count a + 1\<rparr> # as)
      else map_option ((#) a) (bump s as))"

definition AddAlert :: "alert list \<Rightarrow> decision \<Rightarrow> string \<Rightarrow> int \<Rightarrow> alert list \<times> decision" where
  "AddAlert alerts decision level now =
     (let (s, d) = SortedString decision level in
      case bump s alerts of
        Some alerts' \<Rightarrow> (alerts', d)
      | None \<Rightarrow> (alerts @ [\<lparr>str = s, alert_decision = d, Time = now, Level = level, alert_Count = 1\<rparr>], d))"

definition alerts_ok :: "alert list \<Rightarrow> bool" where
  "alerts_ok as = distinct (map str as)"

definition alert_count :: "alert list \<Rightarrow> string \<Rightarrow> 64 word" where
  "alert_count as s = (\<Sum>a\<leftarrow>as. if str a = s then alert_Count a else 0)"

lemma bump_None: "bump s as = None \<longleftrightarrow> s \<notin> str ` set as"
  by (induction as) auto

lemma bump_Some:
  "bump s as = Some as' \<Longrightarrow>
     map str as' = map str as \<and> (\<forall>t. alert_count as' t = alert_count as t + (if t = s then 1 else 0))"
proof (induction as arbitrary: as')
  case (Cons a as)
  show ?case
  proof (cases "str a = s")
    case True
    with Cons.prems show ?thesis by (auto simp: alert_count_def)
  next
    case False
    with Cons.prems obtain bs where bs: "bump s as = Some bs" "as' = a # bs" by auto
    from Cons.IH [OF bs(1)] bs(2) show ?thesis by (auto simp: alert_count_def)
  qed
qed simp

lemma AddAlert_cases:
  "(\<exists>as'. bump (fst (SortedString d level)) as = Some as' \<and> fst (AddAlert as d level now) = as')
   \<or> (bump (fst (SortedString d level)) as = None \<and>
      map str (fst (AddAlert as d level now)) = map str as @ [fst (SortedString d level)] \<and>
      (\<forall>t. alert_count (fst (AddAlert as d level now)) t
         = alert_count as t + (if t = fst (SortedString d level) then 1 else 0)))"
  by (cases "bump (fst (SortedString d level)) as")
     (auto simp: AddAlert_def alert_count_def split: prod.splits)

lemma AddAlert_alerts_ok: "alerts_ok as \<Longrightarrow> alerts_ok (fst (AddAlert as d level now))"
  using AddAlert_cases [of d level as now]
  by (auto simp: alerts_ok_def bump_None dest: bump_Some)

lemma bump_length: "bump s as = Some as' \<Longrightarrow> length as' = length as"
  by (metis bump_Some length_map)

lemma AddAlert_length:
  "length (fst (AddAlert as d level now)) =
     length as + (if fst (SortedString d level) \<in> str ` set as then 0 else 1)"
proof (cases "bump (fst (SortedString d level)) as")
  case None
  then have "fst (SortedString d level) \<notin> str ` set as" by (simp add: bump_None)
  with None show ?thesis by (simp add: AddAlert_def case_prod_unfold Let_def)
next
  case (Some as')
  then have "fst (SortedString d level) \<in> str ` set as" by (metis bump_None option.distinct(1))
  with Some show ?thesis by (simp add: AddAlert_def case_prod_unfold Let_def bump_length)
qed

text \<open>
  The alert list counts findings: after \<open>AddAlert\<close> the list still holds no finding twice,
  the count of the finding added is one more (in the width of \<open>uint\<close>) and every other count
  is as it was.
\<close>

theorem AddAlert_counts:
  assumes "alerts_ok as" and "same_decision d d'"
  shows "alerts_ok (fst (AddAlert as d level now)) \<and>
    alert_count (fst (AddAlert as d level now)) t =
      alert_count as t + (if t = fst (SortedString d' level) then 1 else 0)"
  using assms AddAlert_alerts_ok AddAlert_cases [of d level as now]
  by (auto simp: SortedString_same [OF assms(2)] dest!: bump_Some)

text \<open>A finding whose two children and two reasons were recorded in either order.\<close>

definition finding_ab :: decision where
  "finding_ab = Decision [(''a'', Decision [] [''p''] 1), (''b'', Decision [] [''q''] 1)] [''x'', ''y''] 4"

definition finding_ba :: decision where
  "finding_ba = Decision [(''b'', Decision [] [''q''] 1), (''a'', Decision [] [''p''] 1)] [''y'', ''x''] 4"

lemma finding_same: "same_decision finding_ab finding_ba"
proof -
  have leaf: "same_decision (Decision [] rs n) (Decision [] rs n)" for rs n
    by (rule same) simp_all
  show ?thesis
    unfolding finding_ab_def finding_ba_def by (rule same) (auto intro: leaf)
qed

theorem SortedString_canonical_witness:
  "finding_ab \<noteq> finding_ba \<and> fst (SortedString finding_ab ''Session'') = fst (SortedString finding_ba ''Session'')"
  using SortedString_canonical [OF finding_same] by (simp add: finding_ab_def finding_ba_def)

theorem AddAlert_counts_witness:
  "\<forall>t. alerts_ok (fst (AddAlert [] finding_ab ''Session'' 0)) \<and>
    alert_count (fst (AddAlert [] finding_ab ''Session'' 0)) t =
      alert_count [] t + (if t = fst (SortedString finding_ba ''Session'') then 1 else 0)"
  by (rule allI, rule AddAlert_counts [OF _ finding_same]) (simp add: alerts_ok_def)

end
