(* ===== verification/Value_Rules.thy ===== *)
theory Value_Rules
  imports Decisions
begin

text \<open>
  The contract of the three interfaces of \<open>v1alpha1.go\<close> (ValueProfile, ValuePile and
  ValueConfig) as locales: profiles are added to piles, piles are merged, criteria are
  learned from piles and decide about profiles. \<open>covers p v\<close> is the abstraction of a pile:
  what it remembers is enough to learn a criteria that accepts \<open>v\<close>.
\<close>

section \<open>Accepting a profile\<close>

definition accepts :: "(ranger \<Rightarrow> 'conf \<Rightarrow> 'prof \<Rightarrow> decision option res) \<Rightarrow> 'conf \<Rightarrow> 'prof \<Rightarrow> bool" where
  "accepts dec c v \<longleftrightarrow> (\<forall>rr. fair_ranger rr \<longrightarrow> dec rr c v = Inr None)"

lemma acceptsI [intro]: "(\<And>rr. fair_ranger rr \<Longrightarrow> dec rr c v = Inr None) \<Longrightarrow> accepts dec c v"
  by (simp add: accepts_def)

lemma acceptsD: "accepts dec c v \<Longrightarrow> fair_ranger rr \<Longrightarrow> dec rr c v = Inr None"
  by (simp add: accepts_def)

lemma accepts_site: "accepts dec c v \<Longrightarrow> fair_ranger rr \<Longrightarrow> dec (at_site rr s) c v = Inr None"
  by (simp add: accepts_def)

section \<open>Piling and merging\<close>

locale pile_rules =
  fixes add :: "'pile \<Rightarrow> 'prof \<Rightarrow> 'pile res"
    and merge :: "'pile \<Rightarrow> 'pile \<Rightarrow> 'pile res"
    and empty :: "'pile"
    and pwf :: "'pile \<Rightarrow> bool"
    and vwf :: "'prof \<Rightarrow> bool"
    and covers :: "'pile \<Rightarrow> 'prof \<Rightarrow> bool"
    and merged :: "'prof \<Rightarrow> bool"
  assumes pwf_empty: "pwf empty"
    and add_ok: "pwf p \<Longrightarrow> vwf v \<Longrightarrow>
      ok (add p v) (\<lambda>p'. pwf p' \<and> covers p' v \<and> (\<forall>u. covers p u \<longrightarrow> covers p' u))"
    and merge_ok: "pwf p \<Longrightarrow> pwf q \<Longrightarrow>
      ok (merge p q) (\<lambda>r. pwf r \<and> (\<forall>u. covers p u \<longrightarrow> covers r u)
        \<and> (\<forall>u. covers q u \<longrightarrow> merged u \<longrightarrow> covers r u))"
begin

lemma add_list_ok:
  assumes "pwf p" and "\<forall>v \<in> set vs. vwf v"
  shows "ok (fold_res (\<lambda>v p. add p v) vs p)
    (\<lambda>p'. pwf p' \<and> (\<forall>v \<in> set vs. covers p' v) \<and> (\<forall>u. covers p u \<longrightarrow> covers p' u))"
  using assms
proof (induction vs arbitrary: p)
  case (Cons v vs)
  then have "pwf p" and "vwf v" by simp_all
  from add_ok [OF this] obtain p1
    where p1: "add p v = Inr p1" "pwf p1" "covers p1 v" "\<forall>u. covers p u \<longrightarrow> covers p1 u"
    by (auto simp: ok_iff)
  moreover from Cons.IH [OF p1(2)] Cons.prems(2) obtain p2
    where "fold_res (\<lambda>v p. add p v) vs p1 = Inr p2" "pwf p2" "\<forall>v \<in> set vs. covers p2 v"
      "\<forall>u. covers p1 u \<longrightarrow> covers p2 u"
    by (auto simp: ok_iff)
  ultimately show ?case by simp
qed simp

text \<open>
  Gates pile their own profiles; the service merges the piles it is sent, in whatever order.
\<close>

lemma gather_ok:
  assumes "pwf p" and "\<forall>vs \<in> set gates. \<forall>v \<in> set vs. vwf v"
  shows "ok (fold_res (\<lambda>vs p. bind_res (fold_res (\<lambda>v q. add q v) vs empty) (merge p)) gates p)
    (\<lambda>p'. pwf p' \<and> (\<forall>vs \<in> set gates. \<forall>v \<in> set vs. merged v \<longrightarrow> covers p' v)
      \<and> (\<forall>u. covers p u \<longrightarrow> covers p' u))"
  using assms
proof (induction gates arbitrary: p)
  case (Cons vs gates)
  have "ok (fold_res (\<lambda>v q. add q v) vs empty) (\<lambda>q. pwf q \<and> (\<forall>v \<in> set vs. covers q v))"
    using add_list_ok [OF pwf_empty, of vs] Cons.prems(2) by (auto elim: ok_mono)
  then obtain q where q: "fold_res (\<lambda>v q. add q v) vs empty = Inr q" "pwf q" "\<forall>v \<in> set vs. covers q v"
    by (auto simp: ok_iff)
  moreover from merge_ok [OF Cons.prems(1) q(2)] obtain r
    where r: "merge p q = Inr r" "pwf r" "\<forall>u. covers p u \<longrightarrow> covers r u"
      "\<forall>u. covers q u \<longrightarrow> merged u \<longrightarrow> covers r u"
    by (auto simp: ok_iff)
  moreover from Cons.IH [OF r(2)] Cons.prems(2) obtain p'
    where "fold_res (\<lambda>vs p. bind_res (fold_res (\<lambda>v q. add q v) vs empty) (merge p)) gates r = Inr p'"
      "pwf p'" "\<forall>vs \<in> set gates. \<forall>v \<in> set vs. merged v \<longrightarrow> covers p' v"
      "\<forall>u. covers r u \<longrightarrow> covers p' u"
    by (auto simp: ok_iff)
  ultimately show ?case by simp
qed simp

end

section \<open>Learning\<close>

locale value_rules = pile_rules +
  fixes learn :: "ranger \<Rightarrow> 'c \<Rightarrow> 'a \<Rightarrow> 'c res"
    and decide :: "ranger \<Rightarrow> 'c \<Rightarrow> 'b \<Rightarrow> decision option res"
    and cwf :: "'c \<Rightarrow> bool"
  assumes learn_ok: "fair_ranger rr \<Longrightarrow> cwf c \<Longrightarrow> pwf p \<Longrightarrow>
      ok (learn rr c p) (\<lambda>c'. cwf c' \<and> (\<forall>u. covers p u \<longrightarrow> accepts decide c' u))"
    and decide_grave: "decide rr c v = Inr d \<Longrightarrow> grave_opt d"
begin

text \<open>
  What a session contributed to any gate is accepted by the criteria learned from the piles
  of all gates.
\<close>

lemma gathered_accepted:
  assumes "fair_ranger rr" and "cwf c" and "pwf p" and "\<forall>vs \<in> set gates. \<forall>v \<in> set vs. vwf v"
  shows "ok (bind_res
      (fold_res (\<lambda>vs p. bind_res (fold_res (\<lambda>v q. add q v) vs empty) (merge p)) gates p)
      (learn rr c))
    (\<lambda>c'. cwf c' \<and> (\<forall>vs \<in> set gates. \<forall>v \<in> set vs. merged v \<longrightarrow> accepts decide c' v))"
proof -
  from gather_ok [OF assms(3,4)] obtain p'
    where "fold_res (\<lambda>vs p. bind_res (fold_res (\<lambda>v q. add q v) vs empty) (merge p)) gates p = Inr p'"
      and "pwf p'" and "\<forall>vs \<in> set gates. \<forall>v \<in> set vs. merged v \<longrightarrow> covers p' v"
    by (auto simp: ok_iff)
  moreover from learn_ok [OF assms(1,2) this(2)] obtain c'
    where "learn rr c p' = Inr c'" "cwf c'" "\<forall>u. covers p' u \<longrightarrow> accepts decide c' u"
    by (auto simp: ok_iff)
  ultimately show ?thesis by simp
qed

lemma added_accepted:
  assumes "fair_ranger rr" and "cwf c" and "pwf p" and "\<forall>v \<in> set vs. vwf v"
  shows "ok (bind_res (fold_res (\<lambda>v q. add q v) vs p) (learn rr c))
    (\<lambda>c'. cwf c' \<and> (\<forall>v \<in> set vs. accepts decide c' v))"
proof -
  from add_list_ok [OF assms(3,4)] obtain p'
    where "fold_res (\<lambda>v q. add q v) vs p = Inr p'" and "pwf p'" and "\<forall>v \<in> set vs. covers p' v"
    by (auto simp: ok_iff)
  moreover from learn_ok [OF assms(1,2) this(2)] obtain c'
    where "learn rr c p' = Inr c'" "cwf c'" "\<forall>u. covers p' u \<longrightarrow> accepts decide c' u"
    by (auto simp: ok_iff)
  ultimately show ?thesis by simp
qed

lemma learned_accepted:
  assumes "fair_ranger rr" and "cwf c" and "pwf p" and "learn rr c p = Inr c'" and "covers p u"
  shows "accepts decide c' u"
  using learn_ok [OF assms(1-3)] assms(4,5) by simp

end

text \<open>
  A criteria is monotone when learning from one more pile never rejects what was accepted:
  then a gate that accepted a session keeps accepting it while the service goes on learning.
\<close>

locale monotone_rules = value_rules +
  assumes learn_mono: "fair_ranger rr \<Longrightarrow> cwf c \<Longrightarrow> pwf p \<Longrightarrow>
      ok (learn rr c p) (\<lambda>c'. \<forall>u. accepts decide c u \<longrightarrow> accepts decide c' u)"
begin

lemma learn_all_ok:
  assumes "\<forall>(rr, p) \<in> set ps. fair_ranger rr \<and> pwf p" and "cwf c"
  shows "ok (fold_res (\<lambda>(rr, p) c. learn rr c p) ps c)
    (\<lambda>c'. cwf c' \<and> (\<forall>u. accepts decide c u \<longrightarrow> accepts decide c' u)
      \<and> (\<forall>(rr, p) \<in> set ps. \<forall>u. covers p u \<longrightarrow> accepts decide c' u))"
  using assms
proof (induction ps arbitrary: c)
  case (Cons x ps)
  obtain rr p where x: "x = (rr, p)" by (cases x)
  with Cons.prems have h: "fair_ranger rr" "pwf p" by auto
  from learn_ok [OF h(1) Cons.prems(2) h(2)] obtain c1
    where c1: "learn rr c p = Inr c1" "cwf c1" "\<forall>u. covers p u \<longrightarrow> accepts decide c1 u"
    by (auto simp: ok_iff)
  with learn_mono [OF h(1) Cons.prems(2) h(2)]
  have "\<forall>u. accepts decide c u \<longrightarrow> accepts decide c1 u" by simp
  then show ?case
    using Cons.IH [of c1] Cons.prems(1) c1 x by (auto elim!: ok_mono)
qed simp

end

section \<open>Rules that never panic and range over no map\<close>

text \<open>
  The micro-rules on single values are total functions: this is how such a rule meets the
  interface.
\<close>

definition pure_add :: "('p \<Rightarrow> 'v \<Rightarrow> 'p) \<Rightarrow> 'p \<Rightarrow> 'v \<Rightarrow> 'p res" where
  "pure_add f p v = Inr (f p v)"

definition pure_learn :: "('c \<Rightarrow> 'p \<Rightarrow> 'c) \<Rightarrow> ranger \<Rightarrow> 'c \<Rightarrow> 'p \<Rightarrow> 'c res" where
  "pure_learn f rr c p = Inr (f c p)"

definition pure_decide :: "('c \<Rightarrow> 'v \<Rightarrow> decision option) \<Rightarrow> ranger \<Rightarrow> 'c \<Rightarrow> 'v \<Rightarrow> decision option res" where
  "pure_decide f rr c v = Inr (f c v)"

lemmas pure_simps [simp] = pure_add_def pure_learn_def pure_decide_def

lemma fair_ranger_exists: "fair_ranger (\<lambda>_ ks. ks)"
  by auto

lemma accepts_pure [simp]: "accepts (pure_decide f) c v \<longleftrightarrow> f c v = None"
  using fair_ranger_exists by (auto simp: accepts_def)

end
