(* ===== verification/Limits.thy ===== *)
theory Limits
  imports Value_Rules
begin

text \<open>
  \<open>pkg/apis/guard/v1alpha1/limit.go\<close>: the micro-rule for sizes and times. A profile is a
  \<open>uint\<close> (64 bits) compressed exponentially into a \<open>uint8\<close>; a criteria is the largest
  profile allowed.
\<close>

section \<open>Profile\<close>

type_synonym LimitProfile = "8 word"
type_synonym LimitPile = "8 word list"
type_synonym LimitConfig = "8 word"

lemma unat_half: "unat (drop_bit 1 w) = unat w div 2" for w :: "64 word"
  by (subst unat_drop_bit_eq) (simp add: drop_bit_eq_div)

text \<open>The loop of \<open>Profile\<close> over its variables \<open>v\<close> and \<open>base\<close>.\<close>

function batches :: "64 word \<Rightarrow> 64 word \<Rightarrow> 64 word \<times> 64 word" where
  "batches v base = (if v \<ge> 16 then batches (drop_bit 1 (v - 16)) (base + 16) else (v, base))"
  by pat_completeness auto
termination
proof (relation "measure (\<lambda>(v, base). unat v)")
  fix v base :: "64 word"
  assume "16 \<le> v"
  then have "16 \<le> unat v" by (simp add: word_le_nat_alt)
  moreover have "unat (v - 16) = unat v - 16"
    using \<open>16 \<le> v\<close> by (simp add: unat_sub)
  ultimately have "unat (drop_bit 1 (v - 16)) < unat v"
    by (simp only: unat_half)
  then show "((drop_bit 1 (v - 16), base + 16), v, base) \<in> measure (\<lambda>(v, base). unat v)"
    by (simp only: in_measure prod.case)
qed simp

declare batches.simps [simp del]

definition LimitProfile_Profile :: "64 word \<Rightarrow> LimitProfile" where
  "LimitProfile_Profile val =
     (let (v, base) = batches val 0;
          res = v + base;
          res = (if res > 255 then 255 else res)
      in ucast res)"

section \<open>Pile and criteria\<close>

definition LimitPile_Add :: "LimitPile \<Rightarrow> LimitProfile \<Rightarrow> LimitPile" where
  "LimitPile_Add pile profile = pile @ [profile]"

definition LimitPile_Clear :: "LimitPile \<Rightarrow> LimitPile" where
  "LimitPile_Clear pile = []"

definition LimitPile_Merge :: "LimitPile \<Rightarrow> LimitPile \<Rightarrow> LimitPile" where
  "LimitPile_Merge pile otherPile = pile @ otherPile"

definition LimitConfig_Decide :: "LimitConfig \<Rightarrow> LimitProfile \<Rightarrow> decision option" where
  "LimitConfig_Decide config profile =
     (if profile \<le> config then None
      else DecideInner None 1 (''Limit out of Range: '' @ fmt_d (unat profile)))"

fun max_of :: "8 word \<Rightarrow> 8 word list \<Rightarrow> 8 word" where
  "max_of mx [] = mx"
| "max_of mx (v # vs) = max_of (if mx < v then v else mx) vs"

definition LimitConfig_Learn :: "LimitConfig \<Rightarrow> LimitPile \<Rightarrow> LimitConfig" where
  "LimitConfig_Learn config pile =
     (case pile of
        [] \<Rightarrow> config
      | v0 # _ \<Rightarrow> (let mx = max_of v0 pile in if mx > config then mx else config))"

definition LimitConfig_Prepare :: "LimitConfig \<Rightarrow> LimitConfig" where
  "LimitConfig_Prepare config = config"

definition LimitConfig_Score :: "LimitConfig \<Rightarrow> 32 word" where
  "LimitConfig_Score config = ucast config"

definition LimitConfig_Fuse :: "LimitConfig \<Rightarrow> LimitConfig \<Rightarrow> LimitConfig" where
  "LimitConfig_Fuse config otherConfig =
     (if (ucast config :: 32 word) < ucast otherConfig then otherConfig else config)"

section \<open>The exponential representation\<close>

text \<open>The loop on natural numbers, with the result \<open>v + base\<close>.\<close>

fun bucket :: "nat \<Rightarrow> nat" where
  "bucket n = (if n \<ge> 16 then 16 + bucket ((n - 16) div 2) else n)"

declare bucket.simps [simp del]

lemma bucket_le: "bucket n \<le> n"
proof (induction n rule: bucket.induct)
  case (1 n)
  show ?case
    using "1.IH" by (cases "n \<ge> 16") (simp_all add: bucket.simps [of n])
qed

lemma batches_bucket:
  "batches v base = (v', base') \<Longrightarrow> unat v + unat base < 2 ^ 64 \<Longrightarrow>
     unat v' + unat base' = bucket (unat v) + unat base \<and> unat v' + unat base' < 2 ^ 64"
proof (induction v base arbitrary: v' base' rule: batches.induct)
  case (1 v base)
  show ?case
  proof (cases "v \<ge> 16")
    case True
    then have le: "16 \<le> unat v" by (simp add: word_le_nat_alt)
    have sub: "unat (v - 16) = unat v - 16" using True by (simp add: unat_sub)
    have half: "unat (drop_bit 1 (v - 16)) = (unat v - 16) div 2"
      by (simp only: unat_half sub)
    have base: "unat (base + 16) = unat base + 16"
      using "1.prems"(2) le by (simp add: unat_word_ariths)
    have "unat (drop_bit 1 (v - 16)) + unat (base + 16) < 2 ^ 64"
      using "1.prems"(2) le half base by simp
    then show ?thesis
      using "1.IH" [OF True, of v' base'] "1.prems"(1) True le half base
      by (simp add: batches.simps [of v base] bucket.simps [of "unat v"])
  next
    case False
    then show ?thesis
      using "1.prems" by (auto simp: batches.simps [of v base] bucket.simps [of "unat v'"] word_le_nat_alt)
  qed
qed

lemma unat_LimitProfile_Profile: "unat (LimitProfile_Profile val) = min 255 (bucket (unat val))"
proof -
  obtain v b where vb: "batches val 0 = (v, b)" by (cases "batches val 0") auto
  from batches_bucket [OF vb] unsigned_less [of val]
  have "unat v + unat b = bucket (unat val)" "unat v + unat b < 2 ^ 64" by auto
  then have s: "unat (v + b) = bucket (unat val)" by (simp add: unat_word_ariths)
  show ?thesis
  proof (cases "v + b > 255")
    case True
    then have "255 < bucket (unat val)" using s by (simp add: word_less_nat_alt)
    with True vb show ?thesis by (simp add: LimitProfile_Profile_def)
  next
    case False
    then have "bucket (unat val) \<le> 255" using s by (simp add: word_less_nat_alt not_less)
    with False vb s show ?thesis
      by (simp add: LimitProfile_Profile_def Let_def unsigned_ucast_eq take_bit_nat_eq_self)
  qed
qed

lemma bucket_bounds:
  "2 ^ (bucket n div 16) * (16 + bucket n mod 16) \<le> n + 16 \<and>
   n + 16 < 2 ^ (bucket n div 16) * (17 + bucket n mod 16)"
proof (induction n rule: bucket.induct)
  case (1 n)
  show ?case
  proof (cases "n \<ge> 16")
    case True
    let ?m = "(n - 16) div 2"
    have b: "bucket n = 16 + bucket ?m" using True by (simp add: bucket.simps [of n])
    let ?P = "2 ^ (bucket ?m div 16) :: nat"
    have IH: "?P * (16 + bucket ?m mod 16) \<le> ?m + 16" "?m + 16 < ?P * (17 + bucket ?m mod 16)"
      using "1.IH" True by simp_all
    have "2 * ?m + 16 \<le> n" "n \<le> 2 * ?m + 17" using True by simp_all
    moreover have "bucket n div 16 = Suc (bucket ?m div 16)" "bucket n mod 16 = bucket ?m mod 16"
      using b by simp_all
    ultimately show ?thesis using IH by (simp only: power_Suc mult.assoc) linarith
  next
    case False
    then show ?thesis by (simp add: bucket.simps [of n])
  qed
qed

lemma bucket_mono: "m \<le> n \<Longrightarrow> bucket m \<le> bucket n"
proof (induction n arbitrary: m rule: bucket.induct)
  case (1 n)
  show ?case
  proof (cases "n \<ge> 16")
    case True
    show ?thesis
    proof (cases "m \<ge> 16")
      case m: True
      have "(m - 16) div 2 \<le> (n - 16) div 2" using "1.prems" by (simp add: div_le_mono diff_le_mono)
      then show ?thesis
        using "1.IH" [OF True] True m by (simp add: bucket.simps [of n] bucket.simps [of m])
    next
      case False
      then show ?thesis using True by (simp add: bucket.simps [of n] bucket.simps [of m])
    qed
  next
    case False
    then show ?thesis using "1.prems" by (simp add: bucket.simps [of n] bucket.simps [of m])
  qed
qed

text \<open>
  C29. The loop ends and the profile is the exponential representation the comment of
  \<open>Profile\<close> promises: the profile \<open>n < 255\<close> stands for the values between
  \<open>2^(n div 16) (16 + n mod 16) - 16\<close> and the next such bound (10 for 10, 20 for 24-25, 40 for
  80-83, 50 for 128-135, 80 for 496-527), 255 for every value from about a million on, and
  larger values never have smaller profiles.
\<close>

theorem LimitProfile_Profile_bounds:
  fixes val :: "64 word"
  defines "n \<equiv> unat (LimitProfile_Profile val)"
  shows "2 ^ (n div 16) * (16 + n mod 16) \<le> unat val + 16 \<and>
    (n < 255 \<longrightarrow> unat val + 16 < 2 ^ (n div 16) * (17 + n mod 16)) \<and>
    (n = 255 \<longleftrightarrow> 1015792 \<le> unat val) \<and>
    (\<forall>val'. val \<le> val' \<longrightarrow> LimitProfile_Profile val \<le> LimitProfile_Profile val')"
proof -
  have n: "n = min 255 (bucket (unat val))"
    by (simp add: n_def unat_LimitProfile_Profile)
  have at255: "255 \<le> bucket k \<longleftrightarrow> 1015792 \<le> k" for k
  proof
    assume "1015792 \<le> k"
    moreover have "bucket 1015792 = 255" by (simp add: bucket.simps)
    ultimately show "255 \<le> bucket k" using bucket_mono by metis
  next
    assume h: "255 \<le> bucket k"
    have "bucket 1015791 = 254" by (simp add: bucket.simps)
    with h show "1015792 \<le> k" using bucket_mono [of k 1015791] by (cases "k \<le> 1015791") simp_all
  qed
  have "2 ^ (n div 16) * (16 + n mod 16) \<le> unat val + 16"
  proof (cases "bucket (unat val) < 255")
    case True
    then show ?thesis using n bucket_bounds [of "unat val"] by simp
  next
    case False
    then show ?thesis using n at255 [of "unat val"] by (simp add: min_def)
  qed
  moreover have "n < 255 \<Longrightarrow> unat val + 16 < 2 ^ (n div 16) * (17 + n mod 16)"
    using n bucket_bounds [of "unat val"] by (simp add: min_def split: if_splits)
  moreover have "n = 255 \<longleftrightarrow> 1015792 \<le> unat val"
    using n at255 [of "unat val"] by (auto simp: min_def)
  moreover have "\<forall>val'. val \<le> val' \<longrightarrow> LimitProfile_Profile val \<le> LimitProfile_Profile val'"
    by (auto simp: word_le_nat_alt unat_LimitProfile_Profile intro: bucket_mono min.coboundedI1 min.coboundedI2)
  ultimately show ?thesis by blast
qed

theorem LimitProfile_Profile_bounds_witness:
  "(20::nat) < 255 \<and> (255::nat) = 255 \<and> unat (LimitProfile_Profile 25) = 20
   \<and> 2 ^ (20 div 16) * (16 + 20 mod 16) \<le> (25::nat) + 16 \<and> (25::nat) + 16 < 2 ^ (20 div 16) * (17 + 20 mod 16)
   \<and> LimitProfile_Profile 25 \<le> LimitProfile_Profile 26"
proof -
  have "unat (LimitProfile_Profile 25) = 20"
    by (simp add: unat_LimitProfile_Profile bucket.simps)
  with LimitProfile_Profile_bounds [of 25] show ?thesis by auto
qed

section \<open>Learning\<close>

definition limit_covers :: "LimitPile \<Rightarrow> LimitProfile \<Rightarrow> bool" where
  "limit_covers p v \<longleftrightarrow> v \<in> set p"

lemma max_of_Max: "max_of mx vs = Max (insert mx (set vs))"
proof -
  have "max_of mx vs = fold max vs mx"
    by (induction mx vs rule: max_of.induct) (auto simp: max_def intro: arg_cong [of _ _ "fold max _"])
  then show ?thesis
    by (simp only: Max.set_eq_fold [symmetric] list.set)
qed

lemma LimitConfig_Decide_None [simp]: "LimitConfig_Decide c v = None \<longleftrightarrow> v \<le> c"
  by (simp add: LimitConfig_Decide_def)

lemma LimitConfig_Learn_eq: "LimitConfig_Learn c p = Max (insert c (set p))"
proof (cases p)
  case (Cons v vs)
  then have "max_of v p = Max (set p)"
    by (simp add: max_of_Max)
  with Cons show ?thesis
    by (auto simp: LimitConfig_Learn_def Let_def max_def)
qed (simp add: LimitConfig_Learn_def)

lemma LimitConfig_Learn_ge: "c \<le> LimitConfig_Learn c p" "v \<in> set p \<Longrightarrow> v \<le> LimitConfig_Learn c p"
  by (simp_all add: LimitConfig_Learn_eq)

lemma LimitConfig_Fuse_eq: "LimitConfig_Fuse a b = max a b"
proof -
  have "(ucast a :: 32 word) < ucast b \<longleftrightarrow> a < b"
    by (simp add: word_less_nat_alt unat_ucast_8_32)
  then show ?thesis by (auto simp: LimitConfig_Fuse_def max_def)
qed

lemma LimitConfig_Decide_grave [simp]: "grave_opt (LimitConfig_Decide c v)"
  by (simp add: LimitConfig_Decide_def)

interpretation limit: monotone_rules
  "pure_add LimitPile_Add" "pure_add LimitPile_Merge" "[]" "\<lambda>_. True" "\<lambda>_. True" limit_covers "\<lambda>_. True"
  "pure_learn LimitConfig_Learn" "pure_decide LimitConfig_Decide" "\<lambda>_. True"
  by unfold_locales
    (auto simp: LimitPile_Add_def LimitPile_Merge_def limit_covers_def LimitConfig_Learn_ge
      intro: order_trans LimitConfig_Learn_ge)

end
