(* ===== verification/Flags.thy ===== *)
theory Flags
  imports Value_Rules
begin

text \<open>
  \<open>pkg/apis/guard/v1alpha1/asciiFlags.go\<close> and \<open>flagSlice.go\<close>: sets of flags, one
  \<open>uint32\<close> for the special ASCII characters and a slice of them for the Unicode blocks.
\<close>

section \<open>Counting flags\<close>

lemma unat_pred: "w > 0 \<Longrightarrow> unat (w - 1) = unat w - 1 \<and> 0 < unat w" for w :: "32 word"
proof -
  assume "w > 0"
  then have "1 \<le> w" and "0 < unat w" by (simp_all add: word_le_nat_alt word_less_nat_alt)
  then show ?thesis by (simp add: unat_sub)
qed

text \<open>The loop of the two \<open>Score\<close> methods (Kernighan's): it clears the lowest bit set.\<close>

function count_flags :: "32 word \<Rightarrow> 32 word \<Rightarrow> 32 word" where
  "count_flags flags cnt = (if flags > 0 then count_flags (flags AND (flags - 1)) (cnt + 1) else cnt)"
  by pat_completeness auto
termination
proof (relation "measure (\<lambda>(flags, cnt). unat flags)")
  fix flags cnt :: "32 word"
  assume "flags > 0"
  then have "unat (flags - 1) < unat flags"
    using unat_pred [of flags] by simp
  moreover have "unat (flags AND (flags - 1)) \<le> unat (flags - 1)"
    by (rule word_and_le1 [THEN word_le_nat_alt [THEN iffD1]])
  ultimately show "((flags AND (flags - 1), cnt + 1), flags, cnt) \<in> measure (\<lambda>(flags, cnt). unat flags)"
    by simp
qed simp

declare count_flags.simps [simp del]

definition bits_set :: "32 word \<Rightarrow> nat set" where
  "bits_set w = {n. bit w n}"

lemma bits_set_subset: "bits_set w \<subseteq> {..<32}"
  using bit_imp_le_length by (fastforce simp: bits_set_def)

lemma finite_bits_set [simp]: "finite (bits_set w)"
  using bits_set_subset finite_subset by blast

lemma card_bits_set_le: "card (bits_set w) \<le> 32"
  using card_mono [OF _ bits_set_subset [of w]] by simp

lemma bits_nat_double: "{n. bit (2 * k + b) n} = (if b = 1 then {0} else {}) \<union> Suc ` {n. bit k n}"
  if "b < 2" for k b :: nat
proof (rule set_eqI)
  fix n
  show "n \<in> {n. bit (2 * k + b) n} \<longleftrightarrow> n \<in> (if b = 1 then {0} else {}) \<union> Suc ` {n. bit k n}"
    using that by (cases n) (auto simp: bit_0 bit_Suc less_2_cases_iff inj_image_mem_iff)
qed

lemma finite_bits_nat: "finite {n. bit (k :: nat) n}"
proof (rule finite_subset)
  have "n \<le> k" if "bit k n" for n
  proof (rule ccontr)
    assume "\<not> n \<le> k"
    then have "k < 2 ^ n" using less_exp [of n] by linarith
    then have "k div 2 ^ n = 0" by (rule div_less)
    with that show False by (simp add: bit_iff_odd)
  qed
  then show "{n. bit k n} \<subseteq> {..k}" by blast
qed simp

lemma card_and_pred:
  "k > 0 \<Longrightarrow> Suc (card {n. bit (k AND (k - 1)) n}) = card {n. bit k n}" for k :: nat
proof (induction k rule: less_induct)
  case (less k)
  show ?case
  proof (cases "even k")
    case True
    then obtain j where j: "k = 2 * j" by auto
    with less.prems have "0 < j" "k - 1 = 2 * (j - 1) + 1" by auto
    then have a: "k AND (k - 1) = 2 * (j AND (j - 1)) + 0"
      using j by (simp add: and_rec [of "2 * j"])
    have "card (Suc ` {n. bit i n}) = card {n. bit i n}" for i :: nat
      by (simp add: card_image)
    then show ?thesis
      using less.IH [of j] \<open>0 < j\<close> j a bits_nat_double [of 0 j] bits_nat_double [of 0 "j AND (j - 1)"] by simp
  next
    case False
    then obtain j where j: "k = 2 * j + 1" by (auto elim: oddE)
    then have a: "k AND (k - 1) = 2 * j + 0"
      by (simp add: and_rec [of "Suc (2 * j)"])
    show ?thesis
      using j a bits_nat_double [of 1 j] bits_nat_double [of 0 j] finite_bits_nat [of j] by (simp add: card_image)
  qed
qed

lemma card_clear_lowest:
  assumes "w > 0"
  shows "Suc (card (bits_set (w AND (w - 1)))) = card (bits_set w)"
proof -
  have "bits_set v = {n. bit (unat v) n}" for v
    by (auto simp: bits_set_def bit_unsigned_iff dest: bit_imp_le_length)
  moreover have "unat (w AND (w - 1)) = unat w AND (unat w - 1)"
    using unat_pred [OF assms] by (simp add: unsigned_and_eq)
  ultimately show ?thesis
    using card_and_pred [of "unat w"] assms by (simp add: word_less_nat_alt)
qed

lemma count_flags_card: "count_flags w cnt = cnt + of_nat (card (bits_set w))"
proof (induction w cnt rule: count_flags.induct)
  case (1 w cnt)
  show ?case
  proof (cases "w > 0")
    case True
    then show ?thesis
      using "1.IH" card_clear_lowest [OF True] by (simp add: count_flags.simps [of w] flip: of_nat_Suc)
  next
    case False
    then have "w = 0" by (simp add: word_gt_0)
    then show ?thesis by (simp add: count_flags.simps [of 0] bits_set_def)
  qed
qed

section \<open>Names of the special characters\<close>

definition AsciiFlagNames :: "string list" where
  "AsciiFlagNames =
    [''Exclamation'', ''DoubleQuote'', ''NumberSign'', ''DollarSign'', ''PercentSign'', '''',
     ''SingleQuote'', ''RoundBracket'', ''MultiplySign'', ''PlusSign'', ''CommaSign'', ''MinusSign'',
     ''DotSign'', ''DivideSign'', ''ColonSign'', ''SemicolonSign'', ''Less/GreaterThanSign'',
     ''EqualSign'', ''QuestionMark'', ''CommentSign'', ''ReverseDivideSign'', ''SquareBracket'',
     ''PowerSign'', ''UnderscoreSign'', ''AccentSign'', ''PipeSign'', ''CurlyBracket'', '''', '''', '''',
     ''CommentsCombination'', ''HexCombination'', '''', '''', ''NonReadableChar'', ''Space'']"

lemma word32_eq: "v = w \<longleftrightarrow> (\<forall>n < 32. bit v n \<longleftrightarrow> bit w n)" for v w :: "32 word"
  by (auto intro: bit_word_eqI)

definition name_step :: "nat \<Rightarrow> 32 word \<times> 32 word \<times> string \<Rightarrow> 32 word \<times> 32 word \<times> string" where
  "name_step i = (\<lambda>(flags, mask, ret).
     (let (flags, ret) =
        (if flags AND mask \<noteq> 0 then (flags XOR mask, ret @ AsciiFlagNames ! i @ '' '') else (flags, ret))
      in (flags, push_bit 1 mask, ret)))"

definition nameFlags :: "32 word \<Rightarrow> string" where
  "nameFlags flags =
     (let (flags, mask, ret) = fold name_step [0..<32] (flags, 1, '''')
      in if flags \<noteq> 0 then ret @ ''<UnnamedFlags>'' else ret)"

lemma and_pow_bit: "w AND 2 ^ n = 0 \<longleftrightarrow> \<not> bit w n" if "n < 32" for w :: "32 word"
proof -
  have "w AND 2 ^ n = 0 \<longleftrightarrow> (\<forall>m < 32. \<not> (bit w m \<and> m = n))"
    by (auto simp: word32_eq bit_simps)
  with that show ?thesis by blast
qed

lemma name_loop:
  "i \<le> 32 \<Longrightarrow> fold name_step [0..<i] (w, 1, '''') =
     (w AND NOT (mask i), 2 ^ i, concat (map (\<lambda>n. if bit w n then AsciiFlagNames ! n @ '' '' else []) [0..<i]))"
proof (induction i)
  case (Suc i)
  have b: "bit (w AND NOT (mask i)) i = bit w i"
    using Suc.prems by (simp add: bit_simps)
  have x: "(if bit w i then (w AND NOT (mask i)) XOR 2 ^ i else w AND NOT (mask i)) = w AND NOT (mask (Suc i))"
    using Suc.prems by (auto simp: word32_eq bit_simps less_Suc_eq)
  show ?case
    using Suc x by (auto simp: name_step_def Let_def and_pow_bit b)
qed simp

lemma nameFlags_eq:
  "nameFlags w = concat (map (\<lambda>n. if bit w n then AsciiFlagNames ! n @ '' '' else []) [0..<32])"
proof -
  have "w AND NOT (mask 32) = 0"
    by (auto simp: word32_eq bit_simps)
  then show ?thesis
    using name_loop [of 32 w] by (simp add: nameFlags_def del: upt_rec_numeral)
qed

section \<open>One word of flags\<close>

type_synonym AsciiFlagsProfile = "32 word"
type_synonym AsciiFlagsPile = "32 word"
type_synonym AsciiFlagsConfig = "32 word"

definition AsciiFlagsProfile_Profile :: "32 word \<Rightarrow> AsciiFlagsProfile" where
  "AsciiFlagsProfile_Profile val = val"

definition AsciiFlagsPile_Add :: "AsciiFlagsPile \<Rightarrow> AsciiFlagsProfile \<Rightarrow> AsciiFlagsPile" where
  "AsciiFlagsPile_Add pile profile = pile OR profile"

definition AsciiFlagsPile_Clear :: "AsciiFlagsPile \<Rightarrow> AsciiFlagsPile" where
  "AsciiFlagsPile_Clear pile = 0"

definition AsciiFlagsPile_Merge :: "AsciiFlagsPile \<Rightarrow> AsciiFlagsPile \<Rightarrow> AsciiFlagsPile" where
  "AsciiFlagsPile_Merge pile otherPile = pile OR otherPile"

definition AsciiFlagsConfig_Decide :: "AsciiFlagsConfig \<Rightarrow> AsciiFlagsProfile \<Rightarrow> decision option" where
  "AsciiFlagsConfig_Decide config profile =
     (let flags = profile AND NOT config
      in if flags \<noteq> 0
         then DecideInner None 1
           (''Unexpected Flags '' @ nameFlags flags @ '' (0x'' @ fmt_x (unat flags) @ '') in Value'')
         else None)"

definition AsciiFlagsConfig_Learn :: "AsciiFlagsConfig \<Rightarrow> AsciiFlagsPile \<Rightarrow> AsciiFlagsConfig" where
  "AsciiFlagsConfig_Learn config pile = config OR pile"

definition AsciiFlagsConfig_Prepare :: "AsciiFlagsConfig \<Rightarrow> AsciiFlagsConfig" where
  "AsciiFlagsConfig_Prepare config = config"

definition AsciiFlagsConfig_Score :: "AsciiFlagsConfig \<Rightarrow> 32 word" where
  "AsciiFlagsConfig_Score config = count_flags config 0"

definition AsciiFlagsConfig_Fuse :: "AsciiFlagsConfig \<Rightarrow> AsciiFlagsConfig \<Rightarrow> AsciiFlagsConfig" where
  "AsciiFlagsConfig_Fuse config otherConfig = config OR otherConfig"

text \<open>Inclusion of flags: no bit of the first is missing from the second.\<close>

definition flags_le :: "32 word \<Rightarrow> 32 word \<Rightarrow> bool" where
  "flags_le v c \<longleftrightarrow> v AND NOT c = 0"

lemma flags_le_bits: "flags_le v c \<longleftrightarrow> bits_set v \<subseteq> bits_set c"
  unfolding flags_le_def bits_set_def word32_eq
  using bit_imp_le_length [of v] by (force simp: bit_simps)

lemma bits_set_or [simp]: "bits_set (v OR c) = bits_set v \<union> bits_set c"
  by (auto simp: bits_set_def bit_simps)

lemma bits_set_0 [simp]: "bits_set 0 = {}"
  by (simp add: bits_set_def)

lemma AsciiFlagsConfig_Decide_None: "AsciiFlagsConfig_Decide c v = None \<longleftrightarrow> flags_le v c"
  by (simp add: AsciiFlagsConfig_Decide_def flags_le_def Let_def)

lemma AsciiFlagsConfig_Decide_grave: "grave_opt (AsciiFlagsConfig_Decide c v)"
  by (simp add: AsciiFlagsConfig_Decide_def Let_def)

interpretation ascii_flags: monotone_rules
  "pure_add AsciiFlagsPile_Add" "pure_add AsciiFlagsPile_Merge" 0 "\<lambda>_. True" "\<lambda>_. True"
  "\<lambda>p v. flags_le v p" "\<lambda>_. True"
  "pure_learn AsciiFlagsConfig_Learn" "pure_decide AsciiFlagsConfig_Decide" "\<lambda>_. True"
  by unfold_locales
    (auto simp: AsciiFlagsPile_Add_def AsciiFlagsPile_Merge_def AsciiFlagsConfig_Learn_def
      AsciiFlagsConfig_Decide_None AsciiFlagsConfig_Decide_grave flags_le_bits)

section \<open>A slice of flags\<close>

type_synonym FlagSliceProfile = "32 word list"
type_synonym FlagSlicePile = "32 word list"
type_synonym FlagSliceConfig = "32 word list"

definition mergeFlagSlices :: "32 word list \<Rightarrow> 32 word list \<Rightarrow> 32 word list" where
  "mergeFlagSlices base extra =
     (let base = base @ replicate (length extra - length base) 0
      in fold (\<lambda>(i, v) base. base[i := base ! i OR v]) (enumerate 0 extra) base)"

definition FlagSliceProfile_Profile :: "FlagSliceProfile \<Rightarrow> 32 word list \<Rightarrow> FlagSliceProfile" where
  "FlagSliceProfile_Profile profile vals = (if length vals > 0 then vals else profile)"

definition FlagSlicePile_Add :: "FlagSlicePile \<Rightarrow> FlagSliceProfile \<Rightarrow> FlagSlicePile" where
  "FlagSlicePile_Add pile profile = mergeFlagSlices pile profile"

definition FlagSlicePile_Clear :: "FlagSlicePile \<Rightarrow> FlagSlicePile" where
  "FlagSlicePile_Clear pile = []"

definition FlagSlicePile_Merge :: "FlagSlicePile \<Rightarrow> FlagSlicePile \<Rightarrow> FlagSlicePile" where
  "FlagSlicePile_Merge pile otherPile = mergeFlagSlices pile otherPile"

definition flag_fits :: "FlagSliceConfig \<Rightarrow> nat \<times> 32 word \<Rightarrow> bool" where
  "flag_fits config = (\<lambda>(i, v). v = 0 \<or> (i < length config \<and> v AND NOT (config ! i) = 0))"

definition FlagSliceConfig_Decide :: "FlagSliceConfig \<Rightarrow> FlagSliceProfile \<Rightarrow> decision option" where
  "FlagSliceConfig_Decide config profile =
     fold (\<lambda>x current. if flag_fits config x then current
        else DecideInner current 1
          (''Unexpected Flags in FlagSlice '' @ fmt_x (unat (snd x)) @ '' on Element '' @ fmt_d (fst x)))
       (enumerate 0 profile) None"

definition FlagSliceConfig_Learn :: "FlagSliceConfig \<Rightarrow> FlagSlicePile \<Rightarrow> FlagSliceConfig" where
  "FlagSliceConfig_Learn config pile = mergeFlagSlices config pile"

definition FlagSliceConfig_Prepare :: "FlagSliceConfig \<Rightarrow> FlagSliceConfig" where
  "FlagSliceConfig_Prepare config = config"

definition FlagSliceConfig_Score :: "FlagSliceConfig \<Rightarrow> 32 word" where
  "FlagSliceConfig_Score config = fold count_flags config 0"

definition FlagSliceConfig_Fuse :: "FlagSliceConfig \<Rightarrow> FlagSliceConfig \<Rightarrow> FlagSliceConfig" where
  "FlagSliceConfig_Fuse config otherConfig = mergeFlagSlices config otherConfig"

text \<open>The element at an index, and no flags beyond the end.\<close>

definition flag_at :: "32 word list \<Rightarrow> nat \<Rightarrow> 32 word" where
  "flag_at xs i = (if i < length xs then xs ! i else 0)"

definition slice_le :: "32 word list \<Rightarrow> 32 word list \<Rightarrow> bool" where
  "slice_le v c \<longleftrightarrow> (\<forall>i. flags_le (flag_at v i) (flag_at c i))"

lemma or_loop:
  "length base \<ge> n + length extra \<Longrightarrow>
   length (fold (\<lambda>(i, v) base. base[i := base ! i OR v]) (enumerate n extra) base) = length base \<and>
   flag_at (fold (\<lambda>(i, v) base. base[i := base ! i OR v]) (enumerate n extra) base) j =
     (if n \<le> j then flag_at base j OR flag_at extra (j - n) else flag_at base j)"
proof (induction extra arbitrary: n base)
  case (Cons v extra)
  then show ?case
    using Cons.IH [of "Suc n" "base[n := base ! n OR v]"]
    by (auto simp: flag_at_def nth_list_update nth_Cons' Suc_le_eq)
qed (simp add: flag_at_def)

lemma flag_at_merge: "flag_at (mergeFlagSlices base extra) i = flag_at base i OR flag_at extra i"
proof -
  let ?b = "base @ replicate (length extra - length base) 0"
  have "flag_at ?b i = flag_at base i"
    by (auto simp: flag_at_def nth_append)
  then show ?thesis
    using or_loop [of 0 extra ?b i] by (simp add: mergeFlagSlices_def)
qed

lemma length_mergeFlagSlices: "length (mergeFlagSlices base extra) = max (length base) (length extra)"
  using or_loop [of 0 extra "base @ replicate (length extra - length base) 0"]
  by (simp add: mergeFlagSlices_def max_def)

lemma FlagSliceConfig_Decide_None: "FlagSliceConfig_Decide c v = None \<longleftrightarrow> slice_le v c"
proof -
  have "(\<forall>x \<in> set (enumerate 0 v). flag_fits c x) \<longleftrightarrow> (\<forall>i < length v. flag_fits c (i, v ! i))"
    by (force simp: in_set_enumerate_eq)
  also have "\<dots> \<longleftrightarrow> slice_le v c"
    by (auto simp: slice_le_def flags_le_def flag_at_def flag_fits_def)
  finally show ?thesis by (simp add: FlagSliceConfig_Decide_def)
qed

lemma slice_le_bits: "slice_le v c \<longleftrightarrow> (\<forall>i. bits_set (flag_at v i) \<subseteq> bits_set (flag_at c i))"
  by (simp add: slice_le_def flags_le_bits)

lemma slice_le_merge: "slice_le v (mergeFlagSlices b e) \<longleftrightarrow>
    (\<forall>i. bits_set (flag_at v i) \<subseteq> bits_set (flag_at b i) \<union> bits_set (flag_at e i))"
  by (simp add: slice_le_bits flag_at_merge)

lemma FlagSliceConfig_Decide_grave: "grave_opt (FlagSliceConfig_Decide c v)"
  by (simp add: FlagSliceConfig_Decide_def)

interpretation flag_slice: monotone_rules
  "pure_add FlagSlicePile_Add" "pure_add FlagSlicePile_Merge" "[]" "\<lambda>_. True" "\<lambda>_. True"
  "\<lambda>p v. slice_le v p" "\<lambda>_. True"
  "pure_learn FlagSliceConfig_Learn" "pure_decide FlagSliceConfig_Decide" "\<lambda>_. True"
  by unfold_locales
    (auto simp: FlagSlicePile_Add_def FlagSlicePile_Merge_def FlagSliceConfig_Learn_def flag_at_merge
      FlagSliceConfig_Decide_None FlagSliceConfig_Decide_grave slice_le_bits)

section \<open>Scores\<close>

lemma fold_count_flags: "fold count_flags ws cnt = cnt + of_nat (\<Sum>w\<leftarrow>ws. card (bits_set w))"
  by (induction ws arbitrary: cnt) (simp_all add: count_flags_card)

lemma card_sum_le: "(\<Sum>w\<leftarrow>ws. card (bits_set w)) \<le> 32 * length ws"
  by (induction ws) (use card_bits_set_le in \<open>auto simp: add_mono\<close>)

lemma FlagSliceConfig_Score_card:
  assumes "length config < 2 ^ 27"
  shows "unat (FlagSliceConfig_Score config) = (\<Sum>w\<leftarrow>config. card (bits_set w))"
proof -
  have "(\<Sum>w\<leftarrow>config. card (bits_set w)) < 2 ^ 32"
    using card_sum_le [of config] assms by simp
  then show ?thesis
    by (simp add: FlagSliceConfig_Score_def fold_count_flags unat_of_nat)
qed

text \<open>
  The score of a criteria of flags is how many flags it accepts: both scoring loops
  terminate and count the bits set, with no wrap-around for a slice below \<open>2 ^ 27\<close> words
  (the Unicode blocks fill 272 words).
\<close>

theorem Score_counts_flags:
  assumes "length config < 2 ^ 27"
  shows "unat (FlagSliceConfig_Score config) = (\<Sum>w\<leftarrow>config. card {n. bit w n})
    \<and> unat (AsciiFlagsConfig_Score flags) = card {n. bit flags n}"
proof
  show "unat (FlagSliceConfig_Score config) = (\<Sum>w\<leftarrow>config. card {n. bit w n})"
    using FlagSliceConfig_Score_card [OF assms] by (simp add: bits_set_def)
  show "unat (AsciiFlagsConfig_Score flags) = card {n. bit flags n}"
    using FlagSliceConfig_Score_card [of "[flags]"]
    by (simp add: FlagSliceConfig_Score_def AsciiFlagsConfig_Score_def bits_set_def)
qed

theorem Score_counts_flags_witness:
  "unat (FlagSliceConfig_Score [3, 0, 1]) = (\<Sum>w\<leftarrow>[3, 0, 1 :: 32 word]. card {n. bit w n})
    \<and> unat (AsciiFlagsConfig_Score 5) = card {n. bit (5 :: 32 word) n}"
  by (rule Score_counts_flags) simp

end
