(* ===== verification/Simple_Vals.thy ===== *)
theory Simple_Vals
  imports Limits Flags
begin

text \<open>
  \<open>pkg/apis/guard/v1alpha1/simpleVal.go\<close>: the profile of one string value, made of limits
  on the kinds of characters it has and of the flags of the special ones. \<open>scan_rune\<close> is one
  turn of the profiling loop over the variables of \<open>Profile\<close>; the rest of the file lifts the
  micro-rules of its nine fields.
\<close>

section \<open>Slots\<close>

abbreviation ExclamationSlot :: nat where "ExclamationSlot \<equiv> 0"
abbreviation DoubleQuoteSlot :: nat where "DoubleQuoteSlot \<equiv> 1"
abbreviation NumberSlot :: nat where "NumberSlot \<equiv> 2"
abbreviation DollarSlot :: nat where "DollarSlot \<equiv> 3"
abbreviation PercentSlot :: nat where "PercentSlot \<equiv> 4"
abbreviation AmpersandSlot :: nat where "AmpersandSlot \<equiv> 5"
abbreviation SingleQuoteSlot :: nat where "SingleQuoteSlot \<equiv> 6"
abbreviation RoundBracketSlot :: nat where "RoundBracketSlot \<equiv> 7"
abbreviation AsteriskSlot :: nat where "AsteriskSlot \<equiv> 8"
abbreviation PlusSlot :: nat where "PlusSlot \<equiv> 9"
abbreviation CommaSlot :: nat where "CommaSlot \<equiv> 10"
abbreviation MinusSlot :: nat where "MinusSlot \<equiv> 11"
abbreviation PeriodSlot :: nat where "PeriodSlot \<equiv> 12"
abbreviation SlashSlot :: nat where "SlashSlot \<equiv> 13"
abbreviation ColonSlot :: nat where "ColonSlot \<equiv> 14"
abbreviation SemiSlot :: nat where "SemiSlot \<equiv> 15"
abbreviation LtGtSlot :: nat where "LtGtSlot \<equiv> 16"
abbreviation EqualSlot :: nat where "EqualSlot \<equiv> 17"
abbreviation QuestionSlot :: nat where "QuestionSlot \<equiv> 18"
abbreviation AtSlot :: nat where "AtSlot \<equiv> 19"
abbreviation BackslashSlot :: nat where "BackslashSlot \<equiv> 20"
abbreviation SquareBracketSlot :: nat where "SquareBracketSlot \<equiv> 21"
abbreviation PowerSlot :: nat where "PowerSlot \<equiv> 22"
abbreviation UnderscoreSlot :: nat where "UnderscoreSlot \<equiv> 23"
abbreviation AccentSlot :: nat where "AccentSlot \<equiv> 24"
abbreviation PipeSlot :: nat where "PipeSlot \<equiv> 25"
abbreviation CurlyBracketSlot :: nat where "CurlyBracketSlot \<equiv> 26"
abbreviation HomeSlot :: nat where "HomeSlot \<equiv> 27"
abbreviation CommentsSlot :: nat where "CommentsSlot \<equiv> 30"
abbreviation HexSlot :: nat where "HexSlot \<equiv> 31"
abbreviation LetterSlot :: nat where "LetterSlot \<equiv> 32"
abbreviation DigitSlot :: nat where "DigitSlot \<equiv> 33"
abbreviation NonReadableSlot :: nat where "NonReadableSlot \<equiv> 34"
abbreviation SpaceSlot :: nat where "SpaceSlot \<equiv> 35"

definition asciiMap :: "nat list" where
  "asciiMap =
    replicate 32 NonReadableSlot @
    [SpaceSlot, ExclamationSlot, DoubleQuoteSlot, NumberSlot, DollarSlot, PercentSlot, AmpersandSlot, SingleQuoteSlot,
     RoundBracketSlot, RoundBracketSlot, AsteriskSlot, PlusSlot, CommaSlot, MinusSlot, PeriodSlot, SlashSlot,
     DigitSlot, DigitSlot, DigitSlot, DigitSlot, DigitSlot, DigitSlot, DigitSlot, DigitSlot,
     DigitSlot, DigitSlot, ColonSlot, SemiSlot, LtGtSlot, EqualSlot, LtGtSlot, QuestionSlot, AtSlot] @
    replicate 26 LetterSlot @
    [SquareBracketSlot, BackslashSlot, SquareBracketSlot, PowerSlot, UnderscoreSlot, AccentSlot] @
    replicate 26 LetterSlot @
    [CurlyBracketSlot, PipeSlot, CurlyBracketSlot, HomeSlot, NonReadableSlot]"

datatype seq_type = seqNone | seqLetter | seqDigit | seqUnicode | seqSpace | seqSpecialChar | seqNonReadable

section \<open>Profile\<close>

record SimpleValProfile =
  VP_Digits :: LimitProfile
  VP_Letters :: LimitProfile
  VP_Spaces :: LimitProfile
  VP_SpecialChars :: LimitProfile
  VP_NonReadables :: LimitProfile
  VP_Unicodes :: LimitProfile
  VP_Sequences :: LimitProfile
  VP_Flags :: AsciiFlagsProfile
  VP_UnicodeFlags :: FlagSliceProfile

definition new_SimpleValProfile :: SimpleValProfile where
  "new_SimpleValProfile = \<lparr>VP_Digits = 0, VP_Letters = 0, VP_Spaces = 0, VP_SpecialChars = 0,
     VP_NonReadables = 0, VP_Unicodes = 0, VP_Sequences = 0, VP_Flags = 0, VP_UnicodeFlags = []\<rparr>"

record scan =
  flags :: "32 word"
  unicodeFlags :: "32 word list"
  digitCounter :: "64 word"
  letterCounter :: "64 word"
  specialCharCounter :: "64 word"
  sequenceCounter :: "64 word"
  nonReadableCounter :: "64 word"
  spaceCounter :: "64 word"
  totalCounter :: "64 word"
  unicodeCounter :: "64 word"
  zero :: bool
  asterisk :: bool
  slash :: bool
  minus :: bool
  seqType :: seq_type
  seqPrevType :: seq_type

definition scan_init :: scan where
  "scan_init = \<lparr>flags = 0, unicodeFlags = [], digitCounter = 0, letterCounter = 0, specialCharCounter = 0,
     sequenceCounter = 0, nonReadableCounter = 0, spaceCounter = 0, totalCounter = 0, unicodeCounter = 0,
     zero = False, asterisk = False, slash = False, minus = False, seqType = seqNone, seqPrevType = seqNone\<rparr>"

text \<open>The body of the switch on \<open>asciiMap[c]\<close>.\<close>

definition scan_ascii :: "nat \<Rightarrow> scan \<Rightarrow> scan" where
  "scan_ascii c s =
     (let asciiType = asciiMap ! c in
      if asciiType = LetterSlot then
        (let s = s\<lparr>seqType := seqLetter, letterCounter := letterCounter s + 1\<rparr>
         in if zero s \<and> (c = 88 \<or> c = 120) then s\<lparr>flags := flags s OR push_bit HexSlot 1\<rparr> else s)
      else if asciiType = DigitSlot then s\<lparr>seqType := seqDigit, digitCounter := digitCounter s + 1\<rparr>
      else if asciiType = NonReadableSlot then s\<lparr>seqType := seqNonReadable, nonReadableCounter := nonReadableCounter s + 1\<rparr>
      else if asciiType = SpaceSlot then s\<lparr>seqType := seqSpace, spaceCounter := spaceCounter s + 1\<rparr>
      else
        (let s = s\<lparr>seqType := seqSpecialChar, specialCharCounter := specialCharCounter s + 1,
                   flags := flags s OR push_bit asciiType 1\<rparr>;
             s = (if asterisk s \<and> c = 47 then s\<lparr>flags := flags s OR push_bit CommentsSlot 1\<rparr> else s);
             s = (if slash s \<and> c = 42 then s\<lparr>flags := flags s OR push_bit CommentsSlot 1\<rparr> else s)
         in if minus s \<and> c = 45 then s\<lparr>flags := flags s OR push_bit CommentsSlot 1\<rparr> else s))"

definition set_block :: "nat \<Rightarrow> 32 word list \<Rightarrow> 32 word list" where
  "set_block c uflags =
     (let block = c div 0x80 - 1;
          blockBit = block mod 0x20;
          blockElement = block div 0x20;
          uflags = (if blockElement \<ge> length uflags
                    then uflags @ replicate (blockElement - length uflags + 1) 0 else uflags)
      in uflags[blockElement := uflags ! blockElement OR push_bit blockBit 1])"

definition scan_rune :: "nat \<Rightarrow> scan \<Rightarrow> scan" where
  "scan_rune c s =
     (let s = s\<lparr>totalCounter := totalCounter s + 1\<rparr>;
          s = (if c < 128 then scan_ascii c s
               else s\<lparr>seqType := seqUnicode, unicodeCounter := unicodeCounter s + 1,
                      unicodeFlags := set_block c (unicodeFlags s)\<rparr>);
          s = s\<lparr>zero := (c = 48), asterisk := (c = 42), slash := (c = 47), minus := (c = 45)\<rparr>
      in if seqType s \<noteq> seqPrevType s
         then s\<lparr>sequenceCounter := sequenceCounter s + 1, seqPrevType := seqType s\<rparr> else s)"

definition scan_runes :: "nat list \<Rightarrow> scan" where
  "scan_runes cs = fold scan_rune cs scan_init"

definition SimpleValProfile_Profile :: "SimpleValProfile \<Rightarrow> string \<Rightarrow> SimpleValProfile" where
  "SimpleValProfile_Profile profile val =
     (let s = scan_runes (runes val) in
      profile\<lparr>VP_Spaces := LimitProfile_Profile (spaceCounter s),
        VP_Unicodes := LimitProfile_Profile (unicodeCounter s),
        VP_NonReadables := LimitProfile_Profile (nonReadableCounter s),
        VP_Digits := LimitProfile_Profile (digitCounter s),
        VP_Letters := LimitProfile_Profile (letterCounter s),
        VP_SpecialChars := LimitProfile_Profile (specialCharCounter s),
        VP_Sequences := LimitProfile_Profile (sequenceCounter s),
        VP_Flags := AsciiFlagsProfile_Profile (flags s),
        VP_UnicodeFlags := FlagSliceProfile_Profile (VP_UnicodeFlags profile) (unicodeFlags s)\<rparr>)"

section \<open>Pile\<close>

record SimpleValPile =
  VQ_Digits :: LimitPile
  VQ_Letters :: LimitPile
  VQ_Spaces :: LimitPile
  VQ_SpecialChars :: LimitPile
  VQ_NonReadables :: LimitPile
  VQ_Unicodes :: LimitPile
  VQ_Sequences :: LimitPile
  VQ_Flags :: AsciiFlagsPile
  VQ_UnicodeFlags :: FlagSlicePile

definition new_SimpleValPile :: SimpleValPile where
  "new_SimpleValPile = \<lparr>VQ_Digits = [], VQ_Letters = [], VQ_Spaces = [], VQ_SpecialChars = [],
     VQ_NonReadables = [], VQ_Unicodes = [], VQ_Sequences = [], VQ_Flags = 0, VQ_UnicodeFlags = []\<rparr>"

definition SimpleValPile_Add :: "SimpleValPile \<Rightarrow> SimpleValProfile \<Rightarrow> SimpleValPile" where
  "SimpleValPile_Add pile profile = pile\<lparr>
     VQ_Letters := LimitPile_Add (VQ_Letters pile) (VP_Letters profile),
     VQ_Digits := LimitPile_Add (VQ_Digits pile) (VP_Digits profile),
     VQ_Spaces := LimitPile_Add (VQ_Spaces pile) (VP_Spaces profile),
     VQ_SpecialChars := LimitPile_Add (VQ_SpecialChars pile) (VP_SpecialChars profile),
     VQ_NonReadables := LimitPile_Add (VQ_NonReadables pile) (VP_NonReadables profile),
     VQ_Unicodes := LimitPile_Add (VQ_Unicodes pile) (VP_Unicodes profile),
     VQ_Sequences := LimitPile_Add (VQ_Sequences pile) (VP_Sequences profile),
     VQ_Flags := AsciiFlagsPile_Add (VQ_Flags pile) (VP_Flags profile),
     VQ_UnicodeFlags := FlagSlicePile_Add (VQ_UnicodeFlags pile) (VP_UnicodeFlags profile)\<rparr>"

definition SimpleValPile_Merge :: "SimpleValPile \<Rightarrow> SimpleValPile \<Rightarrow> SimpleValPile" where
  "SimpleValPile_Merge pile otherPile = pile\<lparr>
     VQ_Digits := LimitPile_Merge (VQ_Digits pile) (VQ_Digits otherPile),
     VQ_Letters := LimitPile_Merge (VQ_Letters pile) (VQ_Letters otherPile),
     VQ_Spaces := LimitPile_Merge (VQ_Spaces pile) (VQ_Spaces otherPile),
     VQ_SpecialChars := LimitPile_Merge (VQ_SpecialChars pile) (VQ_SpecialChars otherPile),
     VQ_NonReadables := LimitPile_Merge (VQ_NonReadables pile) (VQ_NonReadables otherPile),
     VQ_Unicodes := LimitPile_Merge (VQ_Unicodes pile) (VQ_Unicodes otherPile),
     VQ_Sequences := LimitPile_Merge (VQ_Sequences pile) (VQ_Sequences otherPile),
     VQ_Flags := AsciiFlagsPile_Merge (VQ_Flags pile) (VQ_Flags otherPile),
     VQ_UnicodeFlags := FlagSlicePile_Merge (VQ_UnicodeFlags pile) (VQ_UnicodeFlags otherPile)\<rparr>"

definition SimpleValPile_Clear :: "SimpleValPile \<Rightarrow> SimpleValPile" where
  "SimpleValPile_Clear pile = pile\<lparr>
     VQ_Digits := LimitPile_Clear (VQ_Digits pile),
     VQ_Letters := LimitPile_Clear (VQ_Letters pile),
     VQ_Spaces := LimitPile_Clear (VQ_Spaces pile),
     VQ_SpecialChars := LimitPile_Clear (VQ_SpecialChars pile),
     VQ_NonReadables := LimitPile_Clear (VQ_NonReadables pile),
     VQ_Unicodes := LimitPile_Clear (VQ_Unicodes pile),
     VQ_Sequences := LimitPile_Clear (VQ_Sequences pile),
     VQ_Flags := AsciiFlagsPile_Clear (VQ_Flags pile),
     VQ_UnicodeFlags := FlagSlicePile_Clear (VQ_UnicodeFlags pile)\<rparr>"

section \<open>Criteria\<close>

record SimpleValConfig =
  VC_Digits :: LimitConfig
  VC_Letters :: LimitConfig
  VC_Spaces :: LimitConfig
  VC_SpecialChars :: LimitConfig
  VC_NonReadables :: LimitConfig
  VC_Unicodes :: LimitConfig
  VC_Sequences :: LimitConfig
  VC_Flags :: AsciiFlagsConfig
  VC_UnicodeFlags :: FlagSliceConfig
  VC_score :: "32 word"

definition new_SimpleValConfig :: SimpleValConfig where
  "new_SimpleValConfig = \<lparr>VC_Digits = 0, VC_Letters = 0, VC_Spaces = 0, VC_SpecialChars = 0,
     VC_NonReadables = 0, VC_Unicodes = 0, VC_Sequences = 0, VC_Flags = 0, VC_UnicodeFlags = [], VC_score = 0\<rparr>"

definition SimpleValConfig_Learn :: "SimpleValConfig \<Rightarrow> SimpleValPile \<Rightarrow> SimpleValConfig" where
  "SimpleValConfig_Learn config pile = config\<lparr>
     VC_Digits := LimitConfig_Learn (VC_Digits config) (VQ_Digits pile),
     VC_Letters := LimitConfig_Learn (VC_Letters config) (VQ_Letters pile),
     VC_Spaces := LimitConfig_Learn (VC_Spaces config) (VQ_Spaces pile),
     VC_SpecialChars := LimitConfig_Learn (VC_SpecialChars config) (VQ_SpecialChars pile),
     VC_NonReadables := LimitConfig_Learn (VC_NonReadables config) (VQ_NonReadables pile),
     VC_Unicodes := LimitConfig_Learn (VC_Unicodes config) (VQ_Unicodes pile),
     VC_Sequences := LimitConfig_Learn (VC_Sequences config) (VQ_Sequences pile),
     VC_Flags := AsciiFlagsConfig_Learn (VC_Flags config) (VQ_Flags pile),
     VC_UnicodeFlags := FlagSliceConfig_Learn (VC_UnicodeFlags config) (VQ_UnicodeFlags pile)\<rparr>"

definition SimpleValConfig_Decide :: "SimpleValConfig \<Rightarrow> SimpleValProfile \<Rightarrow> decision option" where
  "SimpleValConfig_Decide config profile =
     (let current = None;
          current = DecideChild current (LimitConfig_Decide (VC_Letters config) (VP_Letters profile)) ''Letters'';
          current = DecideChild current (LimitConfig_Decide (VC_Digits config) (VP_Digits profile)) ''Digits'';
          current = DecideChild current (LimitConfig_Decide (VC_Spaces config) (VP_Spaces profile)) ''Spaces'';
          current = DecideChild current (LimitConfig_Decide (VC_SpecialChars config) (VP_SpecialChars profile)) ''SpecialChars'';
          current = DecideChild current (LimitConfig_Decide (VC_NonReadables config) (VP_NonReadables profile)) ''NonReadables'';
          current = DecideChild current (LimitConfig_Decide (VC_Unicodes config) (VP_Unicodes profile)) ''Unicodes'';
          current = DecideChild current (LimitConfig_Decide (VC_Sequences config) (VP_Sequences profile)) ''Sequences'';
          current = DecideChild current (AsciiFlagsConfig_Decide (VC_Flags config) (VP_Flags profile)) ''Special Chars Used'';
          current = DecideChild current (FlagSliceConfig_Decide (VC_UnicodeFlags config) (VP_UnicodeFlags profile)) ''Unicode Blocks''
      in current)"

definition SimpleValConfig_Prepare :: "SimpleValConfig \<Rightarrow> SimpleValConfig" where
  "SimpleValConfig_Prepare config = config\<lparr>
     VC_Digits := LimitConfig_Prepare (VC_Digits config),
     VC_Letters := LimitConfig_Prepare (VC_Letters config),
     VC_Spaces := LimitConfig_Prepare (VC_Spaces config),
     VC_SpecialChars := LimitConfig_Prepare (VC_SpecialChars config),
     VC_NonReadables := LimitConfig_Prepare (VC_NonReadables config),
     VC_Unicodes := LimitConfig_Prepare (VC_Unicodes config),
     VC_Sequences := LimitConfig_Prepare (VC_Sequences config),
     VC_Flags := AsciiFlagsConfig_Prepare (VC_Flags config),
     VC_UnicodeFlags := FlagSliceConfig_Prepare (VC_UnicodeFlags config)\<rparr>"

text \<open>\<open>Score\<close> keeps its result in the field \<open>score\<close>, where zero means not computed yet.\<close>

definition SimpleValConfig_Score :: "SimpleValConfig \<Rightarrow> 32 word \<times> SimpleValConfig" where
  "SimpleValConfig_Score config =
     (if VC_score config = 0 then
        (let score = 0;
             score = score + LimitConfig_Score (VC_SpecialChars config);
             score = score + LimitConfig_Score (VC_NonReadables config);
             score = score + LimitConfig_Score (VC_Sequences config);
             score = score + AsciiFlagsConfig_Score (VC_Flags config);
             score = score + FlagSliceConfig_Score (VC_UnicodeFlags config);
             score = score * 4;
             score = score + LimitConfig_Score (VC_Digits config);
             score = score + LimitConfig_Score (VC_Letters config);
             score = score + LimitConfig_Score (VC_Spaces config);
             score = score + LimitConfig_Score (VC_Unicodes config)
         in (score, config\<lparr>VC_score := score\<rparr>))
      else (VC_score config, config))"

definition SimpleValConfig_Fuse :: "SimpleValConfig \<Rightarrow> SimpleValConfig \<Rightarrow> SimpleValConfig" where
  "SimpleValConfig_Fuse config otherConfig = config\<lparr>
     VC_Digits := LimitConfig_Fuse (VC_Digits config) (VC_Digits otherConfig),
     VC_Letters := LimitConfig_Fuse (VC_Letters config) (VC_Letters otherConfig),
     VC_Spaces := LimitConfig_Fuse (VC_Spaces config) (VC_Spaces otherConfig),
     VC_SpecialChars := LimitConfig_Fuse (VC_SpecialChars config) (VC_SpecialChars otherConfig),
     VC_NonReadables := LimitConfig_Fuse (VC_NonReadables config) (VC_NonReadables otherConfig),
     VC_Unicodes := LimitConfig_Fuse (VC_Unicodes config) (VC_Unicodes otherConfig),
     VC_Sequences := LimitConfig_Fuse (VC_Sequences config) (VC_Sequences otherConfig),
     VC_Flags := AsciiFlagsConfig_Fuse (VC_Flags config) (VC_Flags otherConfig),
     VC_UnicodeFlags := FlagSliceConfig_Fuse (VC_UnicodeFlags config) (VC_UnicodeFlags otherConfig)\<rparr>"

section \<open>Learning, deciding and fusing\<close>

lemma SimpleValConfig_Decide_None:
  "SimpleValConfig_Decide c v = None \<longleftrightarrow>
     VP_Digits v \<le> VC_Digits c \<and> VP_Letters v \<le> VC_Letters c \<and> VP_Spaces v \<le> VC_Spaces c \<and>
     VP_SpecialChars v \<le> VC_SpecialChars c \<and> VP_NonReadables v \<le> VC_NonReadables c \<and>
     VP_Unicodes v \<le> VC_Unicodes c \<and> VP_Sequences v \<le> VC_Sequences c \<and>
     flags_le (VP_Flags v) (VC_Flags c) \<and> slice_le (VP_UnicodeFlags v) (VC_UnicodeFlags c)"
  by (auto simp: SimpleValConfig_Decide_def LimitConfig_Decide_None AsciiFlagsConfig_Decide_None
      FlagSliceConfig_Decide_None)

lemma SimpleValConfig_Decide_grave [simp]: "grave_opt (SimpleValConfig_Decide c v)"
  by (simp add: SimpleValConfig_Decide_def Let_def LimitConfig_Decide_grave AsciiFlagsConfig_Decide_grave
      FlagSliceConfig_Decide_grave)

definition simple_covers :: "SimpleValPile \<Rightarrow> SimpleValProfile \<Rightarrow> bool" where
  "simple_covers p v \<longleftrightarrow>
     VP_Digits v \<in> set (VQ_Digits p) \<and> VP_Letters v \<in> set (VQ_Letters p) \<and> VP_Spaces v \<in> set (VQ_Spaces p) \<and>
     VP_SpecialChars v \<in> set (VQ_SpecialChars p) \<and> VP_NonReadables v \<in> set (VQ_NonReadables p) \<and>
     VP_Unicodes v \<in> set (VQ_Unicodes p) \<and> VP_Sequences v \<in> set (VQ_Sequences p) \<and>
     flags_le (VP_Flags v) (VQ_Flags p) \<and> slice_le (VP_UnicodeFlags v) (VQ_UnicodeFlags p)"

lemmas simple_add = SimpleValPile_Add_def SimpleValPile_Merge_def LimitPile_Add_def LimitPile_Merge_def
  AsciiFlagsPile_Add_def AsciiFlagsPile_Merge_def FlagSlicePile_Add_def FlagSlicePile_Merge_def

lemmas simple_learn = SimpleValConfig_Learn_def AsciiFlagsConfig_Learn_def FlagSliceConfig_Learn_def

lemma flags_le_or: "flags_le v a \<or> flags_le v b \<Longrightarrow> flags_le v (a OR b)"
  by (auto simp: flags_le_bits)

lemma flags_le_refl [simp]: "flags_le v v"
  by (simp add: flags_le_bits)

lemma flags_le_or2 [simp]: "flags_le v (a OR v)"
  by (simp add: flags_le_or)

lemma slice_le_refl [simp]: "slice_le v v"
  by (simp add: slice_le_def)

lemma slice_le_merge1: "slice_le v a \<or> slice_le v b \<Longrightarrow> slice_le v (mergeFlagSlices a b)"
  by (auto simp: slice_le_def flag_at_merge intro: flags_le_or)

lemma slice_le_merge2 [simp]: "slice_le v (mergeFlagSlices a v)"
  by (simp add: slice_le_merge1)

lemma SimpleValPile_Add_covers:
  "simple_covers (SimpleValPile_Add p v) v"
  "simple_covers p u \<Longrightarrow> simple_covers (SimpleValPile_Add p v) u"
  by (simp_all add: simple_covers_def simple_add flags_le_or slice_le_merge1)

lemma SimpleValPile_Merge_covers:
  "simple_covers p u \<or> simple_covers q u \<Longrightarrow> simple_covers (SimpleValPile_Merge p q) u"
  by (auto simp: simple_covers_def simple_add flags_le_or slice_le_merge1)

lemma flags_le_trans: "flags_le a b \<Longrightarrow> flags_le b c \<Longrightarrow> flags_le a c"
  by (auto simp: flags_le_bits)

lemma slice_le_trans: "slice_le a b \<Longrightarrow> slice_le b c \<Longrightarrow> slice_le a c"
  by (meson flags_le_trans slice_le_def)

lemma SimpleValConfig_Learn_accepts:
  "simple_covers p u \<Longrightarrow> SimpleValConfig_Decide (SimpleValConfig_Learn c p) u = None"
  by (simp add: SimpleValConfig_Decide_None simple_covers_def simple_learn LimitConfig_Learn_ge
      flags_le_or slice_le_merge1)

lemma SimpleValConfig_Learn_keeps:
  "SimpleValConfig_Decide c u = None \<Longrightarrow> SimpleValConfig_Decide (SimpleValConfig_Learn c p) u = None"
  using LimitConfig_Learn_ge(1)
  by (auto simp: SimpleValConfig_Decide_None simple_learn flags_le_or slice_le_merge1 intro: order_trans)

lemma SimpleValConfig_Fuse_accepts:
  "SimpleValConfig_Decide c u = None \<or> SimpleValConfig_Decide c' u = None \<Longrightarrow>
     SimpleValConfig_Decide (SimpleValConfig_Fuse c c') u = None"
  by (auto simp: SimpleValConfig_Decide_None SimpleValConfig_Fuse_def LimitConfig_Fuse_eq AsciiFlagsConfig_Fuse_def
      FlagSliceConfig_Fuse_def flags_le_or slice_le_merge1 max.coboundedI1 max.coboundedI2)

lemma SimpleValConfig_Decide_score [simp]:
  "SimpleValConfig_Decide (snd (SimpleValConfig_Score c)) = SimpleValConfig_Decide c"
  by (rule ext) (simp add: SimpleValConfig_Score_def SimpleValConfig_Decide_def Let_def)

lemma SimpleValConfig_Decide_Prepare [simp]:
  "SimpleValConfig_Decide (SimpleValConfig_Prepare c) = SimpleValConfig_Decide c"
  by (rule ext) (simp add: SimpleValConfig_Prepare_def SimpleValConfig_Decide_def Let_def
      LimitConfig_Prepare_def AsciiFlagsConfig_Prepare_def FlagSliceConfig_Prepare_def)

interpretation simple: monotone_rules
  "pure_add SimpleValPile_Add" "pure_add SimpleValPile_Merge" new_SimpleValPile "\<lambda>_. True" "\<lambda>_. True"
  simple_covers "\<lambda>_. True" "pure_learn SimpleValConfig_Learn" "pure_decide SimpleValConfig_Decide" "\<lambda>_. True"
  by unfold_locales
    (auto simp: SimpleValPile_Add_covers SimpleValPile_Merge_covers SimpleValConfig_Learn_accepts
      SimpleValConfig_Learn_keeps)

section \<open>The score\<close>

text \<open>The score on unbounded numbers: what is costly to attack with counts four times.\<close>

definition score_value :: "SimpleValConfig \<Rightarrow> nat" where
  "score_value c =
     4 * (unat (VC_SpecialChars c) + unat (VC_NonReadables c) + unat (VC_Sequences c)
          + card (bits_set (VC_Flags c)) + (\<Sum>w\<leftarrow>VC_UnicodeFlags c. card (bits_set w)))
     + unat (VC_Digits c) + unat (VC_Letters c) + unat (VC_Spaces c) + unat (VC_Unicodes c)"

lemma SimpleValConfig_Score_value:
  assumes "VC_score c = 0" and "length (VC_UnicodeFlags c) < 2 ^ 24"
  shows "unat (fst (SimpleValConfig_Score c)) = score_value c"
proof -
  have f: "FlagSliceConfig_Score (VC_UnicodeFlags c) = of_nat (\<Sum>w\<leftarrow>VC_UnicodeFlags c. card (bits_set w))"
    by (simp add: FlagSliceConfig_Score_def fold_count_flags)
  have a: "AsciiFlagsConfig_Score (VC_Flags c) = of_nat (card (bits_set (VC_Flags c)))"
    by (simp add: AsciiFlagsConfig_Score_def count_flags_card)
  have l: "LimitConfig_Score w = of_nat (unat w)" for w
    by (simp add: LimitConfig_Score_def)
  have "fst (SimpleValConfig_Score c) = of_nat (score_value c)"
    using assms(1) by (simp add: SimpleValConfig_Score_def Let_def f a l score_value_def algebra_simps)
  moreover have "score_value c < 2 ^ 32"
  proof -
    have b: "unat w < 256" for w :: "8 word"
      using unsigned_less [of w] by simp
    have "(\<Sum>w\<leftarrow>VC_UnicodeFlags c. card (bits_set w)) < 2 ^ 29"
      using card_sum_le [of "VC_UnicodeFlags c"] assms(2) by simp
    then show ?thesis
      using card_bits_set_le [of "VC_Flags c"] b [of "VC_SpecialChars c"] b [of "VC_NonReadables c"]
        b [of "VC_Sequences c"] b [of "VC_Digits c"] b [of "VC_Letters c"] b [of "VC_Spaces c"] b [of "VC_Unicodes c"]
      unfolding score_value_def by simp
  qed
  ultimately show ?thesis by (simp add: unat_of_nat)
qed

section \<open>What a profile says of its string\<close>

text \<open>The kinds of characters by their codes, and the pairs that raise the combination flags.\<close>

definition rune_class :: "nat \<Rightarrow> seq_type" where
  "rune_class c =
     (if c \<ge> 128 then seqUnicode
      else if 65 \<le> c \<and> c \<le> 90 \<or> 97 \<le> c \<and> c \<le> 122 then seqLetter
      else if 48 \<le> c \<and> c \<le> 57 then seqDigit
      else if c = 32 then seqSpace
      else if c < 32 \<or> c = 127 then seqNonReadable
      else seqSpecialChar)"

definition comment_pair :: "nat \<Rightarrow> nat \<Rightarrow> bool" where
  "comment_pair a b \<longleftrightarrow> (a, b) \<in> {(47, 42), (42, 47), (45, 45)}"

definition hex_pair :: "nat \<Rightarrow> nat \<Rightarrow> bool" where
  "hex_pair a b \<longleftrightarrow> a = 48 \<and> (b = 88 \<or> b = 120)"

fun adjacent :: "('a \<Rightarrow> 'a \<Rightarrow> bool) \<Rightarrow> 'a list \<Rightarrow> bool" where
  "adjacent P (a # b # cs) = (P a b \<or> adjacent P (b # cs))"
| "adjacent P _ = False"

lemma adjacent_snoc: "adjacent P (cs @ [c]) \<longleftrightarrow> adjacent P cs \<or> (cs \<noteq> [] \<and> P (last cs) c)"
  by (induction P cs rule: adjacent.induct) auto

lemma remdups_adj_snoc:
  "length (remdups_adj (xs @ [x])) = length (remdups_adj xs) + (if xs \<noteq> [] \<and> last xs = x then 0 else 1)"
  by (induction xs rule: remdups_adj.induct) auto

text \<open>The table agrees with the codes.\<close>

definition slot_ok :: "nat \<Rightarrow> bool" where
  "slot_ok c = (case rune_class c of
     seqLetter \<Rightarrow> asciiMap ! c = LetterSlot
   | seqDigit \<Rightarrow> asciiMap ! c = DigitSlot
   | seqSpace \<Rightarrow> asciiMap ! c = SpaceSlot
   | seqNonReadable \<Rightarrow> asciiMap ! c = NonReadableSlot
   | seqSpecialChar \<Rightarrow> asciiMap ! c < 28
   | _ \<Rightarrow> False)"

lemma slots_ok: "list_all slot_ok [0..<128]"
  by code_simp

lemma slot_of: "c < 128 \<Longrightarrow> slot_ok c"
  using slots_ok by (simp add: list_all_iff)

lemma rune_class_not_seqNone [simp]: "rune_class c \<noteq> seqNone"
  by (simp add: rune_class_def)

lemma rune_class_unicode: "rune_class c = seqUnicode \<longleftrightarrow> c \<ge> 128"
  by (simp add: rune_class_def)

text \<open>One turn of the loop, by the kind of the character.\<close>

lemma scan_rune_class:
  "seqType (scan_rune c s) = rune_class c \<and>
   seqPrevType (scan_rune c s) = rune_class c \<and>
   sequenceCounter (scan_rune c s) = sequenceCounter s + (if rune_class c = seqPrevType s then 0 else 1) \<and>
   totalCounter (scan_rune c s) = totalCounter s + 1 \<and>
   digitCounter (scan_rune c s) = digitCounter s + (if rune_class c = seqDigit then 1 else 0) \<and>
   letterCounter (scan_rune c s) = letterCounter s + (if rune_class c = seqLetter then 1 else 0) \<and>
   spaceCounter (scan_rune c s) = spaceCounter s + (if rune_class c = seqSpace then 1 else 0) \<and>
   specialCharCounter (scan_rune c s) = specialCharCounter s + (if rune_class c = seqSpecialChar then 1 else 0) \<and>
   nonReadableCounter (scan_rune c s) = nonReadableCounter s + (if rune_class c = seqNonReadable then 1 else 0) \<and>
   unicodeCounter (scan_rune c s) = unicodeCounter s + (if rune_class c = seqUnicode then 1 else 0) \<and>
   unicodeFlags (scan_rune c s) = (if rune_class c = seqUnicode then set_block c (unicodeFlags s) else unicodeFlags s) \<and>
   zero (scan_rune c s) = (c = 48) \<and> asterisk (scan_rune c s) = (c = 42) \<and>
   slash (scan_rune c s) = (c = 47) \<and> minus (scan_rune c s) = (c = 45)"
proof (cases "c < 128")
  case True
  then have "slot_ok c" by (rule slot_of)
  with True show ?thesis
    unfolding scan_rune_def scan_ascii_def slot_ok_def Let_def
    by (cases "rune_class c") (auto simp: rune_class_unicode)
next
  case False
  then have "rune_class c = seqUnicode" by (simp add: rune_class_unicode)
  with False show ?thesis by (simp add: scan_rune_def Let_def)
qed

lemma bit_or_flag: "n < 32 \<Longrightarrow> bit (w OR push_bit n 1) m \<longleftrightarrow> bit w m \<or> m = n" for w :: "32 word"
  by (auto simp: bit_simps)

lemmas bit_or_combination = bit_or_flag [of HexSlot, simplified] bit_or_flag [of CommentsSlot, simplified]

lemma scan_rune_flags:
  "bit (flags (scan_rune c s)) n \<longleftrightarrow> bit (flags s) n
     \<or> (n = HexSlot \<and> zero s \<and> (c = 88 \<or> c = 120))
     \<or> (n = CommentsSlot \<and> (asterisk s \<and> c = 47 \<or> slash s \<and> c = 42 \<or> minus s \<and> c = 45))
     \<or> (rune_class c = seqSpecialChar \<and> n = asciiMap ! c)"
proof (cases "c < 128")
  case True
  then have ok: "slot_ok c" by (rule slot_of)
  have x: "c = 88 \<or> c = 120 \<Longrightarrow> rune_class c = seqLetter" and
    y: "c = 47 \<or> c = 42 \<or> c = 45 \<Longrightarrow> rune_class c = seqSpecialChar"
    by (auto simp: rune_class_def)
  have "flags (scan_ascii c (s\<lparr>totalCounter := t\<rparr>)) = flags (scan_ascii c s)" for t
    by (auto simp: scan_ascii_def Let_def)
  then have f: "flags (scan_rune c s) = flags (scan_ascii c s)"
    using True by (simp add: scan_rune_def Let_def)
  show ?thesis
  proof (cases "rune_class c")
    case seqLetter
    with ok have m: "asciiMap ! c = LetterSlot" by (simp add: slot_ok_def)
    from seqLetter y show ?thesis
      unfolding f by (auto simp: scan_ascii_def Let_def m bit_or_combination)
  next
    case seqSpecialChar
    with ok have m: "asciiMap ! c < 28" by (simp add: slot_ok_def)
    let ?C = "asterisk s \<and> c = 47 \<or> slash s \<and> c = 42 \<or> minus s \<and> c = 45"
    have "flags (scan_ascii c s) =
      (let w = flags s OR push_bit (asciiMap ! c) 1 in if ?C then w OR push_bit CommentsSlot 1 else w)"
      using m by (auto simp: scan_ascii_def Let_def)
    then have "bit (flags (scan_ascii c s)) n \<longleftrightarrow> (bit (flags s) n \<or> n = asciiMap ! c) \<or> (n = CommentsSlot \<and> ?C)"
      using bit_or_flag [of "asciiMap ! c"] m by (simp add: Let_def bit_or_combination) blast
    with seqSpecialChar x show ?thesis
      unfolding f by auto
  qed (use ok True x y in \<open>auto simp: f slot_ok_def scan_ascii_def Let_def\<close>)
next
  case False
  then show ?thesis by (auto simp: scan_rune_def Let_def rune_class_def)
qed

lemma flag_at_padded: "flag_at (us @ replicate k 0) j = flag_at us j"
  by (auto simp: flag_at_def nth_append)

lemma flag_at_set_block:
  "bit (flag_at (set_block c us) i) n \<longleftrightarrow>
     bit (flag_at us i) n \<or> (i = (c div 128 - 1) div 32 \<and> n = (c div 128 - 1) mod 32)"
proof -
  let ?e = "(c div 128 - 1) div 32" and ?b = "(c div 128 - 1) mod 32"
  define vs where "vs = (if ?e \<ge> length us then us @ replicate (?e - length us + 1) 0 else us)"
  have len: "?e < length vs" by (simp add: vs_def)
  have same: "flag_at vs j = flag_at us j" for j
    by (simp add: vs_def flag_at_padded del: replicate.simps)
  have "set_block c us = vs[?e := vs ! ?e OR push_bit ?b 1]"
    by (simp add: set_block_def Let_def vs_def)
  then have "flag_at (set_block c us) i = (if i = ?e then flag_at vs i OR push_bit ?b 1 else flag_at vs i)"
    using len by (simp add: flag_at_def)
  then show ?thesis
    using bit_or_flag [of ?b "flag_at us i" n] by (auto simp: same)
qed

lemma length_set_block: "length (set_block c us) = max (length us) (Suc ((c div 128 - 1) div 32))"
  by (simp add: set_block_def Let_def max_def)

text \<open>The loop: each variable as a function of the characters read so far.\<close>

lemma scan_runes_snoc: "scan_runes (cs @ [c]) = scan_rune c (scan_runes cs)"
  by (simp add: scan_runes_def)

definition class_count :: "seq_type \<Rightarrow> nat list \<Rightarrow> 64 word" where
  "class_count k cs = of_nat (length (filter (\<lambda>c. rune_class c = k) cs))"

lemma class_count_simps [simp]:
  "class_count k [] = 0"
  "class_count k (cs @ [c]) = class_count k cs + (if rune_class c = k then 1 else 0)"
  by (simp_all add: class_count_def)

lemma scan_runes_counters:
  "totalCounter (scan_runes cs) = of_nat (length cs)
   \<and> digitCounter (scan_runes cs) = class_count seqDigit cs
   \<and> letterCounter (scan_runes cs) = class_count seqLetter cs
   \<and> spaceCounter (scan_runes cs) = class_count seqSpace cs
   \<and> specialCharCounter (scan_runes cs) = class_count seqSpecialChar cs
   \<and> nonReadableCounter (scan_runes cs) = class_count seqNonReadable cs
   \<and> unicodeCounter (scan_runes cs) = class_count seqUnicode cs"
  by (induction cs rule: rev_induct)
    (simp_all add: scan_runes_def [of "[]"] scan_init_def scan_runes_snoc scan_rune_class)

lemma scan_runes_last:
  "seqPrevType (scan_runes cs) = (if cs = [] then seqNone else rune_class (last cs))
   \<and> zero (scan_runes cs) = (cs \<noteq> [] \<and> last cs = 48) \<and> asterisk (scan_runes cs) = (cs \<noteq> [] \<and> last cs = 42)
   \<and> slash (scan_runes cs) = (cs \<noteq> [] \<and> last cs = 47) \<and> minus (scan_runes cs) = (cs \<noteq> [] \<and> last cs = 45)"
  by (cases cs rule: rev_cases)
    (simp_all add: scan_runes_def [of "[]"] scan_init_def scan_runes_snoc scan_rune_class)

lemma scan_runes_sequences:
  "sequenceCounter (scan_runes cs) = of_nat (length (remdups_adj (map rune_class cs)))"
proof (induction cs rule: rev_induct)
  case (snoc c cs)
  then show ?case
    by (simp add: scan_runes_snoc scan_rune_class scan_runes_last remdups_adj_snoc last_map)
qed (simp add: scan_runes_def scan_init_def)

lemma scan_runes_flags:
  "bit (flags (scan_runes cs)) n \<longleftrightarrow>
     (\<exists>c \<in> set cs. rune_class c = seqSpecialChar \<and> n = asciiMap ! c)
     \<or> (n = CommentsSlot \<and> adjacent comment_pair cs) \<or> (n = HexSlot \<and> adjacent hex_pair cs)"
proof (induction cs rule: rev_induct)
  case (snoc c cs)
  then show ?case
    by (auto simp: scan_runes_snoc scan_rune_flags scan_runes_last adjacent_snoc comment_pair_def hex_pair_def)
qed (simp add: scan_runes_def scan_init_def)

lemma scan_runes_blocks:
  "bit (flag_at (unicodeFlags (scan_runes cs)) i) n \<longleftrightarrow>
     (\<exists>c \<in> set cs. 128 \<le> c \<and> i = (c div 128 - 1) div 32 \<and> n = (c div 128 - 1) mod 32)"
proof (induction cs rule: rev_induct)
  case (snoc c cs)
  then show ?case
    by (auto simp: scan_runes_snoc scan_rune_class rune_class_unicode flag_at_set_block)
qed (simp add: scan_runes_def scan_init_def flag_at_def)

lemma scan_runes_blocks_bound:
  assumes "\<forall>c \<in> set cs. c < 0x110000"
  shows "length (unicodeFlags (scan_runes cs)) \<le> 272"
  using assms
proof (induction cs rule: rev_induct)
  case (snoc c cs)
  then have "c div 128 - 1 < 272 * 32" by (auto simp: less_mult_imp_div_less)
  then have "(c div 128 - 1) div 32 < 272" by (simp add: less_mult_imp_div_less)
  with snoc show ?case
    by (simp add: scan_runes_snoc scan_rune_class length_set_block)
qed (simp add: scan_runes_def scan_init_def)

lemma length_filter_classes:
  "length (filter (\<lambda>c. rune_class c = seqDigit) cs) + length (filter (\<lambda>c. rune_class c = seqLetter) cs)
   + length (filter (\<lambda>c. rune_class c = seqSpace) cs) + length (filter (\<lambda>c. rune_class c = seqSpecialChar) cs)
   + length (filter (\<lambda>c. rune_class c = seqNonReadable) cs) + length (filter (\<lambda>c. rune_class c = seqUnicode) cs)
   = length cs"
proof (induction cs)
  case (Cons c cs)
  then show ?case by (cases "rune_class c") simp_all
qed simp

lemma classes_total:
  "class_count seqDigit cs + class_count seqLetter cs + class_count seqSpace cs + class_count seqSpecialChar cs
   + class_count seqNonReadable cs + class_count seqUnicode cs = of_nat (length cs)"
  unfolding class_count_def by (simp only: length_filter_classes flip: of_nat_add)


text \<open>
  A value criteria that is learned from piles accepts every value they hold, it keeps
  accepting what it accepted, and fusing two criteria accepts what either of them did. The
  score, while it is not cached, is exact: no step of the \<open>uint32\<close> sum wraps.
\<close>

theorem SimpleValConfig_sound:
  "(\<forall>v. simple_covers p v \<longrightarrow> SimpleValConfig_Decide (SimpleValConfig_Learn c p) v = None)
   \<and> (\<forall>v. SimpleValConfig_Decide c v = None \<longrightarrow> SimpleValConfig_Decide (SimpleValConfig_Learn c p) v = None)
   \<and> (\<forall>v. SimpleValConfig_Decide c v = None \<or> SimpleValConfig_Decide c' v = None
        \<longrightarrow> SimpleValConfig_Decide (SimpleValConfig_Fuse c c') v = None)
   \<and> (VC_score c = 0 \<and> length (VC_UnicodeFlags c) < 2 ^ 24
        \<longrightarrow> unat (fst (SimpleValConfig_Score c)) = score_value c)"
  by (auto simp: SimpleValConfig_Learn_accepts SimpleValConfig_Learn_keeps SimpleValConfig_Fuse_accepts
      SimpleValConfig_Score_value)


theorem SimpleValConfig_sound_witness:
  "SimpleValConfig_Decide
     (SimpleValConfig_Learn new_SimpleValConfig (SimpleValPile_Add new_SimpleValPile new_SimpleValProfile)) new_SimpleValProfile = None
   \<and> unat (fst (SimpleValConfig_Score new_SimpleValConfig)) = score_value new_SimpleValConfig"
  using SimpleValConfig_sound [of "SimpleValPile_Add new_SimpleValPile new_SimpleValProfile" new_SimpleValConfig new_SimpleValConfig]
  by (simp add: SimpleValPile_Add_covers new_SimpleValConfig_def)

end
