(* ===== verification/Key_Vals.thy ===== *)
theory Key_Vals
  imports Simple_Vals
begin

text \<open>
  \<open>pkg/apis/guard/v1alpha1/keyval.go\<close>: values under keys (headers, query strings, forms).
  The criteria keeps one SimpleValConfig for each of the seven known keys of highest score and
  two more for the names and the values of all other keys. The map values of piles and
  criteria are pointers, which a JSON null makes nil: an option. The hash of the module
  \<open>zeebo/xxh3\<close> is an argument.
\<close>

abbreviation MAX_KEYS_LEARNED :: nat where "MAX_KEYS_LEARNED \<equiv> 7"
abbreviation MAX_KEY_LENGTH :: nat where "MAX_KEY_LENGTH \<equiv> 64"

section \<open>Profile\<close>

type_synonym hash = "string \<Rightarrow> 64 word"
type_synonym KeyValProfile = "SimpleValProfile gomap"

definition hashIfNeeded :: "hash \<Rightarrow> string \<Rightarrow> string" where
  "hashIfNeeded hash keyIn =
     (let l = length keyIn in
      if l \<le> MAX_KEY_LENGTH then keyIn
      else (let h = hash keyIn in ''xxHash '' @ fmt_d (unat h)))"

definition KeyValProfile_ProfileMapString :: "hash \<Rightarrow> order \<Rightarrow> string gomap \<Rightarrow> KeyValProfile" where
  "KeyValProfile_ProfileMapString hash ro keyValMap =
     (if length (entries keyValMap) = 0 then None
      else Some (fold (\<lambda>(k, v) profile.
          AList.update (hashIfNeeded hash k) (SimpleValProfile_Profile new_SimpleValProfile v) profile)
        (range_over ro (entries keyValMap)) []))"

definition KeyValProfile_ProfileMapStringSlice :: "hash \<Rightarrow> order \<Rightarrow> string list gomap \<Rightarrow> KeyValProfile" where
  "KeyValProfile_ProfileMapStringSlice hash ro keyValMap =
     (if length (entries keyValMap) = 0 then None
      else Some (fold (\<lambda>(k, v) profile.
          (let key = hashIfNeeded hash k;
               val = join '' '' v
           in AList.update key (SimpleValProfile_Profile new_SimpleValProfile val) profile))
        (range_over ro (entries keyValMap)) []))"

section \<open>Pile\<close>

text \<open>
  The loops of \<open>Add\<close> and \<open>Merge\<close> touch each key once and independently, so the order of the
  range is immaterial to the map they leave; only \<open>Learn\<close>, \<open>Decide\<close> and \<open>Prepare\<close> take it.
\<close>

type_synonym KeyValPile = "SimpleValPile option gomap"

text \<open>One turn of the loop of \<open>Add\<close>, and of \<open>Merge\<close>.\<close>

definition add_key :: "string \<times> SimpleValProfile \<Rightarrow> SimpleValPile option entries \<Rightarrow> SimpleValPile option entries res" where
  "add_key = (\<lambda>(key, v) pile.
     let svp = (case map_of pile key of None \<Rightarrow> Some new_SimpleValPile | Some svp \<Rightarrow> svp)
     in bind_res (deref svp) (\<lambda>svp.
        Inr (AList.update key (Some (SimpleValPile_Add svp v)) pile)))"

definition KeyValPile_Add :: "KeyValPile \<Rightarrow> KeyValProfile \<Rightarrow> KeyValPile res" where
  "KeyValPile_Add pile profile =
     bind_res (fold_res add_key (entries profile) (entries pile)) (\<lambda>pile. Inr (Some pile))"

definition KeyValPile_Clear :: "KeyValPile \<Rightarrow> KeyValPile" where
  "KeyValPile_Clear pile = None"

definition merge_key :: "string \<times> SimpleValPile option \<Rightarrow> SimpleValPile option entries \<Rightarrow> SimpleValPile option entries res" where
  "merge_key = (\<lambda>(key, val) pile.
     let svp = (case map_of pile key of None \<Rightarrow> Some new_SimpleValPile | Some svp \<Rightarrow> svp)
     in bind_res (deref svp) (\<lambda>svp.
        bind_res (deref val) (\<lambda>val.
        Inr (AList.update key (Some (SimpleValPile_Merge svp val)) pile))))"

definition KeyValPile_Merge :: "KeyValPile \<Rightarrow> KeyValPile \<Rightarrow> KeyValPile res" where
  "KeyValPile_Merge pile otherPile =
     (case pile of
        None \<Rightarrow> Inr otherPile
      | Some kvs \<Rightarrow> bind_res (fold_res merge_key (entries otherPile) kvs) (\<lambda>kvs. Inr (Some kvs)))"

section \<open>Criteria\<close>

record svcScore =
  svc_score :: "32 word"
  svc_key :: string

record KeyValConfig =
  KC_Vals :: "SimpleValConfig option gomap"
  KC_OtherVals :: "SimpleValConfig option"
  KC_OtherKeynames :: "SimpleValConfig option"
  KC_valScores :: "svcScore list"

definition new_KeyValConfig :: KeyValConfig where
  "new_KeyValConfig = \<lparr>KC_Vals = None, KC_OtherVals = None, KC_OtherKeynames = None,
     KC_valScores = replicate MAX_KEYS_LEARNED \<lparr>svc_score = 0, svc_key = ''''\<rparr>\<rparr>"

text \<open>\<open>config.Vals[k]\<close>: nil when the map is nil, the key absent or its value nil.\<close>

definition known :: "KeyValConfig \<Rightarrow> string \<Rightarrow> SimpleValConfig option" where
  "known config k = (case map_get (KC_Vals config) k of None \<Rightarrow> None | Some svc \<Rightarrow> svc)"

text \<open>One turn of the loop of \<open>Decide\<close>.\<close>

definition decide_key :: "KeyValConfig \<Rightarrow> string \<times> SimpleValProfile \<Rightarrow> decision option \<Rightarrow> decision option" where
  "decide_key config = (\<lambda>(k, v) current.
     case known config k of
       Some svc \<Rightarrow> DecideChild current (SimpleValConfig_Decide svc v) (''KnownKey '' @ k)
     | None \<Rightarrow>
         (case (KC_OtherKeynames config, KC_OtherVals config) of
            (Some otherKeynames, Some otherVals) \<Rightarrow>
              (let keyname = SimpleValProfile_Profile new_SimpleValProfile k;
                   current = DecideChild current (SimpleValConfig_Decide otherKeynames keyname)
                               (''OtherKeyname '' @ k @ '':'')
               in DecideChild current (SimpleValConfig_Decide otherVals v) (''OtherVals '' @ k))
          | _ \<Rightarrow> DecideInner current 1 (''Key '' @ k @ '' is not known'')))"

definition KeyValConfig_Decide :: "ranger \<Rightarrow> KeyValConfig \<Rightarrow> KeyValProfile \<Rightarrow> decision option" where
  "KeyValConfig_Decide rr config profile =
     fold (decide_key config) (range_over (rr ''Decide'') (entries profile)) None"

text \<open>The first index whose score is not below, minus one: \<open>-1\<close> when no slot is for it.\<close>

fun score_index :: "32 word \<Rightarrow> svcScore list \<Rightarrow> int \<Rightarrow> int" where
  "score_index s [] index = index - 1"
| "score_index s (x # xs) index = (if s \<le> svc_score x then index - 1 else score_index s xs (index + 1))"

definition KeyValConfig_findScoreIndex :: "KeyValConfig \<Rightarrow> 32 word \<Rightarrow> int" where
  "KeyValConfig_findScoreIndex config s = score_index s (KC_valScores config) 0"

definition KeyValConfig_setScore :: "KeyValConfig \<Rightarrow> 32 word \<Rightarrow> string \<Rightarrow> nat \<Rightarrow> KeyValConfig" where
  "KeyValConfig_setScore config s k index =
     (let t = fold (\<lambda>i t. t[i := t ! (i + 1)]) [0..<index] (KC_valScores config)
      in config\<lparr>KC_valScores := t[index := \<lparr>svc_score = s, svc_key = k\<rparr>]\<rparr>)"

text \<open>With a nil \<open>svc\<close> this stores nil, or panics in \<open>Fuse\<close>.\<close>

definition KeyValConfig_addSvcToOtherVals :: "KeyValConfig \<Rightarrow> SimpleValConfig option \<Rightarrow> KeyValConfig res" where
  "KeyValConfig_addSvcToOtherVals config svc =
     (case KC_OtherVals config of
        None \<Rightarrow> Inr (config\<lparr>KC_OtherVals := svc\<rparr>)
      | Some otherVals \<Rightarrow> bind_res (deref svc) (\<lambda>svc.
          Inr (config\<lparr>KC_OtherVals := Some (SimpleValConfig_Fuse otherVals svc)\<rparr>)))"

definition KeyValConfig_addKeyToOtherKeynames :: "KeyValConfig \<Rightarrow> string \<Rightarrow> KeyValConfig" where
  "KeyValConfig_addKeyToOtherKeynames config k =
     (let svprofile = SimpleValProfile_Profile new_SimpleValProfile k;
          svpile = SimpleValPile_Add new_SimpleValPile svprofile;
          otherKeynames = (case KC_OtherKeynames config of None \<Rightarrow> new_SimpleValConfig | Some svc \<Rightarrow> svc)
      in config\<lparr>KC_OtherKeynames := Some (SimpleValConfig_Learn otherKeynames svpile)\<rparr>)"

definition put_val :: "string \<Rightarrow> SimpleValConfig \<Rightarrow> KeyValConfig \<Rightarrow> KeyValConfig res" where
  "put_val k svc config =
     bind_res (map_put (KC_Vals config) k (Some svc)) (\<lambda>vals. Inr (config\<lparr>KC_Vals := vals\<rparr>))"

text \<open>One turn of the loop of \<open>Learn\<close>.\<close>

definition learn_key :: "string \<times> SimpleValPile option \<Rightarrow> KeyValConfig \<Rightarrow> KeyValConfig res" where
  "learn_key = (\<lambda>(key, v_pile) config.
     bind_res (deref v_pile) (\<lambda>v_pile.
     case known config key of
       Some svc \<Rightarrow> put_val key (SimpleValConfig_Learn svc v_pile) config
     | None \<Rightarrow>
         (let svc = SimpleValConfig_Learn new_SimpleValConfig v_pile;
              (score, svc) = SimpleValConfig_Score svc;
              index = KeyValConfig_findScoreIndex config score
          in bind_res
               (if index \<ge> 0 then
                  (let lowestKey = svc_key (KC_valScores config ! 0);
                       lowestSvc = known config lowestKey;
                       config = KeyValConfig_setScore config score key (nat index)
                   in bind_res (put_val key svc config) (\<lambda>config. Inr (lowestKey, lowestSvc, config)))
                else Inr (key, Some svc, config))
               (\<lambda>(lowestKey, lowestSvc, config).
                  if lowestKey = '''' then Inr config
                  else
                    (let config = (if key \<noteq> lowestKey
                                   then config\<lparr>KC_Vals := map_del (KC_Vals config) lowestKey\<rparr> else config)
                     in bind_res (KeyValConfig_addSvcToOtherVals config lowestSvc) (\<lambda>config.
                        Inr (KeyValConfig_addKeyToOtherKeynames config lowestKey)))))))"

definition KeyValConfig_Learn :: "ranger \<Rightarrow> KeyValConfig \<Rightarrow> KeyValPile \<Rightarrow> KeyValConfig res" where
  "KeyValConfig_Learn rr config pile =
     (if length (entries pile) = 0 then Inr config
      else
        (let config = (if KC_Vals config = None then config\<lparr>KC_Vals := Some []\<rparr> else config)
         in fold_res learn_key (range_over (rr ''Learn'') (entries pile)) config))"

text \<open>\<open>Prepare\<close> changes \<open>valScores\<close> and, through the pointers, the values of \<open>Vals\<close>.\<close>

definition prepare_key :: "string \<Rightarrow> KeyValConfig \<Rightarrow> KeyValConfig res" where
  "prepare_key key config =
     (case known config key of
        None \<Rightarrow> Inr config
      | Some v \<Rightarrow>
          (let v = SimpleValConfig_Prepare v;
               (score, v) = SimpleValConfig_Score v
           in bind_res (put_val key v config) (\<lambda>config.
              let index = KeyValConfig_findScoreIndex config score
              in Inr (if index \<ge> 0 then KeyValConfig_setScore config score key (nat index) else config))))"

definition KeyValConfig_Prepare :: "ranger \<Rightarrow> KeyValConfig \<Rightarrow> KeyValConfig res" where
  "KeyValConfig_Prepare rr config =
     bind_res (fold_res prepare_key (map fst (range_over (rr ''Prepare'') (entries (KC_Vals config)))) config)
       (\<lambda>config. Inr (config\<lparr>
          KC_OtherKeynames := map_option SimpleValConfig_Prepare (KC_OtherKeynames config),
          KC_OtherVals := map_option SimpleValConfig_Prepare (KC_OtherVals config)\<rparr>))"

section \<open>The table of scores\<close>

lemma score_index_eq:
  "score_index s t i = i - 1 + int (length (takeWhile (\<lambda>x. svc_score x < s) t))"
  by (induction s t i rule: score_index.induct) (auto simp: not_less)

lemma shift_loop:
  "n < length t \<Longrightarrow> length (fold (\<lambda>i t. t[i := t ! (i + 1)]) [0..<n] t) = length t \<and>
    (\<forall>j < length t. fold (\<lambda>i t. t[i := t ! (i + 1)]) [0..<n] t ! j = (if j < n then t ! (j + 1) else t ! j))"
  by (induction n) (auto simp: nth_list_update less_Suc_eq)

lemma shift_and_set:
  assumes "n < length t"
  shows "(fold (\<lambda>i t. t[i := t ! (i + 1)]) [0..<n] t)[n := x] = take n (tl t) @ x # drop (Suc n) t"
  using shift_loop [OF assms] assms
  by (intro nth_equalityI) (auto simp: nth_append nth_Cons' nth_tl nth_list_update min_def)

text \<open>
  Together the two methods insert the new entry where it belongs in the ascending table and
  drop the first one.
\<close>

definition table_insert :: "32 word \<Rightarrow> string \<Rightarrow> svcScore list \<Rightarrow> svcScore list" where
  "table_insert s k t =
     takeWhile (\<lambda>x. svc_score x < s) t @ \<lparr>svc_score = s, svc_key = k\<rparr> # dropWhile (\<lambda>x. svc_score x < s) t"

lemma setScore_table:
  assumes "KC_valScores c = a # u" and "svc_score a < s"
  shows "KeyValConfig_findScoreIndex c s = int (length (takeWhile (\<lambda>x. svc_score x < s) u))"
    and "KeyValConfig_setScore c s k (length (takeWhile (\<lambda>x. svc_score x < s) u))
      = c\<lparr>KC_valScores := table_insert s k u\<rparr>"
proof -
  let ?n = "length (takeWhile (\<lambda>x. svc_score x < s) u)"
  show "KeyValConfig_findScoreIndex c s = int ?n"
    using assms by (simp add: KeyValConfig_findScoreIndex_def score_index_eq)
  have "?n < length (a # u)" by (simp add: length_takeWhile_le le_imp_less_Suc)
  then have "(fold (\<lambda>i t. t[i := t ! (i + 1)]) [0..<?n] (a # u))[?n := x] = take ?n u @ x # drop ?n u" for x
    by (subst shift_and_set) simp_all
  then show "KeyValConfig_setScore c s k ?n = c\<lparr>KC_valScores := table_insert s k u\<rparr>"
    using assms(1)
    by (simp add: KeyValConfig_setScore_def table_insert_def takeWhile_eq_take [symmetric] dropWhile_eq_drop [symmetric])
qed

lemma findScoreIndex_low:
  assumes "KC_valScores c = a # u" and "\<not> svc_score a < s"
  shows "KeyValConfig_findScoreIndex c s = - 1"
  using assms by (simp add: KeyValConfig_findScoreIndex_def score_index_eq)

definition table_keys :: "svcScore list \<Rightarrow> string list" where
  "table_keys t = filter (\<lambda>k. k \<noteq> '''') (map svc_key t)"

lemma sorted_table_insert:
  assumes "sorted (map svc_score t)"
  shows "sorted (map svc_score (table_insert s k t))"
proof -
  let ?P = "\<lambda>x. svc_score x < s"
  have "sorted (map svc_score (takeWhile ?P t @ dropWhile ?P t))"
    using assms by simp
  then have w: "sorted (map svc_score (takeWhile ?P t))" "sorted (map svc_score (dropWhile ?P t))"
    unfolding map_append sorted_append by simp_all
  have lo: "svc_score x < s" if "x \<in> set (takeWhile ?P t)" for x
    using set_takeWhileD [OF that] by simp
  have hi: "s \<le> svc_score x" if "x \<in> set (dropWhile ?P t)" for x
  proof -
    from that obtain d ds where d: "dropWhile ?P t = d # ds" by (cases "dropWhile ?P t") auto
    then have "s \<le> svc_score d" using hd_dropWhile [of ?P t] by (simp add: not_less)
    with that w(2) d show ?thesis by auto
  qed
  show ?thesis
    using w lo hi by (fastforce simp: table_insert_def sorted_append)
qed

lemma table_keys_insert:
  "mset (table_keys (table_insert s k t)) = mset (table_keys t) + (if k = '''' then {#} else {#k#})"
proof -
  have "table_keys (xs @ ys) = table_keys xs @ table_keys ys" for xs ys
    by (simp add: table_keys_def)
  then have "mset (table_keys t) = mset (table_keys (takeWhile P t)) + mset (table_keys (dropWhile P t))" for P
    by (metis mset_append takeWhile_dropWhile_id)
  then show ?thesis
    by (simp add: table_insert_def table_keys_def)
qed

lemma length_table_insert: "length (table_insert s k t) = Suc (length t)"
  unfolding table_insert_def
  by (metis add_Suc_right length_Cons length_append takeWhile_dropWhile_id)

text \<open>
  The invariant of a criteria: seven scores in ascending order, whose keys are distinct and
  known.
\<close>

definition kv_cwf :: "KeyValConfig \<Rightarrow> bool" where
  "kv_cwf c \<longleftrightarrow> length (KC_valScores c) = MAX_KEYS_LEARNED \<and> sorted (map svc_score (KC_valScores c))
     \<and> distinct (table_keys (KC_valScores c)) \<and> (\<forall>k \<in> set (table_keys (KC_valScores c)). known c k \<noteq> None)
     \<and> kvs_ok (entries (KC_Vals c))"

lemma kv_cwf_new: "kv_cwf new_KeyValConfig"
  by (simp add: kv_cwf_def new_KeyValConfig_def table_keys_def numeral_eq_Suc)

section \<open>Deciding\<close>

definition name_profile :: "string \<Rightarrow> SimpleValProfile" where
  "name_profile k = SimpleValProfile_Profile new_SimpleValProfile k"

definition others_accept :: "KeyValConfig \<Rightarrow> string \<Rightarrow> SimpleValProfile \<Rightarrow> bool" where
  "others_accept c k v \<longleftrightarrow> (\<exists>names vals. KC_OtherKeynames c = Some names \<and> KC_OtherVals c = Some vals
     \<and> SimpleValConfig_Decide names (name_profile k) = None \<and> SimpleValConfig_Decide vals v = None)"

definition key_accepts :: "KeyValConfig \<Rightarrow> string \<Rightarrow> SimpleValProfile \<Rightarrow> bool" where
  "key_accepts c k v = (case known c k of
     Some svc \<Rightarrow> SimpleValConfig_Decide svc v = None
   | None \<Rightarrow> others_accept c k v)"

lemma decide_key_None: "decide_key c (k, v) cur = None \<longleftrightarrow> cur = None \<and> key_accepts c k v"
  by (auto simp: decide_key_def key_accepts_def others_accept_def name_profile_def Let_def split: option.splits)

lemma decide_keys_None: "fold (decide_key c) kvs cur = None \<longleftrightarrow> cur = None \<and> (\<forall>(k, v) \<in> set kvs. key_accepts c k v)"
  by (induction kvs arbitrary: cur) (auto simp: decide_key_None)

lemma KeyValConfig_Decide_None:
  assumes "fair_ranger rr" and "kvs_ok (entries v)"
  shows "KeyValConfig_Decide rr c v = None \<longleftrightarrow> (\<forall>(k, sv) \<in> set (entries v). key_accepts c k sv)"
  using assms by (simp add: KeyValConfig_Decide_def decide_keys_None set_range_over)

lemma decide_key_grave: "grave_opt cur \<Longrightarrow> grave_opt (decide_key c kv cur)"
  by (cases kv) (auto simp: decide_key_def Let_def split: option.splits)

lemma KeyValConfig_Decide_grave: "grave_opt (KeyValConfig_Decide rr c v)"
proof -
  have "grave_opt cur \<Longrightarrow> grave_opt (fold (decide_key c) kvs cur)" for kvs cur
    by (induction kvs arbitrary: cur) (auto simp: decide_key_grave)
  then show ?thesis by (simp add: KeyValConfig_Decide_def)
qed

section \<open>Learning one key\<close>

lemma known_simps [simp]:
  "known (c\<lparr>KC_valScores := t\<rparr>) k = known c k"
  "known (c\<lparr>KC_OtherVals := x\<rparr>) k = known c k"
  "known (c\<lparr>KC_OtherKeynames := x\<rparr>) k = known c k"
  "known (c\<lparr>KC_Vals := Some (AList.update k' v kvs)\<rparr>) k = (if k = k' then v else known (c\<lparr>KC_Vals := Some kvs\<rparr>) k)"
  "known (c\<lparr>KC_Vals := Some (AList.delete k' kvs)\<rparr>) k = (if k = k' then None else known (c\<lparr>KC_Vals := Some kvs\<rparr>) k)"
  by (simp_all add: known_def)

lemma known_same: "KC_Vals c = m \<Longrightarrow> known (c\<lparr>KC_Vals := m\<rparr>) k = known c k"
  by (simp add: known_def)

lemma known_cong: "KC_Vals c' = KC_Vals c \<Longrightarrow> known c' k = known c k"
  by (simp add: known_def)

text \<open>Moving a key to the others: they accept it, and everything they accepted.\<close>

definition to_others :: "string \<Rightarrow> SimpleValConfig option \<Rightarrow> KeyValConfig \<Rightarrow> KeyValConfig res" where
  "to_others k svc c = bind_res (KeyValConfig_addSvcToOtherVals c svc)
     (\<lambda>c. Inr (KeyValConfig_addKeyToOtherKeynames c k))"

lemma addKey_names:
  "\<exists>names. KC_OtherKeynames (KeyValConfig_addKeyToOtherKeynames c k) = Some names
     \<and> SimpleValConfig_Decide names (name_profile k) = None
     \<and> (\<forall>old v. KC_OtherKeynames c = Some old \<longrightarrow> SimpleValConfig_Decide old v = None \<longrightarrow>
          SimpleValConfig_Decide names v = None)"
  by (auto simp: KeyValConfig_addKeyToOtherKeynames_def Let_def name_profile_def
      intro: SimpleValConfig_Learn_accepts SimpleValPile_Add_covers SimpleValConfig_Learn_keeps)

lemma to_others_ok:
  "ok (to_others k (Some svc) c) (\<lambda>c'. KC_Vals c' = KC_Vals c \<and> KC_valScores c' = KC_valScores c
     \<and> (\<forall>v. SimpleValConfig_Decide svc v = None \<longrightarrow> others_accept c' k v)
     \<and> (\<forall>k' v. others_accept c k' v \<longrightarrow> others_accept c' k' v))"
proof -
  obtain c1 where c1: "KeyValConfig_addSvcToOtherVals c (Some svc) = Inr c1"
    "KC_Vals c1 = KC_Vals c" "KC_valScores c1 = KC_valScores c" "KC_OtherKeynames c1 = KC_OtherKeynames c"
    by (cases "KC_OtherVals c") (simp_all add: KeyValConfig_addSvcToOtherVals_def)
  obtain vals where vals: "KC_OtherVals c1 = Some vals" "\<forall>v. SimpleValConfig_Decide svc v = None \<longrightarrow> SimpleValConfig_Decide vals v = None"
    "\<forall>old v. KC_OtherVals c = Some old \<longrightarrow> SimpleValConfig_Decide old v = None \<longrightarrow> SimpleValConfig_Decide vals v = None"
    using c1(1) by (auto simp: KeyValConfig_addSvcToOtherVals_def SimpleValConfig_Fuse_accepts split: option.splits)
  obtain names where names: "KC_OtherKeynames (KeyValConfig_addKeyToOtherKeynames c1 k) = Some names"
    "SimpleValConfig_Decide names (name_profile k) = None"
    "\<forall>old v. KC_OtherKeynames c1 = Some old \<longrightarrow> SimpleValConfig_Decide old v = None \<longrightarrow> SimpleValConfig_Decide names v = None"
    using addKey_names [of c1 k] by blast
  let ?c = "KeyValConfig_addKeyToOtherKeynames c1 k"
  have f: "KC_Vals ?c = KC_Vals c" "KC_valScores ?c = KC_valScores c" "KC_OtherVals ?c = Some vals"
    using c1 vals by (simp_all add: KeyValConfig_addKeyToOtherKeynames_def Let_def)
  have "others_accept ?c k v" if "SimpleValConfig_Decide svc v = None" for v
    using that f names vals(2) by (simp add: others_accept_def)
  moreover have "others_accept ?c k' v" if "others_accept c k' v" for k' v
    using that f names vals(3) c1(4) by (auto simp: others_accept_def)
  ultimately show ?thesis
    using c1(1) f by (simp add: to_others_def)
qed

text \<open>
  Changing the known keys: what a step keeps for all keys that are not its own.
\<close>

definition keeps :: "string \<Rightarrow> KeyValConfig \<Rightarrow> KeyValConfig \<Rightarrow> bool" where
  "keeps key c c' \<longleftrightarrow> (\<forall>k v. k \<noteq> key \<longrightarrow> key_accepts c k v \<longrightarrow> key_accepts c' k v)"

lemma keepsI:
  assumes "\<And>k. k \<noteq> key \<Longrightarrow> known c' k = known c k" and "\<And>k v. others_accept c k v \<Longrightarrow> others_accept c' k v"
  shows "keeps key c c'"
  using assms by (auto simp: keeps_def key_accepts_def split: option.splits)

lemma put_val_Some: "KC_Vals c = Some kvs \<Longrightarrow> put_val k svc c = Inr (c\<lparr>KC_Vals := Some (AList.update k (Some svc) kvs)\<rparr>)"
  by (simp add: put_val_def)

text \<open>The three ways a key is learned.\<close>

lemma learn_key_known:
  assumes "KC_Vals c = Some kvs" and "known c key = Some svc"
  shows "learn_key (key, Some q) c
    = Inr (c\<lparr>KC_Vals := Some (AList.update key (Some (SimpleValConfig_Learn svc q)) kvs)\<rparr>)"
  using assms by (simp add: learn_key_def put_val_Some)

lemma learn_key_low:
  assumes "known c key = None" and "KC_valScores c = a # u"
    and "SimpleValConfig_Score (SimpleValConfig_Learn new_SimpleValConfig q) = (s, svc)" and "\<not> svc_score a < s"
  shows "learn_key (key, Some q) c = (if key = '''' then Inr c else to_others key (Some svc) c)"
  using assms by (simp add: learn_key_def findScoreIndex_low to_others_def)

lemma learn_key_high:
  assumes "KC_Vals c = Some kvs" and "known c key = None" and "KC_valScores c = a # u"
    and "SimpleValConfig_Score (SimpleValConfig_Learn new_SimpleValConfig q) = (s, svc)" and "svc_score a < s"
    and "svc_key a \<noteq> key \<or> key = ''''"
  defines "c1 \<equiv> c\<lparr>KC_valScores := table_insert s key u, KC_Vals := Some (AList.update key (Some svc) kvs)\<rparr>"
  shows "learn_key (key, Some q) c = (if svc_key a = '''' then Inr c1
    else to_others (svc_key a) (known c (svc_key a))
      (c1\<lparr>KC_Vals := Some (AList.delete (svc_key a) (AList.update key (Some svc) kvs))\<rparr>))"
  using assms(1-6)
  by (auto simp: learn_key_def setScore_table put_val_def to_others_def c1_def Let_def)

text \<open>No key is known without a place in the table, the empty key apart.\<close>

definition kv_tight :: "KeyValConfig \<Rightarrow> bool" where
  "kv_tight c \<longleftrightarrow> {k. known c k \<noteq> None} \<subseteq> insert '''' (set (table_keys (KC_valScores c)))"

definition learned_key :: "string \<Rightarrow> SimpleValPile \<Rightarrow> KeyValConfig \<Rightarrow> KeyValConfig \<Rightarrow> bool" where
  "learned_key key q c c' \<longleftrightarrow> kv_cwf c' \<and> KC_Vals c' \<noteq> None \<and> keeps key c c' \<and> (kv_tight c \<longrightarrow> kv_tight c')
     \<and> (\<forall>v. key \<noteq> '''' \<longrightarrow> simple_covers q v \<longrightarrow> key_accepts c' key v)
     \<and> (\<forall>v. known c key \<noteq> None \<longrightarrow> key_accepts c key v \<longrightarrow> key_accepts c' key v)"

lemma learned_known:
  assumes "kv_cwf c" and "KC_Vals c = Some kvs" and "known c key = Some svc"
  shows "ok (learn_key (key, Some q) c) (learned_key key q c)"
proof -
  let ?c = "c\<lparr>KC_Vals := Some (AList.update key (Some (SimpleValConfig_Learn svc q)) kvs)\<rparr>"
  have k: "known ?c k = (if k = key then Some (SimpleValConfig_Learn svc q) else known c k)" for k
    using assms(2) by (simp add: known_same)
  have "kv_cwf ?c"
    using assms(1,2) k by (simp add: kv_cwf_def)
  moreover have "keeps key c ?c"
    by (rule keepsI) (simp only: k if_False, simp add: others_accept_def)
  moreover have "key_accepts ?c key v" if "simple_covers q v \<or> key_accepts c key v" for v
    using that assms(3) k
    by (auto simp: key_accepts_def SimpleValConfig_Learn_accepts SimpleValConfig_Learn_keeps)
  moreover have "kv_tight c \<Longrightarrow> kv_tight ?c"
  proof -
    have "{k. known ?c k \<noteq> None} = {k. known c k \<noteq> None}"
      unfolding k using assms(3) by auto
    then show "kv_tight c \<Longrightarrow> kv_tight ?c" by (simp only: kv_tight_def) simp
  qed
  ultimately show ?thesis
    using assms by (simp add: learn_key_known learned_key_def)
qed

lemma learned_low:
  assumes "kv_cwf c" and "KC_Vals c = Some kvs" and "known c key = None" and "KC_valScores c = a # u"
    and "SimpleValConfig_Score (SimpleValConfig_Learn new_SimpleValConfig q) = (s, svc)" and "\<not> svc_score a < s"
  shows "ok (learn_key (key, Some q) c) (learned_key key q c)"
proof (cases "key = ''''")
  case True
  with assms show ?thesis
    by (simp add: learn_key_low learned_key_def keeps_def)
next
  case False
  have d: "SimpleValConfig_Decide svc = SimpleValConfig_Decide (SimpleValConfig_Learn new_SimpleValConfig q)"
    using SimpleValConfig_Decide_score [of "SimpleValConfig_Learn new_SimpleValConfig q"] assms(5) by simp
  from to_others_ok [of key svc c] obtain c' where
    c': "to_others key (Some svc) c = Inr c'" "KC_Vals c' = KC_Vals c" "KC_valScores c' = KC_valScores c"
      "\<forall>v. SimpleValConfig_Decide svc v = None \<longrightarrow> others_accept c' key v"
      "\<forall>k' v. others_accept c k' v \<longrightarrow> others_accept c' k' v"
    by (auto simp: ok_iff)
  have k: "known c' k = known c k" for k
    using c'(2) by (rule known_cong)
  have "kv_cwf c'"
    using assms(1) c'(2,3) k by (simp add: kv_cwf_def)
  moreover have "keeps key c c'"
    by (rule keepsI) (simp_all add: k c'(5))
  moreover have "key_accepts c' key v" if "simple_covers q v" for v
    using that assms(3) c'(4) k d by (simp add: key_accepts_def SimpleValConfig_Learn_accepts)
  moreover have "kv_tight c \<Longrightarrow> kv_tight c'"
    using c'(3) by (simp add: kv_tight_def k)
  ultimately show ?thesis
    using False assms c'(1,2) by (simp add: learn_key_low learned_key_def)
qed

lemma kv_cwf_insert:
  assumes "kv_cwf c" and "KC_Vals c = Some kvs" and "known c key = None" and "KC_valScores c = a # u"
    and "KC_valScores c' = table_insert s key u" and "kvs_ok (entries (KC_Vals c'))"
    and "\<And>k. k \<noteq> svc_key a \<Longrightarrow> known c' k = (if k = key then Some svc else known c k)"
    and "svc_key a \<noteq> '''' \<Longrightarrow> svc_key a \<noteq> key"
    and "svc_key a = '''' \<Longrightarrow> known c' '''' = (if key = '''' then Some svc else known c '''')"
  shows "kv_cwf c'"
proof -
  have u: "length u = 6" "sorted (map svc_score u)" "distinct (table_keys u)"
    "\<forall>k \<in> set (table_keys u). known c k \<noteq> None \<and> k \<noteq> '''' \<and> k \<noteq> svc_key a"
    using assms(1,4) by (auto simp: kv_cwf_def table_keys_def image_iff split: if_splits)
  have ms: "mset (table_keys (KC_valScores c')) = mset (table_keys u) + (if key = '''' then {#} else {#key#})"
    using table_keys_insert [of s key u] assms(5) by simp
  have new: "key \<notin> set (table_keys u)"
    using u(4) assms(3) by auto
  have "mset (table_keys (KC_valScores c')) = mset (if key = '''' then table_keys u else key # table_keys u)"
    using ms by simp
  from mset_eq_imp_distinct_iff [OF this] mset_eq_setD [OF this]
  have "distinct (table_keys (KC_valScores c'))"
    and "set (table_keys (KC_valScores c')) \<subseteq> insert key (set (table_keys u)) - {''''}"
    using u(3,4) new by (auto split: if_splits)
  moreover have "known c' k \<noteq> None" if "k \<in> insert key (set (table_keys u)) - {''''}" for k
  proof (cases "k = svc_key a")
    case True
    with that u(4) assms(8) show ?thesis by auto
  next
    case False
    with that u(4) assms(7) [OF False] show ?thesis by auto
  qed
  ultimately show ?thesis
    using assms(5,6) u(1,2) by (auto simp: kv_cwf_def length_table_insert sorted_table_insert)
qed

lemma kv_tight_insert:
  assumes "kv_tight c" and "KC_valScores c = a # u" and "KC_valScores c' = table_insert s key u"
    and "\<And>k. known c' k \<noteq> None \<Longrightarrow> k = key \<or> (known c k \<noteq> None \<and> (k = svc_key a \<longrightarrow> k = ''''))"
  shows "kv_tight c'"
proof -
  have "set (table_keys (table_insert s key u)) = set (table_keys u) \<union> ({key} - {''''})"
    using arg_cong [OF table_keys_insert [of s key u], of set_mset] by auto
  moreover have "set (table_keys (a # u)) = set (table_keys u) \<union> ({svc_key a} - {''''})"
    by (auto simp: table_keys_def)
  ultimately show ?thesis
    using assms unfolding kv_tight_def by fastforce
qed

lemma learned_high:
  assumes "kv_cwf c" and "KC_Vals c = Some kvs" and "known c key = None" and "KC_valScores c = a # u"
    and "SimpleValConfig_Score (SimpleValConfig_Learn new_SimpleValConfig q) = (s, svc)" and "svc_score a < s"
  shows "ok (learn_key (key, Some q) c) (learned_key key q c)"
proof -
  have d: "SimpleValConfig_Decide svc = SimpleValConfig_Decide (SimpleValConfig_Learn new_SimpleValConfig q)"
    using SimpleValConfig_Decide_score [of "SimpleValConfig_Learn new_SimpleValConfig q"] assms(5) by simp
  have old: "svc_key a \<noteq> '''' \<Longrightarrow> \<exists>svc0. known c (svc_key a) = Some svc0"
    using assms(1,4) by (auto simp: kv_cwf_def table_keys_def)
  then have ne: "svc_key a \<noteq> '''' \<Longrightarrow> svc_key a \<noteq> key"
    using assms(3) by auto
  have kvs: "kvs_ok kvs" using assms(1,2) by (simp add: kv_cwf_def)
  have same: "known (c\<lparr>KC_valScores := t, KC_Vals := Some kvs\<rparr>) k = known c k" for t k
    using assms(2) by (simp add: known_def)
  define c1 where "c1 = c\<lparr>KC_valScores := table_insert s key u, KC_Vals := Some (AList.update key (Some svc) kvs)\<rparr>"
  have k1: "known c1 k = (if k = key then Some svc else known c k)" for k
    by (simp add: c1_def same)
  have acc: "key_accepts c' key v" if "known c' key = Some svc" "simple_covers q v" for c' v
    using that by (simp add: key_accepts_def d SimpleValConfig_Learn_accepts)
  show ?thesis
  proof (cases "svc_key a = ''''")
    case True
    have "kv_cwf c1"
      by (rule kv_cwf_insert [OF assms(1-4)]) (use kvs True k1 in \<open>auto simp: c1_def\<close>)
    moreover have "keeps key c c1"
      by (rule keepsI) (simp_all add: k1, simp add: c1_def others_accept_def)
    moreover have "kv_tight c \<Longrightarrow> kv_tight c1"
      by (rule kv_tight_insert [OF _ assms(4), of _ s key]) (use k1 True in \<open>auto simp: c1_def split: if_splits\<close>)
    ultimately show ?thesis
      using True assms(3) acc [of c1] k1 ne
      by (simp add: learn_key_high [OF assms(2-6)] learned_key_def c1_def [symmetric]) (simp add: c1_def)
  next
    case False
    then obtain svc0 where svc0: "known c (svc_key a) = Some svc0" using old by blast
    define c2 where "c2 = c1\<lparr>KC_Vals := Some (AList.delete (svc_key a) (AList.update key (Some svc) kvs))\<rparr>"
    have k2: "known c2 k = (if k = svc_key a then None else known c1 k)" for k
      by (simp add: c2_def c1_def same)
    from to_others_ok [of "svc_key a" svc0 c2] obtain c' where
      c': "to_others (svc_key a) (Some svc0) c2 = Inr c'" "KC_Vals c' = KC_Vals c2" "KC_valScores c' = KC_valScores c2"
        "\<forall>v. SimpleValConfig_Decide svc0 v = None \<longrightarrow> others_accept c' (svc_key a) v"
        "\<forall>k' v. others_accept c2 k' v \<longrightarrow> others_accept c' k' v"
      by (auto simp: ok_iff)
    have k: "known c' k = (if k = svc_key a then None else if k = key then Some svc else known c k)" for k
      using known_cong [OF c'(2), of k] k1 k2 by simp
    have "kv_cwf c'"
      by (rule kv_cwf_insert [OF assms(1-4)]) (use kvs c'(2,3) k ne False in \<open>auto simp: c1_def c2_def\<close>)
    moreover have "keeps key c c'"
    proof -
      have "others_accept c2 k v = others_accept c k v" for k v
        by (simp add: c2_def c1_def others_accept_def)
      then show ?thesis
        using c'(4,5) k svc0 by (auto simp: keeps_def key_accepts_def split: option.splits)
    qed
    moreover have "kv_tight c \<Longrightarrow> kv_tight c'"
      by (rule kv_tight_insert [OF _ assms(4), of _ s key])
        (use k c'(3) in \<open>auto simp: c1_def c2_def split: if_splits\<close>)
    ultimately show ?thesis
      using False assms(3) acc [of c'] k ne c'(1,2) svc0
      by (simp add: learn_key_high [OF assms(2-6)] learned_key_def c1_def [symmetric] c2_def [symmetric])
        (simp add: c2_def)
  qed
qed

lemma learn_key_ok:
  assumes "kv_cwf c" and "KC_Vals c \<noteq> None"
  shows "ok (learn_key (key, Some q) c) (learned_key key q c)"
proof -
  obtain kvs where kvs: "KC_Vals c = Some kvs" using assms(2) by auto
  obtain a u where t: "KC_valScores c = a # u"
    using assms(1) by (cases "KC_valScores c") (auto simp: kv_cwf_def)
  obtain s svc where s: "SimpleValConfig_Score (SimpleValConfig_Learn new_SimpleValConfig q) = (s, svc)"
    by (cases "SimpleValConfig_Score (SimpleValConfig_Learn new_SimpleValConfig q)")
  show ?thesis
  proof (cases "known c key")
    case None
    show ?thesis
    proof (cases "svc_score a < s")
      case True
      then show ?thesis by (rule learned_high [OF assms(1) kvs None t s])
    next
      case False
      then show ?thesis by (rule learned_low [OF assms(1) kvs None t s])
    qed
  next
    case (Some svc0)
    then show ?thesis by (rule learned_known [OF assms(1) kvs])
  qed
qed

section \<open>Learning a pile\<close>

lemma learn_keys_ok:
  assumes "kvs_ok kvs" and "\<forall>(k, q) \<in> set kvs. q \<noteq> None" and "kv_cwf c" and "KC_Vals c \<noteq> None"
  shows "ok (fold_res learn_key kvs c) (\<lambda>c'. kv_cwf c' \<and> (kv_tight c \<longrightarrow> kv_tight c')
     \<and> (\<forall>k v. k \<notin> fst ` set kvs \<longrightarrow> key_accepts c k v \<longrightarrow> key_accepts c' k v)
     \<and> (\<forall>k q v. (k, Some q) \<in> set kvs \<longrightarrow> k \<noteq> '''' \<longrightarrow> simple_covers q v \<longrightarrow> key_accepts c' k v))"
  using assms
proof (induction kvs arbitrary: c)
  case (Cons kq kvs)
  obtain k q where kq: "kq = (k, Some q)" using Cons.prems(2) by (cases kq) auto
  from learn_key_ok [OF Cons.prems(3,4), of k q] obtain c1
    where c1: "learn_key (k, Some q) c = Inr c1" and l: "learned_key k q c c1"
    by (auto simp: ok_iff)
  have h: "kv_cwf c1" "KC_Vals c1 \<noteq> None" "keeps k c c1" "kv_tight c \<longrightarrow> kv_tight c1"
    "\<forall>v. k \<noteq> '''' \<longrightarrow> simple_covers q v \<longrightarrow> key_accepts c1 k v"
    using l by (simp_all add: learned_key_def)
  from Cons.IH [OF _ _ h(1,2)] Cons.prems(1,2) kq obtain c2 where
    c2: "fold_res learn_key kvs c1 = Inr c2" "kv_cwf c2" "kv_tight c1 \<longrightarrow> kv_tight c2"
      "\<forall>k v. k \<notin> fst ` set kvs \<longrightarrow> key_accepts c1 k v \<longrightarrow> key_accepts c2 k v"
      "\<forall>k q v. (k, Some q) \<in> set kvs \<longrightarrow> k \<noteq> '''' \<longrightarrow> simple_covers q v \<longrightarrow> key_accepts c2 k v"
    by (auto simp: ok_iff)
  have "k \<notin> fst ` set kvs" using Cons.prems(1) kq by simp
  with c2(4) h(5) have "\<forall>v. k \<noteq> '''' \<longrightarrow> simple_covers q v \<longrightarrow> key_accepts c2 k v" by blast
  moreover have "key_accepts c2 k' v" if "k' \<noteq> k" "k' \<notin> fst ` set kvs" "key_accepts c k' v" for k' v
    using that h(3) c2(4) unfolding keeps_def by blast
  ultimately show ?case
    using c1 c2 h(4) kq by auto
qed simp

definition kv_pwf :: "KeyValPile \<Rightarrow> bool" where
  "kv_pwf p \<longleftrightarrow> kvs_ok (entries p) \<and> (\<forall>(k, q) \<in> set (entries p). q \<noteq> None)"

definition kv_vwf :: "KeyValProfile \<Rightarrow> bool" where
  "kv_vwf v \<longleftrightarrow> kvs_ok (entries v) \<and> '''' \<notin> fst ` set (entries v)"

definition kv_covers :: "KeyValPile \<Rightarrow> KeyValProfile \<Rightarrow> bool" where
  "kv_covers p v \<longleftrightarrow> kv_vwf v \<and>
     (\<forall>(k, sv) \<in> set (entries v). \<exists>q. map_get p k = Some (Some q) \<and> simple_covers q sv)"

lemma KeyValConfig_Learn_ok:
  assumes "fair_ranger rr" and "kv_cwf c" and "kv_pwf p"
  shows "ok (KeyValConfig_Learn rr c p) (\<lambda>c'. kv_cwf c' \<and> (kv_tight c \<longrightarrow> kv_tight c')
     \<and> (\<forall>k v. k \<notin> fst ` set (entries p) \<longrightarrow> key_accepts c k v \<longrightarrow> key_accepts c' k v)
     \<and> (\<forall>k q v. (k, Some q) \<in> set (entries p) \<longrightarrow> k \<noteq> '''' \<longrightarrow> simple_covers q v \<longrightarrow> key_accepts c' k v))"
proof (cases "entries p = []")
  case True
  with assms show ?thesis by (simp add: KeyValConfig_Learn_def)
next
  case False
  let ?c = "if KC_Vals c = None then c\<lparr>KC_Vals := Some []\<rparr> else c"
  have k: "known ?c k = known c k" for k by (simp add: known_def)
  then have acc: "key_accepts ?c k v = key_accepts c k v" for k v
    by (simp add: key_accepts_def others_accept_def split: option.splits)
  have w: "kv_cwf ?c" "KC_Vals ?c \<noteq> None" "kv_tight ?c = kv_tight c"
    using assms(2) k by (auto simp: kv_cwf_def kv_tight_def)
  let ?kvs = "range_over (rr ''Learn'') (entries p)"
  have kvs: "kvs_ok ?kvs" "set ?kvs = set (entries p)"
    using assms(1,3) by (simp_all add: kv_pwf_def kvs_ok_range_over set_range_over)
  have "\<forall>(k, q) \<in> set ?kvs. q \<noteq> None"
    using assms(3) kvs(2) by (simp add: kv_pwf_def)
  from learn_keys_ok [OF kvs(1) this w(1,2)] show ?thesis
    using False by (simp only: KeyValConfig_Learn_def length_0_conv if_False Let_def w(3) acc kvs(2))
qed

lemma kv_covers_accepted:
  assumes "kv_pwf p" and "kv_covers p u"
    and "\<forall>k q v. (k, Some q) \<in> set (entries p) \<longrightarrow> k \<noteq> '''' \<longrightarrow> simple_covers q v \<longrightarrow> key_accepts c k v"
  shows "accepts (\<lambda>rr c v. Inr (KeyValConfig_Decide rr c v)) c u"
proof (rule acceptsI)
  fix rr assume "fair_ranger rr"
  moreover have "key_accepts c k sv" if kv: "(k, sv) \<in> set (entries u)" for k sv
  proof -
    obtain q where q: "map_get p k = Some (Some q)" "simple_covers q sv"
      using kv assms(2) by (auto simp: kv_covers_def)
    then have "(k, Some q) \<in> set (entries p)"
      using assms(1) by (simp add: kv_pwf_def map_get_def kvs_ok_map_of)
    moreover have "k \<noteq> ''''"
      using kv assms(2) by (force simp: kv_covers_def kv_vwf_def)
    ultimately show ?thesis using assms(3) q(2) by blast
  qed
  ultimately show "Inr (KeyValConfig_Decide rr c u) = Inr None"
    using assms(2) by (auto simp: KeyValConfig_Decide_None kv_covers_def kv_vwf_def)
qed

section \<open>Piling\<close>

definition piles_ok :: "SimpleValPile option entries \<Rightarrow> bool" where
  "piles_ok pile \<longleftrightarrow> kvs_ok pile \<and> (\<forall>(k, q) \<in> set pile. q \<noteq> None)"

definition pile_at :: "SimpleValPile option entries \<Rightarrow> string \<Rightarrow> SimpleValPile" where
  "pile_at pile k = (case map_of pile k of Some (Some q) \<Rightarrow> q | _ \<Rightarrow> new_SimpleValPile)"

definition holds :: "SimpleValPile option entries \<Rightarrow> string \<Rightarrow> SimpleValProfile \<Rightarrow> bool" where
  "holds pile k v \<longleftrightarrow> (\<exists>q. map_of pile k = Some (Some q) \<and> simple_covers q v)"

lemma pile_pointer:
  "piles_ok pile \<Longrightarrow> (case map_of pile k of None \<Rightarrow> Some new_SimpleValPile | Some svp \<Rightarrow> svp) = Some (pile_at pile k)"
  by (auto simp: piles_ok_def pile_at_def split: option.splits dest: map_of_SomeD)

lemma upsert_ok:
  assumes "piles_ok pile" and "\<And>v. simple_covers (pile_at pile k) v \<Longrightarrow> simple_covers q v"
  shows "piles_ok (AList.update k (Some q) pile)"
    and "holds pile k' v \<Longrightarrow> holds (AList.update k (Some q) pile) k' v"
    and "simple_covers q v \<Longrightarrow> holds (AList.update k (Some q) pile) k v"
proof -
  have "snd x \<noteq> None" if "x \<in> set (AList.update k (Some q) pile)" for x
  proof -
    have "x = (k, Some q) \<or> x \<in> set pile" using that set_AList_update [of k "Some q" pile] by auto
    with assms(1) show ?thesis by (cases x) (auto simp: piles_ok_def)
  qed
  then show "piles_ok (AList.update k (Some q) pile)"
    using assms(1) by (fastforce simp: piles_ok_def)
  show "holds pile k' v \<Longrightarrow> holds (AList.update k (Some q) pile) k' v"
    using assms(2) [of v] by (auto simp: holds_def pile_at_def)
  show "simple_covers q v \<Longrightarrow> holds (AList.update k (Some q) pile) k v"
    by (simp add: holds_def)
qed

lemma upsert_all:
  assumes "\<And>k x pile. piles_ok pile \<Longrightarrow> W x \<Longrightarrow> \<exists>q. f (k, x) pile = Inr (AList.update k (Some q) pile)
      \<and> (\<forall>v. simple_covers (pile_at pile k) v \<longrightarrow> simple_covers q v) \<and> (\<forall>v. P x v \<longrightarrow> simple_covers q v)"
    and "piles_ok pile" and "\<forall>(k, x) \<in> set kvs. W x"
  shows "ok (fold_res f kvs pile) (\<lambda>pile'. piles_ok pile' \<and> (\<forall>k v. holds pile k v \<longrightarrow> holds pile' k v)
     \<and> (\<forall>k x v. (k, x) \<in> set kvs \<longrightarrow> P x v \<longrightarrow> holds pile' k v))"
  using assms(2,3)
proof (induction kvs arbitrary: pile)
  case (Cons kx kvs)
  obtain k x where kx: "kx = (k, x)" by (cases kx)
  with Cons.prems assms(1) [of pile x k] obtain q where
    q: "f (k, x) pile = Inr (AList.update k (Some q) pile)"
      "\<And>v. simple_covers (pile_at pile k) v \<Longrightarrow> simple_covers q v" "\<And>v. P x v \<Longrightarrow> simple_covers q v"
    by auto
  let ?pile = "AList.update k (Some q) pile"
  have u: "piles_ok ?pile" "\<forall>k v. holds pile k v \<longrightarrow> holds ?pile k v" "\<forall>v. P x v \<longrightarrow> holds ?pile k v"
    using upsert_ok [OF Cons.prems(1) q(2)] q(3) by blast+
  from Cons.IH [OF u(1)] Cons.prems(2) obtain p' where
    p': "fold_res f kvs ?pile = Inr p'" "piles_ok p'" "\<forall>k v. holds ?pile k v \<longrightarrow> holds p' k v"
      "\<forall>k x v. (k, x) \<in> set kvs \<longrightarrow> P x v \<longrightarrow> holds p' k v"
    by (auto simp: ok_iff)
  show ?case
    using p' u q(1) kx by simp
qed simp

lemma add_key_upserts:
  "piles_ok pile \<Longrightarrow> \<exists>q. add_key (k, v) pile = Inr (AList.update k (Some q) pile)
     \<and> (\<forall>u. simple_covers (pile_at pile k) u \<longrightarrow> simple_covers q u) \<and> (\<forall>u. u = v \<longrightarrow> simple_covers q u)"
  by (auto simp: add_key_def Let_def pile_pointer SimpleValPile_Add_covers)

lemma merge_key_upserts:
  "piles_ok pile \<Longrightarrow> val \<noteq> None \<Longrightarrow> \<exists>q. merge_key (k, val) pile = Inr (AList.update k (Some q) pile)
     \<and> (\<forall>u. simple_covers (pile_at pile k) u \<longrightarrow> simple_covers q u)
     \<and> (\<forall>u. (\<exists>p. val = Some p \<and> simple_covers p u) \<longrightarrow> simple_covers q u)"
  by (auto simp: merge_key_def Let_def pile_pointer SimpleValPile_Merge_covers)

lemma kv_covers_holds:
  "kv_covers p v \<longleftrightarrow> kv_vwf v \<and> (\<forall>(k, sv) \<in> set (entries v). holds (entries p) k sv)"
  by (simp add: kv_covers_def holds_def map_get_def)

lemma KeyValPile_Add_ok:
  assumes "kv_pwf p" and "kv_vwf v"
  shows "ok (KeyValPile_Add p v) (\<lambda>p'. kv_pwf p' \<and> kv_covers p' v \<and> (\<forall>u. kv_covers p u \<longrightarrow> kv_covers p' u))"
proof -
  have "piles_ok (entries p)" using assms(1) by (simp add: piles_ok_def kv_pwf_def)
  from upsert_all [of "\<lambda>_. True" add_key "\<lambda>v u. u = v", OF add_key_upserts this, of "entries v"] assms(2)
  show ?thesis
    by (auto simp: KeyValPile_Add_def ok_iff piles_ok_def kv_pwf_def kv_covers_holds) blast
qed

lemma KeyValPile_Merge_ok:
  assumes "kv_pwf p" and "kv_pwf q"
  shows "ok (KeyValPile_Merge p q) (\<lambda>r. kv_pwf r \<and> (\<forall>u. kv_covers p u \<longrightarrow> kv_covers r u)
     \<and> (\<forall>u. kv_covers q u \<longrightarrow> kv_covers r u))"
proof (cases p)
  case None
  with assms show ?thesis by (auto simp: KeyValPile_Merge_def kv_covers_def)
next
  case (Some kvs)
  have p: "piles_ok kvs" and q: "\<forall>(k, x) \<in> set (entries q). x \<noteq> None"
    using assms Some by (simp_all add: piles_ok_def kv_pwf_def)
  from upsert_all [of "\<lambda>x. x \<noteq> None" merge_key "\<lambda>val u. \<exists>p. val = Some p \<and> simple_covers p u",
      OF merge_key_upserts p q]
  obtain r where r: "fold_res merge_key (entries q) kvs = Inr r" "piles_ok r"
    "\<forall>k v. holds kvs k v \<longrightarrow> holds r k v"
    "\<forall>k x v. (k, x) \<in> set (entries q) \<longrightarrow> (\<exists>p. x = Some p \<and> simple_covers p v) \<longrightarrow> holds r k v"
    by (auto simp: ok_iff)
  have "holds r k v" if "holds (entries q) k v" for k v
    using that r(4) by (auto simp: holds_def dest!: map_of_SomeD)
  with r Some show ?thesis
    by (auto simp: KeyValPile_Merge_def kv_pwf_def piles_ok_def kv_covers_holds)
qed

interpretation key_val: value_rules
  KeyValPile_Add KeyValPile_Merge None kv_pwf kv_vwf kv_covers "\<lambda>_. True"
  KeyValConfig_Learn "\<lambda>rr c v. Inr (KeyValConfig_Decide rr c v)" kv_cwf
proof (unfold_locales, goal_cases)
  case 1
  show ?case by (simp add: kv_pwf_def)
next
  case (2 p v)
  then show ?case by (rule KeyValPile_Add_ok)
next
  case (3 p q)
  then show ?case by (rule ok_mono [OF KeyValPile_Merge_ok]) auto
next
  case (4 rr c p)
  from KeyValConfig_Learn_ok [OF this] show ?case
    by (rule ok_mono) (use 4(3) kv_covers_accepted in blast)
next
  case (5 rr c v d)
  then show ?case using KeyValConfig_Decide_grave [of rr c v] by simp
qed

section \<open>Preparing\<close>

lemma SimpleValConfig_Decide_prepared:
  "SimpleValConfig_Score (SimpleValConfig_Prepare v) = (s, v') \<Longrightarrow> SimpleValConfig_Decide v' = SimpleValConfig_Decide v"
  using SimpleValConfig_Decide_score [of "SimpleValConfig_Prepare v"] by simp

lemma distinct_table_insert:
  assumes "distinct (table_keys u)" and "k \<notin> set (table_keys u)"
  shows "distinct (table_keys (table_insert s k u))"
proof -
  have "mset (table_keys (table_insert s k u)) = mset (if k = '''' then table_keys u else k # table_keys u)"
    using table_keys_insert [of s k u] by simp
  from mset_eq_imp_distinct_iff [OF this] assms show ?thesis by auto
qed

definition prepared_so_far :: "KeyValConfig \<Rightarrow> string set \<Rightarrow> KeyValConfig \<Rightarrow> bool" where
  "prepared_so_far c done c' \<longleftrightarrow> length (KC_valScores c') = MAX_KEYS_LEARNED \<and> sorted (map svc_score (KC_valScores c'))
     \<and> distinct (table_keys (KC_valScores c')) \<and> set (table_keys (KC_valScores c')) \<subseteq> done
     \<and> (\<forall>k \<in> set (table_keys (KC_valScores c')). known c' k \<noteq> None) \<and> kvs_ok (entries (KC_Vals c'))
     \<and> (\<forall>k v. key_accepts c' k v = key_accepts c k v)"

lemma prepare_key_ok:
  assumes "prepared_so_far c done c'" and "k \<notin> done"
  shows "ok (prepare_key k c') (prepared_so_far c (insert k done))"
proof (cases "known c' k")
  case None
  then show ?thesis
    using assms(1) by (auto simp: prepare_key_def prepared_so_far_def)
next
  case (Some v)
  then obtain kvs where kvs: "KC_Vals c' = Some kvs"
    by (cases "KC_Vals c'") (auto simp: known_def)
  obtain s v' where s: "SimpleValConfig_Score (SimpleValConfig_Prepare v) = (s, v')"
    by (cases "SimpleValConfig_Score (SimpleValConfig_Prepare v)")
  define c1 where "c1 = c'\<lparr>KC_Vals := Some (AList.update k (Some v') kvs)\<rparr>"
  have k1: "known c1 k' = (if k' = k then Some v' else known c' k')" for k'
    using kvs by (simp add: c1_def known_same)
  have acc: "key_accepts c1 k' u = key_accepts c' k' u" for k' u
    using Some k1 [of k'] SimpleValConfig_Decide_prepared [OF s]
    by (simp add: key_accepts_def others_accept_def c1_def split: option.splits)
  have h: "length (KC_valScores c') = 7" "sorted (map svc_score (KC_valScores c'))"
    "distinct (table_keys (KC_valScores c'))" "set (table_keys (KC_valScores c')) \<subseteq> done"
    "\<forall>k \<in> set (table_keys (KC_valScores c')). known c' k \<noteq> None" "kvs_ok kvs"
    "\<forall>k v. key_accepts c' k v = key_accepts c k v"
    using assms(1) kvs by (simp_all add: prepared_so_far_def)
  obtain a u where t: "KC_valScores c' = a # u" using h(1) by (cases "KC_valScores c'") auto
  then have t1: "KC_valScores c1 = a # u" by (simp add: c1_def)
  have u: "length u = 6" "sorted (map svc_score u)" "distinct (table_keys u)" "set (table_keys u) \<subseteq> set (table_keys (KC_valScores c'))"
    using h(1-3) t by (auto simp: table_keys_def split: if_splits)
  have c1: "prepared_so_far c (insert k done) c1"
    using h k1 acc by (auto simp: prepared_so_far_def) (auto simp: c1_def)
  show ?thesis
  proof (cases "svc_score a < s")
    case False
    then have "prepare_key k c' = Inr c1"
      using Some s kvs findScoreIndex_low [OF t1 False]
      by (simp add: prepare_key_def put_val_Some c1_def)
    with c1 show ?thesis by simp
  next
    case True
    have "prepare_key k c' = Inr (c1\<lparr>KC_valScores := table_insert s k u\<rparr>)"
      using Some s kvs setScore_table(1) [OF t1 True] setScore_table(2) [OF t1 True, of k]
      by (simp add: prepare_key_def put_val_Some c1_def)
    moreover have "prepared_so_far c (insert k done) (c1\<lparr>KC_valScores := table_insert s k u\<rparr>)"
    proof -
      have "set (table_keys (table_insert s k u)) \<subseteq> insert k (set (table_keys u))"
        using arg_cong [OF table_keys_insert [of s k u], of set_mset] by (auto split: if_splits)
      moreover have "distinct (table_keys (table_insert s k u))"
        by (rule distinct_table_insert) (use u(3,4) h(4) assms(2) in auto)
      moreover have "key_accepts (c1\<lparr>KC_valScores := t\<rparr>) k' v = key_accepts c k' v" for t k' v
        using acc [of k' v] h(7) by (simp add: key_accepts_def others_accept_def split: option.splits)
      ultimately show ?thesis
        using u h(4-6) k1 by (auto simp: prepared_so_far_def length_table_insert sorted_table_insert) (auto simp: c1_def)
    qed
    ultimately show ?thesis by simp
  qed
qed

lemma prepare_keys_ok:
  assumes "prepared_so_far c done c'" and "distinct ks" and "set ks \<inter> done = {}"
  shows "ok (fold_res prepare_key ks c') (prepared_so_far c (set ks \<union> done))"
  using assms
proof (induction ks arbitrary: c' "done")
  case (Cons k ks)
  from prepare_key_ok [OF Cons.prems(1), of k] Cons.prems(3) obtain c1
    where c1: "prepare_key k c' = Inr c1" "prepared_so_far c (insert k done) c1"
    by (auto simp: ok_iff)
  from Cons.IH [OF c1(2)] Cons.prems(2,3) c1(1) show ?case by simp
qed simp

lemma KeyValConfig_Prepare_ok:
  assumes "fair_ranger rr" and "kvs_ok (entries (KC_Vals c))" and "KC_valScores c = KC_valScores new_KeyValConfig"
  shows "ok (KeyValConfig_Prepare rr c) (\<lambda>c'. kv_cwf c' \<and> (\<forall>k v. key_accepts c' k v = key_accepts c k v))"
proof -
  let ?ks = "map fst (range_over (rr ''Prepare'') (entries (KC_Vals c)))"
  have "distinct ?ks"
    using kvs_ok_range_over [OF fair_rangerD [OF assms(1)] assms(2), of "''Prepare''"] by (simp add: kvs_ok_def)
  moreover have "prepared_so_far c {} c"
    using kv_cwf_new assms(2,3) by (simp add: prepared_so_far_def kv_cwf_def table_keys_def new_KeyValConfig_def)
  ultimately obtain c1 where c1: "fold_res prepare_key ?ks c = Inr c1" "prepared_so_far c (set ?ks) c1"
    using prepare_keys_ok [of c "{}" c ?ks] by (auto simp: ok_iff)
  let ?c = "c1\<lparr>KC_OtherKeynames := map_option SimpleValConfig_Prepare (KC_OtherKeynames c1),
          KC_OtherVals := map_option SimpleValConfig_Prepare (KC_OtherVals c1)\<rparr>"
  have "key_accepts ?c k v = key_accepts c1 k v" for k v
    by (auto simp: key_accepts_def others_accept_def split: option.splits)
  with c1 show ?thesis
    by (simp add: KeyValConfig_Prepare_def prepared_so_far_def kv_cwf_def)
qed

lemma kv_tight_card:
  assumes "kv_cwf c" and "kv_tight c"
  shows "card {k. known c k \<noteq> None} \<le> Suc MAX_KEYS_LEARNED"
proof -
  have "length (table_keys (KC_valScores c)) \<le> 7"
    using assms(1) length_filter_le [of "\<lambda>k. k \<noteq> ''''" "map svc_key (KC_valScores c)"]
    by (simp add: table_keys_def kv_cwf_def)
  then have "card (insert '''' (set (table_keys (KC_valScores c)))) \<le> 8"
    using card_length [of "'''' # table_keys (KC_valScores c)"] by simp
  moreover have "card {k. known c k \<noteq> None} \<le> card (insert '''' (set (table_keys (KC_valScores c))))"
    by (rule card_mono) (use assms(2) in \<open>simp_all add: kv_tight_def\<close>)
  ultimately show ?thesis by simp
qed

section \<open>Properties\<close>

text \<open>
  C20. Learning keys and values, in whatever order the map is visited: the call does not panic,
  the table of scores stays sorted with distinct known keys, every profile piled up with
  non-empty keys is accepted afterwards although keys are evicted to the aggregate of other
  keys on the way, keys the pile does not mention are accepted as before, and a criteria that
  has been learned never knows more than eight keys (seven scored ones and the empty key).
\<close>

theorem KeyValConfig_Learn_sound:
  assumes "fair_ranger rr" and "kv_cwf c" and "kv_pwf p"
  shows "\<exists>c'. KeyValConfig_Learn rr c p = Inr c' \<and> kv_cwf c'
    \<and> (\<forall>rr' v. fair_ranger rr' \<longrightarrow> kv_covers p v \<longrightarrow> KeyValConfig_Decide rr' c' v = None)
    \<and> (\<forall>k v. k \<notin> fst ` set (entries p) \<longrightarrow> key_accepts c k v \<longrightarrow> key_accepts c' k v)
    \<and> (kv_tight c \<longrightarrow> kv_tight c' \<and> card {k. known c' k \<noteq> None} \<le> Suc MAX_KEYS_LEARNED)"
proof -
  obtain c' where c': "KeyValConfig_Learn rr c p = Inr c'" "kv_cwf c'" "kv_tight c \<longrightarrow> kv_tight c'"
    "\<forall>k v. k \<notin> fst ` set (entries p) \<longrightarrow> key_accepts c k v \<longrightarrow> key_accepts c' k v"
    "\<forall>k q v. (k, Some q) \<in> set (entries p) \<longrightarrow> k \<noteq> '''' \<longrightarrow> simple_covers q v \<longrightarrow> key_accepts c' k v"
    using KeyValConfig_Learn_ok [OF assms] by (auto simp: ok_iff)
  moreover have "KeyValConfig_Decide rr' c' v = None" if "fair_ranger rr'" "kv_covers p v" for rr' v
    using acceptsD [OF kv_covers_accepted [OF assms(3) that(2) c'(5)] that(1)] by simp
  ultimately show ?thesis
    using kv_tight_card by blast
qed

definition sample_pile :: KeyValPile where
  "sample_pile = Some [(''id'', Some (SimpleValPile_Add new_SimpleValPile (name_profile ''7'')))]"

lemma kv_tight_new: "kv_tight new_KeyValConfig"
  by (simp add: kv_tight_def known_def new_KeyValConfig_def)

theorem KeyValConfig_Learn_sound_witness:
  "\<exists>c'. KeyValConfig_Learn (\<lambda>_. rev) new_KeyValConfig sample_pile = Inr c' \<and> kv_cwf c'
    \<and> (\<forall>rr' v. fair_ranger rr' \<longrightarrow> kv_covers sample_pile v \<longrightarrow> KeyValConfig_Decide rr' c' v = None)
    \<and> (\<forall>k v. k \<notin> fst ` set (entries sample_pile) \<longrightarrow> key_accepts new_KeyValConfig k v \<longrightarrow> key_accepts c' k v)
    \<and> (kv_tight new_KeyValConfig \<longrightarrow> kv_tight c' \<and> card {k. known c' k \<noteq> None} \<le> Suc MAX_KEYS_LEARNED)"
  by (rule KeyValConfig_Learn_sound)
    (auto simp: kv_cwf_new kv_pwf_def sample_pile_def)

text \<open>
  A key-value criteria read from storage, where the scores are not kept, regains its
  invariant in \<open>Prepare\<close> and decides every key and value as the stored one.
\<close>

theorem KeyValConfig_Prepare_restores:
  assumes "fair_ranger rr" and "kvs_ok (entries (KC_Vals c))" and "KC_valScores c = KC_valScores new_KeyValConfig"
  shows "\<exists>c'. KeyValConfig_Prepare rr c = Inr c' \<and> kv_cwf c' \<and>
    (\<forall>rr' v. fair_ranger rr' \<longrightarrow> kvs_ok (entries v) \<longrightarrow>
       (KeyValConfig_Decide rr' c' v = None \<longleftrightarrow> KeyValConfig_Decide rr' c v = None))"
proof -
  obtain c' where "KeyValConfig_Prepare rr c = Inr c'" "kv_cwf c'" "\<forall>k v. key_accepts c' k v = key_accepts c k v"
    using KeyValConfig_Prepare_ok [OF assms] by (auto simp: ok_iff)
  moreover from this have "key_accepts c' = key_accepts c" by blast
  ultimately show ?thesis by (simp add: KeyValConfig_Decide_None)
qed

theorem KeyValConfig_Prepare_restores_witness:
  "\<exists>c'. KeyValConfig_Prepare (\<lambda>_. rev) new_KeyValConfig = Inr c' \<and> kv_cwf c' \<and>
    (\<forall>rr' v. fair_ranger rr' \<longrightarrow> kvs_ok (entries v) \<longrightarrow>
       (KeyValConfig_Decide rr' c' v = None \<longleftrightarrow> KeyValConfig_Decide rr' new_KeyValConfig v = None))"
  by (rule KeyValConfig_Prepare_restores) (auto simp: new_KeyValConfig_def)

text \<open>
  The empty key is lost: a pile whose only key is empty and whose value scores nothing
  is learned without error, yet the very profile it was made of is rejected afterwards.
\<close>

theorem empty_key_is_forgotten:
  "\<exists>p c. KeyValPile_Add None (Some [('''', name_profile '''')]) = Inr p
     \<and> KeyValConfig_Learn (\<lambda>_ ks. ks) new_KeyValConfig p = Inr c
     \<and> KeyValConfig_Decide (\<lambda>_ ks. ks) c (Some [('''', name_profile '''')]) \<noteq> None"
proof -
  have p: "KeyValPile_Add None (Some [('''', name_profile '''')])
      = Inr (Some [('''', Some (SimpleValPile_Add new_SimpleValPile (name_profile '''')))])"
    by (simp add: KeyValPile_Add_def add_key_def)
  have "KeyValConfig_Learn (\<lambda>_ ks. ks) new_KeyValConfig
      (Some [('''', Some (SimpleValPile_Add new_SimpleValPile (name_profile '''')))])
    = Inr (new_KeyValConfig\<lparr>KC_Vals := Some []\<rparr>)"
    by code_simp
  moreover have "KeyValConfig_Decide (\<lambda>_ ks. ks) (new_KeyValConfig\<lparr>KC_Vals := Some []\<rparr>) (Some [('''', name_profile '''')]) \<noteq> None"
    by (simp add: KeyValConfig_Decide_def range_over_def decide_key_def known_def new_KeyValConfig_def)
  ultimately show ?thesis
    using p by blast
qed

end
