(* ===== verification/Sets.thy ===== *)
theory Sets
  imports Value_Rules
begin

text \<open>
  \<open>pkg/apis/guard/v1alpha1/set.go\<close>: the micro-rule for tokens (methods, protocols, media
  types, body faults). Piles and criteria hold a list, which is what travels as JSON, and an
  unexported map \<open>m\<close> that indexes it and is nil after unmarshalling.
\<close>

section \<open>Profile\<close>

type_synonym SetProfile = "string list option"

definition SetProfile_ProfileString :: "string \<Rightarrow> SetProfile" where
  "SetProfile_ProfileString s = Some [s]"

definition SetProfile_ProfileStringSlice :: "string list \<Rightarrow> SetProfile" where
  "SetProfile_ProfileStringSlice strSlice = Some strSlice"

definition tokens :: "SetProfile \<Rightarrow> string list" where
  "tokens profile = (case profile of None \<Rightarrow> [] | Some vs \<Rightarrow> vs)"

lemma tokens_simps [simp]: "tokens None = []" "tokens (Some vs) = vs"
  by (simp_all add: tokens_def)

section \<open>Pile\<close>

record SetPile =
  SetPile_List :: "string list"
  SetPile_m :: "bool gomap"

definition empty_SetPile :: SetPile where
  "empty_SetPile = \<lparr>SetPile_List = [], SetPile_m = None\<rparr>"

definition seen :: "bool gomap \<Rightarrow> string \<Rightarrow> bool" where
  "seen m v = (map_get m v = Some True)"

text \<open>\<open>make(map[string]bool)\<close> and its population from the list.\<close>

definition index_of_list :: "string list \<Rightarrow> bool entries" where
  "index_of_list vs = fold (\<lambda>v kvs. AList.update v True kvs) vs []"

text \<open>The loop that \<open>Add\<close>, \<open>Merge\<close> and \<open>Learn\<close> share: new tokens go to the map and the list.\<close>

fun insert_new :: "string list \<Rightarrow> string list \<times> bool entries \<Rightarrow> string list \<times> bool entries" where
  "insert_new [] (xs, kvs) = (xs, kvs)"
| "insert_new (v # vs) (xs, kvs) =
     (if \<not> seen (Some kvs) v then insert_new vs (xs @ [v], AList.update v True kvs)
      else insert_new vs (xs, kvs))"

definition SetPile_index :: "SetPile \<Rightarrow> bool entries" where
  "SetPile_index pile = (case SetPile_m pile of None \<Rightarrow> index_of_list (SetPile_List pile) | Some kvs \<Rightarrow> kvs)"

definition SetPile_Add :: "SetPile \<Rightarrow> SetProfile \<Rightarrow> SetPile" where
  "SetPile_Add pile profile =
     (case profile of
        None \<Rightarrow> pile
      | Some vs \<Rightarrow>
          (let (xs, kvs) = insert_new vs (SetPile_List pile, SetPile_index pile)
           in \<lparr>SetPile_List = xs, SetPile_m = Some kvs\<rparr>))"

definition SetPile_Clear :: "SetPile \<Rightarrow> SetPile" where
  "SetPile_Clear pile = pile\<lparr>SetPile_m := None, SetPile_List := []\<rparr>"

definition SetPile_Merge :: "SetPile \<Rightarrow> SetPile \<Rightarrow> SetPile" where
  "SetPile_Merge pile otherPile =
     (let (xs, kvs) = insert_new (SetPile_List otherPile) (SetPile_List pile, SetPile_index pile)
      in \<lparr>SetPile_List = xs, SetPile_m = Some kvs\<rparr>)"

section \<open>Criteria\<close>

record SetConfig =
  SetConfig_List :: "string list"
  SetConfig_m :: "bool gomap"

definition new_SetConfig :: SetConfig where
  "new_SetConfig = \<lparr>SetConfig_List = [], SetConfig_m = None\<rparr>"

definition SetConfig_Decide :: "SetConfig \<Rightarrow> SetProfile \<Rightarrow> decision option" where
  "SetConfig_Decide config profile =
     (case profile of
        None \<Rightarrow> None
      | Some vs \<Rightarrow>
          fold (\<lambda>v current. if seen (SetConfig_m config) v then current
                            else DecideInner current 1 (''Unexpected key '' @ v @ '' in Set'')) vs None)"

definition SetConfig_Learn :: "SetConfig \<Rightarrow> SetPile \<Rightarrow> SetConfig" where
  "SetConfig_Learn config pile =
     (if length (SetPile_List pile) = 0 then config
      else
        (let kvs = (case SetConfig_m config of None \<Rightarrow> [] | Some kvs \<Rightarrow> kvs);
             (xs, kvs) = insert_new (SetPile_List pile) (SetConfig_List config, kvs)
         in \<lparr>SetConfig_List = xs, SetConfig_m = Some kvs\<rparr>))"

definition SetConfig_Prepare :: "SetConfig \<Rightarrow> SetConfig" where
  "SetConfig_Prepare config = config\<lparr>SetConfig_m := Some (index_of_list (SetConfig_List config))\<rparr>"

section \<open>The list and its index\<close>

lemma seen_nil [simp]: "\<not> seen None v" "\<not> seen (Some []) v"
  by (simp_all add: seen_def)

lemma seen_update [simp]: "seen (Some (AList.update v True kvs)) u \<longleftrightarrow> u = v \<or> seen (Some kvs) u"
  by (simp add: seen_def)

lemma seen_index_of_list [simp]: "seen (Some (index_of_list vs)) v \<longleftrightarrow> v \<in> set vs"
proof -
  have "seen (Some (fold (\<lambda>v kvs. AList.update v True kvs) vs kvs)) v \<longleftrightarrow> v \<in> set vs \<or> seen (Some kvs) v" for kvs
    by (induction vs arbitrary: kvs) auto
  then show ?thesis by (simp add: index_of_list_def)
qed

lemma insert_new_seen:
  "insert_new vs (xs, kvs) = (xs', kvs') \<Longrightarrow> seen (Some kvs') v \<longleftrightarrow> v \<in> set vs \<or> seen (Some kvs) v"
  by (induction vs arbitrary: xs kvs) (auto split: if_splits)

lemma insert_new_list:
  "insert_new vs (xs, kvs) = (xs', kvs') \<Longrightarrow> (\<forall>v. seen (Some kvs) v \<longleftrightarrow> v \<in> set xs) \<Longrightarrow>
     set xs' = set xs \<union> set vs \<and> (distinct xs \<longrightarrow> distinct xs') \<and> (\<exists>ys. xs' = xs @ ys)"
proof (induction vs arbitrary: xs kvs)
  case (Cons v vs)
  show ?case
  proof (cases "seen (Some kvs) v")
    case True
    with Cons.IH [of xs kvs] Cons.prems show ?thesis by auto
  next
    case False
    with Cons.IH [of "xs @ [v]" "AList.update v True kvs"] Cons.prems show ?thesis by auto
  qed
qed simp

text \<open>
  The comment of the two types: if the map is nil it should be populated from the list, else
  it is kept in sync with it.
\<close>

definition in_sync :: "string list \<Rightarrow> bool gomap \<Rightarrow> bool" where
  "in_sync xs m \<longleftrightarrow> m \<noteq> None \<and> (\<forall>v. seen m v \<longleftrightarrow> v \<in> set xs) \<and> distinct xs"

definition set_pwf :: "SetPile \<Rightarrow> bool" where
  "set_pwf p \<longleftrightarrow> distinct (SetPile_List p) \<and> (SetPile_m p = None \<or> in_sync (SetPile_List p) (SetPile_m p))"

definition set_covers :: "SetPile \<Rightarrow> SetProfile \<Rightarrow> bool" where
  "set_covers p v \<longleftrightarrow> set (tokens v) \<subseteq> set (SetPile_List p)"

lemma SetPile_index_seen: "set_pwf p \<Longrightarrow> seen (Some (SetPile_index p)) v \<longleftrightarrow> v \<in> set (SetPile_List p)"
  by (cases "SetPile_m p") (simp_all add: set_pwf_def in_sync_def SetPile_index_def)

lemma set_pwf_insert:
  assumes "set_pwf p" and "insert_new vs (SetPile_List p, SetPile_index p) = (xs, kvs)"
  shows "set_pwf \<lparr>SetPile_List = xs, SetPile_m = Some kvs\<rparr> \<and> set xs = set (SetPile_List p) \<union> set vs"
proof -
  have i: "\<forall>v. seen (Some (SetPile_index p)) v \<longleftrightarrow> v \<in> set (SetPile_List p)"
    using assms(1) by (simp add: SetPile_index_seen)
  have "distinct (SetPile_List p)"
    using assms(1) by (simp add: set_pwf_def)
  with insert_new_list [OF assms(2) i]
  have "set xs = set (SetPile_List p) \<union> set vs" "distinct xs" by simp_all
  moreover from this i have "\<forall>v. seen (Some kvs) v \<longleftrightarrow> v \<in> set xs"
    using insert_new_seen [OF assms(2)] by auto
  ultimately show ?thesis by (simp add: set_pwf_def in_sync_def)
qed

lemma SetPile_Add_ok:
  assumes "set_pwf p"
  shows "set_pwf (SetPile_Add p v) \<and> set (SetPile_List (SetPile_Add p v)) = set (SetPile_List p) \<union> set (tokens v)"
proof (cases v)
  case (Some vs)
  obtain xs kvs where i: "insert_new vs (SetPile_List p, SetPile_index p) = (xs, kvs)"
    by (cases "insert_new vs (SetPile_List p, SetPile_index p)") auto
  with Some set_pwf_insert [OF assms i] show ?thesis by (simp add: SetPile_Add_def)
qed (use assms in \<open>simp add: SetPile_Add_def\<close>)

lemma SetPile_Merge_ok:
  assumes "set_pwf p"
  shows "set_pwf (SetPile_Merge p q) \<and>
    set (SetPile_List (SetPile_Merge p q)) = set (SetPile_List p) \<union> set (SetPile_List q)"
proof -
  obtain xs kvs where i: "insert_new (SetPile_List q) (SetPile_List p, SetPile_index p) = (xs, kvs)"
    by (cases "insert_new (SetPile_List q) (SetPile_List p, SetPile_index p)") auto
  with set_pwf_insert [OF assms i] show ?thesis by (simp add: SetPile_Merge_def)
qed

section \<open>Learning\<close>

lemma SetConfig_Decide_None: "SetConfig_Decide c v = None \<longleftrightarrow> (\<forall>s \<in> set (tokens v). seen (SetConfig_m c) s)"
  by (auto simp: SetConfig_Decide_def tokens_def split: option.splits)

lemma SetConfig_Decide_grave [simp]: "grave_opt (SetConfig_Decide c v)"
  by (simp add: SetConfig_Decide_def split: option.splits)

lemma SetConfig_Learn_seen:
  "seen (SetConfig_m (SetConfig_Learn c p)) v \<longleftrightarrow> v \<in> set (SetPile_List p) \<or> seen (SetConfig_m c) v"
proof -
  have "seen (Some (case m of None \<Rightarrow> [] | Some kvs \<Rightarrow> kvs)) v = seen m v" for m v
    by (simp split: option.splits)
  then show ?thesis
    by (auto simp: SetConfig_Learn_def Let_def insert_new_seen split: prod.splits)
qed

lemma SetConfig_Learn_sync:
  assumes "in_sync (SetConfig_List c) (SetConfig_m c)"
  shows "in_sync (SetConfig_List (SetConfig_Learn c p)) (SetConfig_m (SetConfig_Learn c p))"
proof -
  obtain kvs where kvs: "SetConfig_m c = Some kvs"
    using assms by (auto simp: in_sync_def)
  then have h: "\<forall>v. seen (Some kvs) v \<longleftrightarrow> v \<in> set (SetConfig_List c)"
    using assms by (simp add: in_sync_def)
  obtain xs' kvs' where i: "insert_new (SetPile_List p) (SetConfig_List c, kvs) = (xs', kvs')"
    by (cases "insert_new (SetPile_List p) (SetConfig_List c, kvs)") auto
  show ?thesis
    using assms kvs i insert_new_seen [OF i] insert_new_list [OF i h] h
    by (auto simp: SetConfig_Learn_def Let_def in_sync_def)
qed

interpretation set: monotone_rules
  "pure_add SetPile_Add" "pure_add SetPile_Merge" empty_SetPile set_pwf "\<lambda>_. True" set_covers "\<lambda>_. True"
  "pure_learn SetConfig_Learn" "pure_decide SetConfig_Decide" "\<lambda>_. True"
proof (unfold_locales, goal_cases)
  case 1
  show ?case by (simp add: set_pwf_def empty_SetPile_def)
next
  case (2 p v)
  then show ?case using SetPile_Add_ok [of p v] by (auto simp: set_covers_def)
next
  case (3 p q)
  then show ?case using SetPile_Merge_ok [of p q] by (auto simp: set_covers_def)
qed (auto simp: set_covers_def SetConfig_Decide_None SetConfig_Learn_seen)

text \<open>What unmarshalling gives back of a criteria: the unexported map is nil.\<close>

definition unmarshalled_SetConfig :: "SetConfig \<Rightarrow> SetConfig" where
  "unmarshalled_SetConfig c = c\<lparr>SetConfig_m := None\<rparr>"

text \<open>
  A token criteria survives transport: marshalling keeps the list only, and the criteria
  unmarshalled and prepared decides every profile as the one that was sent did. Learning keeps
  the index in sync with the list, so this holds at every point of a criteria's life.
\<close>

theorem SetConfig_transport:
  assumes "in_sync (SetConfig_List c) (SetConfig_m c)"
  shows "SetConfig_Decide (SetConfig_Prepare (unmarshalled_SetConfig (SetConfig_Learn c p))) v
     = SetConfig_Decide (SetConfig_Learn c p) v"
proof -
  let ?c = "SetConfig_Learn c p"
  have "seen (SetConfig_m (SetConfig_Prepare (unmarshalled_SetConfig ?c))) s = seen (SetConfig_m ?c) s" for s
    using SetConfig_Learn_sync [OF assms, of p]
    by (auto simp: in_sync_def SetConfig_Prepare_def unmarshalled_SetConfig_def)
  then show ?thesis by (simp only: SetConfig_Decide_def)
qed

theorem SetConfig_transport_witness:
  "SetConfig_Decide (SetConfig_Prepare (unmarshalled_SetConfig
      (SetConfig_Learn \<lparr>SetConfig_List = [''GET''], SetConfig_m = Some [(''GET'', True)]\<rparr>
        \<lparr>SetPile_List = [''PUT''], SetPile_m = None\<rparr>))) (Some [''PUT'', ''POST''])
   = SetConfig_Decide (SetConfig_Learn \<lparr>SetConfig_List = [''GET''], SetConfig_m = Some [(''GET'', True)]\<rparr>
        \<lparr>SetPile_List = [''PUT''], SetPile_m = None\<rparr>) (Some [''PUT'', ''POST''])"
  by (rule SetConfig_transport) (auto simp: in_sync_def seen_def)

end
