(* ===== verification/Structured.thy ===== *)
theory Structured
  imports Key_Vals Sets
begin

text \<open>
  \<open>pkg/apis/guard/v1alpha1/structuredProfiler.go\<close>: bodies that are decoded data (JSON values,
  forms).
\<close>

section \<open>Decoded data\<close>

text \<open>
  The Go values the profiler inspects through \<open>reflect\<close>. A float carries how \<open>%v\<close> and \<open>%f\<close>
  print it. \<open>GSlice True\<close> is a slice of interfaces, as \<open>encoding/json\<close> makes for a JSON array:
  the kind of its elements is Interface; \<open>GSlice False\<close> is a slice of some concrete type.
\<close>

datatype godata =
  GNil | GBool bool | GFloat64 string string | GString string | GInt int
| GSlice bool "godata list" | GMap "(string \<times> godata) list"

definition print_int :: "int \<Rightarrow> string" where
  "print_int n = (if n < 0 then ''-'' @ fmt_d (nat (- n)) else fmt_d (nat n))"

text \<open>\<open>fmt.Sprint\<close>: maps are printed in the order of their keys.\<close>

fun Sprint :: "godata \<Rightarrow> string" where
  "Sprint GNil = ''<nil>''"
| "Sprint (GBool b) = (if b then ''true'' else ''false'')"
| "Sprint (GFloat64 v f) = v"
| "Sprint (GString s) = s"
| "Sprint (GInt n) = print_int n"
| "Sprint (GSlice i xs) = ''['' @ join '' '' (map Sprint xs) @ '']''"
| "Sprint (GMap kvs) = ''map['' @ join '' '' (map (\<lambda>(k, s). k @ '':'' @ s) (sort_key fst (map (\<lambda>(k, v). (k, Sprint v)) kvs))) @ '']''"

abbreviation KindEmpty :: string where "KindEmpty \<equiv> ''''"
abbreviation KindObject :: string where "KindObject \<equiv> ''object''"
abbreviation KindArray :: string where "KindArray \<equiv> ''array''"
abbreviation KindNumber :: string where "KindNumber \<equiv> ''number''"
abbreviation KindBoolean :: string where "KindBoolean \<equiv> ''boolean''"
abbreviation KindString :: string where "KindString \<equiv> ''string''"
abbreviation KindMulti :: string where "KindMulti \<equiv> ''multi''"

section \<open>Profile\<close>

record StructuredProfile =
  SP_Kind :: string
  SP_Vals :: "SimpleValProfile list"
  SP_Kv :: KeyValProfile

definition new_StructuredProfile :: StructuredProfile where
  "new_StructuredProfile = \<lparr>SP_Kind = KindEmpty, SP_Vals = [], SP_Kv = None\<rparr>"

definition profile_of :: "string \<Rightarrow> SimpleValProfile" where
  "profile_of s = SimpleValProfile_Profile new_SimpleValProfile s"

text \<open>
  The walk over nested maps: the loop variable \<open>key\<close> hides the parameter of that name, so the
  key handed down is built from the inner key only. The entries are visited in the order \<open>ro\<close>.
\<close>

fun recursiveKeyVal :: "hash \<Rightarrow> order \<Rightarrow> godata \<Rightarrow> string \<Rightarrow> SimpleValProfile entries \<Rightarrow> SimpleValProfile entries" where
  "recursiveKeyVal hash ro GNil = (\<lambda>key kv. kv)"
| "recursiveKeyVal hash ro (GMap kvs) = (\<lambda>key kv.
     fold (\<lambda>(k, walk) kv. walk (k @ '':'' @ k) kv)
       (range_over ro (map (\<lambda>(k, v). (k, recursiveKeyVal hash ro v)) kvs)) kv)"
| "recursiveKeyVal hash ro d = (\<lambda>key kv. AList.update (hashIfNeeded hash key) (profile_of (Sprint d)) kv)"

definition array_element :: "bool \<Rightarrow> godata \<Rightarrow> SimpleValProfile res" where
  "array_element interface val =
     (if interface then Inl (PanicMsg ''StructuredProfile.Profile() unknown Kind in Array: interface'')
      else case val of
        GInt n \<Rightarrow> Inl (PanicMsg ''StructuredProfile.Profile() unknown Kind in Array: int'')
      | _ \<Rightarrow> Inr (profile_of (Sprint val)))"

definition StructuredProfile_Profile :: "hash \<Rightarrow> order \<Rightarrow> StructuredProfile \<Rightarrow> godata \<Rightarrow> StructuredProfile res" where
  "StructuredProfile_Profile hash ro profile d =
     (case d of
        GNil \<Rightarrow> Inr profile
      | GSlice interface xs \<Rightarrow>
          bind_res (fold_res (\<lambda>val vals. bind_res (array_element interface val) (\<lambda>v. Inr (vals @ [v]))) xs [])
            (\<lambda>vals. Inr (profile\<lparr>SP_Kind := KindArray, SP_Vals := vals\<rparr>))
      | GMap kvs \<Rightarrow>
          Inr (profile\<lparr>SP_Kind := KindObject,
            SP_Kv := Some (fold (\<lambda>(k, v) kv. recursiveKeyVal hash ro v k kv) (range_over ro kvs) [])\<rparr>)
      | GFloat64 v f \<Rightarrow> Inr (profile\<lparr>SP_Kind := KindNumber, SP_Vals := [profile_of f]\<rparr>)
      | GBool b \<Rightarrow> Inr (profile\<lparr>SP_Kind := KindBoolean, SP_Vals := [profile_of (if b then ''true'' else ''false'')]\<rparr>)
      | GString s \<Rightarrow> Inr (profile\<lparr>SP_Kind := KindString, SP_Vals := [profile_of s]\<rparr>)
      | GInt n \<Rightarrow> Inl (PanicMsg ''StructuredProfile.Profile() unsupported Kind: int''))"

section \<open>Pile\<close>

record StructuredPile =
  SQ_Kind :: string
  SQ_Val :: "SimpleValPile option"
  SQ_Kv :: KeyValPile

definition new_StructuredPile :: StructuredPile where
  "new_StructuredPile = \<lparr>SQ_Kind = KindEmpty, SQ_Val = None, SQ_Kv = None\<rparr>"

definition scalar_kind :: "string \<Rightarrow> bool" where
  "scalar_kind k \<longleftrightarrow> k \<in> {KindBoolean, KindNumber, KindString}"

definition made_map :: "'v gomap \<Rightarrow> 'v gomap" where
  "made_map m = (case m of None \<Rightarrow> Some [] | Some kvs \<Rightarrow> Some kvs)"

definition add_val :: "SimpleValProfile \<Rightarrow> StructuredPile \<Rightarrow> StructuredPile res" where
  "add_val v pile = bind_res (deref (SQ_Val pile)) (\<lambda>val. Inr (pile\<lparr>SQ_Val := Some (SimpleValPile_Add val v)\<rparr>))"

text \<open>The part of \<open>Add\<close> after the kinds have been compared.\<close>

definition add_same_kind :: "StructuredPile \<Rightarrow> StructuredProfile \<Rightarrow> StructuredPile res" where
  "add_same_kind pile profile =
     (if SQ_Kind pile \<noteq> SP_Kind profile then Inr (pile\<lparr>SQ_Kind := KindMulti\<rparr>)
      else if SP_Kind profile = KindObject then
        bind_res (KeyValPile_Add (made_map (SQ_Kv pile)) (SP_Kv profile)) (\<lambda>kv. Inr (pile\<lparr>SQ_Kv := kv\<rparr>))
      else if SP_Kind profile = KindArray then fold_res add_val (SP_Vals profile) pile
      else if scalar_kind (SP_Kind profile) then
        bind_res (index_at (SP_Vals profile) 0) (\<lambda>v. add_val v pile)
      else Inr pile)"

definition StructuredPile_Add :: "StructuredPile \<Rightarrow> StructuredProfile \<Rightarrow> StructuredPile res" where
  "StructuredPile_Add pile profile =
     (if SQ_Kind pile = KindEmpty then
        (if SP_Kind profile = KindObject then add_same_kind (pile\<lparr>SQ_Kind := SP_Kind profile\<rparr>) profile
         else if SP_Kind profile = KindArray \<or> scalar_kind (SP_Kind profile)
         then add_same_kind (pile\<lparr>SQ_Kind := SP_Kind profile, SQ_Val := Some new_SimpleValPile\<rparr>) profile
         else if SP_Kind profile = KindEmpty then Inr pile
         else if SP_Kind profile = KindMulti then add_same_kind pile profile
         else Inl (PanicMsg (''StructuredProfile.Pile() unknown Kind: '' @ SP_Kind profile)))
      else add_same_kind pile profile)"

definition StructuredPile_Clear :: "StructuredPile \<Rightarrow> StructuredPile" where
  "StructuredPile_Clear pile = pile\<lparr>SQ_Kind := KindEmpty, SQ_Val := None, SQ_Kv := None\<rparr>"

definition StructuredPile_Merge :: "StructuredPile \<Rightarrow> StructuredPile \<Rightarrow> StructuredPile res" where
  "StructuredPile_Merge pile otherPile =
     (let pile =
        (if SQ_Kind pile = KindEmpty then
           (let pile = pile\<lparr>SQ_Kind := SQ_Kind otherPile\<rparr> in
            if SQ_Kind otherPile = KindArray \<or> scalar_kind (SQ_Kind otherPile)
            then pile\<lparr>SQ_Val := Some new_SimpleValPile\<rparr> else pile)
         else pile)
      in if SQ_Kind pile \<noteq> SQ_Kind otherPile then Inr (pile\<lparr>SQ_Kind := KindMulti\<rparr>)
         else if SQ_Kind otherPile = KindObject then
           bind_res (KeyValPile_Merge (made_map (SQ_Kv pile)) (SQ_Kv otherPile)) (\<lambda>kv. Inr (pile\<lparr>SQ_Kv := kv\<rparr>))
         else if SQ_Kind otherPile = KindArray \<or> scalar_kind (SQ_Kind otherPile) then
           bind_res (deref (SQ_Val pile)) (\<lambda>val.
           bind_res (deref (SQ_Val otherPile)) (\<lambda>other.
           Inr (pile\<lparr>SQ_Val := Some (SimpleValPile_Merge val other)\<rparr>)))
         else Inr pile)"

section \<open>Criteria\<close>

record StructuredConfig =
  SC_Kind :: string
  SC_Val :: "SimpleValConfig option"
  SC_Kv :: KeyValConfig

definition new_StructuredConfig :: StructuredConfig where
  "new_StructuredConfig = \<lparr>SC_Kind = KindEmpty, SC_Val = None, SC_Kv = new_KeyValConfig\<rparr>"

definition decide_val :: "SimpleValConfig option \<Rightarrow> SimpleValProfile \<Rightarrow> decision option \<Rightarrow> decision option res" where
  "decide_val val jpv current = bind_res (deref val) (\<lambda>val.
     Inr (DecideChild current (SimpleValConfig_Decide val jpv) ''Structured - array val''))"

definition StructuredConfig_Decide :: "ranger \<Rightarrow> StructuredConfig \<Rightarrow> StructuredProfile \<Rightarrow> decision option res" where
  "StructuredConfig_Decide rr config profile =
     (if SC_Kind config \<noteq> SP_Kind profile then
        (if SC_Kind config = KindMulti then Inr None
         else Inr (DecideInner None 1 (''Structured -  kind mismatch allowed '' @ SC_Kind config @ '' has '' @ SP_Kind profile)))
      else if SC_Kind config = KindObject then
        Inr (DecideChild None (KeyValConfig_Decide (at_site rr ''Kv'') (SC_Kv config) (SP_Kv profile)) ''Structured KeyVal:'')
      else if SC_Kind config = KindArray then
        fold_res (decide_val (SC_Val config)) (SP_Vals profile) None
      else if scalar_kind (SC_Kind config) then
        bind_res (index_at (SP_Vals profile) 0) (\<lambda>v.
        bind_res (deref (SC_Val config)) (\<lambda>val.
        Inr (DecideChild None (SimpleValConfig_Decide val v) ''Structured - val'')))
      else Inr None)"

definition StructuredConfig_Learn :: "ranger \<Rightarrow> StructuredConfig \<Rightarrow> StructuredPile \<Rightarrow> StructuredConfig res" where
  "StructuredConfig_Learn rr config pile =
     (let config =
        (if SC_Kind config = KindEmpty then
           (let config = config\<lparr>SC_Kind := SQ_Kind pile\<rparr> in
            if SQ_Kind pile = KindObject then config\<lparr>SC_Val := None\<rparr>
            else if SQ_Kind pile = KindArray \<or> scalar_kind (SQ_Kind pile)
            then config\<lparr>SC_Val := Some new_SimpleValConfig\<rparr> else config)
         else config)
      in if SC_Kind config \<noteq> SQ_Kind pile then Inr (config\<lparr>SC_Kind := KindMulti\<rparr>)
         else if SC_Kind config = KindObject then
           bind_res (KeyValConfig_Learn (at_site rr ''Kv'') (SC_Kv config) (SQ_Kv pile)) (\<lambda>kv. Inr (config\<lparr>SC_Kv := kv\<rparr>))
         else if SC_Kind config = KindArray \<or> scalar_kind (SC_Kind config) then
           bind_res (deref (SC_Val config)) (\<lambda>val.
           bind_res (deref (SQ_Val pile)) (\<lambda>pval.
           Inr (config\<lparr>SC_Val := Some (SimpleValConfig_Learn val pval)\<rparr>)))
         else Inr config)"

definition StructuredConfig_Prepare :: "ranger \<Rightarrow> StructuredConfig \<Rightarrow> StructuredConfig res" where
  "StructuredConfig_Prepare rr config =
     (if SC_Kind config = KindObject then
        bind_res (KeyValConfig_Prepare (at_site rr ''Kv'') (SC_Kv config)) (\<lambda>kv. Inr (config\<lparr>SC_Kv := kv\<rparr>))
      else if SC_Kind config = KindArray \<or> scalar_kind (SC_Kind config) then
        bind_res (deref (SC_Val config)) (\<lambda>val. Inr (config\<lparr>SC_Val := Some (SimpleValConfig_Prepare val)\<rparr>))
      else Inr config)"

section \<open>Correctness of the structured rule\<close>

definition kinds :: "string set" where
  "kinds = {KindEmpty, KindObject, KindArray, KindBoolean, KindNumber, KindString, KindMulti}"

definition sq_pwf :: "StructuredPile \<Rightarrow> bool" where
  "sq_pwf p \<longleftrightarrow> SQ_Kind p \<in> kinds \<and> kv_pwf (SQ_Kv p)
     \<and> (SQ_Kind p = KindArray \<or> scalar_kind (SQ_Kind p) \<longrightarrow> SQ_Val p \<noteq> None)"

text \<open>A profile of data that is not null, its keys not empty.\<close>

definition sp_vwf :: "StructuredProfile \<Rightarrow> bool" where
  "sp_vwf v \<longleftrightarrow> (SP_Kind v = KindObject \<and> kv_vwf (SP_Kv v)) \<or> SP_Kind v = KindArray
     \<or> (scalar_kind (SP_Kind v) \<and> SP_Vals v \<noteq> [])"

text \<open>The values of a profile that the single rule of the pile is about.\<close>

definition sp_items :: "StructuredProfile \<Rightarrow> SimpleValProfile set" where
  "sp_items v = (if SP_Kind v = KindArray then set (SP_Vals v) else {SP_Vals v ! 0})"

definition sq_covers :: "StructuredPile \<Rightarrow> StructuredProfile \<Rightarrow> bool" where
  "sq_covers p v \<longleftrightarrow> sp_vwf v \<and>
     (SQ_Kind p = KindMulti \<or>
      (SQ_Kind p = SP_Kind v \<and>
       (if SP_Kind v = KindObject then kv_covers (SQ_Kv p) (SP_Kv v)
        else \<exists>q. SQ_Val p = Some q \<and> (\<forall>x \<in> sp_items v. simple_covers q x))))"

definition sc_cwf :: "StructuredConfig \<Rightarrow> bool" where
  "sc_cwf c \<longleftrightarrow> SC_Kind c \<in> kinds \<and> kv_cwf (SC_Kv c)
     \<and> (SC_Kind c = KindArray \<or> scalar_kind (SC_Kind c) \<longrightarrow> SC_Val c \<noteq> None)"

lemma scalar_kind_simps [simp]:
  "scalar_kind KindBoolean" "scalar_kind KindNumber" "scalar_kind KindString"
  "\<not> scalar_kind KindEmpty" "\<not> scalar_kind KindObject" "\<not> scalar_kind KindArray" "\<not> scalar_kind KindMulti"
  by (simp_all add: scalar_kind_def)

lemma scalar_kindE: "scalar_kind k \<Longrightarrow> k \<in> kinds \<and> k \<noteq> KindEmpty \<and> k \<noteq> KindObject \<and> k \<noteq> KindArray \<and> k \<noteq> KindMulti"
  by (auto simp: scalar_kind_def kinds_def)

lemma kv_pwf_made_map [simp]: "kv_pwf (made_map m) = kv_pwf m"
  by (simp add: made_map_def kv_pwf_def split: option.splits)

lemma kv_covers_made_map [simp]: "kv_covers (made_map m) v = kv_covers m v"
  by (simp add: made_map_def kv_covers_def split: option.splits)

lemma sp_vwf_kind: "sp_vwf v \<Longrightarrow> SP_Kind v = KindObject \<or> SP_Kind v = KindArray \<or> scalar_kind (SP_Kind v)"
  by (auto simp: sp_vwf_def)

lemma add_vals:
  "SQ_Val p = Some q \<Longrightarrow> fold_res add_val vs p = Inr (p\<lparr>SQ_Val := Some (fold (\<lambda>v q. SimpleValPile_Add q v) vs q)\<rparr>)"
  by (induction vs arbitrary: p q) (simp_all add: add_val_def)

lemma fold_SimpleValPile_Add:
  "(\<forall>v \<in> set vs. simple_covers (fold (\<lambda>v q. SimpleValPile_Add q v) vs q) v)
   \<and> (\<forall>u. simple_covers q u \<longrightarrow> simple_covers (fold (\<lambda>v q. SimpleValPile_Add q v) vs q) u)"
  by (induction vs arbitrary: q) (auto simp: SimpleValPile_Add_covers)

definition sq_added :: "StructuredPile \<Rightarrow> StructuredProfile \<Rightarrow> StructuredPile \<Rightarrow> bool" where
  "sq_added p v p' \<longleftrightarrow> sq_pwf p' \<and> sq_covers p' v \<and> (\<forall>u. sq_covers p u \<longrightarrow> sq_covers p' u)"

lemma add_same_kind_ok:
  assumes "sq_pwf p" and "sp_vwf v" and "SQ_Kind p \<noteq> KindEmpty"
  shows "ok (add_same_kind p v) (sq_added p v)"
proof (cases "SQ_Kind p = SP_Kind v")
  case False
  have "sq_added p v (p\<lparr>SQ_Kind := KindMulti\<rparr>)"
    using assms by (auto simp: sq_added_def sq_pwf_def sq_covers_def kinds_def)
  with False show ?thesis by (simp add: add_same_kind_def)
next
  case True
  consider (obj) "SP_Kind v = KindObject" | (arr) "SP_Kind v = KindArray" | (scalar) "scalar_kind (SP_Kind v)" "SP_Vals v \<noteq> []"
    using assms(2) by (auto simp: sp_vwf_def)
  then show ?thesis
  proof cases
    case obj
    have "kv_pwf (made_map (SQ_Kv p))" "kv_vwf (SP_Kv v)"
      using assms(1,2) obj by (auto simp: sq_pwf_def sp_vwf_def)
    from key_val.add_ok [OF this] obtain kv where
      "KeyValPile_Add (made_map (SQ_Kv p)) (SP_Kv v) = Inr kv" "kv_pwf kv" "kv_covers kv (SP_Kv v)"
      "\<forall>u. kv_covers (SQ_Kv p) u \<longrightarrow> kv_covers kv u"
      by (auto simp: ok_iff)
    with True obj assms show ?thesis
      by (auto simp: add_same_kind_def sq_added_def sq_pwf_def sq_covers_def)
  next
    case arr
    with True assms(1) obtain q where q: "SQ_Val p = Some q" by (auto simp: sq_pwf_def)
    show ?thesis
      using True arr assms q fold_SimpleValPile_Add [of "SP_Vals v" q]
      by (auto simp: add_same_kind_def add_vals [OF q] sq_added_def sq_pwf_def sq_covers_def sp_items_def)
  next
    case scalar
    with True assms(1) obtain q where q: "SQ_Val p = Some q" by (auto simp: sq_pwf_def)
    have k: "SP_Kind v \<noteq> KindObject" "SP_Kind v \<noteq> KindArray" "SP_Kind v \<noteq> KindMulti" using scalar_kindE [OF scalar(1)] by auto
    show ?thesis
      using True scalar k assms q
      by (auto simp: add_same_kind_def add_val_def index_at_def sq_added_def sq_pwf_def sq_covers_def sp_items_def
          SimpleValPile_Add_covers)
  qed
qed

lemma StructuredPile_Add_ok:
  assumes "sq_pwf p" and "sp_vwf v"
  shows "ok (StructuredPile_Add p v) (sq_added p v)"
proof (cases "SQ_Kind p = KindEmpty")
  case True
  have none: "\<not> sq_covers p u" for u
    using True sp_vwf_kind [of u] by (auto simp: sq_covers_def)
  have k: "SP_Kind v \<in> kinds" "SP_Kind v \<noteq> KindEmpty"
    using sp_vwf_kind [OF assms(2)] scalar_kindE [of "SP_Kind v"] by (auto simp: kinds_def)
  show ?thesis
  proof (cases "SP_Kind v = KindObject")
    case obj: True
    have "ok (add_same_kind (p\<lparr>SQ_Kind := SP_Kind v\<rparr>) v) (sq_added (p\<lparr>SQ_Kind := SP_Kind v\<rparr>) v)"
      by (rule add_same_kind_ok) (use assms k obj in \<open>auto simp: sq_pwf_def\<close>)
    then show ?thesis
      using True obj none by (auto simp: StructuredPile_Add_def sq_added_def elim!: ok_mono)
  next
    case False
    then have s: "SP_Kind v = KindArray \<or> scalar_kind (SP_Kind v)" using sp_vwf_kind [OF assms(2)] by blast
    let ?p = "p\<lparr>SQ_Kind := SP_Kind v, SQ_Val := Some new_SimpleValPile\<rparr>"
    have "ok (add_same_kind ?p v) (sq_added ?p v)"
      by (rule add_same_kind_ok) (use assms k in \<open>auto simp: sq_pwf_def\<close>)
    then show ?thesis
      using True False s none by (auto simp: StructuredPile_Add_def sq_added_def elim!: ok_mono)
  qed
next
  case False
  with add_same_kind_ok [OF assms] show ?thesis by (simp add: StructuredPile_Add_def)
qed

lemma kinds_cases:
  "k \<in> kinds \<Longrightarrow> k = KindEmpty \<or> k = KindMulti \<or> k = KindObject \<or> k = KindArray \<or> scalar_kind k"
  by (auto simp: kinds_def scalar_kind_def)

definition sq_merged :: "StructuredPile \<Rightarrow> StructuredPile \<Rightarrow> StructuredPile \<Rightarrow> bool" where
  "sq_merged p q r \<longleftrightarrow> sq_pwf r \<and> (\<forall>u. sq_covers p u \<longrightarrow> sq_covers r u) \<and> (\<forall>u. sq_covers q u \<longrightarrow> sq_covers r u)"

lemma sq_covers_empty: "SQ_Kind p = KindEmpty \<Longrightarrow> \<not> sq_covers p u"
  using sp_vwf_kind [of u] by (auto simp: sq_covers_def)

text \<open>Once the kinds have been compared, and the empty pile has taken the kind of the other.\<close>

definition merge_same_kind :: "StructuredPile \<Rightarrow> StructuredPile \<Rightarrow> StructuredPile res" where
  "merge_same_kind pile otherPile =
     (if SQ_Kind pile \<noteq> SQ_Kind otherPile then Inr (pile\<lparr>SQ_Kind := KindMulti\<rparr>)
      else if SQ_Kind otherPile = KindObject then
        bind_res (KeyValPile_Merge (made_map (SQ_Kv pile)) (SQ_Kv otherPile)) (\<lambda>kv. Inr (pile\<lparr>SQ_Kv := kv\<rparr>))
      else if SQ_Kind otherPile = KindArray \<or> scalar_kind (SQ_Kind otherPile) then
        bind_res (deref (SQ_Val pile)) (\<lambda>val.
        bind_res (deref (SQ_Val otherPile)) (\<lambda>other.
        Inr (pile\<lparr>SQ_Val := Some (SimpleValPile_Merge val other)\<rparr>)))
      else Inr pile)"

lemma merge_same_kind_ok:
  assumes "sq_pwf p" and "sq_pwf q"
  shows "ok (merge_same_kind p q) (sq_merged p q)"
proof (cases "SQ_Kind p = SQ_Kind q")
  case False
  have "sq_merged p q (p\<lparr>SQ_Kind := KindMulti\<rparr>)"
    using assms by (auto simp: sq_merged_def sq_pwf_def sq_covers_def kinds_def)
  with False show ?thesis by (simp add: merge_same_kind_def)
next
  case True
  have "SQ_Kind q \<in> kinds" using assms(2) by (simp add: sq_pwf_def)
  then consider (empty) "SQ_Kind q = KindEmpty" | (multi) "SQ_Kind q = KindMulti" | (obj) "SQ_Kind q = KindObject"
    | (val) "SQ_Kind q = KindArray \<or> scalar_kind (SQ_Kind q)"
    using kinds_cases by blast
  then show ?thesis
  proof cases
    case obj
    have "kv_pwf (made_map (SQ_Kv p))" "kv_pwf (SQ_Kv q)"
      using assms by (auto simp: sq_pwf_def)
    from key_val.merge_ok [OF this] obtain kv where
      "KeyValPile_Merge (made_map (SQ_Kv p)) (SQ_Kv q) = Inr kv" "kv_pwf kv"
      "\<forall>u. kv_covers (SQ_Kv p) u \<longrightarrow> kv_covers kv u" "\<forall>u. kv_covers (SQ_Kv q) u \<longrightarrow> kv_covers kv u"
      by (auto simp: ok_iff)
    with True obj assms show ?thesis
      by (auto simp: merge_same_kind_def sq_merged_def sq_pwf_def sq_covers_def)
  next
    case val
    then have n: "SQ_Kind q \<noteq> KindObject" "SQ_Kind q \<noteq> KindMulti" using scalar_kindE [of "SQ_Kind q"] by auto
    obtain a b where ab: "SQ_Val p = Some a" "SQ_Val q = Some b"
      using True val assms by (auto simp: sq_pwf_def)
    let ?r = "p\<lparr>SQ_Val := Some (SimpleValPile_Merge a b)\<rparr>"
    have "merge_same_kind p q = Inr ?r"
      using True val n ab by (simp add: merge_same_kind_def)
    moreover have "sq_pwf ?r" using assms(1) by (simp add: sq_pwf_def)
    moreover have "sq_covers ?r u" if "sq_covers p u \<or> sq_covers q u" for u
      using that True n ab by (auto simp: sq_covers_def SimpleValPile_Merge_covers)
    ultimately show ?thesis by (auto simp: sq_merged_def)
  next
    case empty
    with True sq_covers_empty [of p] sq_covers_empty [of q] assms(1) show ?thesis
      by (simp add: merge_same_kind_def sq_merged_def)
  next
    case multi
    with True assms show ?thesis
      by (auto simp: merge_same_kind_def sq_merged_def sq_covers_def)
  qed
qed

lemma StructuredPile_Merge_ok:
  assumes "sq_pwf p" and "sq_pwf q"
  shows "ok (StructuredPile_Merge p q) (sq_merged p q)"
proof -
  define p1 where "p1 = (if SQ_Kind p = KindEmpty then
      (let pile = p\<lparr>SQ_Kind := SQ_Kind q\<rparr> in
       if SQ_Kind q = KindArray \<or> scalar_kind (SQ_Kind q) then pile\<lparr>SQ_Val := Some new_SimpleValPile\<rparr> else pile) else p)"
  have "StructuredPile_Merge p q = merge_same_kind p1 q"
    by (simp add: StructuredPile_Merge_def merge_same_kind_def p1_def Let_def)
  moreover have "sq_pwf p1"
    using assms by (auto simp: p1_def Let_def sq_pwf_def)
  moreover have "sq_covers p u \<Longrightarrow> sq_covers p1 u" for u
    using sq_covers_empty [of p u] by (cases "SQ_Kind p = KindEmpty") (simp_all add: p1_def)
  ultimately show ?thesis
    using merge_same_kind_ok [of p1 q] assms(2) by (auto simp: sq_merged_def elim!: ok_mono)
qed

subsection \<open>Deciding and learning\<close>

lemma accepts_total: "accepts (\<lambda>rr c v. Inr (f rr c v)) c v \<longleftrightarrow> (\<forall>rr. fair_ranger rr \<longrightarrow> f rr c v = None)"
  by (simp add: accepts_def)

abbreviation kv_decide :: "ranger \<Rightarrow> KeyValConfig \<Rightarrow> KeyValProfile \<Rightarrow> decision option res" where
  "kv_decide \<equiv> \<lambda>rr c v. Inr (KeyValConfig_Decide rr c v)"

lemma decide_vals_None:
  "\<forall>x \<in> set vs. SimpleValConfig_Decide val x = None \<Longrightarrow> fold_res (decide_val (Some val)) vs None = Inr None"
  by (induction vs) (simp_all add: decide_val_def)

lemma decide_vals_grave: "fold_res (decide_val val) vs cur = Inr d \<Longrightarrow> grave_opt cur \<Longrightarrow> grave_opt d"
  by (induction vs arbitrary: cur) (auto simp: decide_val_def bind_res_Inr)

lemma StructuredConfig_Decide_grave: "StructuredConfig_Decide rr c v = Inr d \<Longrightarrow> grave_opt d"
  using decide_vals_grave [of "SC_Val c" "SP_Vals v" None d]
  by (auto simp: StructuredConfig_Decide_def bind_res_Inr KeyValConfig_Decide_grave split: if_splits)

definition sc_accepts :: "StructuredConfig \<Rightarrow> StructuredProfile \<Rightarrow> bool" where
  "sc_accepts c v \<longleftrightarrow> SC_Kind c = KindMulti \<or>
     (SC_Kind c = SP_Kind v \<and>
       (if SP_Kind v = KindObject then accepts kv_decide (SC_Kv c) (SP_Kv v)
        else \<exists>q. SC_Val c = Some q \<and> (\<forall>x \<in> sp_items v. SimpleValConfig_Decide q x = None)))"

lemma StructuredConfig_accepts:
  assumes "sp_vwf v" and "sc_accepts c v"
  shows "accepts StructuredConfig_Decide c v"
proof (rule acceptsI)
  fix rr assume f: "fair_ranger rr"
  show "StructuredConfig_Decide rr c v = Inr None"
  proof (cases "SC_Kind c = SP_Kind v")
    case False
    with assms(2) show ?thesis by (simp add: sc_accepts_def StructuredConfig_Decide_def)
  next
    case True
    with sp_vwf_kind [OF assms(1)] scalar_kindE [of "SP_Kind v"] have nm: "SC_Kind c \<noteq> KindMulti" by auto
    show ?thesis
    proof (cases "SP_Kind v = KindObject")
      case obj: True
      with assms(2) nm have "accepts kv_decide (SC_Kv c) (SP_Kv v)" by (simp add: sc_accepts_def)
      with True obj f show ?thesis by (simp add: StructuredConfig_Decide_def accepts_total)
    next
      case nobj: False
      with assms(2) nm obtain q where q: "SC_Val c = Some q" "\<forall>x \<in> sp_items v. SimpleValConfig_Decide q x = None"
        by (auto simp: sc_accepts_def)
      show ?thesis
      proof (cases "SP_Kind v = KindArray")
        case True
        with \<open>SC_Kind c = SP_Kind v\<close> q show ?thesis
          by (simp add: StructuredConfig_Decide_def sp_items_def decide_vals_None)
      next
        case False
        with nobj assms(1) have "scalar_kind (SP_Kind v)" "SP_Vals v \<noteq> []" by (auto simp: sp_vwf_def)
        with False nobj True q show ?thesis
          by (simp add: StructuredConfig_Decide_def sp_items_def index_at_def)
      qed
    qed
  qed
qed

text \<open>Learning, once the empty criteria has taken the kind of the pile.\<close>

definition learn_same_kind :: "ranger \<Rightarrow> StructuredConfig \<Rightarrow> StructuredPile \<Rightarrow> StructuredConfig res" where
  "learn_same_kind rr config pile =
     (if SC_Kind config \<noteq> SQ_Kind pile then Inr (config\<lparr>SC_Kind := KindMulti\<rparr>)
      else if SC_Kind config = KindObject then
        bind_res (KeyValConfig_Learn (at_site rr ''Kv'') (SC_Kv config) (SQ_Kv pile)) (\<lambda>kv. Inr (config\<lparr>SC_Kv := kv\<rparr>))
      else if SC_Kind config = KindArray \<or> scalar_kind (SC_Kind config) then
        bind_res (deref (SC_Val config)) (\<lambda>val.
        bind_res (deref (SQ_Val pile)) (\<lambda>pval.
        Inr (config\<lparr>SC_Val := Some (SimpleValConfig_Learn val pval)\<rparr>)))
      else Inr config)"

lemma learn_same_kind_ok:
  assumes "fair_ranger rr" and "sc_cwf c" and "sq_pwf p"
  shows "ok (learn_same_kind rr c p) (\<lambda>c'. sc_cwf c' \<and> (\<forall>u. sq_covers p u \<longrightarrow> sc_accepts c' u))"
proof (cases "SC_Kind c = SQ_Kind p")
  case False
  then show ?thesis
    using assms(2) by (auto simp: learn_same_kind_def sc_cwf_def sc_accepts_def kinds_def)
next
  case True
  have "SQ_Kind p \<in> kinds" using assms(3) by (simp add: sq_pwf_def)
  then consider "SQ_Kind p = KindEmpty" | "SQ_Kind p = KindMulti" | (obj) "SQ_Kind p = KindObject"
    | (val) "SQ_Kind p = KindArray \<or> scalar_kind (SQ_Kind p)"
    using kinds_cases by blast
  then show ?thesis
  proof cases
    case obj
    have "kv_cwf (SC_Kv c)" "kv_pwf (SQ_Kv p)" "fair_ranger (at_site rr ''Kv'')"
      using assms by (auto simp: sc_cwf_def sq_pwf_def)
    from key_val.learn_ok [OF this(3,1,2)] obtain kv where
      "KeyValConfig_Learn (at_site rr ''Kv'') (SC_Kv c) (SQ_Kv p) = Inr kv" "kv_cwf kv"
      "\<forall>u. kv_covers (SQ_Kv p) u \<longrightarrow> accepts kv_decide kv u"
      by (auto simp: ok_iff)
    with True obj assms show ?thesis
      by (auto simp: learn_same_kind_def sc_cwf_def sq_covers_def sc_accepts_def)
  next
    case val
    then have n: "SQ_Kind p \<noteq> KindObject" "SQ_Kind p \<noteq> KindMulti" using scalar_kindE [of "SQ_Kind p"] by auto
    obtain a b where ab: "SC_Val c = Some a" "SQ_Val p = Some b"
      using True val assms by (auto simp: sq_pwf_def sc_cwf_def)
    let ?c = "c\<lparr>SC_Val := Some (SimpleValConfig_Learn a b)\<rparr>"
    have "learn_same_kind rr c p = Inr ?c"
      using True val n ab by (simp add: learn_same_kind_def)
    moreover have "sc_cwf ?c" using assms(2) by (simp add: sc_cwf_def)
    moreover have "sc_accepts ?c u" if "sq_covers p u" for u
      using that True n ab by (auto simp: sq_covers_def sc_accepts_def SimpleValConfig_Learn_accepts)
    ultimately show ?thesis by simp
  qed (use True assms sq_covers_empty in \<open>auto simp: learn_same_kind_def sc_accepts_def\<close>)
qed

lemma StructuredConfig_Learn_ok:
  assumes "fair_ranger rr" and "sc_cwf c" and "sq_pwf p"
  shows "ok (StructuredConfig_Learn rr c p) (\<lambda>c'. sc_cwf c' \<and> (\<forall>u. sq_covers p u \<longrightarrow> accepts StructuredConfig_Decide c' u))"
proof -
  define c1 where "c1 = (if SC_Kind c = KindEmpty then
      (let config = c\<lparr>SC_Kind := SQ_Kind p\<rparr> in
       if SQ_Kind p = KindObject then config\<lparr>SC_Val := None\<rparr>
       else if SQ_Kind p = KindArray \<or> scalar_kind (SQ_Kind p) then config\<lparr>SC_Val := Some new_SimpleValConfig\<rparr> else config)
      else c)"
  have "StructuredConfig_Learn rr c p = learn_same_kind rr c1 p"
    unfolding StructuredConfig_Learn_def learn_same_kind_def c1_def by (simp only: Let_def)
  moreover have "sc_cwf c1"
    using assms(2,3) by (auto simp: c1_def Let_def sc_cwf_def sq_pwf_def)
  ultimately show ?thesis
    using learn_same_kind_ok [OF assms(1) _ assms(3), of c1] StructuredConfig_accepts
    by (auto simp: sq_covers_def elim!: ok_mono)
qed

interpretation structured: value_rules
  StructuredPile_Add StructuredPile_Merge new_StructuredPile sq_pwf sp_vwf sq_covers "\<lambda>_. True"
  StructuredConfig_Learn StructuredConfig_Decide sc_cwf
proof (unfold_locales, goal_cases)
  case 1
  show ?case by (simp add: sq_pwf_def new_StructuredPile_def kinds_def kv_pwf_def)
next
  case (2 p v)
  from StructuredPile_Add_ok [OF this] show ?case by (rule ok_mono) (simp add: sq_added_def)
next
  case (3 p q)
  then show ?case using StructuredPile_Merge_ok [of p q] by (auto simp: sq_merged_def elim!: ok_mono)
next
  case (4 rr c p)
  then show ?case by (rule StructuredConfig_Learn_ok)
next
  case (5 rr c v d)
  then show ?case by (rule StructuredConfig_Decide_grave)
qed

section \<open>Which data can be profiled\<close>

lemma array_elements_total:
  "\<not> interface \<and> (\<forall>n. GInt n \<notin> set xs) \<Longrightarrow>
     fold_res (\<lambda>val vals. bind_res (array_element interface val) (\<lambda>v. Inr (vals @ [v]))) xs vs
       = Inr (vs @ map (\<lambda>x. profile_of (Sprint x)) xs)"
proof (induction xs arbitrary: vs)
  case (Cons x xs)
  then have "array_element interface x = Inr (profile_of (Sprint x))"
    by (cases x) (auto simp: array_element_def)
  with Cons show ?case by simp
qed simp

lemma array_elements_panic:
  "interface \<and> xs \<noteq> [] \<or> GInt n \<in> set xs \<Longrightarrow>
     \<exists>e. fold_res (\<lambda>val vals. bind_res (array_element interface val) (\<lambda>v. Inr (vals @ [v]))) xs vs = Inl e"
proof (induction xs arbitrary: vs)
  case (Cons x xs)
  show ?case
  proof (cases "array_element interface x")
    case (Inr v)
    have "\<not> interface"
      using Inr by (cases interface) (simp_all add: array_element_def)
    moreover have "x \<noteq> GInt n"
    proof
      assume "x = GInt n"
      with Inr show False by (cases interface) (simp_all add: array_element_def)
    qed
    ultimately show ?thesis using Cons Inr by simp
  qed simp
qed simp

lemma StructuredProfile_panics_iff:
  "(\<exists>e. StructuredProfile_Profile hash ro p d = Inl e) \<longleftrightarrow>
     (\<exists>n. d = GInt n) \<or> (\<exists>i xs. d = GSlice i xs \<and> (i \<and> xs \<noteq> [] \<or> (\<exists>n. GInt n \<in> set xs)))"
proof (cases d)
  case (GSlice i xs)
  show ?thesis
  proof (cases "i \<and> xs \<noteq> [] \<or> (\<exists>n. GInt n \<in> set xs)")
    case True
    then obtain e where "fold_res (\<lambda>val vals. bind_res (array_element i val) (\<lambda>v. Inr (vals @ [v]))) xs [] = Inl e"
      using array_elements_panic by blast
    with GSlice True show ?thesis by (simp add: StructuredProfile_Profile_def)
  next
    case False
    show ?thesis
    proof (cases "xs = []")
      case True
      with GSlice show ?thesis by (simp add: StructuredProfile_Profile_def)
    next
      case ne: False
      with False have "\<not> i \<and> (\<forall>n. GInt n \<notin> set xs)" by blast
      from array_elements_total [OF this, of "[]"] GSlice False show ?thesis
        by (simp add: StructuredProfile_Profile_def)
    qed
  qed
qed (simp_all add: StructuredProfile_Profile_def)

text \<open>
  What the profiler of decoded bodies panics on, exactly: an integer, which JSON and forms
  never give, a typed slice with one, and every slice of interfaces that is not empty. The last
  is what \<open>encoding/json\<close> makes of a JSON array, so a request whose JSON body is a non-empty
  array at the top level panics in the profiler.
\<close>

theorem StructuredProfile_panics:
  "(\<exists>e. StructuredProfile_Profile hash ro p d = Inl e) \<longleftrightarrow>
     (\<exists>n. d = GInt n) \<or> (\<exists>i xs. d = GSlice i xs \<and> (i \<and> xs \<noteq> [] \<or> (\<exists>n. GInt n \<in> set xs)))"
  by (rule StructuredProfile_panics_iff)

text \<open>
  The key of a nested entry forgets its parents: the value under \<open>k\<close> in an inner map is
  profiled under the key \<open>k:k\<close> whatever the outer key is, so equal inner keys of different
  objects are one key in the criteria.
\<close>

theorem nested_keys_lose_their_parent:
  assumes "fair ro" and "length k \<le> 31"
  shows "StructuredProfile_Profile hash ro p (GMap [(parent, GMap [(k, GString s)])])
    = Inr (p\<lparr>SP_Kind := KindObject, SP_Kv := Some [(k @ '':'' @ k, profile_of s)]\<rparr>)"
proof -
  have "mset (ro [x]) = mset [x]" for x using assms(1) unfolding fair_def by blast
  then have "ro [x] = [x]" for x by simp
  then show ?thesis
    using assms(2) by (simp add: StructuredProfile_Profile_def range_over_def hashIfNeeded_def)
qed

theorem nested_keys_lose_their_parent_witness:
  "StructuredProfile_Profile (\<lambda>_. 0) rev new_StructuredProfile (GMap [(''user'', GMap [(''id'', GString ''7'')])])
    = Inr (new_StructuredProfile\<lparr>SP_Kind := KindObject, SP_Kv := Some [(''id'' @ '':'' @ ''id'', profile_of ''7'')]\<rparr>)"
  by (rule nested_keys_lose_their_parent) simp_all

text \<open>
  Structured bodies are learned soundly: a body that was profiled (not null, no empty
  key) and piled up is accepted by the criteria learned from the pile, whatever kinds of
  bodies were piled and whatever the criteria knew; neither step panics.
\<close>

theorem StructuredConfig_sound:
  assumes "fair_ranger rr" and "sc_cwf c" and "sq_pwf p" and "\<forall>v \<in> set vs. sp_vwf v"
  shows "\<exists>p' c'. fold_res (\<lambda>v q. StructuredPile_Add q v) vs p = Inr p'
    \<and> StructuredConfig_Learn rr c p' = Inr c' \<and> sc_cwf c'
    \<and> (\<forall>v \<in> set vs. accepts StructuredConfig_Decide c' v)"
  using structured.added_accepted [OF assms] by (auto simp: ok_iff bind_res_Inr)

theorem StructuredConfig_sound_witness:
  "\<exists>p' c'. fold_res (\<lambda>v q. StructuredPile_Add q v)
        [new_StructuredProfile\<lparr>SP_Kind := KindString, SP_Vals := [profile_of ''x'']\<rparr>,
         new_StructuredProfile\<lparr>SP_Kind := KindArray\<rparr>] new_StructuredPile = Inr p'
    \<and> StructuredConfig_Learn (\<lambda>_. rev) new_StructuredConfig p' = Inr c' \<and> sc_cwf c'
    \<and> (\<forall>v \<in> set [new_StructuredProfile\<lparr>SP_Kind := KindString, SP_Vals := [profile_of ''x'']\<rparr>,
         new_StructuredProfile\<lparr>SP_Kind := KindArray\<rparr>]. accepts StructuredConfig_Decide c' v)"
  by (rule StructuredConfig_sound)
    (auto simp: sc_cwf_def sq_pwf_def sp_vwf_def kinds_def new_StructuredConfig_def new_StructuredPile_def kv_cwf_new kv_pwf_def)

end
