(* ===== verification/Bodies.thy ===== *)
theory Bodies
  imports Structured
begin

text \<open>
  \<open>pkg/apis/guard/v1alpha1/body.go\<close>: the body of a request or a response, profiled as decoded
  data or as one string, and the faults met while reading it.
\<close>

section \<open>Profile\<close>

record BodyProfile =
  BP_Faults :: SetProfile
  BP_Unstructured :: "SimpleValProfile option"
  BP_Structured :: "StructuredProfile option"

definition new_BodyProfile :: BodyProfile where
  "new_BodyProfile = \<lparr>BP_Faults = None, BP_Unstructured = None, BP_Structured = None\<rparr>"

definition BodyProfile_ProfileFaults :: "BodyProfile \<Rightarrow> string \<Rightarrow> BodyProfile" where
  "BodyProfile_ProfileFaults profile fault = profile\<lparr>BP_Faults := SetProfile_ProfileString fault\<rparr>"

definition BodyProfile_ProfileUnstructured :: "BodyProfile \<Rightarrow> string \<Rightarrow> BodyProfile" where
  "BodyProfile_ProfileUnstructured profile s =
     profile\<lparr>BP_Structured := None,
       BP_Unstructured := Some (SimpleValProfile_Profile new_SimpleValProfile s)\<rparr>"

definition BodyProfile_ProfileStructured :: "hash \<Rightarrow> order \<Rightarrow> BodyProfile \<Rightarrow> godata \<Rightarrow> BodyProfile res" where
  "BodyProfile_ProfileStructured hash ro profile d =
     bind_res (StructuredProfile_Profile hash ro new_StructuredProfile d) (\<lambda>s.
       Inr (profile\<lparr>BP_Unstructured := None, BP_Structured := Some s\<rparr>))"

section \<open>Pile\<close>

record BodyPile =
  BQ_Faults :: SetPile
  BQ_Unstructured :: "SimpleValPile option"
  BQ_Structured :: "StructuredPile option"

definition new_BodyPile :: BodyPile where
  "new_BodyPile = \<lparr>BQ_Faults = empty_SetPile, BQ_Unstructured = None, BQ_Structured = None\<rparr>"

text \<open>A nil pointer is replaced by a new value before it is used.\<close>

definition or_new :: "'a \<Rightarrow> 'a option \<Rightarrow> 'a" where
  "or_new fresh p = (case p of None \<Rightarrow> fresh | Some x \<Rightarrow> x)"

definition BodyPile_Add :: "BodyPile \<Rightarrow> BodyProfile \<Rightarrow> BodyPile res" where
  "BodyPile_Add pile profile =
     (let pile = pile\<lparr>BQ_Faults := SetPile_Add (BQ_Faults pile) (BP_Faults profile)\<rparr> in
      bind_res
        (case BP_Structured profile of
           None \<Rightarrow> Inr pile
         | Some s \<Rightarrow>
             bind_res (StructuredPile_Add (or_new new_StructuredPile (BQ_Structured pile)) s) (\<lambda>q.
             Inr (pile\<lparr>BQ_Structured := Some q\<rparr>)))
        (\<lambda>pile. case BP_Unstructured profile of
           None \<Rightarrow> Inr pile
         | Some u \<Rightarrow> Inr (pile\<lparr>BQ_Unstructured := Some (SimpleValPile_Add (or_new new_SimpleValPile (BQ_Unstructured pile)) u)\<rparr>)))"

text \<open>\<open>Clear\<close> leaves the faults where they are.\<close>

definition BodyPile_Clear :: "BodyPile \<Rightarrow> BodyPile" where
  "BodyPile_Clear pile = pile\<lparr>BQ_Structured := None, BQ_Unstructured := None\<rparr>"

definition BodyPile_Merge :: "BodyPile \<Rightarrow> BodyPile \<Rightarrow> BodyPile res" where
  "BodyPile_Merge pile otherPile =
     (let pile = pile\<lparr>BQ_Faults := SetPile_Merge (BQ_Faults pile) (BQ_Faults otherPile)\<rparr> in
      bind_res
        (case BQ_Structured otherPile of
           None \<Rightarrow> Inr pile
         | Some s \<Rightarrow>
             bind_res (StructuredPile_Merge (or_new new_StructuredPile (BQ_Structured pile)) s) (\<lambda>q.
             Inr (pile\<lparr>BQ_Structured := Some q\<rparr>)))
        (\<lambda>pile. case BQ_Unstructured otherPile of
           None \<Rightarrow> Inr pile
         | Some u \<Rightarrow> Inr (pile\<lparr>BQ_Unstructured := Some (SimpleValPile_Merge (or_new new_SimpleValPile (BQ_Unstructured pile)) u)\<rparr>)))"

section \<open>Criteria\<close>

record BodyConfig =
  BC_Faults :: SetConfig
  BC_Unstructured :: "SimpleValConfig option"
  BC_Structured :: "StructuredConfig option"

definition new_BodyConfig :: BodyConfig where
  "new_BodyConfig = \<lparr>BC_Faults = new_SetConfig, BC_Unstructured = None, BC_Structured = None\<rparr>"

definition decide_structured :: "ranger \<Rightarrow> BodyConfig \<Rightarrow> BodyProfile \<Rightarrow> decision option \<Rightarrow> decision option res" where
  "decide_structured rr config profile current =
     (case BP_Structured profile of
        None \<Rightarrow> Inr current
      | Some s \<Rightarrow>
          (case BC_Structured config of
             Some sc \<Rightarrow>
               bind_res (StructuredConfig_Decide (at_site rr ''Structured'') sc s) (\<lambda>d.
               Inr (DecideChild current d ''Body''))
           | None \<Rightarrow> Inr (DecideInner current 1 ''Structured Body not allowed'')))"

definition decide_unstructured :: "BodyConfig \<Rightarrow> BodyProfile \<Rightarrow> decision option \<Rightarrow> decision option" where
  "decide_unstructured config profile current =
     (case BP_Unstructured profile of
        None \<Rightarrow> current
      | Some u \<Rightarrow>
          (case BC_Unstructured config of
             Some uc \<Rightarrow> DecideChild current (SimpleValConfig_Decide uc u) ''Body''
           | None \<Rightarrow> DecideInner current 1 ''Unstructured Body not allowed''))"

definition BodyConfig_Decide :: "ranger \<Rightarrow> BodyConfig \<Rightarrow> BodyProfile \<Rightarrow> decision option res" where
  "BodyConfig_Decide rr config profile =
     (let current = DecideChild None (SetConfig_Decide (BC_Faults config) (BP_Faults profile)) ''Body Faults'' in
      bind_res (decide_structured rr config profile current) (\<lambda>current.
      Inr (decide_unstructured config profile current)))"

definition BodyConfig_Learn :: "ranger \<Rightarrow> BodyConfig \<Rightarrow> BodyPile \<Rightarrow> BodyConfig res" where
  "BodyConfig_Learn rr config pile =
     (let config = config\<lparr>BC_Faults := SetConfig_Learn (BC_Faults config) (BQ_Faults pile)\<rparr> in
      bind_res
        (case BQ_Structured pile of
           None \<Rightarrow> Inr config
         | Some s \<Rightarrow>
             bind_res (StructuredConfig_Learn (at_site rr ''Structured'') (or_new new_StructuredConfig (BC_Structured config)) s) (\<lambda>sc.
             Inr (config\<lparr>BC_Structured := Some sc\<rparr>)))
        (\<lambda>config. case BQ_Unstructured pile of
           None \<Rightarrow> Inr config
         | Some u \<Rightarrow> Inr (config\<lparr>BC_Unstructured := Some (SimpleValConfig_Learn (or_new new_SimpleValConfig (BC_Unstructured config)) u)\<rparr>)))"

definition BodyConfig_Prepare :: "ranger \<Rightarrow> BodyConfig \<Rightarrow> BodyConfig res" where
  "BodyConfig_Prepare rr config =
     (let config = config\<lparr>BC_Faults := SetConfig_Prepare (BC_Faults config)\<rparr> in
      bind_res
        (case BC_Structured config of
           None \<Rightarrow> Inr config
         | Some s \<Rightarrow>
             bind_res (StructuredConfig_Prepare (at_site rr ''Structured'') s) (\<lambda>sc. Inr (config\<lparr>BC_Structured := Some sc\<rparr>)))
        (\<lambda>config. Inr (config\<lparr>BC_Unstructured := map_option SimpleValConfig_Prepare (BC_Unstructured config)\<rparr>)))"

section \<open>Correctness\<close>

definition body_pwf :: "BodyPile \<Rightarrow> bool" where
  "body_pwf p \<longleftrightarrow> set_pwf (BQ_Faults p) \<and> (\<forall>s. BQ_Structured p = Some s \<longrightarrow> sq_pwf s)"

definition body_vwf :: "BodyProfile \<Rightarrow> bool" where
  "body_vwf v \<longleftrightarrow> (\<forall>s. BP_Structured v = Some s \<longrightarrow> sp_vwf s)"

definition body_covers :: "BodyPile \<Rightarrow> BodyProfile \<Rightarrow> bool" where
  "body_covers p v \<longleftrightarrow> set_covers (BQ_Faults p) (BP_Faults v)
     \<and> (\<forall>s. BP_Structured v = Some s \<longrightarrow> (\<exists>q. BQ_Structured p = Some q \<and> sq_covers q s))
     \<and> (\<forall>u. BP_Unstructured v = Some u \<longrightarrow> (\<exists>q. BQ_Unstructured p = Some q \<and> simple_covers q u))"

definition body_cwf :: "BodyConfig \<Rightarrow> bool" where
  "body_cwf c \<longleftrightarrow> (\<forall>s. BC_Structured c = Some s \<longrightarrow> sc_cwf s)"

lemma sq_pwf_or_new: "(\<forall>s. x = Some s \<longrightarrow> sq_pwf s) \<Longrightarrow> sq_pwf (or_new new_StructuredPile x)"
  using structured.pwf_empty by (cases x) (simp_all add: or_new_def)

lemma sc_cwf_or_new: "(\<forall>s. x = Some s \<longrightarrow> sc_cwf s) \<Longrightarrow> sc_cwf (or_new new_StructuredConfig x)"
  by (cases x) (simp_all add: or_new_def sc_cwf_def new_StructuredConfig_def kinds_def kv_cwf_new)

lemma or_new_covers: "x = Some q \<Longrightarrow> or_new fresh x = q"
  by (simp add: or_new_def)

lemma set_Add: "set_pwf p \<Longrightarrow> set_pwf (SetPile_Add p v) \<and> set_covers (SetPile_Add p v) v
    \<and> (\<forall>u. set_covers p u \<longrightarrow> set_covers (SetPile_Add p v) u)"
  using set.add_ok [of p v] by simp

lemma set_Merge: "set_pwf p \<Longrightarrow> set_pwf q \<Longrightarrow> set_pwf (SetPile_Merge p q) \<and> (\<forall>u. set_covers p u \<longrightarrow> set_covers (SetPile_Merge p q) u)
    \<and> (\<forall>u. set_covers q u \<longrightarrow> set_covers (SetPile_Merge p q) u)"
  using set.merge_ok [of p q] by simp

lemma set_Learn: "set_pwf p \<Longrightarrow> set_covers p u \<Longrightarrow> SetConfig_Decide (SetConfig_Learn c p) u = None"
  using set.learn_ok [OF fair_ranger_exists, of p c] by auto

lemma BodyPile_Add_ok:
  assumes "body_pwf p" and "body_vwf v"
  shows "ok (BodyPile_Add p v) (\<lambda>p'. body_pwf p' \<and> body_covers p' v \<and> (\<forall>u. body_covers p u \<longrightarrow> body_covers p' u))"
proof -
  have f: "set_pwf (BQ_Faults p)" using assms(1) by (simp add: body_pwf_def)
  note fa = set_Add [OF f, of "BP_Faults v"]
  show ?thesis
  proof (cases "BP_Structured v")
    case None
    then show ?thesis
      using fa assms(1)
      by (cases "BP_Unstructured v"; cases "BQ_Unstructured p")
        (auto simp: BodyPile_Add_def body_pwf_def body_covers_def or_new_def SimpleValPile_Add_covers)
  next
    case (Some s)
    have "sq_pwf (or_new new_StructuredPile (BQ_Structured p))" "sp_vwf s"
      using assms Some by (simp_all add: body_pwf_def body_vwf_def sq_pwf_or_new)
    from structured.add_ok [OF this] obtain q where
      q: "StructuredPile_Add (or_new new_StructuredPile (BQ_Structured p)) s = Inr q" "sq_pwf q" "sq_covers q s"
      "\<forall>u. sq_covers (or_new new_StructuredPile (BQ_Structured p)) u \<longrightarrow> sq_covers q u"
      by (auto simp: ok_iff)
    then have "\<forall>x u. BQ_Structured p = Some x \<longrightarrow> sq_covers x u \<longrightarrow> sq_covers q u"
      by (auto simp: or_new_def)
    with q(1-3) fa Some show ?thesis
      by (cases "BP_Unstructured v"; cases "BQ_Unstructured p")
        (auto simp: BodyPile_Add_def body_pwf_def body_covers_def or_new_def SimpleValPile_Add_covers)
  qed
qed

lemma BodyPile_Merge_ok:
  assumes "body_pwf p" and "body_pwf p'"
  shows "ok (BodyPile_Merge p p') (\<lambda>r. body_pwf r \<and> (\<forall>u. body_covers p u \<longrightarrow> body_covers r u)
     \<and> (\<forall>u. body_covers p' u \<longrightarrow> body_covers r u))"
proof -
  have "set_pwf (BQ_Faults p)" "set_pwf (BQ_Faults p')" using assms by (simp_all add: body_pwf_def)
  note fa = set_Merge [OF this]
  show ?thesis
  proof (cases "BQ_Structured p'")
    case None
    then show ?thesis
      using fa assms(1)
      by (cases "BQ_Unstructured p'"; cases "BQ_Unstructured p")
        (auto simp: BodyPile_Merge_def body_pwf_def body_covers_def or_new_def SimpleValPile_Merge_covers)
  next
    case (Some s)
    have "sq_pwf (or_new new_StructuredPile (BQ_Structured p))" "sq_pwf s"
      using assms Some by (simp_all add: body_pwf_def sq_pwf_or_new)
    from structured.merge_ok [OF this] obtain q where
      q: "StructuredPile_Merge (or_new new_StructuredPile (BQ_Structured p)) s = Inr q" "sq_pwf q"
      "\<forall>u. sq_covers (or_new new_StructuredPile (BQ_Structured p)) u \<longrightarrow> sq_covers q u"
      "\<forall>u. sq_covers s u \<longrightarrow> sq_covers q u"
      by (auto simp: ok_iff)
    then have "\<forall>x u. BQ_Structured p = Some x \<longrightarrow> sq_covers x u \<longrightarrow> sq_covers q u"
      by (auto simp: or_new_def)
    with q(1,2,4) fa Some show ?thesis
      by (cases "BQ_Unstructured p'"; cases "BQ_Unstructured p")
        (auto simp: BodyPile_Merge_def body_pwf_def body_covers_def or_new_def SimpleValPile_Merge_covers)
  qed
qed

definition body_accepts :: "BodyConfig \<Rightarrow> BodyProfile \<Rightarrow> bool" where
  "body_accepts c v \<longleftrightarrow> SetConfig_Decide (BC_Faults c) (BP_Faults v) = None
     \<and> (\<forall>s. BP_Structured v = Some s \<longrightarrow> (\<exists>q. BC_Structured c = Some q \<and> accepts StructuredConfig_Decide q s))
     \<and> (\<forall>u. BP_Unstructured v = Some u \<longrightarrow> (\<exists>q. BC_Unstructured c = Some q \<and> SimpleValConfig_Decide q u = None))"

lemma body_accepts: "body_accepts c v \<Longrightarrow> accepts BodyConfig_Decide c v"
  by (rule acceptsI)
    (auto simp: BodyConfig_Decide_def decide_structured_def decide_unstructured_def body_accepts_def Let_def
      accepts_site split: option.splits)

lemma BodyConfig_Learn_ok:
  assumes "fair_ranger rr" and "body_cwf c" and "body_pwf p"
  shows "ok (BodyConfig_Learn rr c p) (\<lambda>c'. body_cwf c' \<and> (\<forall>u. body_covers p u \<longrightarrow> body_accepts c' u))"
proof -
  have f: "set_pwf (BQ_Faults p)" using assms(3) by (simp add: body_pwf_def)
  note fa = set_Learn [OF f]
  show ?thesis
  proof (cases "BQ_Structured p")
    case None
    then show ?thesis
      using fa assms(2)
      by (cases "BQ_Unstructured p")
        (auto simp: BodyConfig_Learn_def body_cwf_def body_covers_def body_accepts_def SimpleValConfig_Learn_accepts)
  next
    case (Some s)
    have "sc_cwf (or_new new_StructuredConfig (BC_Structured c))" "sq_pwf s" "fair_ranger (at_site rr ''Structured'')"
      using assms Some by (simp_all add: body_pwf_def body_cwf_def sc_cwf_or_new)
    from structured.learn_ok [OF this(3,1,2)] obtain q where
      "StructuredConfig_Learn (at_site rr ''Structured'') (or_new new_StructuredConfig (BC_Structured c)) s = Inr q"
      "sc_cwf q" "\<forall>u. sq_covers s u \<longrightarrow> accepts StructuredConfig_Decide q u"
      by (auto simp: ok_iff)
    with Some fa assms(2) show ?thesis
      by (cases "BQ_Unstructured p")
        (auto simp: BodyConfig_Learn_def body_cwf_def body_covers_def body_accepts_def SimpleValConfig_Learn_accepts)
  qed
qed

lemma decide_structured_grave:
  "decide_structured rr c v cur = Inr d \<Longrightarrow> grave_opt cur \<Longrightarrow> grave_opt d"
  using structured.decide_grave
  by (auto simp: decide_structured_def bind_res_Inr split: option.splits)

lemma decide_unstructured_grave: "grave_opt cur \<Longrightarrow> grave_opt (decide_unstructured c v cur)"
  by (simp add: decide_unstructured_def split: option.splits)

lemma BodyConfig_Decide_grave: "BodyConfig_Decide rr c v = Inr d \<Longrightarrow> grave_opt d"
  by (auto simp: BodyConfig_Decide_def Let_def bind_res_Inr
      intro!: decide_unstructured_grave elim!: decide_structured_grave)

interpretation body: value_rules
  BodyPile_Add BodyPile_Merge new_BodyPile body_pwf body_vwf body_covers "\<lambda>_. True"
  BodyConfig_Learn BodyConfig_Decide body_cwf
proof (unfold_locales, goal_cases)
  case 1
  show ?case using set.pwf_empty by (simp add: body_pwf_def new_BodyPile_def)
next
  case (2 p v)
  then show ?case by (rule BodyPile_Add_ok)
next
  case (3 p q)
  then show ?case by (rule ok_mono [OF BodyPile_Merge_ok]) blast
next
  case (4 rr c p)
  then show ?case by (rule ok_mono [OF BodyConfig_Learn_ok]) (simp add: body_accepts)
next
  case (5 rr c v d)
  then show ?case by (rule BodyConfig_Decide_grave)
qed

end
