(* ===== verification/Http.thy ===== *)
theory Http
  imports Bodies
begin

text \<open>
  The rules of parts of HTTP messages: \<open>httpHeaders.go\<close>, \<open>queryString.go\<close> and \<open>httpMediaType.go\<close>
  of \<open>pkg/apis/guard/v1alpha1\<close>. \<open>mime.ParseMediaType\<close> is an argument.
\<close>

section \<open>What the rules read of a message\<close>

type_synonym header = "string list gomap"

record request =
  Rq_Header :: header
  Rq_Method :: string
  Rq_Proto :: string
  Rq_Path :: string
  Rq_RawQuery :: string
  Rq_ContentLength :: "64 word"

record response =
  Rs_Header :: header
  Rs_ContentLength :: "64 word"

text \<open>\<open>http.Header.Get\<close>, for a key in canonical form.\<close>

definition header_Get :: "header \<Rightarrow> string \<Rightarrow> string" where
  "header_Get h key = (case map_get h key of Some (v # _) \<Rightarrow> v | _ \<Rightarrow> '''')"

text \<open>\<open>url.URL.Query\<close>: the pairs of a raw query; a pair that does not decode is left out.\<close>

definition cut :: "char \<Rightarrow> string \<Rightarrow> string \<times> string" where
  "cut c s = (takeWhile (\<lambda>x. x \<noteq> c) s, tl (dropWhile (\<lambda>x. x \<noteq> c) s))"

fun QueryUnescape :: "string \<Rightarrow> string option" where
  "QueryUnescape [] = Some []"
| "QueryUnescape (c # cs) =
     (if c = CHR ''%''
      then (case cs of
          a # b # rest \<Rightarrow>
            (case (hex_digit a, hex_digit b) of
               (Some x, Some y) \<Rightarrow> map_option ((#) (char_of (16 * x + y))) (QueryUnescape rest)
             | _ \<Rightarrow> None)
        | _ \<Rightarrow> None)
      else map_option ((#) (if c = CHR ''+'' then CHR '' '' else c)) (QueryUnescape cs))"

definition query_pair :: "string \<Rightarrow> string list entries \<Rightarrow> string list entries" where
  "query_pair part m =
     (if part = '''' \<or> CHR '';'' \<in> set part then m
      else
        (let (k, v) = cut (CHR ''='') part in
         case (QueryUnescape k, QueryUnescape v) of
           (Some key, Some value) \<Rightarrow>
             AList.update key ((case map_of m key of None \<Rightarrow> [] | Some vs \<Rightarrow> vs) @ [value]) m
         | _ \<Rightarrow> m))"

definition url_Query :: "string \<Rightarrow> string list gomap" where
  "url_Query rawQuery = Some (fold query_pair (split_on (CHR ''&'') rawQuery) [])"

section \<open>Headers\<close>

record HeadersProfile =
  HP_Kv :: KeyValProfile

record HeadersPile =
  HQ_Kv :: "KeyValPile option"

record HeadersConfig =
  HC_Kv :: KeyValConfig

definition HeadersProfile_Profile :: "hash \<Rightarrow> order \<Rightarrow> header \<Rightarrow> HeadersProfile" where
  "HeadersProfile_Profile hash ro headers = \<lparr>HP_Kv = KeyValProfile_ProfileMapStringSlice hash ro headers\<rparr>"

definition HeadersPile_Add :: "HeadersPile \<Rightarrow> HeadersProfile \<Rightarrow> HeadersPile res" where
  "HeadersPile_Add pile profile =
     bind_res (KeyValPile_Add (or_new None (HQ_Kv pile)) (HP_Kv profile)) (\<lambda>kv. Inr \<lparr>HQ_Kv = Some kv\<rparr>)"

text \<open>\<open>KeyValPile.Merge\<close> of a nil pointer does nothing.\<close>

definition HeadersPile_Merge :: "HeadersPile \<Rightarrow> HeadersPile \<Rightarrow> HeadersPile res" where
  "HeadersPile_Merge pile otherPile =
     (let kv = or_new None (HQ_Kv pile) in
      bind_res (case HQ_Kv otherPile of None \<Rightarrow> Inr kv | Some other \<Rightarrow> KeyValPile_Merge kv other) (\<lambda>kv.
      Inr \<lparr>HQ_Kv = Some kv\<rparr>))"

definition HeadersPile_Clear :: "HeadersPile \<Rightarrow> HeadersPile" where
  "HeadersPile_Clear pile = \<lparr>HQ_Kv = None\<rparr>"

definition HeadersConfig_Decide :: "ranger \<Rightarrow> HeadersConfig \<Rightarrow> HeadersProfile \<Rightarrow> decision option" where
  "HeadersConfig_Decide rr config profile =
     DecideChild None (KeyValConfig_Decide (at_site rr ''Kv'') (HC_Kv config) (HP_Kv profile)) ''KeyVal''"

text \<open>\<open>KeyValConfig.Learn\<close> of a nil pointer returns at once, as for an empty map.\<close>

definition HeadersConfig_Learn :: "ranger \<Rightarrow> HeadersConfig \<Rightarrow> HeadersPile \<Rightarrow> HeadersConfig res" where
  "HeadersConfig_Learn rr config pile =
     bind_res (KeyValConfig_Learn (at_site rr ''Kv'') (HC_Kv config) (or_new None (HQ_Kv pile))) (\<lambda>kv.
     Inr \<lparr>HC_Kv = kv\<rparr>)"

definition HeadersConfig_Prepare :: "ranger \<Rightarrow> HeadersConfig \<Rightarrow> HeadersConfig res" where
  "HeadersConfig_Prepare rr config =
     bind_res (KeyValConfig_Prepare (at_site rr ''Kv'') (HC_Kv config)) (\<lambda>kv. Inr \<lparr>HC_Kv = kv\<rparr>)"

section \<open>Query strings\<close>

record QueryProfile =
  QP_Kv :: KeyValProfile

record QueryPile =
  QQ_Kv :: "KeyValPile option"

record QueryConfig =
  QC_Kv :: KeyValConfig

definition QueryProfile_Profile :: "hash \<Rightarrow> order \<Rightarrow> string list gomap \<Rightarrow> QueryProfile" where
  "QueryProfile_Profile hash ro vals = \<lparr>QP_Kv = KeyValProfile_ProfileMapStringSlice hash ro vals\<rparr>"

definition QueryPile_Add :: "QueryPile \<Rightarrow> QueryProfile \<Rightarrow> QueryPile res" where
  "QueryPile_Add pile profile =
     bind_res (KeyValPile_Add (or_new None (QQ_Kv pile)) (QP_Kv profile)) (\<lambda>kv. Inr \<lparr>QQ_Kv = Some kv\<rparr>)"

definition QueryPile_Merge :: "QueryPile \<Rightarrow> QueryPile \<Rightarrow> QueryPile res" where
  "QueryPile_Merge pile otherPile =
     (let kv = or_new None (QQ_Kv pile) in
      bind_res (case QQ_Kv otherPile of None \<Rightarrow> Inr kv | Some other \<Rightarrow> KeyValPile_Merge kv other) (\<lambda>kv.
      Inr \<lparr>QQ_Kv = Some kv\<rparr>))"

definition QueryPile_Clear :: "QueryPile \<Rightarrow> QueryPile" where
  "QueryPile_Clear pile = \<lparr>QQ_Kv = None\<rparr>"

definition QueryConfig_Decide :: "ranger \<Rightarrow> QueryConfig \<Rightarrow> QueryProfile \<Rightarrow> decision option" where
  "QueryConfig_Decide rr config profile =
     DecideChild None (KeyValConfig_Decide (at_site rr ''Kv'') (QC_Kv config) (QP_Kv profile)) ''KeyVal''"

definition QueryConfig_Learn :: "ranger \<Rightarrow> QueryConfig \<Rightarrow> QueryPile \<Rightarrow> QueryConfig res" where
  "QueryConfig_Learn rr config pile =
     bind_res (KeyValConfig_Learn (at_site rr ''Kv'') (QC_Kv config) (or_new None (QQ_Kv pile))) (\<lambda>kv.
     Inr \<lparr>QC_Kv = kv\<rparr>)"

definition QueryConfig_Prepare :: "ranger \<Rightarrow> QueryConfig \<Rightarrow> QueryConfig res" where
  "QueryConfig_Prepare rr config =
     bind_res (KeyValConfig_Prepare (at_site rr ''Kv'') (QC_Kv config)) (\<lambda>kv. Inr \<lparr>QC_Kv = kv\<rparr>)"

section \<open>Media types\<close>

text \<open>What \<open>mime.ParseMediaType\<close> returns without an error: the type and its parameters.\<close>

type_synonym parse_media = "string \<Rightarrow> (string \<times> string gomap) option"

record MediaTypeProfile =
  MP_TypeTokens :: SetProfile
  MP_Params :: KeyValProfile

record MediaTypePile =
  MQ_TypeTokens :: SetPile
  MQ_Params :: KeyValPile

record MediaTypeConfig =
  MC_TypeTokens :: SetConfig
  MC_Params :: KeyValConfig

definition MediaTypeProfile_Profile :: "hash \<Rightarrow> parse_media \<Rightarrow> order \<Rightarrow> string \<Rightarrow> MediaTypeProfile" where
  "MediaTypeProfile_Profile hash ParseMediaType ro s =
     (let none = \<lparr>MP_TypeTokens = SetProfile_ProfileString ''none'',
                  MP_Params = KeyValProfile_ProfileMapString hash ro None\<rparr>
      in case ParseMediaType s of
           Some (mediaType, params) \<Rightarrow>
             (if mediaType \<noteq> ''''
              then \<lparr>MP_TypeTokens = SetProfile_ProfileString mediaType,
                    MP_Params = KeyValProfile_ProfileMapString hash ro params\<rparr>
              else none)
         | None \<Rightarrow> none)"

definition MediaTypePile_Add :: "MediaTypePile \<Rightarrow> MediaTypeProfile \<Rightarrow> MediaTypePile res" where
  "MediaTypePile_Add pile profile =
     (let tokens = SetPile_Add (MQ_TypeTokens pile) (MP_TypeTokens profile) in
      bind_res (KeyValPile_Add (MQ_Params pile) (MP_Params profile)) (\<lambda>params.
      Inr \<lparr>MQ_TypeTokens = tokens, MQ_Params = params\<rparr>))"

definition MediaTypePile_Merge :: "MediaTypePile \<Rightarrow> MediaTypePile \<Rightarrow> MediaTypePile res" where
  "MediaTypePile_Merge pile otherPile =
     (let tokens = SetPile_Merge (MQ_TypeTokens pile) (MQ_TypeTokens otherPile) in
      bind_res (KeyValPile_Merge (MQ_Params pile) (MQ_Params otherPile)) (\<lambda>params.
      Inr \<lparr>MQ_TypeTokens = tokens, MQ_Params = params\<rparr>))"

definition MediaTypePile_Clear :: "MediaTypePile \<Rightarrow> MediaTypePile" where
  "MediaTypePile_Clear pile =
     \<lparr>MQ_TypeTokens = SetPile_Clear (MQ_TypeTokens pile), MQ_Params = KeyValPile_Clear (MQ_Params pile)\<rparr>"

definition MediaTypeConfig_Decide :: "ranger \<Rightarrow> MediaTypeConfig \<Rightarrow> MediaTypeProfile \<Rightarrow> decision option" where
  "MediaTypeConfig_Decide rr config profile =
     (let current = DecideChild None (SetConfig_Decide (MC_TypeTokens config) (MP_TypeTokens profile)) ''Type''
      in DecideChild current (KeyValConfig_Decide (at_site rr ''Params'') (MC_Params config) (MP_Params profile)) ''Params'')"

definition MediaTypeConfig_Learn :: "ranger \<Rightarrow> MediaTypeConfig \<Rightarrow> MediaTypePile \<Rightarrow> MediaTypeConfig res" where
  "MediaTypeConfig_Learn rr config pile =
     (let tokens = SetConfig_Learn (MC_TypeTokens config) (MQ_TypeTokens pile) in
      bind_res (KeyValConfig_Learn (at_site rr ''Params'') (MC_Params config) (MQ_Params pile)) (\<lambda>params.
      Inr \<lparr>MC_TypeTokens = tokens, MC_Params = params\<rparr>))"

definition MediaTypeConfig_Prepare :: "ranger \<Rightarrow> MediaTypeConfig \<Rightarrow> MediaTypeConfig res" where
  "MediaTypeConfig_Prepare rr config =
     (let tokens = SetConfig_Prepare (MC_TypeTokens config) in
      bind_res (KeyValConfig_Prepare (at_site rr ''Params'') (MC_Params config)) (\<lambda>params.
      Inr \<lparr>MC_TypeTokens = tokens, MC_Params = params\<rparr>))"

section \<open>Rules of one key-value field\<close>

text \<open>Profiles of keys and values: the keys are distinct, and only an empty key gives an empty key.\<close>

lemma hashIfNeeded_empty: "hashIfNeeded hash k = '''' \<longleftrightarrow> k = ''''" "'''' = hashIfNeeded hash k \<longleftrightarrow> k = ''''"
  by (auto simp: hashIfNeeded_def Let_def)

lemma kv_vwf_fold:
  assumes "kv_vwf (Some m)" and "\<forall>(k, x) \<in> set kvs. k \<noteq> ''''"
  shows "kv_vwf (Some (fold (\<lambda>(k, x) m. AList.update (hashIfNeeded hash k) (f x) m) kvs m))"
  using assms
proof (induction kvs arbitrary: m)
  case (Cons kx kvs)
  have "kv_vwf (Some (AList.update (hashIfNeeded hash (fst kx)) (f (snd kx)) m))"
    using Cons.prems by (auto simp: kv_vwf_def hashIfNeeded_empty dom_update split: prod.splits)
  then show ?case
    using Cons.IH Cons.prems(2) by (auto split: prod.splits)
qed simp

lemma kv_vwf_None [simp]: "kv_vwf None" "kv_vwf (Some [])"
  by (simp_all add: kv_vwf_def)

lemma range_over_keys:
  "fair ro \<Longrightarrow> '''' \<notin> fst ` set kvs \<Longrightarrow> \<forall>(k, x) \<in> set (range_over ro kvs). k \<noteq> ''''"
proof -
  assume a: "fair ro" "'''' \<notin> fst ` set kvs"
  then have "fst ` set (range_over ro kvs) = fst ` set kvs"
    using map_fst_range_over [of ro kvs] fair_set [of ro "map fst kvs"] by (metis list.set_map)
  with a(2) show ?thesis by (metis (mono_tags, lifting) case_prodI2 fst_conv image_eqI)
qed

lemma kv_vwf_profiles:
  "fair ro \<Longrightarrow> '''' \<notin> fst ` set (entries m) \<Longrightarrow> kv_vwf (KeyValProfile_ProfileMapString hash ro m)"
  "fair ro \<Longrightarrow> '''' \<notin> fst ` set (entries m') \<Longrightarrow> kv_vwf (KeyValProfile_ProfileMapStringSlice hash ro m')"
  by (simp_all add: KeyValProfile_ProfileMapString_def KeyValProfile_ProfileMapStringSlice_def Let_def
      kv_vwf_fold range_over_keys)

lemma kv_covers_nil: "kv_covers None v \<Longrightarrow> kv_covers p v"
  by (auto simp: kv_covers_def)

lemma kv_pwf_nil [simp]: "kv_pwf None"
  by (simp add: kv_pwf_def)

text \<open>A pointer to a pile that is made on demand.\<close>

definition kvp_merge :: "KeyValPile option \<Rightarrow> KeyValPile option \<Rightarrow> KeyValPile res" where
  "kvp_merge p q = (case q of None \<Rightarrow> Inr (or_new None p) | Some other \<Rightarrow> KeyValPile_Merge (or_new None p) other)"

lemma kvp_merge_ok:
  assumes "kv_pwf (or_new None p)" and "kv_pwf (or_new None q)"
  shows "ok (kvp_merge p q) (\<lambda>r. kv_pwf r \<and> (\<forall>u. kv_covers (or_new None p) u \<longrightarrow> kv_covers r u)
    \<and> (\<forall>u. kv_covers (or_new None q) u \<longrightarrow> kv_covers r u))"
proof (cases q)
  case None
  with assms show ?thesis by (auto simp: kvp_merge_def or_new_def dest: kv_covers_nil)
next
  case (Some x)
  with assms show ?thesis using KeyValPile_Merge_ok [of "or_new None p" x] by (simp add: kvp_merge_def or_new_def)
qed

lemma or_new_Some [simp]: "or_new fresh (Some x) = x" "or_new fresh None = fresh"
  by (simp_all add: or_new_def)

definition headers_pwf :: "HeadersPile \<Rightarrow> bool" where
  "headers_pwf p = kv_pwf (or_new None (HQ_Kv p))"

definition headers_vwf :: "HeadersProfile \<Rightarrow> bool" where
  "headers_vwf v = kv_vwf (HP_Kv v)"

definition headers_covers :: "HeadersPile \<Rightarrow> HeadersProfile \<Rightarrow> bool" where
  "headers_covers p v = kv_covers (or_new None (HQ_Kv p)) (HP_Kv v)"

definition headers_cwf :: "HeadersConfig \<Rightarrow> bool" where
  "headers_cwf c = kv_cwf (HC_Kv c)"

lemmas headers_defs = headers_pwf_def headers_vwf_def headers_covers_def headers_cwf_def

lemma accepts_inner:
  assumes "accepts (\<lambda>rr c v. Inr (f rr c v)) c v" and "fair_ranger rr"
  shows "f (at_site rr s) c v = None"
  using accepts_site [OF assms] by simp

interpretation headers: value_rules
  HeadersPile_Add HeadersPile_Merge "\<lparr>HQ_Kv = None\<rparr>" headers_pwf headers_vwf headers_covers "\<lambda>_. True"
  HeadersConfig_Learn "\<lambda>rr c v. Inr (HeadersConfig_Decide rr c v)" headers_cwf
proof (unfold_locales, goal_cases)
  case 1
  show ?case by (simp add: headers_defs)
next
  case (2 p v)
  then show ?case
    unfolding headers_defs HeadersPile_Add_def by (rule ok_bindI [OF KeyValPile_Add_ok]) simp
next
  case (3 p q)
  then show ?case
    unfolding headers_defs HeadersPile_Merge_def Let_def kvp_merge_def [symmetric]
    by (rule ok_bindI [OF kvp_merge_ok]) simp
next
  case (4 rr c p)
  then have "ok (KeyValConfig_Learn (at_site rr ''Kv'') (HC_Kv c) (or_new None (HQ_Kv p)))
      (\<lambda>kv. kv_cwf kv \<and> (\<forall>u. kv_covers (or_new None (HQ_Kv p)) u \<longrightarrow> accepts (\<lambda>rr c v. Inr (KeyValConfig_Decide rr c v)) kv u))"
    unfolding headers_defs by (intro key_val.learn_ok) simp_all
  then show ?case
    unfolding headers_defs HeadersConfig_Learn_def
    by (rule ok_bindI) (auto simp: HeadersConfig_Decide_def accepts_inner)
next
  case (5 rr c v d)
  then show ?case by (auto simp: HeadersConfig_Decide_def KeyValConfig_Decide_grave)
qed

definition query_pwf :: "QueryPile \<Rightarrow> bool" where
  "query_pwf p = kv_pwf (or_new None (QQ_Kv p))"

definition query_vwf :: "QueryProfile \<Rightarrow> bool" where
  "query_vwf v = kv_vwf (QP_Kv v)"

definition query_covers :: "QueryPile \<Rightarrow> QueryProfile \<Rightarrow> bool" where
  "query_covers p v = kv_covers (or_new None (QQ_Kv p)) (QP_Kv v)"

definition query_cwf :: "QueryConfig \<Rightarrow> bool" where
  "query_cwf c = kv_cwf (QC_Kv c)"

lemmas query_defs = query_pwf_def query_vwf_def query_covers_def query_cwf_def

interpretation query: value_rules
  QueryPile_Add QueryPile_Merge "\<lparr>QQ_Kv = None\<rparr>" query_pwf query_vwf query_covers "\<lambda>_. True"
  QueryConfig_Learn "\<lambda>rr c v. Inr (QueryConfig_Decide rr c v)" query_cwf
proof (unfold_locales, goal_cases)
  case 1
  show ?case by (simp add: query_defs)
next
  case (2 p v)
  then show ?case
    unfolding query_defs QueryPile_Add_def by (rule ok_bindI [OF KeyValPile_Add_ok]) simp
next
  case (3 p q)
  then show ?case
    unfolding query_defs QueryPile_Merge_def Let_def kvp_merge_def [symmetric]
    by (rule ok_bindI [OF kvp_merge_ok]) simp
next
  case (4 rr c p)
  then have "ok (KeyValConfig_Learn (at_site rr ''Kv'') (QC_Kv c) (or_new None (QQ_Kv p)))
      (\<lambda>kv. kv_cwf kv \<and> (\<forall>u. kv_covers (or_new None (QQ_Kv p)) u \<longrightarrow> accepts (\<lambda>rr c v. Inr (KeyValConfig_Decide rr c v)) kv u))"
    unfolding query_defs by (intro key_val.learn_ok) simp_all
  then show ?case
    unfolding query_defs QueryConfig_Learn_def
    by (rule ok_bindI) (auto simp: QueryConfig_Decide_def accepts_inner)
next
  case (5 rr c v d)
  then show ?case by (auto simp: QueryConfig_Decide_def KeyValConfig_Decide_grave)
qed

section \<open>The media type\<close>

definition media_pwf :: "MediaTypePile \<Rightarrow> bool" where
  "media_pwf p \<longleftrightarrow> set_pwf (MQ_TypeTokens p) \<and> kv_pwf (MQ_Params p)"

definition media_vwf :: "MediaTypeProfile \<Rightarrow> bool" where
  "media_vwf v = kv_vwf (MP_Params v)"

definition media_covers :: "MediaTypePile \<Rightarrow> MediaTypeProfile \<Rightarrow> bool" where
  "media_covers p v \<longleftrightarrow> set_covers (MQ_TypeTokens p) (MP_TypeTokens v) \<and> kv_covers (MQ_Params p) (MP_Params v)"

definition media_cwf :: "MediaTypeConfig \<Rightarrow> bool" where
  "media_cwf c = kv_cwf (MC_Params c)"

lemmas media_defs = media_pwf_def media_vwf_def media_covers_def media_cwf_def

definition empty_MediaTypePile :: MediaTypePile where
  "empty_MediaTypePile = \<lparr>MQ_TypeTokens = empty_SetPile, MQ_Params = None\<rparr>"

interpretation media: value_rules
  MediaTypePile_Add MediaTypePile_Merge empty_MediaTypePile media_pwf media_vwf media_covers "\<lambda>_. True"
  MediaTypeConfig_Learn "\<lambda>rr c v. Inr (MediaTypeConfig_Decide rr c v)" media_cwf
proof (unfold_locales, goal_cases)
  case 1
  show ?case using set.pwf_empty by (simp add: media_defs empty_MediaTypePile_def)
next
  case (2 p v)
  then show ?case
    unfolding media_defs MediaTypePile_Add_def Let_def
    by (intro ok_bindI [OF KeyValPile_Add_ok]) (auto simp: set_Add)
next
  case (3 p q)
  then show ?case
    unfolding media_defs MediaTypePile_Merge_def Let_def
    by (intro ok_bindI [OF KeyValPile_Merge_ok]) (auto simp: set_Merge)
next
  case (4 rr c p)
  then have "ok (KeyValConfig_Learn (at_site rr ''Params'') (MC_Params c) (MQ_Params p))
      (\<lambda>kv. kv_cwf kv \<and> (\<forall>u. kv_covers (MQ_Params p) u \<longrightarrow> accepts (\<lambda>rr c v. Inr (KeyValConfig_Decide rr c v)) kv u))"
    unfolding media_defs by (intro key_val.learn_ok) simp_all
  then show ?case
    using 4(3) unfolding media_defs MediaTypeConfig_Learn_def Let_def
    by (elim ok_bindI) (auto simp: MediaTypeConfig_Decide_def accepts_inner set_Learn)
next
  case (5 rr c v d)
  then show ?case
    using set.decide_grave [of rr "MC_TypeTokens c" "MP_TypeTokens v"]
    by (auto simp: MediaTypeConfig_Decide_def KeyValConfig_Decide_grave)
qed

end
