(* ===== verification/Counts.thy ===== *)
theory Counts
  imports Value_Rules
begin

text \<open>
  \<open>pkg/apis/guard/v1alpha1/count.go\<close>: the micro-rule for small counts (URL segments, the
  logarithm of a content length): a list of allowed ranges of \<open>uint8\<close>. A CountConfig is a
  slice, nil until something is learned; nil and empty differ in \<open>Learn\<close>.
\<close>

section \<open>Profile and pile\<close>

type_synonym CountProfile = "8 word"
type_synonym CountPile = "8 word list"

definition CountProfile_Profile :: "8 word \<Rightarrow> CountProfile" where
  "CountProfile_Profile val = val"

definition CountPile_Add :: "CountPile \<Rightarrow> CountProfile \<Rightarrow> CountPile" where
  "CountPile_Add pile profile = pile @ [profile]"

definition CountPile_Clear :: "CountPile \<Rightarrow> CountPile" where
  "CountPile_Clear pile = []"

definition CountPile_Merge :: "CountPile \<Rightarrow> CountPile \<Rightarrow> CountPile" where
  "CountPile_Merge pile otherPile = pile @ otherPile"

section \<open>Criteria\<close>

record count_range =
  Min :: "8 word"
  Max :: "8 word"

type_synonym CountConfig = "count_range list option"

definition count_ranges :: "CountConfig \<Rightarrow> count_range list" where
  "count_ranges config = (case config of None \<Rightarrow> [] | Some rs \<Rightarrow> rs)"

text \<open>The loop over the ranges: it stops at the first range above the value.\<close>

fun in_ranges :: "count_range list \<Rightarrow> 8 word \<Rightarrow> bool" where
  "in_ranges [] v = False"
| "in_ranges (r # rs) v = (if v < Min r then False else if v \<le> Max r then True else in_ranges rs v)"

definition CountConfig_Decide :: "CountConfig \<Rightarrow> CountProfile \<Rightarrow> decision option" where
  "CountConfig_Decide config profile =
     (if profile = 0 then None
      else if length (count_ranges config) = 0
      then DecideInner None 1 (''Value '' @ fmt_d (unat profile) @ '' Not Allowed!'')
      else if in_ranges (count_ranges config) profile then None
      else DecideInner None 1 (''Counter out of Range: '' @ fmt_d (unat profile)))"

fun minmax :: "8 word \<Rightarrow> 8 word \<Rightarrow> 8 word list \<Rightarrow> 8 word \<times> 8 word" where
  "minmax mn mx [] = (mn, mx)"
| "minmax mn mx (v # vs) = minmax (if mn > v then v else mn) (if mx < v then v else mx) vs"

text \<open>
  \<open>Learn\<close> widens the first range. On a criteria that is empty but not nil (a JSON \<open>[]\<close>)
  \<open>(*config)[0]\<close> is out of range.
\<close>

definition CountConfig_Learn :: "CountConfig \<Rightarrow> CountPile \<Rightarrow> CountConfig res" where
  "CountConfig_Learn config pile =
     (case pile of
        [] \<Rightarrow> Inr config
      | v0 # _ \<Rightarrow>
          (let (mn, mx) = minmax v0 v0 pile in
           case config of
             None \<Rightarrow> Inr (Some [\<lparr>Min = mn, Max = mx\<rparr>])
           | Some [] \<Rightarrow> Inl IndexOutOfRange
           | Some (r # rs) \<Rightarrow>
               (let r = (if mn < Min r then r\<lparr>Min := mn\<rparr> else r);
                    r = (if mx > Max r then r\<lparr>Max := mx\<rparr> else r)
                in Inr (Some (r # rs)))))"

definition CountConfig_Prepare :: "CountConfig \<Rightarrow> CountConfig" where
  "CountConfig_Prepare config = config"

section \<open>Correctness\<close>

definition count_cwf :: "CountConfig \<Rightarrow> bool" where
  "count_cwf c \<longleftrightarrow> c \<noteq> Some []"

definition count_covers :: "CountPile \<Rightarrow> CountProfile \<Rightarrow> bool" where
  "count_covers p v \<longleftrightarrow> v = 0 \<or> v \<in> set p"

lemma minmax_bounds:
  "minmax mn mx vs = (a, b) \<Longrightarrow>
     a \<le> mn \<and> mx \<le> b \<and> (\<forall>v \<in> set vs. a \<le> v \<and> v \<le> b)"
  by (induction mn mx vs rule: minmax.induct) (fastforce split: if_splits)+

lemma minmax_attained: "minmax mn mx vs = (a, b) \<Longrightarrow> a \<in> insert mn (set vs) \<and> b \<in> insert mx (set vs)"
  by (induction mn mx vs rule: minmax.induct) (auto split: if_splits)

lemma CountConfig_Decide_None:
  "CountConfig_Decide c v = None \<longleftrightarrow> v = 0 \<or> in_ranges (count_ranges c) v"
  by (auto simp: CountConfig_Decide_def)

lemma in_ranges_widen:
  "in_ranges (r # rs) v \<Longrightarrow> Min r' \<le> Min r \<Longrightarrow> Max r \<le> Max r' \<Longrightarrow> in_ranges (r' # rs) v"
  by (auto split: if_splits)

text \<open>What \<open>Learn\<close> returns: the first range is the convex hull of itself and the pile.\<close>

lemma CountConfig_Learn_Nil: "CountConfig_Learn c [] = Inr c"
  by (simp add: CountConfig_Learn_def)

lemma CountConfig_Learn_Cons:
  assumes "p = v0 # vs" and "minmax v0 v0 p = (a, b)"
  shows "CountConfig_Learn c p =
    (case c of
       None \<Rightarrow> Inr (Some [\<lparr>Min = a, Max = b\<rparr>])
     | Some [] \<Rightarrow> Inl IndexOutOfRange
     | Some (r # rs) \<Rightarrow> Inr (Some (\<lparr>Min = min a (Min r), Max = max b (Max r)\<rparr> # rs)))"
proof -
  have widen: "(if b > Max (if a < Min r then r\<lparr>Min := a\<rparr> else r)
        then (if a < Min r then r\<lparr>Min := a\<rparr> else r)\<lparr>Max := b\<rparr> else (if a < Min r then r\<lparr>Min := a\<rparr> else r))
      = \<lparr>Min = min a (Min r), Max = max b (Max r)\<rparr>" for r :: count_range
    by (cases r) (auto simp: min_def max_def)
  show ?thesis
  proof (cases c)
    case (Some rs)
    with assms widen show ?thesis by (cases rs) (simp_all add: CountConfig_Learn_def Let_def)
  qed (use assms in \<open>simp add: CountConfig_Learn_def\<close>)
qed

lemma CountConfig_Learn_ok:
  assumes "count_cwf c"
  shows "ok (CountConfig_Learn c p)
    (\<lambda>c'. count_cwf c' \<and> (\<forall>u. count_covers p u \<longrightarrow> CountConfig_Decide c' u = None)
      \<and> (\<forall>u. CountConfig_Decide c u = None \<longrightarrow> CountConfig_Decide c' u = None))"
proof (cases p)
  case Nil
  with assms show ?thesis
    by (simp add: CountConfig_Learn_Nil count_covers_def CountConfig_Decide_None)
next
  case (Cons v0 vs)
  obtain a b where ab: "minmax v0 v0 p = (a, b)" by (cases "minmax v0 v0 p") auto
  have bounds: "a \<le> v" "v \<le> b" if "v \<in> set p" for v
    using minmax_bounds [OF ab] that by auto
  show ?thesis
  proof (cases c)
    case None
    have "in_ranges [\<lparr>Min = a, Max = b\<rparr>] v" if "v \<in> set p" for v
      using bounds [OF that] by (simp add: not_less)
    with None show ?thesis
      by (auto simp: CountConfig_Learn_Cons [OF Cons ab] count_cwf_def count_covers_def
          CountConfig_Decide_None count_ranges_def simp del: in_ranges.simps(2))
  next
    case (Some rs0)
    with assms obtain r rs where c: "c = Some (r # rs)"
      by (cases rs0) (auto simp: count_cwf_def)
    let ?r = "\<lparr>Min = min a (Min r), Max = max b (Max r)\<rparr>"
    have "in_ranges (?r # rs) v" if "v \<in> set p" for v
      using bounds [OF that] by (simp add: not_less min.coboundedI1 max.coboundedI1)
    moreover have "in_ranges (?r # rs) v" if "in_ranges (r # rs) v" for v
      using that by (rule in_ranges_widen) simp_all
    ultimately show ?thesis
      using c by (auto simp: CountConfig_Learn_Cons [OF Cons ab] count_cwf_def count_covers_def
          CountConfig_Decide_None count_ranges_def simp del: in_ranges.simps)
  qed
qed

lemma CountConfig_Decide_grave: "grave_opt (CountConfig_Decide c v)"
  by (auto simp: CountConfig_Decide_def)

interpretation count: monotone_rules
  "pure_add CountPile_Add" "pure_add CountPile_Merge" "[]" "\<lambda>_. True" "\<lambda>_. True" count_covers "\<lambda>_. True"
  "\<lambda>rr. CountConfig_Learn" "pure_decide CountConfig_Decide" count_cwf
  by unfold_locales
    (auto simp: CountPile_Add_def CountPile_Merge_def count_covers_def CountConfig_Decide_grave
      intro: ok_mono [OF CountConfig_Learn_ok])

text \<open>
  Learning a count criteria never panics on a criteria that is nil or has a range, the
  result accepts every value of the pile, and it keeps accepting whatever was accepted before.
\<close>

theorem CountConfig_Learn_sound:
  assumes "c \<noteq> Some []"
  shows "\<exists>c'. CountConfig_Learn c p = Inr c' \<and>
    (\<forall>v \<in> set p. CountConfig_Decide c' v = None) \<and>
    (\<forall>v. CountConfig_Decide c v = None \<longrightarrow> CountConfig_Decide c' v = None)"
  using CountConfig_Learn_ok [of c p] assms
  by (auto simp: ok_iff count_cwf_def count_covers_def)

theorem CountConfig_Learn_sound_witness:
  "\<exists>c'. CountConfig_Learn (Some [\<lparr>Min = 3, Max = 4\<rparr>]) [7, 2] = Inr c' \<and>
    (\<forall>v \<in> set [7, 2]. CountConfig_Decide c' v = None) \<and>
    (\<forall>v. CountConfig_Decide (Some [\<lparr>Min = 3, Max = 4\<rparr>]) v = None \<longrightarrow> CountConfig_Decide c' v = None)"
  by (rule CountConfig_Learn_sound) simp

end
