(* ===== verification/Ips.thy ===== *)
theory Ips
  imports Value_Rules
begin

text \<open>
  What the program uses of Go's package \<open>net\<close>: an address is a slice of 4 or 16 bytes (nil is
  the empty list here), an IPv4 address may come in either form, a network is an address and a
  mask of as many bytes.
\<close>

section \<open>Addresses\<close>

type_synonym ip = "8 word list"

definition v4InV6Prefix :: ip where
  "v4InV6Prefix = replicate 10 0 @ [0xFF, 0xFF]"

definition To4 :: "ip \<Rightarrow> ip option" where
  "To4 i = (if length i = 4 then Some i
     else if length i = 16 \<and> take 12 i = v4InV6Prefix then Some (drop 12 i) else None)"

definition ip_Equal :: "ip \<Rightarrow> ip \<Rightarrow> bool" where
  "ip_Equal a b =
     (if length a = length b then a = b
      else if length a = 4 \<and> length b = 16 then take 12 b = v4InV6Prefix \<and> a = drop 12 b
      else if length a = 16 \<and> length b = 4 then take 12 a = v4InV6Prefix \<and> drop 12 a = b
      else False)"

definition IsUnspecified :: "ip \<Rightarrow> bool" where
  "IsUnspecified i \<longleftrightarrow> ip_Equal i (v4InV6Prefix @ [0, 0, 0, 0]) \<or> ip_Equal i (replicate 16 0)"

definition IsLoopback :: "ip \<Rightarrow> bool" where
  "IsLoopback i = (case To4 i of Some i4 \<Rightarrow> i4 ! 0 = 127 | None \<Rightarrow> ip_Equal i (replicate 15 0 @ [1]))"

definition IsPrivate :: "ip \<Rightarrow> bool" where
  "IsPrivate i = (case To4 i of
     Some i4 \<Rightarrow> i4 ! 0 = 10 \<or> (i4 ! 0 = 172 \<and> i4 ! 1 AND 0xF0 = 16) \<or> (i4 ! 0 = 192 \<and> i4 ! 1 = 168)
   | None \<Rightarrow> length i = 16 \<and> i ! 0 AND 0xFE = 0xFC)"

section \<open>Printing\<close>

fun groups16 :: "ip \<Rightarrow> nat list" where
  "groups16 (a # b # i) = (unat a * 256 + unat b) # groups16 i"
| "groups16 i = []"

definition zero_run :: "nat list \<Rightarrow> nat \<Rightarrow> nat" where
  "zero_run gs s = length (takeWhile (\<lambda>g. g = 0) (drop s gs))"

text \<open>The first longest run of at least two zero groups, as its start and length.\<close>

definition longest_run :: "nat list \<Rightarrow> nat \<times> nat" where
  "longest_run gs = fold (\<lambda>s (zs, zl). let l = zero_run gs s in if l \<ge> 2 \<and> l > zl then (s, l) else (zs, zl))
     [0..<length gs] (0, 0)"

definition or_empty :: "string list \<Rightarrow> string list" where
  "or_empty xs = (if xs = [] then [''''] else xs)"

definition string6 :: "nat list \<Rightarrow> string" where
  "string6 gs =
     (let (zs, zl) = longest_run gs in
      if zl = 0 then join '':'' (map fmt_x gs)
      else join '':'' (or_empty (map fmt_x (take zs gs)) @ [''''] @ or_empty (map fmt_x (drop (zs + zl) gs))))"

definition hex2 :: "8 word \<Rightarrow> string" where
  "hex2 b = [digit_char (unat b div 16), digit_char (unat b mod 16)]"

definition ip_String :: "ip \<Rightarrow> string" where
  "ip_String i =
     (if length i = 0 then ''<nil>''
      else case To4 i of
        Some i4 \<Rightarrow> join ''.'' (map (\<lambda>b. fmt_d (unat b)) i4)
      | None \<Rightarrow> if length i = 16 then string6 (groups16 i) else ''?'' @ concat (map hex2 i))"

section \<open>Masks and networks\<close>

fun mask_bytes :: "nat \<Rightarrow> nat \<Rightarrow> 8 word list" where
  "mask_bytes 0 n = []"
| "mask_bytes (Suc l) n = (if n \<ge> 8 then 0xFF # mask_bytes l (n - 8) else NOT (drop_bit n 0xFF) # mask_bytes l 0)"

definition CIDRMask :: "nat \<Rightarrow> nat \<Rightarrow> 8 word list" where
  "CIDRMask ones nbits = (if (nbits = 32 \<or> nbits = 128) \<and> ones \<le> nbits then mask_bytes (nbits div 8) ones else [])"

definition ip_Mask :: "ip \<Rightarrow> 8 word list \<Rightarrow> ip" where
  "ip_Mask i m =
     (let m = (if length m = 16 \<and> length i = 4 \<and> take 12 m = replicate 12 0xFF then drop 12 m else m);
          i = (if length m = 4 \<and> length i = 16 \<and> take 12 i = v4InV6Prefix then drop 12 i else i)
      in if length i \<noteq> length m then [] else map2 (AND) i m)"

record ipnet =
  IP :: ip
  Mask :: "8 word list"

definition networkNumberAndMask :: "ipnet \<Rightarrow> ip \<times> 8 word list" where
  "networkNumberAndMask n =
     (let i = (case To4 (IP n) of Some i4 \<Rightarrow> i4 | None \<Rightarrow> IP n) in
      if length i \<noteq> 4 \<and> length i \<noteq> 16 then ([], [])
      else if length (Mask n) = 4 then (if length i \<noteq> 4 then ([], []) else (i, Mask n))
      else if length (Mask n) = 16 then (i, if length i = 4 then drop 12 (Mask n) else Mask n)
      else ([], []))"

definition Contains :: "ipnet \<Rightarrow> ip \<Rightarrow> bool" where
  "Contains n i =
     (let (nn, m) = networkNumberAndMask n;
          x = (case To4 i of Some i4 \<Rightarrow> i4 | None \<Rightarrow> i)
      in length x = length nn \<and> map2 (AND) nn m = map2 (AND) x m)"

text \<open>\<open>bits.LeadingZeros8\<close> and \<open>bits.Len\<close>.\<close>

fun bit_length :: "nat \<Rightarrow> nat" where
  "bit_length n = (if n = 0 then 0 else Suc (bit_length (n div 2)))"

declare bit_length.simps [simp del]

definition LeadingZeros8 :: "8 word \<Rightarrow> nat" where
  "LeadingZeros8 x = 8 - bit_length (unat x)"

section \<open>Printing is injective\<close>

fun digit_value :: "char \<Rightarrow> nat" where
  "digit_value c = (if of_char c < (58 :: nat) then of_char c - 48 else of_char c - 87)"

definition string_value :: "nat \<Rightarrow> string \<Rightarrow> nat" where
  "string_value base s = fold (\<lambda>c v. v * base + digit_value c) s 0"

lemma digit_value_char: "d < 16 \<Longrightarrow> digit_value (digit_char d) = d"
  by (simp add: digit_char_def)

lemma string_value_digits: "2 \<le> base \<Longrightarrow> base \<le> 16 \<Longrightarrow> string_value base (digits_in base n) = n"
proof (induction base n rule: digits_in.induct)
  case (1 base n)
  show ?case
  proof (cases "n < base")
    case True
    with "1.prems" show ?thesis
      by (subst digits_in.simps) (simp add: string_value_def digit_value_char del: digit_value.simps)
  next
    case False
    have "n mod base < base" using "1.prems" by simp
    then have "n mod base < 16" using "1.prems" by linarith
    with False 1 show ?thesis
      by (subst digits_in.simps) (simp add: string_value_def digit_value_char del: digit_value.simps)
  qed
qed

lemma digits_in_inject: "2 \<le> base \<Longrightarrow> base \<le> 16 \<Longrightarrow> digits_in base m = digits_in base n \<longleftrightarrow> m = n"
  by (metis string_value_digits)

lemma fmt_inject [simp]: "fmt_d m = fmt_d n \<longleftrightarrow> m = n" "fmt_x m = fmt_x n \<longleftrightarrow> m = n"
  by (simp_all add: fmt_d_def fmt_x_def digits_in_inject)

lemma digits_in_not_Nil [simp]: "digits_in base n \<noteq> []"
  by (subst digits_in.simps) simp

lemma set_digits_in: "2 \<le> base \<Longrightarrow> base \<le> 16 \<Longrightarrow> c \<in> set (digits_in base n) \<Longrightarrow> \<exists>d < 16. c = digit_char d"
proof (induction base n rule: digits_in.induct)
  case (1 base n)
  have "n mod base < base" using "1.prems"(1) by simp
  then have "n mod base < 16" using "1.prems"(2) by linarith
  show ?case
  proof (cases "n < base")
    case True
    then have "n < 16" using "1.prems"(2) by linarith
    moreover have "c = digit_char n" using "1.prems"(3) True by (subst (asm) digits_in.simps) simp
    ultimately show ?thesis by blast
  next
    case False
    then have "c \<in> set (digits_in base (n div base)) \<or> c = digit_char (n mod base)"
      using "1.prems"(1,3) digits_in.simps [of base n] by auto
    with False 1 \<open>n mod base < 16\<close> show ?thesis by auto
  qed
qed

lemma digit_char_not_sep: "d < 16 \<Longrightarrow> digit_char d \<noteq> CHR '':'' \<and> digit_char d \<noteq> CHR ''.'' \<and> digit_char d \<noteq> CHR ''<'' \<and> digit_char d \<noteq> CHR ''?''"
proof -
  have "list_all (\<lambda>d. digit_char d \<noteq> CHR '':'' \<and> digit_char d \<noteq> CHR ''.'' \<and> digit_char d \<noteq> CHR ''<'' \<and> digit_char d \<noteq> CHR ''?'') [0..<16]"
    by code_simp
  then show "d < 16 \<Longrightarrow> ?thesis" by (simp add: list_all_iff)
qed

lemma fmt_no_sep:
  "CHR '':'' \<notin> set (fmt_d n)" "CHR ''.'' \<notin> set (fmt_d n)" "CHR '':'' \<notin> set (fmt_x n)"
  using set_digits_in [of 10 _ n] set_digits_in [of 16 _ n] digit_char_not_sep
  by (fastforce simp: fmt_d_def fmt_x_def)+

lemma fmt_not_Nil [simp]: "fmt_d n \<noteq> []" "fmt_x n \<noteq> []"
  by (simp_all add: fmt_d_def fmt_x_def)

lemma split_on_append: "c \<notin> set x \<Longrightarrow> split_on c (x @ c # s) = x # split_on c s"
  by (induction x) auto

lemma split_on_whole: "c \<notin> set x \<Longrightarrow> split_on c x = [x]"
  by (induction x) auto

lemma split_on_join: "xs \<noteq> [] \<Longrightarrow> \<forall>x \<in> set xs. c \<notin> set x \<Longrightarrow> split_on c (join [c] xs) = xs"
  by (induction "[c]" xs rule: join.induct) (simp_all add: split_on_append split_on_whole)

lemma set_join: "set (join [c] xs) \<subseteq> insert c (\<Union>x \<in> set xs. set x)"
  by (induction "[c]" xs rule: join.induct) auto

lemma sep_in_join: "2 \<le> length xs \<Longrightarrow> c \<in> set (join [c] xs)"
  by (induction "[c]" xs rule: join.induct) auto

definition tokens6 :: "nat list \<Rightarrow> string list" where
  "tokens6 gs =
     (let (zs, zl) = longest_run gs in
      if zl = 0 then map fmt_x gs
      else or_empty (map fmt_x (take zs gs)) @ [''''] @ or_empty (map fmt_x (drop (zs + zl) gs)))"

lemma string6_tokens: "string6 gs = join '':'' (tokens6 gs)"
  by (simp add: string6_def tokens6_def split: prod.splits)

lemma tokens6_no_sep: "x \<in> set (tokens6 gs) \<Longrightarrow> CHR '':'' \<notin> set x"
  by (auto simp: tokens6_def or_empty_def fmt_no_sep split: prod.splits if_splits)

lemma length_tokens6: "2 \<le> length gs \<Longrightarrow> 2 \<le> length (tokens6 gs)"
  by (auto simp: tokens6_def or_empty_def split: prod.splits)

lemma take_zero_run: "s \<le> length gs \<Longrightarrow> l \<le> zero_run gs s \<Longrightarrow>
    gs = take s gs @ replicate l 0 @ drop (s + l) gs"
proof -
  assume h: "s \<le> length gs" "l \<le> zero_run gs s"
  have "take l (drop s gs) = replicate l 0"
  proof (rule nth_equalityI)
    have "zero_run gs s \<le> length gs - s"
      unfolding zero_run_def using length_takeWhile_le [of _ "drop s gs"] by simp
    with h(2) show "length (take l (drop s gs)) = length (replicate l (0 :: nat))" by simp
    fix i assume "i < length (take l (drop s gs))"
    then have "i < length (takeWhile (\<lambda>g. g = 0) (drop s gs))" and "i < l"
      using h(2) by (simp_all add: zero_run_def)
    then show "take l (drop s gs) ! i = replicate l 0 ! i"
      using takeWhile_nth [of i "\<lambda>g. g = 0" "drop s gs"] nth_mem [of i "takeWhile (\<lambda>g. g = 0) (drop s gs)"]
      by (auto dest: set_takeWhileD)
  qed
  then show ?thesis
    by (metis add.commute append_take_drop_id drop_drop)
qed

lemma longest_run_zero:
  assumes "longest_run gs = (zs, zl)"
  shows "gs = take zs gs @ replicate zl 0 @ drop (zs + zl) gs \<and> zs + zl \<le> length gs"
proof -
  define step where "step = (\<lambda>s (zs, zl). let l = zero_run gs s in if l \<ge> 2 \<and> l > zl then (s, l) else (zs, zl))"
  have "fst p \<le> length gs \<and> snd p \<le> zero_run gs (fst p) \<Longrightarrow> set ss \<subseteq> {..<length gs} \<Longrightarrow>
      fst (fold step ss p) \<le> length gs \<and> snd (fold step ss p) \<le> zero_run gs (fst (fold step ss p))" for ss p
  proof (induction ss arbitrary: p)
    case (Cons s ss)
    have "fst (step s p) \<le> length gs \<and> snd (step s p) \<le> zero_run gs (fst (step s p))"
      using Cons.prems by (cases p) (auto simp: step_def Let_def)
    with Cons show ?case by simp
  qed simp
  moreover have "fold step [0..<length gs] (0, 0) = (zs, zl)"
    using assms by (simp add: longest_run_def step_def)
  moreover have "set [0..<length gs] \<subseteq> {..<length gs}" by auto
  ultimately have h: "zs \<le> length gs" "zl \<le> zero_run gs zs"
    by (metis fst_conv le0 snd_conv)+
  moreover have "zero_run gs zs \<le> length gs - zs"
    unfolding zero_run_def using length_takeWhile_le [of _ "drop zs gs"] by simp
  ultimately show ?thesis
    using take_zero_run [OF h] by simp
qed

definition decode6 :: "string list \<Rightarrow> nat list" where
  "decode6 ts =
     (if [] \<notin> set ts then map (string_value 16) ts
      else let pre = takeWhile (\<lambda>t. t \<noteq> []) ts; post = rev (takeWhile (\<lambda>t. t \<noteq> []) (rev ts))
           in map (string_value 16) pre @ replicate (8 - length pre - length post) 0 @ map (string_value 16) post)"

lemma takeWhile_or_empty: "\<forall>x \<in> set xs. x \<noteq> [] \<Longrightarrow> takeWhile (\<lambda>t. t \<noteq> []) (or_empty xs @ [] # ys) = xs"
  by (auto simp: or_empty_def takeWhile_append)

lemma rev_or_empty: "rev (or_empty xs) = or_empty (rev xs)"
  by (simp add: or_empty_def)

lemma decode6_tokens6:
  assumes "length gs = 8"
  shows "decode6 (tokens6 gs) = gs"
proof -
  obtain zs zl where z: "longest_run gs = (zs, zl)" by (cases "longest_run gs")
  have v: "map (string_value 16) (map fmt_x xs) = xs" for xs
    by (simp add: fmt_x_def string_value_digits comp_def)
  show ?thesis
  proof (cases "zl = 0")
    case True
    have "[] \<notin> fmt_x ` set gs" by (metis fmt_not_Nil(2) imageE)
    with True z show ?thesis
      using v [of gs] by (simp add: tokens6_def decode6_def)
  next
    case False
    let ?pre = "map fmt_x (take zs gs)" and ?post = "map fmt_x (drop (zs + zl) gs)"
    have t: "tokens6 gs = or_empty ?pre @ [] # or_empty ?post"
      using z False by (simp add: tokens6_def)
    have "takeWhile (\<lambda>t. t \<noteq> []) (tokens6 gs) = ?pre"
      unfolding t by (rule takeWhile_or_empty) auto
    moreover have "rev (takeWhile (\<lambda>t. t \<noteq> []) (rev (tokens6 gs))) = ?post"
    proof -
      have "rev (tokens6 gs) = or_empty (rev ?post) @ [] # or_empty (rev ?pre)"
        unfolding t by (simp add: rev_or_empty)
      moreover have "takeWhile (\<lambda>t. t \<noteq> []) (or_empty (rev ?post) @ [] # or_empty (rev ?pre)) = rev ?post"
        by (rule takeWhile_or_empty) auto
      ultimately show ?thesis by simp
    qed
    moreover have "[] \<in> set (tokens6 gs)" by (simp add: t)
    ultimately have "decode6 (tokens6 gs) = take zs gs @ replicate (8 - zs - (8 - (zs + zl))) 0 @ drop (zs + zl) gs"
      using assms longest_run_zero [OF z] v by (simp add: decode6_def Let_def)
    also have "\<dots> = gs"
      using assms longest_run_zero [OF z] by simp
    finally show ?thesis .
  qed
qed

text \<open>
  The two forms of an IPv4 address are one address: \<open>norm4\<close> is the short one. Strings, which
  are the keys of the sets of addresses, tell valid addresses apart exactly up to that.
\<close>

definition norm4 :: "ip \<Rightarrow> ip" where
  "norm4 i = (case To4 i of Some i4 \<Rightarrow> i4 | None \<Rightarrow> i)"

definition valid_ip :: "ip \<Rightarrow> bool" where
  "valid_ip i \<longleftrightarrow> length i = 4 \<or> length i = 16"

lemma length_norm4: "valid_ip i \<Longrightarrow> length (norm4 i) = (if To4 i = None then 16 else 4)"
  by (auto simp: valid_ip_def norm4_def To4_def split: if_splits)

lemma length_groups16: "length (groups16 i) = length i div 2"
  by (induction i rule: groups16.induct) simp_all

lemma groups16_inject: "length i = length j \<Longrightarrow> even (length i) \<Longrightarrow> groups16 i = groups16 j \<Longrightarrow> i = j"
proof (induction i arbitrary: j rule: groups16.induct)
  case (1 a b i)
  then obtain c d j' where j: "j = c # d # j'"
    by (cases j; cases "tl j") auto
  have lt: "unat w < 256" for w :: "8 word" using unsigned_less [of w] by simp
  have "unat a * 256 + unat b = unat c * 256 + unat d" using "1.prems"(3) j by simp
  moreover have "x = z \<and> y = w" if h: "x * 256 + y = z * 256 + w" "y < 256" "w < 256" for x y z w :: nat
  proof -
    have "(x * 256 + y) div 256 = x" "(z * 256 + w) div 256 = z" using h(2,3) by simp_all
    with h(1) have "x = z" by simp
    with h(1) show ?thesis by simp
  qed
  ultimately have "unat a = unat c \<and> unat b = unat d"
    using lt [of b] lt [of d] by blast
  then have "a = c \<and> b = d" by (simp add: word_unat_eq_iff)
  with 1 j show ?case by simp
qed auto

lemma ip_String_norm4:
  assumes "valid_ip i"
  shows "ip_String i = (if length (norm4 i) = 4 then join ''.'' (map (\<lambda>b. fmt_d (unat b)) (norm4 i))
    else string6 (groups16 (norm4 i)))"
  using assms by (auto simp: ip_String_def valid_ip_def norm4_def To4_def)

lemma dotted_no_colon: "CHR '':'' \<notin> set (join ''.'' (map (\<lambda>b. fmt_d (unat b)) i))"
  using set_join [of "CHR ''.''" "map (\<lambda>b. fmt_d (unat b)) i"] fmt_no_sep(1) by fastforce

lemma dotted_inject:
  fixes i j :: ip
  assumes "length i = 4" and "length j = 4"
    and "join ''.'' (map (\<lambda>b. fmt_d (unat b)) i) = join ''.'' (map (\<lambda>b. fmt_d (unat b)) j)"
  shows "i = j"
proof -
  have s: "split_on CHR ''.'' (join ''.'' (map (\<lambda>b. fmt_d (unat b)) k)) = map (\<lambda>b. fmt_d (unat b)) k"
    if "length k = 4" for k :: ip
  proof (rule split_on_join)
    show "map (\<lambda>b. fmt_d (unat b)) k \<noteq> []" using that by auto
    show "\<forall>x \<in> set (map (\<lambda>b. fmt_d (unat b)) k). CHR ''.'' \<notin> set x" by (simp add: fmt_no_sep(2))
  qed
  have "map (\<lambda>b. fmt_d (unat b)) i = split_on CHR ''.'' (join ''.'' (map (\<lambda>b. fmt_d (unat b)) i))"
    using s [OF assms(1)] by (rule sym)
  also have "\<dots> = split_on CHR ''.'' (join ''.'' (map (\<lambda>b. fmt_d (unat b)) j))"
    by (simp only: assms(3))
  also have "\<dots> = map (\<lambda>b. fmt_d (unat b)) j"
    by (rule s [OF assms(2)])
  finally have "map (\<lambda>b. fmt_d (unat b)) i = map (\<lambda>b. fmt_d (unat b)) j" .
  moreover have "inj (\<lambda>b :: 8 word. fmt_d (unat b))"
    by (rule injI) (simp add: word_unat_eq_iff)
  ultimately show ?thesis by (metis inj_map_eq_map)
qed

lemma string6_inject:
  fixes i j :: ip
  assumes "length i = 16" and "length j = 16" and "string6 (groups16 i) = string6 (groups16 j)"
  shows "i = j"
proof -
  have l: "length (groups16 k) = 8" if "length k = 16" for k using that by (simp add: length_groups16)
  have "split_on CHR '':'' (string6 gs) = tokens6 gs" if "length gs = 8" for gs
  proof -
    have "tokens6 gs \<noteq> []" using length_tokens6 [of gs] that by auto
    then show ?thesis
      unfolding string6_tokens using tokens6_no_sep by (intro split_on_join) auto
  qed
  then have "tokens6 (groups16 i) = tokens6 (groups16 j)"
    using assms l by metis
  then have "groups16 i = groups16 j"
    using decode6_tokens6 l assms(1,2) by metis
  then show ?thesis
    by (rule groups16_inject [rotated 2]) (use assms(1,2) in simp_all)
qed

lemma ip_String_eq:
  assumes "valid_ip i" and "valid_ip j"
  shows "ip_String i = ip_String j \<longleftrightarrow> norm4 i = norm4 j"
proof
  assume h: "ip_String i = ip_String j"
  have colon: "CHR '':'' \<in> set (string6 (groups16 k))" if "length k = 16" for k
  proof -
    have "2 \<le> length (tokens6 (groups16 k))"
      by (rule length_tokens6) (use that in \<open>simp add: length_groups16\<close>)
    then show ?thesis unfolding string6_tokens by (rule sep_in_join)
  qed
  have l: "length (norm4 k) = 4 \<or> length (norm4 k) = 16" if "valid_ip k" for k
    using length_norm4 [OF that] by simp
  have e: "(if length (norm4 i) = 4 then join ''.'' (map (\<lambda>b. fmt_d (unat b)) (norm4 i)) else string6 (groups16 (norm4 i)))
    = (if length (norm4 j) = 4 then join ''.'' (map (\<lambda>b. fmt_d (unat b)) (norm4 j)) else string6 (groups16 (norm4 j)))"
    using h by (simp only: ip_String_norm4 [OF assms(1)] ip_String_norm4 [OF assms(2)])
  have ne: "join ''.'' (map (\<lambda>b. fmt_d (unat b)) k) \<noteq> string6 (groups16 k')" if "length k' = 16" for k k' :: ip
    using colon [OF that] dotted_no_colon [of k] by metis
  show "norm4 i = norm4 j"
    using l [OF assms(1)]
  proof
    assume i: "length (norm4 i) = 4"
    with e ne l [OF assms(2)] have "length (norm4 j) = 4" by (metis numeral_eq_iff)
    with i e dotted_inject show ?thesis by simp
  next
    assume i: "length (norm4 i) = 16"
    with e ne l [OF assms(2)] have "length (norm4 j) = 16" by (metis numeral_eq_iff)
    with i e string6_inject show ?thesis by simp
  qed
qed (simp add: ip_String_norm4 assms)

section \<open>Classes of addresses\<close>

text \<open>The addresses that are never profiled, learned or rejected.\<close>

definition exempt :: "ip \<Rightarrow> bool" where
  "exempt i \<longleftrightarrow> IsUnspecified i \<or> IsLoopback i \<or> IsPrivate i"

lemma To4_norm4 [simp]: "valid_ip i \<Longrightarrow> To4 (norm4 i) = To4 i"
  by (auto simp: valid_ip_def norm4_def To4_def)

lemma valid_norm4 [simp]: "valid_ip i \<Longrightarrow> valid_ip (norm4 i)"
  by (auto simp: valid_ip_def norm4_def To4_def)

lemma To4_eq_norm4: "valid_ip i \<Longrightarrow> To4 i = (if length (norm4 i) = 4 then Some (norm4 i) else None)"
  by (auto simp: valid_ip_def norm4_def To4_def)

lemma ip_Equal_v6: "valid_ip i \<Longrightarrow> length j = 16 \<Longrightarrow> take 12 j \<noteq> v4InV6Prefix \<Longrightarrow> ip_Equal i j \<longleftrightarrow> norm4 i = j"
  by (auto simp: valid_ip_def ip_Equal_def norm4_def To4_def)

lemma ip_Equal_mapped: "valid_ip i \<Longrightarrow> length j = 4 \<Longrightarrow> ip_Equal i (v4InV6Prefix @ j) \<longleftrightarrow> norm4 i = j"
proof -
  assume h: "valid_ip i" "length j = 4"
  have p: "length v4InV6Prefix = 12" by (simp add: v4InV6Prefix_def)
  have "i = v4InV6Prefix @ j \<longleftrightarrow> take 12 i = v4InV6Prefix \<and> drop 12 i = j" if "length i = 16"
    using that p by (metis append_eq_conv_conj append_take_drop_id)
  with h p show ?thesis
    by (auto simp: valid_ip_def ip_Equal_def norm4_def To4_def)
qed

lemma IsUnspecified_norm4: "valid_ip i \<Longrightarrow> IsUnspecified i \<longleftrightarrow> norm4 i = [0, 0, 0, 0] \<or> norm4 i = replicate 16 0"
proof -
  have "take 12 (replicate 16 0) ! 11 \<noteq> v4InV6Prefix ! 11"
    by (simp add: v4InV6Prefix_def nth_append)
  then have "take 12 (replicate 16 0) \<noteq> v4InV6Prefix" by metis
  then show "valid_ip i \<Longrightarrow> ?thesis"
    unfolding IsUnspecified_def by (subst ip_Equal_mapped, simp, simp, subst ip_Equal_v6) simp_all
qed

lemma exempt_norm4:
  assumes "valid_ip i" and "valid_ip j" and "norm4 i = norm4 j"
  shows "exempt i = exempt j"
proof -
  have "IsUnspecified i = IsUnspecified j"
    using assms by (simp add: IsUnspecified_norm4)
  moreover have t: "To4 i = To4 j"
    using assms by (simp add: To4_eq_norm4)
  moreover have "i = j" if "To4 i = None"
    using that t assms(3) by (simp add: norm4_def)
  ultimately show ?thesis
    by (auto simp: exempt_def IsLoopback_def IsPrivate_def split: option.splits)
qed

lemma Contains_norm4: "norm4 i = norm4 j \<Longrightarrow> Contains n i = Contains n j"
  by (simp add: Contains_def norm4_def Let_def)

end
