(* ===== verification/Ip_Sets.thy ===== *)
theory Ip_Sets
  imports Ips Sets
begin

text \<open>
  \<open>pkg/apis/guard/v1alpha1/ipSet.go\<close>: sets of addresses, learned as networks that are inflated
  up to the last byte. The loops of \<open>Learn\<close> and \<open>Decide\<close> range over copies of the networks:
  of what \<open>InflateBy\<close> writes only the bytes of the mask, which the copy shares, are kept.
\<close>

section \<open>Profile\<close>

type_synonym IpSetProfile = "ip list"

text \<open>\<open>parsed\<close> is what \<open>net.ParseIP\<close> returns for the string: nil or sixteen bytes.\<close>

definition IpSetProfile_ProfileString :: "(string \<Rightarrow> ip) \<Rightarrow> string \<Rightarrow> IpSetProfile" where
  "IpSetProfile_ProfileString ParseIP s =
     (if length s > 0 then
        (let i = ParseIP s in
         if i \<noteq> [] \<and> \<not> IsUnspecified i \<and> \<not> IsLoopback i \<and> \<not> IsPrivate i
         then [case To4 i of Some ipv4 \<Rightarrow> ipv4 | None \<Rightarrow> i] else [])
      else [])"

definition IpSetProfile_ProfileIP :: "ip \<Rightarrow> IpSetProfile" where
  "IpSetProfile_ProfileIP i =
     (if i \<noteq> [] \<and> \<not> IsUnspecified i \<and> \<not> IsLoopback i \<and> \<not> IsPrivate i then [i] else [])"

definition IpSetProfile_ProfileIPSlice :: "ip list \<Rightarrow> IpSetProfile" where
  "IpSetProfile_ProfileIPSlice ipSlice =
     fold (\<lambda>i profile. if i \<noteq> [] \<and> \<not> IsUnspecified i \<and> \<not> IsLoopback i \<and> \<not> IsPrivate i
                       then profile @ [i] else profile) ipSlice []"

section \<open>Pile\<close>

record IpSetPile =
  IpSetPile_List :: "ip list"
  IpSetPile_m :: "bool gomap"

definition empty_IpSetPile :: IpSetPile where
  "empty_IpSetPile = \<lparr>IpSetPile_List = [], IpSetPile_m = None\<rparr>"

definition IpSetPile_index :: "IpSetPile \<Rightarrow> bool entries" where
  "IpSetPile_index pile =
     (case IpSetPile_m pile of
        None \<Rightarrow> fold (\<lambda>v m. AList.update (ip_String v) True m) (IpSetPile_List pile) []
      | Some m \<Rightarrow> m)"

text \<open>The loop that \<open>Add\<close> and \<open>Merge\<close> share.\<close>

fun insert_ips :: "ip list \<Rightarrow> ip list \<times> bool entries \<Rightarrow> ip list \<times> bool entries" where
  "insert_ips [] (xs, m) = (xs, m)"
| "insert_ips (v # vs) (xs, m) =
     (let ipStr = ip_String v in
      if \<not> seen (Some m) ipStr then insert_ips vs (xs @ [v], AList.update ipStr True m)
      else insert_ips vs (xs, m))"

definition IpSetPile_Add :: "IpSetPile \<Rightarrow> IpSetProfile \<Rightarrow> IpSetPile" where
  "IpSetPile_Add pile profile =
     (let (xs, m) = insert_ips profile (IpSetPile_List pile, IpSetPile_index pile)
      in \<lparr>IpSetPile_List = xs, IpSetPile_m = Some m\<rparr>)"

definition IpSetPile_Clear :: "IpSetPile \<Rightarrow> IpSetPile" where
  "IpSetPile_Clear pile = pile\<lparr>IpSetPile_m := None, IpSetPile_List := []\<rparr>"

definition IpSetPile_Merge :: "IpSetPile \<Rightarrow> IpSetPile \<Rightarrow> IpSetPile" where
  "IpSetPile_Merge pile otherPile =
     (let (xs, m) = insert_ips (IpSetPile_List otherPile) (IpSetPile_List pile, IpSetPile_index pile)
      in \<lparr>IpSetPile_List = xs, IpSetPile_m = Some m\<rparr>)"

section \<open>Networks\<close>

type_synonym CIDR = ipnet

text \<open>A mask longer than the address indexes the copy of the address out of range.\<close>

definition lastIP :: "CIDR \<Rightarrow> ip res" where
  "lastIP cidr =
     fold_res (\<lambda>(i, b) lastIp. bind_res (index_at lastIp i) (\<lambda>x. Inr (lastIp[i := x OR NOT b])))
       (enumerate 0 (Mask cidr)) (IP cidr)"

definition Include :: "CIDR \<Rightarrow> CIDR \<Rightarrow> bool res" where
  "Include cidr otherCidr =
     (if Contains cidr (IP otherCidr)
      then bind_res (lastIP otherCidr) (\<lambda>l. Inr (Contains cidr l))
      else Inr False)"

definition InflateBy :: "CIDR \<Rightarrow> ip \<Rightarrow> (CIDR \<times> bool) res" where
  "InflateBy cidr i =
     (if Contains cidr i then Inr (cidr, True)
      else
        (let cidrLen = length (IP cidr) in
         if length i \<noteq> cidrLen then Inr (cidr, False)
         else
           (let cidrLast = cidrLen - 1;
                cidrBits = cidrLen * 8
            in if \<exists>k \<in> {0..<cidrLast}. IP cidr ! k XOR i ! k \<noteq> 0 then Inr (cidr, False)
               else
                 bind_res (index_at (IP cidr) cidrLast) (\<lambda>a.
                 bind_res (index_at i cidrLast) (\<lambda>b.
                 let x = a XOR b;
                     bitsShared = LeadingZeros8 x;
                     m = CIDRMask (cidrBits - 8 + bitsShared) cidrBits;
                     cidr = cidr\<lparr>IP := ip_Mask (IP cidr) m\<rparr>
                 in bind_res (index_at (Mask cidr) cidrLast) (\<lambda>old.
                    bind_res (index_at m cidrLast) (\<lambda>new.
                    Inr (cidr\<lparr>Mask := (Mask cidr)[cidrLast := old AND new]\<rparr>, True))))))))"

section \<open>Criteria\<close>

type_synonym IpSetConfig = "CIDR list"

definition allowed_ip :: "IpSetConfig \<Rightarrow> ip \<Rightarrow> bool" where
  "allowed_ip config i \<longleftrightarrow>
     IsUnspecified i \<or> IsLoopback i \<or> IsPrivate i \<or> (\<exists>subnet \<in> set config. Contains subnet i)"

definition IpSetConfig_Decide :: "IpSetConfig \<Rightarrow> IpSetProfile \<Rightarrow> decision option" where
  "IpSetConfig_Decide config profile =
     (if length profile = 0 then None
      else fold (\<lambda>i current. if allowed_ip config i then current
                             else DecideInner current 1 (''IP '' @ ip_String i @ '' not allowed'')) profile None)"

text \<open>The inner loop of \<open>Learn\<close>: the networks after it, and whether one covers the address.\<close>

fun inflate_first :: "ip \<Rightarrow> IpSetConfig \<Rightarrow> (IpSetConfig \<times> bool) res" where
  "inflate_first i [] = Inr ([], False)"
| "inflate_first i (c # cs) =
     bind_res (InflateBy c i) (\<lambda>(cidr, done).
       let c = c\<lparr>Mask := Mask cidr\<rparr> in
       if done then Inr (c # cs, True)
       else bind_res (inflate_first i cs) (\<lambda>(cs, done). Inr (c # cs, done)))"

definition learn_ip :: "ip \<Rightarrow> IpSetConfig \<Rightarrow> IpSetConfig res" where
  "learn_ip i config =
     bind_res (inflate_first i config) (\<lambda>(config, done).
       if done then Inr config
       else if length i = 4 then Inr (config @ [\<lparr>IP = i, Mask = CIDRMask 32 32\<rparr>])
       else Inr (config @ [\<lparr>IP = i, Mask = CIDRMask 128 128\<rparr>]))"

definition IpSetConfig_Learn :: "IpSetConfig \<Rightarrow> IpSetPile \<Rightarrow> IpSetConfig res" where
  "IpSetConfig_Learn config pile = fold_res learn_ip (IpSetPile_List pile) config"

definition IpSetConfig_Prepare :: "IpSetConfig \<Rightarrow> IpSetConfig" where
  "IpSetConfig_Prepare config = config"

section \<open>Inflating a network\<close>

lemma bit_length_bound: "n < 2 ^ bit_length n"
proof (induction n rule: bit_length.induct)
  case (1 n)
  then show ?case by (cases "n = 0") (simp_all add: bit_length.simps [of n] bit_length.simps [of 0])
qed

lemma bit_above_length: "bit_length (unat x) \<le> j \<Longrightarrow> \<not> bit x j" for x :: "8 word"
proof -
  assume "bit_length (unat x) \<le> j"
  then have "unat x < 2 ^ j"
    using bit_length_bound [of "unat x"] by (meson order_less_le_trans one_le_numeral power_increasing)
  then have "\<not> bit (unat x) j" by (simp add: bit_iff_odd)
  then show ?thesis by (simp add: bit_unsigned_iff)
qed

definition top_mask :: "nat \<Rightarrow> 8 word" where
  "top_mask k = (if k \<ge> 8 then 0xFF else NOT (drop_bit k 0xFF))"

lemma top_masks: "list_all (\<lambda>k. list_all (\<lambda>j. bit (top_mask k) j \<longleftrightarrow> 8 - k \<le> j) [0..<8]) [0..<9]"
  by code_simp

lemma bit_top_mask: "j < 8 \<Longrightarrow> bit (top_mask k) j \<longleftrightarrow> 8 - k \<le> j"
proof -
  have "top_mask k = top_mask (min k 8)" by (simp add: top_mask_def)
  moreover have "min k 8 < 9" by simp
  ultimately show "j < 8 \<Longrightarrow> ?thesis"
    using top_masks by (auto simp: list_all_iff min_def split: if_splits)
qed

lemma shared_top_bits:
  fixes a b :: "8 word"
  shows "a AND top_mask (LeadingZeros8 (a XOR b)) = b AND top_mask (LeadingZeros8 (a XOR b))"
proof (rule bit_word_eqI)
  fix j assume "j < LENGTH(8)"
  then have j: "j < 8" by simp
  show "bit (a AND top_mask (LeadingZeros8 (a XOR b))) j = bit (b AND top_mask (LeadingZeros8 (a XOR b))) j"
  proof (cases "8 - LeadingZeros8 (a XOR b) \<le> j")
    case True
    with j have "bit_length (unat (a XOR b)) \<le> j"
      unfolding LeadingZeros8_def by linarith
    then have "\<not> bit (a XOR b) j" by (rule bit_above_length)
    then show ?thesis by (auto simp: bit_simps)
  next
    case False
    with j show ?thesis by (simp add: bit_and_iff bit_top_mask)
  qed
qed

lemma mask_bytes_nth: "i < l \<Longrightarrow> mask_bytes l n ! i = top_mask (n - 8 * i)"
proof (induction l arbitrary: n i)
  case (Suc l)
  show ?case
  proof (cases i)
    case 0
    then show ?thesis by (simp add: top_mask_def)
  next
    case (Suc i')
    with Suc.IH [of i' "n - 8"] Suc.IH [of i' 0] Suc.prems show ?thesis by (simp add: diff_diff_eq)
  qed
qed simp

lemma length_mask_bytes [simp]: "length (mask_bytes l n) = l"
  by (induction l arbitrary: n) simp_all

definition cidr_ok :: "CIDR \<Rightarrow> bool" where
  "cidr_ok c \<longleftrightarrow> valid_ip (IP c) \<and> length (Mask c) = length (IP c)"

definition net_mask :: "CIDR \<Rightarrow> 8 word list" where
  "net_mask c = drop (length (Mask c) - length (norm4 (IP c))) (Mask c)"

lemma length_net_mask: "cidr_ok c \<Longrightarrow> length (net_mask c) = length (norm4 (IP c))"
  by (auto simp: cidr_ok_def net_mask_def valid_ip_def norm4_def To4_def)

lemma networkNumberAndMask_ok: "cidr_ok c \<Longrightarrow> networkNumberAndMask c = (norm4 (IP c), net_mask c)"
  by (auto simp: cidr_ok_def net_mask_def valid_ip_def norm4_def To4_def networkNumberAndMask_def Let_def)

lemma Contains_iff:
  assumes "cidr_ok c"
  shows "Contains c x \<longleftrightarrow> length (norm4 x) = length (norm4 (IP c)) \<and>
    (\<forall>j < length (norm4 x). norm4 (IP c) ! j AND net_mask c ! j = norm4 x ! j AND net_mask c ! j)"
  using length_net_mask [OF assms]
  by (auto simp: Contains_def networkNumberAndMask_ok [OF assms] norm4_def [symmetric] Let_def list_eq_iff_nth_eq)

lemma drop_updated: "k \<le> i \<Longrightarrow> drop k (xs[i := v]) = (drop k xs)[i - k := v]"
  by (cases "i < length xs") (auto simp: list_eq_iff_nth_eq nth_list_update list_update_beyond)

text \<open>Clearing bits of the last byte of the mask.\<close>

definition widen :: "CIDR \<Rightarrow> 8 word \<Rightarrow> CIDR" where
  "widen c m = c\<lparr>Mask := (Mask c)[length (IP c) - 1 := Mask c ! (length (IP c) - 1) AND m]\<rparr>"

lemma widen_ok:
  assumes "cidr_ok c"
  shows "cidr_ok (widen c m)" and "IP (widen c m) = IP c"
    and "j < length (norm4 (IP c)) \<Longrightarrow> net_mask (widen c m) ! j
      = (if j = length (norm4 (IP c)) - 1 then net_mask c ! j AND m else net_mask c ! j)"
proof -
  show "cidr_ok (widen c m)" "IP (widen c m) = IP c"
    using assms by (simp_all add: widen_def cidr_ok_def)
  let ?l = "length (norm4 (IP c))"
  assume j: "j < ?l"
  have l: "?l \<le> length (Mask c)" "length (Mask c) = length (IP c)" "0 < ?l"
    using assms by (auto simp: cidr_ok_def valid_ip_def norm4_def To4_def)
  have "length (Mask c) - ?l \<le> length (IP c) - 1" "length (IP c) - 1 - (length (Mask c) - ?l) = ?l - 1"
    using l by linarith+
  then have "net_mask (widen c m) = (net_mask c)[?l - 1 := Mask c ! (length (IP c) - 1) AND m]"
    unfolding net_mask_def widen_def by (simp add: drop_updated)
  moreover have "Mask c ! (length (IP c) - 1) = net_mask c ! (?l - 1)"
  proof -
    have "drop (length (Mask c) - ?l) (Mask c) ! (?l - 1) = Mask c ! (length (Mask c) - ?l + (?l - 1))"
      by (rule nth_drop) simp
    moreover have "length (Mask c) - ?l + (?l - 1) = length (IP c) - 1" using l by linarith
    ultimately show ?thesis by (simp only: net_mask_def)
  qed
  ultimately show "net_mask (widen c m) ! j = (if j = ?l - 1 then net_mask c ! j AND m else net_mask c ! j)"
    using j length_net_mask [OF assms] by (simp add: nth_list_update)
qed

lemma Contains_widen:
  assumes "cidr_ok c" and "Contains c x"
  shows "Contains (widen c m) x"
proof -
  have and3: "a AND (b AND c) = d AND (b AND c)" if "a AND b = d AND b" for a b c d :: "8 word"
    by (simp only: and.assoc [symmetric] that)
  have x: "length (norm4 x) = length (norm4 (IP c))"
    "\<forall>j < length (norm4 x). norm4 (IP c) ! j AND net_mask c ! j = norm4 x ! j AND net_mask c ! j"
    using assms(2) by (simp_all add: Contains_iff [OF assms(1)])
  have "norm4 (IP c) ! j AND net_mask (widen c m) ! j = norm4 x ! j AND net_mask (widen c m) ! j"
    if j: "j < length (norm4 x)" for j
  proof -
    have "net_mask (widen c m) ! j = (if j = length (norm4 (IP c)) - 1 then net_mask c ! j AND m else net_mask c ! j)"
      by (rule widen_ok(3) [OF assms(1)]) (use j x(1) in simp)
    moreover have "norm4 (IP c) ! j AND net_mask c ! j = norm4 x ! j AND net_mask c ! j"
      using j x(2) by blast
    ultimately show ?thesis
      using and3 [of "norm4 (IP c) ! j" "net_mask c ! j" "norm4 x ! j" m] by auto
  qed
  then show ?thesis
    unfolding Contains_iff [OF widen_ok(1) [OF assms(1)]] widen_ok(2) [OF assms(1)] using x(1) by blast
qed

lemma norm4_same_prefix:
  assumes "valid_ip a" and "length b = length a" and "\<forall>k < length a - 1. a ! k = b ! k"
  shows "length (norm4 a) = length (norm4 b)"
    and "j < length (norm4 a) - 1 \<Longrightarrow> norm4 a ! j = norm4 b ! j"
    and "norm4 a ! (length (norm4 a) - 1) = a ! (length a - 1)"
    and "norm4 b ! (length (norm4 a) - 1) = b ! (length a - 1)"
proof -
  have t: "take 12 a = take 12 b" if "length a = 16"
    using assms(2,3) that by (auto simp: list_eq_iff_nth_eq)
  show "length (norm4 a) = length (norm4 b)"
    and "j < length (norm4 a) - 1 \<Longrightarrow> norm4 a ! j = norm4 b ! j"
    and "norm4 a ! (length (norm4 a) - 1) = a ! (length a - 1)"
    and "norm4 b ! (length (norm4 a) - 1) = b ! (length a - 1)"
    using assms t by (auto simp: valid_ip_def norm4_def To4_def)
qed

lemma Contains_inflated:
  assumes "cidr_ok c" and "length i = length (IP c)" and "\<forall>k < length (IP c) - 1. IP c ! k = i ! k"
    and "m = top_mask (LeadingZeros8 (IP c ! (length (IP c) - 1) XOR i ! (length (IP c) - 1)))"
  shows "Contains (widen c m) i"
proof -
  let ?l = "length (norm4 (IP c))"
  have v: "valid_ip (IP c)" using assms(1) by (simp add: cidr_ok_def)
  note n = norm4_same_prefix [OF v assms(2,3)]
  have and2: "a AND (b AND c) = d AND (b AND c)" if "a AND c = d AND c" for a b c d :: "8 word"
    by (simp only: and.left_commute [of _ b] that)
  have "norm4 (IP c) ! j AND net_mask (widen c m) ! j = norm4 i ! j AND net_mask (widen c m) ! j"
    if j: "j < ?l" for j
  proof (cases "j = ?l - 1")
    case True
    have w: "net_mask (widen c m) ! j = net_mask c ! j AND m"
      using widen_ok(3) [OF assms(1) j] True by simp
    have "norm4 (IP c) ! j AND m = norm4 i ! j AND m"
      unfolding True n(3) n(4) assms(4) by (rule shared_top_bits)
    then show ?thesis unfolding w by (rule and2)
  next
    case False
    with j have "j < ?l - 1" by linarith
    then show ?thesis using n(2) by simp
  qed
  then show ?thesis
    unfolding Contains_iff [OF widen_ok(1) [OF assms(1)]] widen_ok(2) [OF assms(1)] using n(1) by metis
qed

lemma last_mask:
  assumes "valid_ip i"
  shows "length (CIDRMask (length i * 8 - 8 + LeadingZeros8 x) (length i * 8)) = length i"
    and "CIDRMask (length i * 8 - 8 + LeadingZeros8 x) (length i * 8) ! (length i - 1) = top_mask (LeadingZeros8 x)"
proof -
  have lz: "LeadingZeros8 x \<le> 8" by (simp add: LeadingZeros8_def)
  have l: "length i * 8 = 32 \<or> length i * 8 = 128" "length i > 0"
    using assms by (auto simp: valid_ip_def)
  have le: "length i * 8 - 8 + LeadingZeros8 x \<le> length i * 8"
    using lz l(2) by (cases "length i") auto
  then have c: "CIDRMask (length i * 8 - 8 + LeadingZeros8 x) (length i * 8)
      = mask_bytes (length i) (length i * 8 - 8 + LeadingZeros8 x)"
    using l(1) by (simp add: CIDRMask_def)
  show "length (CIDRMask (length i * 8 - 8 + LeadingZeros8 x) (length i * 8)) = length i"
    by (simp add: c)
  have "length i * 8 - 8 + LeadingZeros8 x - 8 * (length i - 1) = LeadingZeros8 x"
    by simp
  then show "CIDRMask (length i * 8 - 8 + LeadingZeros8 x) (length i * 8) ! (length i - 1) = top_mask (LeadingZeros8 x)"
  proof -
    assume e: "length i * 8 - 8 + LeadingZeros8 x - 8 * (length i - 1) = LeadingZeros8 x"
    have "mask_bytes (length i) (length i * 8 - 8 + LeadingZeros8 x) ! (length i - 1)
        = top_mask (length i * 8 - 8 + LeadingZeros8 x - 8 * (length i - 1))"
      by (rule mask_bytes_nth) (use l(2) in simp)
    then show ?thesis by (simp only: c e)
  qed
qed

lemma xor_zero: "a XOR b = 0 \<longleftrightarrow> a = b" for a b :: "8 word"
proof
  assume "a XOR b = 0"
  moreover have "(a XOR b) XOR b = a" by (simp add: xor.assoc)
  ultimately show "a = b" by simp
qed simp

lemma InflateBy_ok:
  assumes "cidr_ok c"
  shows "ok (InflateBy c i) (\<lambda>(c', done).
    (\<exists>m. c\<lparr>Mask := Mask c'\<rparr> = c \<or> c\<lparr>Mask := Mask c'\<rparr> = widen c m) \<and> (done \<longrightarrow> Contains (c\<lparr>Mask := Mask c'\<rparr>) i))"
proof -
  let ?l = "length (IP c) - 1"
  have v: "valid_ip (IP c)" and m: "length (Mask c) = length (IP c)"
    using assms by (simp_all add: cidr_ok_def)
  then have pos: "?l < length (IP c)" by (auto simp: valid_ip_def)
  consider (within) "Contains c i" | (len) "\<not> Contains c i" "length i \<noteq> length (IP c)"
    | (far) "\<not> Contains c i" "length i = length (IP c)" "\<exists>k \<in> {0..<?l}. IP c ! k XOR i ! k \<noteq> 0"
    | (near) "\<not> Contains c i" "length i = length (IP c)" "\<not> (\<exists>k \<in> {0..<?l}. IP c ! k XOR i ! k \<noteq> 0)"
    by blast
  then show ?thesis
  proof cases
    case near
    let ?x = "IP c ! ?l XOR i ! ?l"
    let ?m = "CIDRMask (length (IP c) * 8 - 8 + LeadingZeros8 ?x) (length (IP c) * 8)"
    have "InflateBy c i = Inr (c\<lparr>IP := ip_Mask (IP c) ?m, Mask := (Mask c)[?l := Mask c ! ?l AND ?m ! ?l]\<rparr>, True)"
      using near pos m last_mask(1) [OF v, of ?x]
      by (simp only: InflateBy_def if_False if_True Let_def index_at_def) simp
    moreover have "?m ! ?l = top_mask (LeadingZeros8 ?x)"
      by (rule last_mask(2) [OF v])
    moreover have "\<forall>k < ?l. IP c ! k = i ! k"
      using near(3) by (auto simp: xor_zero)
    ultimately show ?thesis
      using Contains_inflated [OF assms near(2)] by (auto simp: widen_def)
  qed (simp_all add: InflateBy_def)
qed

section \<open>Learning\<close>

definition nets_ok :: "IpSetConfig \<Rightarrow> bool" where
  "nets_ok cs \<longleftrightarrow> (\<forall>c \<in> set cs. cidr_ok c)"

definition in_nets :: "IpSetConfig \<Rightarrow> ip \<Rightarrow> bool" where
  "in_nets cs i \<longleftrightarrow> (\<exists>c \<in> set cs. Contains c i)"

lemma inflate_first_ok:
  assumes "nets_ok cs"
  shows "ok (inflate_first i cs) (\<lambda>(cs', done). nets_ok cs' \<and> (\<forall>x. in_nets cs x \<longrightarrow> in_nets cs' x) \<and> (done \<longrightarrow> in_nets cs' i))"
  using assms
proof (induction cs)
  case (Cons c cs)
  then have c: "cidr_ok c" and cs: "nets_ok cs" by (simp_all add: nets_ok_def)
  from InflateBy_ok [OF c, of i] obtain c' found m where
    c': "InflateBy c i = Inr (c', found)" "c\<lparr>Mask := Mask c'\<rparr> = c \<or> c\<lparr>Mask := Mask c'\<rparr> = widen c m"
      "found \<longrightarrow> Contains (c\<lparr>Mask := Mask c'\<rparr>) i"
    by (auto simp: ok_iff)
  let ?c = "c\<lparr>Mask := Mask c'\<rparr>"
  have w: "cidr_ok ?c" "Contains c x \<Longrightarrow> Contains ?c x" for x
    using c'(2) c widen_ok(1) [OF c] Contains_widen [OF c] by auto
  show ?case
  proof (cases found)
    case True
    with c' w cs show ?thesis by (auto simp: nets_ok_def in_nets_def Let_def)
  next
    case False
    from Cons.IH [OF cs] obtain cs' found' where
      "inflate_first i cs = Inr (cs', found')" "nets_ok cs'" "\<forall>x. in_nets cs x \<longrightarrow> in_nets cs' x" "found' \<longrightarrow> in_nets cs' i"
      by (auto simp: ok_iff)
    with False c' w show ?thesis by (auto simp: nets_ok_def in_nets_def Let_def)
  qed
qed (simp add: nets_ok_def in_nets_def)

lemma Contains_full:
  assumes "valid_ip i" and "m = CIDRMask (length i * 8) (length i * 8)"
  shows "cidr_ok \<lparr>IP = i, Mask = m\<rparr> \<and> Contains \<lparr>IP = i, Mask = m\<rparr> i"
proof -
  have "length m = length i"
    using assms by (auto simp: valid_ip_def CIDRMask_def)
  then have "cidr_ok \<lparr>IP = i, Mask = m\<rparr>" using assms(1) by (simp add: cidr_ok_def)
  then show ?thesis by (simp add: Contains_iff)
qed

lemma learn_ip_ok:
  assumes "nets_ok cs" and "valid_ip i"
  shows "ok (learn_ip i cs) (\<lambda>cs'. nets_ok cs' \<and> (\<forall>x. in_nets cs x \<longrightarrow> in_nets cs' x) \<and> in_nets cs' i)"
proof -
  from inflate_first_ok [OF assms(1), of i] obtain cs' found where
    cs': "inflate_first i cs = Inr (cs', found)" "nets_ok cs'" "\<forall>x. in_nets cs x \<longrightarrow> in_nets cs' x" "found \<longrightarrow> in_nets cs' i"
    by (auto simp: ok_iff)
  have "length i = 4 \<Longrightarrow> CIDRMask 32 32 = CIDRMask (length i * 8) (length i * 8)"
    and "length i \<noteq> 4 \<Longrightarrow> CIDRMask 128 128 = CIDRMask (length i * 8) (length i * 8)"
    using assms(2) by (auto simp: valid_ip_def)
  then show ?thesis
    using cs' Contains_full [OF assms(2) refl] by (auto simp: learn_ip_def nets_ok_def in_nets_def)
qed

definition ips_pwf :: "IpSetPile \<Rightarrow> bool" where
  "ips_pwf p \<longleftrightarrow> (\<forall>i \<in> set (IpSetPile_List p). valid_ip i) \<and>
     (\<forall>m. IpSetPile_m p = Some m \<longrightarrow> (\<forall>s. seen (Some m) s \<longleftrightarrow> s \<in> ip_String ` set (IpSetPile_List p)))"

definition ips_vwf :: "IpSetProfile \<Rightarrow> bool" where
  "ips_vwf v \<longleftrightarrow> (\<forall>i \<in> set v. valid_ip i)"

definition ips_covers :: "IpSetPile \<Rightarrow> IpSetProfile \<Rightarrow> bool" where
  "ips_covers p v \<longleftrightarrow> (\<forall>i \<in> set v. norm4 i \<in> norm4 ` set (IpSetPile_List p))"

lemma IpSetConfig_Decide_None: "IpSetConfig_Decide c v = None \<longleftrightarrow> (\<forall>i \<in> set v. exempt i \<or> in_nets c i)"
  by (auto simp: IpSetConfig_Decide_def allowed_ip_def exempt_def in_nets_def)

lemma IpSetConfig_Decide_grave [simp]: "grave_opt (IpSetConfig_Decide c v)"
  by (simp add: IpSetConfig_Decide_def)

lemma IpSetConfig_Learn_ok:
  assumes "nets_ok c" and "\<forall>i \<in> set (IpSetPile_List p). valid_ip i"
  shows "ok (IpSetConfig_Learn c p) (\<lambda>c'. nets_ok c' \<and> (\<forall>x. in_nets c x \<longrightarrow> in_nets c' x)
     \<and> (\<forall>i \<in> set (IpSetPile_List p). in_nets c' i))"
proof -
  have "ok (fold_res learn_ip xs c) (\<lambda>c'. nets_ok c' \<and> (\<forall>x. in_nets c x \<longrightarrow> in_nets c' x) \<and> (\<forall>i \<in> set xs. in_nets c' i))"
    if "nets_ok c" "\<forall>i \<in> set xs. valid_ip i" for xs c
    using that
  proof (induction xs arbitrary: c)
    case (Cons i xs)
    then have "valid_ip i" "\<forall>i \<in> set xs. valid_ip i" by simp_all
    from learn_ip_ok [OF Cons.prems(1) this(1)] obtain c1 where
      c1: "learn_ip i c = Inr c1" "nets_ok c1" "\<forall>x. in_nets c x \<longrightarrow> in_nets c1 x" "in_nets c1 i"
      by (auto simp: ok_iff)
    from Cons.IH [OF c1(2)] Cons.prems(2) obtain c2 where
      "fold_res learn_ip xs c1 = Inr c2" "nets_ok c2" "\<forall>x. in_nets c1 x \<longrightarrow> in_nets c2 x" "\<forall>i \<in> set xs. in_nets c2 i"
      by (auto simp: ok_iff)
    with c1 show ?case by simp
  qed simp
  then show ?thesis using assms by (simp add: IpSetConfig_Learn_def)
qed

lemma in_nets_norm4: "norm4 i = norm4 j \<Longrightarrow> in_nets c i = in_nets c j"
  using Contains_norm4 [of i j] by (simp add: in_nets_def)

lemma ips_covered_accepted:
  assumes "ips_covers p v" and "\<forall>i \<in> set (IpSetPile_List p). in_nets c i"
  shows "IpSetConfig_Decide c v = None"
  unfolding IpSetConfig_Decide_None
proof
  fix i assume "i \<in> set v"
  then obtain j where "j \<in> set (IpSetPile_List p)" "norm4 i = norm4 j"
    using assms(1) by (auto simp: ips_covers_def)
  with assms(2) in_nets_norm4 show "exempt i \<or> in_nets c i" by blast
qed

section \<open>Piling\<close>

lemma insert_ips_ok:
  assumes "insert_ips vs (xs, m) = (xs', m')" and "\<forall>s. seen (Some m) s \<longleftrightarrow> s \<in> ip_String ` set xs"
  shows "(\<forall>s. seen (Some m') s \<longleftrightarrow> s \<in> ip_String ` set xs') \<and> set xs \<subseteq> set xs' \<and> set xs' \<subseteq> set xs \<union> set vs
     \<and> ip_String ` set vs \<subseteq> ip_String ` set xs'"
  using assms
proof (induction vs arbitrary: xs m)
  case (Cons v vs)
  show ?case
  proof (cases "seen (Some m) (ip_String v)")
    case True
    with Cons.prems have "insert_ips vs (xs, m) = (xs', m')" "ip_String v \<in> ip_String ` set xs" by (simp_all add: Let_def)
    with Cons.IH [OF this(1) Cons.prems(2)] show ?thesis by auto
  next
    case False
    with Cons.prems have i: "insert_ips vs (xs @ [v], AList.update (ip_String v) True m) = (xs', m')"
      by (simp add: Let_def)
    have "\<forall>s. seen (Some (AList.update (ip_String v) True m)) s \<longleftrightarrow> s \<in> ip_String ` set (xs @ [v])"
      using Cons.prems(2) by (simp add: seen_def)
    from Cons.IH [OF i this] show ?thesis by auto
  qed
qed simp

lemma IpSetPile_index_seen:
  assumes "ips_pwf p"
  shows "seen (Some (IpSetPile_index p)) s \<longleftrightarrow> s \<in> ip_String ` set (IpSetPile_List p)"
proof (cases "IpSetPile_m p")
  case None
  have "seen (Some (fold (\<lambda>v m. AList.update (ip_String v) True m) xs m)) s
      \<longleftrightarrow> seen (Some m) s \<or> s \<in> ip_String ` set xs" for xs m
    by (induction xs arbitrary: m) (auto simp: seen_def)
  with None show ?thesis by (simp add: IpSetPile_index_def)
next
  case (Some m)
  with assms show ?thesis by (simp add: IpSetPile_index_def ips_pwf_def)
qed

lemma ips_inserted:
  assumes "ips_pwf p" and "\<forall>i \<in> set vs. valid_ip i"
    and "insert_ips vs (IpSetPile_List p, IpSetPile_index p) = (xs, m)"
  shows "ips_pwf \<lparr>IpSetPile_List = xs, IpSetPile_m = Some m\<rparr>"
    and "norm4 ` set vs \<union> norm4 ` set (IpSetPile_List p) \<subseteq> norm4 ` set xs"
proof -
  note h = insert_ips_ok [OF assms(3)] IpSetPile_index_seen [OF assms(1)]
  then have i: "\<forall>s. seen (Some m) s \<longleftrightarrow> s \<in> ip_String ` set xs" "set (IpSetPile_List p) \<subseteq> set xs"
    "set xs \<subseteq> set (IpSetPile_List p) \<union> set vs" "ip_String ` set vs \<subseteq> ip_String ` set xs"
    by blast+
  have v: "\<forall>i \<in> set xs. valid_ip i"
    using i(3) assms(1,2) by (auto simp: ips_pwf_def)
  then show "ips_pwf \<lparr>IpSetPile_List = xs, IpSetPile_m = Some m\<rparr>"
    using i(1) by (simp add: ips_pwf_def)
  have "norm4 x \<in> norm4 ` set xs" if "x \<in> set vs" for x
  proof -
    from that i(4) obtain y where y: "y \<in> set xs" "ip_String x = ip_String y" by auto
    with v assms(2) that have "norm4 x = norm4 y" by (simp add: ip_String_eq)
    with y(1) show ?thesis by blast
  qed
  with i(2) show "norm4 ` set vs \<union> norm4 ` set (IpSetPile_List p) \<subseteq> norm4 ` set xs" by blast
qed

lemma IpSetPile_Add_ok:
  assumes "ips_pwf p" and "ips_vwf v"
  shows "ips_pwf (IpSetPile_Add p v) \<and> ips_covers (IpSetPile_Add p v) v
    \<and> (\<forall>u. ips_covers p u \<longrightarrow> ips_covers (IpSetPile_Add p v) u)"
proof -
  obtain xs m where i: "insert_ips v (IpSetPile_List p, IpSetPile_index p) = (xs, m)"
    by (cases "insert_ips v (IpSetPile_List p, IpSetPile_index p)")
  with ips_inserted [OF assms(1) _ i] assms(2) show ?thesis
    by (auto simp: IpSetPile_Add_def ips_vwf_def ips_covers_def)
qed

lemma IpSetPile_Merge_ok:
  assumes "ips_pwf p" and "ips_pwf q"
  shows "ips_pwf (IpSetPile_Merge p q) \<and> (\<forall>u. ips_covers p u \<longrightarrow> ips_covers (IpSetPile_Merge p q) u)
    \<and> (\<forall>u. ips_covers q u \<longrightarrow> ips_covers (IpSetPile_Merge p q) u)"
proof -
  obtain xs m where i: "insert_ips (IpSetPile_List q) (IpSetPile_List p, IpSetPile_index p) = (xs, m)"
    by (cases "insert_ips (IpSetPile_List q) (IpSetPile_List p, IpSetPile_index p)")
  with ips_inserted [OF assms(1) _ i] assms(2) show ?thesis
    by (auto simp: IpSetPile_Merge_def ips_pwf_def ips_covers_def)
qed

interpretation ip_set: monotone_rules
  "pure_add IpSetPile_Add" "pure_add IpSetPile_Merge" empty_IpSetPile ips_pwf ips_vwf ips_covers "\<lambda>_. True"
  "\<lambda>rr. IpSetConfig_Learn" "pure_decide IpSetConfig_Decide" nets_ok
proof (unfold_locales, goal_cases)
  case 1
  show ?case by (simp add: ips_pwf_def empty_IpSetPile_def)
next
  case (2 p v)
  then show ?case using IpSetPile_Add_ok by simp
next
  case (3 p q)
  then show ?case using IpSetPile_Merge_ok by simp
next
  case (4 rr c p)
  then have "\<forall>i \<in> set (IpSetPile_List p). valid_ip i" by (simp add: ips_pwf_def)
  from IpSetConfig_Learn_ok [OF 4(2) this] show ?case
    by (rule ok_mono) (auto intro: ips_covered_accepted)
next
  case (5 rr c v d)
  then show ?case using IpSetConfig_Decide_grave [of c v] by simp
next
  case (6 rr c p)
  then have "\<forall>i \<in> set (IpSetPile_List p). valid_ip i" by (simp add: ips_pwf_def)
  from IpSetConfig_Learn_ok [OF 6(2) this] show ?case
    by (rule ok_mono) (auto simp: IpSetConfig_Decide_None)
qed

text \<open>The rule as plain facts, for the rules that contain it.\<close>

lemma ips_Add: "ips_pwf p \<Longrightarrow> ips_vwf v \<Longrightarrow> ips_pwf (IpSetPile_Add p v) \<and> ips_covers (IpSetPile_Add p v) v
    \<and> (\<forall>u. ips_covers p u \<longrightarrow> ips_covers (IpSetPile_Add p v) u)"
  using ip_set.add_ok [of p v] by simp

lemma ips_Merge: "ips_pwf p \<Longrightarrow> ips_pwf q \<Longrightarrow> ips_pwf (IpSetPile_Merge p q)
    \<and> (\<forall>u. ips_covers p u \<longrightarrow> ips_covers (IpSetPile_Merge p q) u)
    \<and> (\<forall>u. ips_covers q u \<longrightarrow> ips_covers (IpSetPile_Merge p q) u)"
  using ip_set.merge_ok [of p q] by simp

lemma ips_Learn: "nets_ok c \<Longrightarrow> ips_pwf p \<Longrightarrow> ok (IpSetConfig_Learn c p) (\<lambda>c'. nets_ok c'
    \<and> (\<forall>u. ips_covers p u \<longrightarrow> IpSetConfig_Decide c' u = None)
    \<and> (\<forall>u. IpSetConfig_Decide c u = None \<longrightarrow> IpSetConfig_Decide c' u = None))"
  using ip_set.learn_ok [OF fair_ranger_exists, of c p] ip_set.learn_mono [OF fair_ranger_exists, of c p]
  by (simp add: ok_conj)

text \<open>
  C21. Learning addresses inflates networks soundly: for networks and addresses of 4 or 16
  bytes no index is out of range, every address of the pile is in some network afterwards (in
  either form of an IPv4 address), no network loses an address it had, and every network stays
  well formed.
\<close>

theorem IpSetConfig_Learn_sound:
  assumes "nets_ok c" and "\<forall>i \<in> set (IpSetPile_List p). valid_ip i"
  shows "\<exists>c'. IpSetConfig_Learn c p = Inr c' \<and> nets_ok c'
    \<and> (\<forall>v. ips_covers p v \<longrightarrow> IpSetConfig_Decide c' v = None)
    \<and> (\<forall>v. IpSetConfig_Decide c v = None \<longrightarrow> IpSetConfig_Decide c' v = None)"
proof -
  obtain c' where c': "IpSetConfig_Learn c p = Inr c'" "nets_ok c'" "\<forall>x. in_nets c x \<longrightarrow> in_nets c' x"
    "\<forall>i \<in> set (IpSetPile_List p). in_nets c' i"
    using IpSetConfig_Learn_ok [OF assms] by (auto simp: ok_iff)
  moreover have "IpSetConfig_Decide c' v = None" if "ips_covers p v" for v
    using ips_covered_accepted [OF that c'(4)] .
  moreover have "IpSetConfig_Decide c' v = None" if "IpSetConfig_Decide c v = None" for v
    using that c'(3) by (auto simp: IpSetConfig_Decide_None)
  ultimately show ?thesis by blast
qed

theorem IpSetConfig_Learn_sound_witness:
  "\<exists>c'. IpSetConfig_Learn [\<lparr>IP = [8, 8, 8, 8], Mask = [255, 255, 255, 255]\<rparr>]
        \<lparr>IpSetPile_List = [[8, 8, 8, 9]], IpSetPile_m = None\<rparr> = Inr c' \<and> nets_ok c'
    \<and> (\<forall>v. ips_covers \<lparr>IpSetPile_List = [[8, 8, 8, 9]], IpSetPile_m = None\<rparr> v \<longrightarrow> IpSetConfig_Decide c' v = None)
    \<and> (\<forall>v. IpSetConfig_Decide [\<lparr>IP = [8, 8, 8, 8], Mask = [255, 255, 255, 255]\<rparr>] v = None
         \<longrightarrow> IpSetConfig_Decide c' v = None)"
  by (rule IpSetConfig_Learn_sound) (simp_all add: nets_ok_def cidr_ok_def valid_ip_def)

end
