(* ===== verification/Requests.thy ===== *)
theory Requests
  imports Http Counts Ip_Sets
begin

text \<open>
  \<open>url.go\<close>, \<open>httpReq.go\<close> and \<open>httpResp.go\<close> of \<open>pkg/apis/guard/v1alpha1\<close>: the path of a
  request, a request and a response as a whole.
\<close>

section \<open>Paths\<close>

record UrlProfile =
  UP_Val :: SimpleValProfile
  UP_Segments :: CountProfile

record UrlPile =
  UQ_Val :: SimpleValPile
  UQ_Segments :: CountPile

record UrlConfig =
  UC_Val :: SimpleValConfig
  UC_Segments :: CountConfig

definition UrlProfile_Profile :: "UrlProfile \<Rightarrow> string \<Rightarrow> UrlProfile" where
  "UrlProfile_Profile profile path =
     (let segments = split_on (CHR ''/'') path;
          numSegments = length segments;
          (segments, numSegments) =
            (if numSegments > 0 \<and> segments ! 0 = '''' then (drop 1 segments, numSegments - 1)
             else (segments, numSegments));
          (segments, numSegments) =
            (if numSegments > 0 \<and> segments ! (numSegments - 1) = ''''
             then (take (numSegments - 1) segments, numSegments - 1)
             else (segments, numSegments));
          cleanPath = join '''' segments;
          numSegments = (if numSegments > 0xFF then 0xFF else numSegments)
      in profile\<lparr>UP_Val := SimpleValProfile_Profile (UP_Val profile) cleanPath,
           UP_Segments := CountProfile_Profile (of_nat numSegments)\<rparr>)"

definition UrlPile_Add :: "UrlPile \<Rightarrow> UrlProfile \<Rightarrow> UrlPile" where
  "UrlPile_Add pile profile =
     \<lparr>UQ_Val = SimpleValPile_Add (UQ_Val pile) (UP_Val profile),
      UQ_Segments = CountPile_Add (UQ_Segments pile) (UP_Segments profile)\<rparr>"

definition UrlPile_Clear :: "UrlPile \<Rightarrow> UrlPile" where
  "UrlPile_Clear pile = \<lparr>UQ_Val = SimpleValPile_Clear (UQ_Val pile), UQ_Segments = CountPile_Clear (UQ_Segments pile)\<rparr>"

definition UrlPile_Merge :: "UrlPile \<Rightarrow> UrlPile \<Rightarrow> UrlPile" where
  "UrlPile_Merge pile otherPile =
     \<lparr>UQ_Val = SimpleValPile_Merge (UQ_Val pile) (UQ_Val otherPile),
      UQ_Segments = CountPile_Merge (UQ_Segments pile) (UQ_Segments otherPile)\<rparr>"

definition UrlConfig_Learn :: "UrlConfig \<Rightarrow> UrlPile \<Rightarrow> UrlConfig res" where
  "UrlConfig_Learn config pile =
     bind_res (CountConfig_Learn (UC_Segments config) (UQ_Segments pile)) (\<lambda>segments.
     Inr \<lparr>UC_Val = SimpleValConfig_Learn (UC_Val config) (UQ_Val pile), UC_Segments = segments\<rparr>)"

definition UrlConfig_Decide :: "UrlConfig \<Rightarrow> UrlProfile \<Rightarrow> decision option" where
  "UrlConfig_Decide config profile =
     (let current = DecideChild None (CountConfig_Decide (UC_Segments config) (UP_Segments profile)) ''Segments''
      in DecideChild current (SimpleValConfig_Decide (UC_Val config) (UP_Val profile)) ''Val'')"

definition UrlConfig_Prepare :: "UrlConfig \<Rightarrow> UrlConfig" where
  "UrlConfig_Prepare config =
     \<lparr>UC_Val = SimpleValConfig_Prepare (UC_Val config), UC_Segments = CountConfig_Prepare (UC_Segments config)\<rparr>"

section \<open>Content lengths\<close>

text \<open>The loop on the signed 64-bit length; it is run on a positive length only.\<close>

function log2_length :: "64 word \<Rightarrow> 8 word \<Rightarrow> 8 word" where
  "log2_length len log2length =
     (if 0 <s len then log2_length (signed_drop_bit 1 len) (log2length + 1) else log2length)"
  by pat_completeness auto

lemma sint_halved: "sint (signed_drop_bit 1 len) = sint len div 2" for len :: "64 word"
  by (simp add: sint_signed_drop_bit_eq drop_bit_eq_div)

lemma zero_sless: "0 <s len \<longleftrightarrow> 0 < sint len" for len :: "64 word"
  by (simp add: word_sless_alt)

termination log2_length
  by (relation "measure (\<lambda>(len, _). nat (sint len))") (auto simp: zero_sless sint_halved simp del: One_nat_def)

declare log2_length.simps [simp del]

definition content_length :: "CountProfile \<Rightarrow> 64 word \<Rightarrow> CountProfile" where
  "content_length current len = (if 0 <s len then log2_length len 0 else current)"

section \<open>Requests\<close>

record ReqProfile =
  RP_ClientIp :: IpSetProfile
  RP_HopIp :: IpSetProfile
  RP_Method :: SetProfile
  RP_Proto :: SetProfile
  RP_MediaType :: MediaTypeProfile
  RP_ContentLength :: CountProfile
  RP_Url :: UrlProfile
  RP_Qs :: QueryProfile
  RP_Headers :: HeadersProfile

record ReqPile =
  RQ_ClientIp :: IpSetPile
  RQ_HopIp :: IpSetPile
  RQ_Method :: SetPile
  RQ_Proto :: SetPile
  RQ_MediaType :: MediaTypePile
  RQ_ContentLength :: CountPile
  RQ_Url :: UrlPile
  RQ_Qs :: QueryPile
  RQ_Headers :: HeadersPile

record ReqConfig =
  RC_ClientIp :: IpSetConfig
  RC_HopIp :: IpSetConfig
  RC_Method :: SetConfig
  RC_Proto :: SetConfig
  RC_MediaType :: MediaTypeConfig
  RC_ContentLength :: CountConfig
  RC_Url :: UrlConfig
  RC_Qs :: QueryConfig
  RC_Headers :: HeadersConfig

text \<open>The value the rules are created with.\<close>

definition new_UrlProfile :: UrlProfile where
  "new_UrlProfile = \<lparr>UP_Val = new_SimpleValProfile, UP_Segments = 0\<rparr>"

definition new_ReqProfile :: ReqProfile where
  "new_ReqProfile = \<lparr>RP_ClientIp = [], RP_HopIp = [], RP_Method = None, RP_Proto = None,
     RP_MediaType = \<lparr>MP_TypeTokens = None, MP_Params = None\<rparr>, RP_ContentLength = 0, RP_Url = new_UrlProfile,
     RP_Qs = \<lparr>QP_Kv = None\<rparr>, RP_Headers = \<lparr>HP_Kv = None\<rparr>\<rparr>"

text \<open>The address of the last hop of the \<open>X-Forwarded-For\<close> header.\<close>

definition hop_ip :: "header \<Rightarrow> string" where
  "hop_ip h =
     (case map_get h ''X-Forwarded-For'' of
        Some forwarded \<Rightarrow> (let numHops = length forwarded in if numHops > 0 then forwarded ! (numHops - 1) else '''')
      | None \<Rightarrow> '''')"

definition ReqProfile_Profile ::
    "hash \<Rightarrow> (string \<Rightarrow> ip) \<Rightarrow> parse_media \<Rightarrow> ranger \<Rightarrow> ReqProfile \<Rightarrow> request \<Rightarrow> ip \<Rightarrow> ReqProfile" where
  "ReqProfile_Profile hash ParseIP ParseMediaType rr profile req cip =
     profile\<lparr>RP_ClientIp := IpSetProfile_ProfileIP cip,
       RP_HopIp := IpSetProfile_ProfileString ParseIP (hop_ip (Rq_Header req)),
       RP_MediaType := MediaTypeProfile_Profile hash ParseMediaType (rr ''MediaType'')
         (header_Get (Rq_Header req) ''Content-Type''),
       RP_Qs := QueryProfile_Profile hash (rr ''Qs'') (url_Query (Rq_RawQuery req)),
       RP_Method := SetProfile_ProfileString (Rq_Method req),
       RP_Proto := SetProfile_ProfileString (Rq_Proto req),
       RP_Url := UrlProfile_Profile (RP_Url profile) (Rq_Path req),
       RP_Headers := HeadersProfile_Profile hash (rr ''Headers'') (Rq_Header req),
       RP_ContentLength := content_length (RP_ContentLength profile) (Rq_ContentLength req)\<rparr>"

definition ReqPile_Add :: "ReqPile \<Rightarrow> ReqProfile \<Rightarrow> ReqPile res" where
  "ReqPile_Add pile profile =
     (let pile = pile\<lparr>RQ_ClientIp := IpSetPile_Add (RQ_ClientIp pile) (RP_ClientIp profile),
            RQ_HopIp := IpSetPile_Add (RQ_HopIp pile) (RP_HopIp profile),
            RQ_Method := SetPile_Add (RQ_Method pile) (RP_Method profile),
            RQ_Proto := SetPile_Add (RQ_Proto pile) (RP_Proto profile)\<rparr> in
      bind_res (MediaTypePile_Add (RQ_MediaType pile) (RP_MediaType profile)) (\<lambda>mediaType.
      let pile = pile\<lparr>RQ_MediaType := mediaType,
            RQ_ContentLength := CountPile_Add (RQ_ContentLength pile) (RP_ContentLength profile),
            RQ_Url := UrlPile_Add (RQ_Url pile) (RP_Url profile)\<rparr> in
      bind_res (QueryPile_Add (RQ_Qs pile) (RP_Qs profile)) (\<lambda>qs.
      bind_res (HeadersPile_Add (RQ_Headers pile) (RP_Headers profile)) (\<lambda>headers.
      Inr (pile\<lparr>RQ_Qs := qs, RQ_Headers := headers\<rparr>)))))"

text \<open>\<open>Clear\<close> and \<open>Merge\<close> do not touch \<open>HopIp\<close>.\<close>

definition ReqPile_Clear :: "ReqPile \<Rightarrow> ReqPile" where
  "ReqPile_Clear pile =
     pile\<lparr>RQ_ClientIp := IpSetPile_Clear (RQ_ClientIp pile),
       RQ_Method := SetPile_Clear (RQ_Method pile),
       RQ_Proto := SetPile_Clear (RQ_Proto pile),
       RQ_MediaType := MediaTypePile_Clear (RQ_MediaType pile),
       RQ_ContentLength := CountPile_Clear (RQ_ContentLength pile),
       RQ_Url := UrlPile_Clear (RQ_Url pile),
       RQ_Qs := QueryPile_Clear (RQ_Qs pile),
       RQ_Headers := HeadersPile_Clear (RQ_Headers pile)\<rparr>"

definition ReqPile_Merge :: "ReqPile \<Rightarrow> ReqPile \<Rightarrow> ReqPile res" where
  "ReqPile_Merge pile otherPile =
     (let pile = pile\<lparr>RQ_ClientIp := IpSetPile_Merge (RQ_ClientIp pile) (RQ_ClientIp otherPile),
            RQ_Method := SetPile_Merge (RQ_Method pile) (RQ_Method otherPile),
            RQ_Proto := SetPile_Merge (RQ_Proto pile) (RQ_Proto otherPile)\<rparr> in
      bind_res (MediaTypePile_Merge (RQ_MediaType pile) (RQ_MediaType otherPile)) (\<lambda>mediaType.
      let pile = pile\<lparr>RQ_MediaType := mediaType,
            RQ_ContentLength := CountPile_Merge (RQ_ContentLength pile) (RQ_ContentLength otherPile),
            RQ_Url := UrlPile_Merge (RQ_Url pile) (RQ_Url otherPile)\<rparr> in
      bind_res (QueryPile_Merge (RQ_Qs pile) (RQ_Qs otherPile)) (\<lambda>qs.
      bind_res (HeadersPile_Merge (RQ_Headers pile) (RQ_Headers otherPile)) (\<lambda>headers.
      Inr (pile\<lparr>RQ_Qs := qs, RQ_Headers := headers\<rparr>)))))"

definition ReqConfig_Decide :: "ranger \<Rightarrow> ReqConfig \<Rightarrow> ReqProfile \<Rightarrow> decision option" where
  "ReqConfig_Decide rr config profile =
     (let current = None;
          current = DecideChild current (UrlConfig_Decide (RC_Url config) (RP_Url profile)) ''Url'';
          current = DecideChild current (QueryConfig_Decide (at_site rr ''Qs'') (RC_Qs config) (RP_Qs profile)) ''QueryString'';
          current = DecideChild current (HeadersConfig_Decide (at_site rr ''Headers'') (RC_Headers config) (RP_Headers profile)) ''Headers'';
          current = DecideChild current (IpSetConfig_Decide (RC_ClientIp config) (RP_ClientIp profile)) ''ClientIp'';
          current = DecideChild current (IpSetConfig_Decide (RC_HopIp config) (RP_HopIp profile)) ''HopIp'';
          current = DecideChild current (SetConfig_Decide (RC_Method config) (RP_Method profile)) ''Method'';
          current = DecideChild current (SetConfig_Decide (RC_Proto config) (RP_Proto profile)) ''Proto'';
          current = DecideChild current (MediaTypeConfig_Decide (at_site rr ''MediaType'') (RC_MediaType config) (RP_MediaType profile)) ''MediaType''
      in DecideChild current (CountConfig_Decide (RC_ContentLength config) (RP_ContentLength profile)) ''ContentLength'')"

definition ReqConfig_Learn :: "ranger \<Rightarrow> ReqConfig \<Rightarrow> ReqPile \<Rightarrow> ReqConfig res" where
  "ReqConfig_Learn rr config pile =
     bind_res (IpSetConfig_Learn (RC_ClientIp config) (RQ_ClientIp pile)) (\<lambda>clientIp.
     bind_res (IpSetConfig_Learn (RC_HopIp config) (RQ_HopIp pile)) (\<lambda>hopIp.
     let config = config\<lparr>RC_ClientIp := clientIp, RC_HopIp := hopIp,
           RC_Method := SetConfig_Learn (RC_Method config) (RQ_Method pile),
           RC_Proto := SetConfig_Learn (RC_Proto config) (RQ_Proto pile)\<rparr> in
     bind_res (MediaTypeConfig_Learn (at_site rr ''MediaType'') (RC_MediaType config) (RQ_MediaType pile)) (\<lambda>mediaType.
     bind_res (CountConfig_Learn (RC_ContentLength config) (RQ_ContentLength pile)) (\<lambda>contentLength.
     bind_res (HeadersConfig_Learn (at_site rr ''Headers'') (RC_Headers config) (RQ_Headers pile)) (\<lambda>headers.
     bind_res (QueryConfig_Learn (at_site rr ''Qs'') (RC_Qs config) (RQ_Qs pile)) (\<lambda>qs.
     bind_res (UrlConfig_Learn (RC_Url config) (RQ_Url pile)) (\<lambda>url.
     Inr (config\<lparr>RC_MediaType := mediaType, RC_ContentLength := contentLength, RC_Headers := headers,
       RC_Qs := qs, RC_Url := url\<rparr>))))))))"

definition ReqConfig_Prepare :: "ranger \<Rightarrow> ReqConfig \<Rightarrow> ReqConfig res" where
  "ReqConfig_Prepare rr config =
     (let config = config\<lparr>RC_ClientIp := IpSetConfig_Prepare (RC_ClientIp config),
            RC_HopIp := IpSetConfig_Prepare (RC_HopIp config),
            RC_Method := SetConfig_Prepare (RC_Method config),
            RC_Proto := SetConfig_Prepare (RC_Proto config)\<rparr> in
      bind_res (MediaTypeConfig_Prepare (at_site rr ''MediaType'') (RC_MediaType config)) (\<lambda>mediaType.
      let config = config\<lparr>RC_MediaType := mediaType,
            RC_ContentLength := CountConfig_Prepare (RC_ContentLength config)\<rparr> in
      bind_res (HeadersConfig_Prepare (at_site rr ''Headers'') (RC_Headers config)) (\<lambda>headers.
      bind_res (QueryConfig_Prepare (at_site rr ''Qs'') (RC_Qs config)) (\<lambda>qs.
      Inr (config\<lparr>RC_Headers := headers, RC_Qs := qs, RC_Url := UrlConfig_Prepare (RC_Url config)\<rparr>)))))"

section \<open>Responses\<close>

record RespProfile =
  RespP_Headers :: HeadersProfile
  RespP_MediaType :: MediaTypeProfile
  RespP_ContentLength :: CountProfile

record RespPile =
  RespQ_Headers :: HeadersPile
  RespQ_MediaType :: MediaTypePile
  RespQ_ContentLength :: CountPile

record RespConfig =
  RespC_Headers :: HeadersConfig
  RespC_MediaType :: MediaTypeConfig
  RespC_ContentLength :: CountConfig

definition RespProfile_Profile :: "hash \<Rightarrow> parse_media \<Rightarrow> ranger \<Rightarrow> RespProfile \<Rightarrow> response \<Rightarrow> RespProfile" where
  "RespProfile_Profile hash ParseMediaType rr profile resp =
     profile\<lparr>RespP_Headers := HeadersProfile_Profile hash (rr ''Headers'') (Rs_Header resp),
       RespP_MediaType := MediaTypeProfile_Profile hash ParseMediaType (rr ''MediaType'')
         (header_Get (Rs_Header resp) ''Content-Type''),
       RespP_ContentLength := content_length (RespP_ContentLength profile) (Rs_ContentLength resp)\<rparr>"

definition RespPile_Add :: "RespPile \<Rightarrow> RespProfile \<Rightarrow> RespPile res" where
  "RespPile_Add pile profile =
     bind_res (HeadersPile_Add (RespQ_Headers pile) (RespP_Headers profile)) (\<lambda>headers.
     bind_res (MediaTypePile_Add (RespQ_MediaType pile) (RespP_MediaType profile)) (\<lambda>mediaType.
     Inr \<lparr>RespQ_Headers = headers, RespQ_MediaType = mediaType,
       RespQ_ContentLength = CountPile_Add (RespQ_ContentLength pile) (RespP_ContentLength profile)\<rparr>))"

definition RespPile_Clear :: "RespPile \<Rightarrow> RespPile" where
  "RespPile_Clear pile = \<lparr>RespQ_Headers = HeadersPile_Clear (RespQ_Headers pile),
     RespQ_MediaType = MediaTypePile_Clear (RespQ_MediaType pile),
     RespQ_ContentLength = CountPile_Clear (RespQ_ContentLength pile)\<rparr>"

definition RespPile_Merge :: "RespPile \<Rightarrow> RespPile \<Rightarrow> RespPile res" where
  "RespPile_Merge pile otherPile =
     bind_res (HeadersPile_Merge (RespQ_Headers pile) (RespQ_Headers otherPile)) (\<lambda>headers.
     bind_res (MediaTypePile_Merge (RespQ_MediaType pile) (RespQ_MediaType otherPile)) (\<lambda>mediaType.
     Inr \<lparr>RespQ_Headers = headers, RespQ_MediaType = mediaType,
       RespQ_ContentLength = CountPile_Merge (RespQ_ContentLength pile) (RespQ_ContentLength otherPile)\<rparr>))"

definition RespConfig_Decide :: "ranger \<Rightarrow> RespConfig \<Rightarrow> RespProfile \<Rightarrow> decision option" where
  "RespConfig_Decide rr config profile =
     (let current = None;
          current = DecideChild current (HeadersConfig_Decide (at_site rr ''Headers'') (RespC_Headers config) (RespP_Headers profile)) ''Headers'';
          current = DecideChild current (MediaTypeConfig_Decide (at_site rr ''MediaType'') (RespC_MediaType config) (RespP_MediaType profile)) ''MediaType''
      in DecideChild current (CountConfig_Decide (RespC_ContentLength config) (RespP_ContentLength profile)) ''ContentLength'')"

definition RespConfig_Learn :: "ranger \<Rightarrow> RespConfig \<Rightarrow> RespPile \<Rightarrow> RespConfig res" where
  "RespConfig_Learn rr config pile =
     bind_res (HeadersConfig_Learn (at_site rr ''Headers'') (RespC_Headers config) (RespQ_Headers pile)) (\<lambda>headers.
     bind_res (MediaTypeConfig_Learn (at_site rr ''MediaType'') (RespC_MediaType config) (RespQ_MediaType pile)) (\<lambda>mediaType.
     bind_res (CountConfig_Learn (RespC_ContentLength config) (RespQ_ContentLength pile)) (\<lambda>contentLength.
     Inr \<lparr>RespC_Headers = headers, RespC_MediaType = mediaType, RespC_ContentLength = contentLength\<rparr>)))"

definition RespConfig_Prepare :: "ranger \<Rightarrow> RespConfig \<Rightarrow> RespConfig res" where
  "RespConfig_Prepare rr config =
     bind_res (HeadersConfig_Prepare (at_site rr ''Headers'') (RespC_Headers config)) (\<lambda>headers.
     bind_res (MediaTypeConfig_Prepare (at_site rr ''MediaType'') (RespC_MediaType config)) (\<lambda>mediaType.
     Inr \<lparr>RespC_Headers = headers, RespC_MediaType = mediaType, RespC_ContentLength = CountConfig_Prepare (RespC_ContentLength config)\<rparr>))"

section \<open>What the profiles hold\<close>

lemma length_split_on: "length (split_on c s) = Suc (count_list s c)"
  by (induction s) (auto split: list.splits)

lemma hd_split_on: "hd (split_on c s) = '''' \<longleftrightarrow> s = '''' \<or> hd s = c"
  by (cases s) (auto split: list.splits)

lemma last_split_on: "last (split_on c s) = '''' \<longleftrightarrow> s = '''' \<or> last s = c"
proof (induction s)
  case (Cons x xs)
  then show ?case by (cases xs) (auto split: list.splits if_splits)
qed simp

lemma join_empty_sep: "join '''' xs = concat xs"
proof (induction xs)
  case (Cons x xs)
  then show ?case by (cases xs) simp_all
qed simp

lemma concat_split_on: "concat (split_on c s) = filter (\<lambda>x. x \<noteq> c) s"
  by (induction s) (auto split: list.splits)

text \<open>The number of segments of a path: one slash at either end does not count.\<close>

definition url_segments :: "string \<Rightarrow> nat" where
  "url_segments path =
     (let r = (if path \<noteq> '''' \<and> hd path = CHR ''/'' then tl path else path)
      in count_list r (CHR ''/'') + (if r = '''' \<or> last r = CHR ''/'' then 0 else 1))"

lemma split_on_sep: "split_on c (c # s) = '''' # split_on c s"
  by simp

lemma trim_last:
  assumes "xs \<noteq> []"
  shows "(if length xs > 0 \<and> xs ! (length xs - 1) = '''' then (take (length xs - 1) xs, length xs - 1) else (xs, length xs))
    = (if last xs = '''' then butlast xs else xs, length xs - (if last xs = '''' then 1 else 0))"
  using assms by (simp add: last_conv_nth butlast_conv_take)

lemma concat_trim_last: "xs \<noteq> [] \<Longrightarrow> concat (if last xs = '''' then butlast xs else xs) = concat xs"
  by (cases xs rule: rev_cases) auto

lemma UrlProfile_Profile_eq:
  "UrlProfile_Profile p path =
     p\<lparr>UP_Val := SimpleValProfile_Profile (UP_Val p) (filter (\<lambda>c. c \<noteq> CHR ''/'') path),
       UP_Segments := of_nat (min 255 (url_segments path))\<rparr>"
proof -
  have cap: "(if n > (0xFF :: nat) then 0xFF else n) = min 255 n" for n by simp
  consider (nil) "path = ''''" | (slash) s where "path = CHR ''/'' # s" | (other) "path \<noteq> ''''" "hd path \<noteq> CHR ''/''"
    by (cases path) auto
  then show ?thesis
  proof cases
    case nil
    then show ?thesis by (simp add: UrlProfile_Profile_def url_segments_def CountProfile_Profile_def)
  next
    case slash
    let ?xs = "split_on (CHR ''/'') s"
    have "length ?xs - (if last ?xs = '''' then 1 else 0) = url_segments path"
      by (simp add: slash length_split_on last_split_on url_segments_def)
    then show ?thesis
      unfolding UrlProfile_Profile_def Let_def slash split_on_sep
      using trim_last [of ?xs] concat_trim_last [of ?xs]
      by (simp add: join_empty_sep concat_split_on cap CountProfile_Profile_def)
  next
    case other
    let ?xs = "split_on (CHR ''/'') path"
    have "?xs ! 0 \<noteq> ''''"
      using other hd_split_on [of "CHR ''/''" path] by (simp add: hd_conv_nth)
    moreover have "length ?xs - (if last ?xs = '''' then 1 else 0) = url_segments path"
      using other by (simp add: length_split_on last_split_on url_segments_def)
    ultimately show ?thesis
      unfolding UrlProfile_Profile_def Let_def
      using trim_last [of ?xs] concat_trim_last [of ?xs]
      by (simp add: join_empty_sep concat_split_on cap CountProfile_Profile_def)
  qed
qed

lemma bit_length_0 [simp]: "bit_length 0 = 0"
  by (subst bit_length.simps) simp

lemma bit_length_le: "n < 2 ^ k \<Longrightarrow> bit_length n \<le> k"
proof (induction k arbitrary: n)
  case (Suc k)
  then have "n div 2 < 2 ^ k" by simp
  with Suc.IH show ?case by (subst bit_length.simps) simp
qed simp

lemma log2_length_bits:
  "unat k + bit_length (nat (sint len)) < 256 \<Longrightarrow> unat (log2_length len k) = unat k + bit_length (nat (sint len))"
proof (induction len k rule: log2_length.induct)
  case (1 len k)
  show ?case
  proof (cases "0 <s len")
    case False
    then show ?thesis by (simp add: log2_length.simps zero_sless)
  next
    case True
    then have pos: "0 < sint len" by (simp only: zero_sless)
    then have "bit_length (nat (sint len)) = Suc (bit_length (nat (sint len div 2)))"
      by (subst bit_length.simps) (simp add: nat_div_distrib)
    with 1(2) have h: "unat k + Suc (bit_length (nat (sint len div 2))) < 256"
      "bit_length (nat (sint len)) = Suc (bit_length (nat (sint len div 2)))" by simp_all
    then have k: "unat (k + 1) = unat k + 1"
      by (simp add: unat_word_ariths)
    have "unat (log2_length (signed_drop_bit 1 len) (k + 1)) = unat (k + 1) + bit_length (nat (sint len div 2))"
      using 1(1) [OF True] h(1) k unfolding sint_halved by linarith
    then show ?thesis
      using True h(2) k by (simp add: log2_length.simps [of len])
  qed
qed

lemma content_length_bits:
  assumes "0 < sint len"
  shows "unat (content_length c len) = bit_length (nat (sint len)) \<and> unat (content_length c len) \<le> 63"
proof -
  have "sint len < 2 ^ 63" using sint_lt [of len] by simp
  then have "nat (sint len) < 2 ^ 63" using assms by (simp add: nat_less_iff)
  then have "bit_length (nat (sint len)) \<le> 63" by (rule bit_length_le)
  then show ?thesis
    using assms log2_length_bits [of 0 len] by (simp add: content_length_def zero_sless)
qed

section \<open>The rule of paths\<close>

definition url_covers :: "UrlPile \<Rightarrow> UrlProfile \<Rightarrow> bool" where
  "url_covers p v \<longleftrightarrow> simple_covers (UQ_Val p) (UP_Val v) \<and> count_covers (UQ_Segments p) (UP_Segments v)"

definition url_cwf :: "UrlConfig \<Rightarrow> bool" where
  "url_cwf c = count_cwf (UC_Segments c)"

lemma count_Add: "count_covers (CountPile_Add p v) v \<and> (\<forall>u. count_covers p u \<longrightarrow> count_covers (CountPile_Add p v) u)"
  by (simp add: count_covers_def CountPile_Add_def)

lemma count_Merge: "(\<forall>u. count_covers p u \<longrightarrow> count_covers (CountPile_Merge p q) u)
    \<and> (\<forall>u. count_covers q u \<longrightarrow> count_covers (CountPile_Merge p q) u)"
  by (auto simp: count_covers_def CountPile_Merge_def)

lemma count_Learn:
  assumes "count_cwf c"
  shows "ok (CountConfig_Learn c p) (\<lambda>c'. count_cwf c' \<and> (\<forall>u. count_covers p u \<longrightarrow> CountConfig_Decide c' u = None))"
  using count.learn_ok [OF fair_ranger_exists assms, of p] by simp

interpretation url: value_rules
  "pure_add UrlPile_Add" "pure_add UrlPile_Merge" "\<lparr>UQ_Val = new_SimpleValPile, UQ_Segments = []\<rparr>"
  "\<lambda>_. True" "\<lambda>_. True" url_covers "\<lambda>_. True"
  "\<lambda>rr. UrlConfig_Learn" "pure_decide UrlConfig_Decide" url_cwf
proof (unfold_locales, goal_cases)
  case (2 p v)
  then show ?case by (simp add: url_covers_def UrlPile_Add_def SimpleValPile_Add_covers count_Add)
next
  case (3 p q)
  then show ?case by (simp add: url_covers_def UrlPile_Merge_def SimpleValPile_Merge_covers count_Merge)
next
  case (4 rr c p)
  then show ?case
    unfolding UrlConfig_Learn_def url_cwf_def
    by (intro ok_bindI [OF count_Learn])
      (auto simp: url_covers_def UrlConfig_Decide_def SimpleValConfig_Learn_accepts)
next
  case (5 rr c v d)
  then show ?case by (auto simp: UrlConfig_Decide_def CountConfig_Decide_grave)
qed simp

lemma url_Add: "url_covers (UrlPile_Add p v) v \<and> (\<forall>u. url_covers p u \<longrightarrow> url_covers (UrlPile_Add p v) u)"
  using url.add_ok [of p v] by simp

lemma url_Merge: "(\<forall>u. url_covers p u \<longrightarrow> url_covers (UrlPile_Merge p q) u)
    \<and> (\<forall>u. url_covers q u \<longrightarrow> url_covers (UrlPile_Merge p q) u)"
  using url.merge_ok [of p q] by simp

lemma url_Learn:
  "url_cwf c \<Longrightarrow> ok (UrlConfig_Learn c p) (\<lambda>c'. url_cwf c' \<and> (\<forall>u. url_covers p u \<longrightarrow> UrlConfig_Decide c' u = None))"
  using url.learn_ok [OF fair_ranger_exists, of c p] by simp

lemma ips_covers_nil [simp]: "ips_covers p []"
  by (simp add: ips_covers_def)

section \<open>The rule of requests\<close>

definition req_pwf :: "ReqPile \<Rightarrow> bool" where
  "req_pwf p \<longleftrightarrow> ips_pwf (RQ_ClientIp p) \<and> ips_pwf (RQ_HopIp p) \<and> set_pwf (RQ_Method p) \<and> set_pwf (RQ_Proto p)
     \<and> media_pwf (RQ_MediaType p) \<and> query_pwf (RQ_Qs p) \<and> headers_pwf (RQ_Headers p)"

definition req_vwf :: "ReqProfile \<Rightarrow> bool" where
  "req_vwf v \<longleftrightarrow> ips_vwf (RP_ClientIp v) \<and> ips_vwf (RP_HopIp v) \<and> media_vwf (RP_MediaType v)
     \<and> query_vwf (RP_Qs v) \<and> headers_vwf (RP_Headers v)"

definition req_covers :: "ReqPile \<Rightarrow> ReqProfile \<Rightarrow> bool" where
  "req_covers p v \<longleftrightarrow> ips_covers (RQ_ClientIp p) (RP_ClientIp v) \<and> ips_covers (RQ_HopIp p) (RP_HopIp v)
     \<and> set_covers (RQ_Method p) (RP_Method v) \<and> set_covers (RQ_Proto p) (RP_Proto v)
     \<and> media_covers (RQ_MediaType p) (RP_MediaType v) \<and> count_covers (RQ_ContentLength p) (RP_ContentLength v)
     \<and> url_covers (RQ_Url p) (RP_Url v) \<and> query_covers (RQ_Qs p) (RP_Qs v) \<and> headers_covers (RQ_Headers p) (RP_Headers v)"

definition req_cwf :: "ReqConfig \<Rightarrow> bool" where
  "req_cwf c \<longleftrightarrow> nets_ok (RC_ClientIp c) \<and> nets_ok (RC_HopIp c) \<and> media_cwf (RC_MediaType c)
     \<and> count_cwf (RC_ContentLength c) \<and> url_cwf (RC_Url c) \<and> query_cwf (RC_Qs c) \<and> headers_cwf (RC_Headers c)"

definition empty_ReqPile :: ReqPile where
  "empty_ReqPile = \<lparr>RQ_ClientIp = empty_IpSetPile, RQ_HopIp = empty_IpSetPile, RQ_Method = empty_SetPile,
     RQ_Proto = empty_SetPile, RQ_MediaType = empty_MediaTypePile, RQ_ContentLength = [],
     RQ_Url = \<lparr>UQ_Val = new_SimpleValPile, UQ_Segments = []\<rparr>, RQ_Qs = \<lparr>QQ_Kv = None\<rparr>, RQ_Headers = \<lparr>HQ_Kv = None\<rparr>\<rparr>"

definition req_accepts :: "ReqConfig \<Rightarrow> ReqProfile \<Rightarrow> bool" where
  "req_accepts c v \<longleftrightarrow> IpSetConfig_Decide (RC_ClientIp c) (RP_ClientIp v) = None
     \<and> IpSetConfig_Decide (RC_HopIp c) (RP_HopIp v) = None
     \<and> SetConfig_Decide (RC_Method c) (RP_Method v) = None \<and> SetConfig_Decide (RC_Proto c) (RP_Proto v) = None
     \<and> accepts (\<lambda>rr c v. Inr (MediaTypeConfig_Decide rr c v)) (RC_MediaType c) (RP_MediaType v)
     \<and> CountConfig_Decide (RC_ContentLength c) (RP_ContentLength v) = None
     \<and> UrlConfig_Decide (RC_Url c) (RP_Url v) = None
     \<and> accepts (\<lambda>rr c v. Inr (QueryConfig_Decide rr c v)) (RC_Qs c) (RP_Qs v)
     \<and> accepts (\<lambda>rr c v. Inr (HeadersConfig_Decide rr c v)) (RC_Headers c) (RP_Headers v)"

lemma req_accepts: "req_accepts c v \<Longrightarrow> accepts (\<lambda>rr c v. Inr (ReqConfig_Decide rr c v)) c v"
  by (rule acceptsI) (simp add: req_accepts_def ReqConfig_Decide_def accepts_inner)

lemma ReqPile_Add_ok:
  assumes "req_pwf p" and "req_vwf v"
  shows "ok (ReqPile_Add p v) (\<lambda>p'. req_pwf p' \<and> req_covers p' v \<and> (\<forall>u. req_covers p u \<longrightarrow> req_covers p' u))"
  using assms unfolding req_pwf_def req_vwf_def req_covers_def ReqPile_Add_def Let_def
  by (intro ok_bindI [OF media.add_ok] ok_bindI [OF query.add_ok] ok_bindI [OF headers.add_ok])
    (simp_all add: ips_Add set_Add count_Add url_Add)

lemma ReqPile_Merge_ok:
  assumes "req_pwf p" and "req_pwf q"
  shows "ok (ReqPile_Merge p q) (\<lambda>r. req_pwf r \<and> (\<forall>u. req_covers p u \<longrightarrow> req_covers r u)
    \<and> (\<forall>u. req_covers q u \<longrightarrow> RP_HopIp u = [] \<longrightarrow> req_covers r u) \<and> RQ_HopIp r = RQ_HopIp p)"
  using assms unfolding req_pwf_def req_covers_def ReqPile_Merge_def Let_def
  by (intro ok_bindI [OF media.merge_ok] ok_bindI [OF query.merge_ok] ok_bindI [OF headers.merge_ok])
    (simp_all add: ips_Merge set_Merge count_Merge url_Merge)

lemma ReqConfig_Learn_ok:
  assumes "fair_ranger rr" and "req_cwf c" and "req_pwf p"
  shows "ok (ReqConfig_Learn rr c p) (\<lambda>c'. req_cwf c' \<and> (\<forall>u. req_covers p u \<longrightarrow> req_accepts c' u))"
  using assms unfolding req_cwf_def req_pwf_def req_covers_def req_accepts_def ReqConfig_Learn_def Let_def
  by (intro ok_bindI [OF ips_Learn] ok_bindI [OF media.learn_ok] ok_bindI [OF count_Learn]
      ok_bindI [OF headers.learn_ok] ok_bindI [OF query.learn_ok] ok_bindI [OF url_Learn])
    (simp_all add: set_Learn)

lemma ReqConfig_Decide_grave: "grave_opt (ReqConfig_Decide rr c v)"
  using query.decide_grave headers.decide_grave media.decide_grave set.decide_grave url.decide_grave ip_set.decide_grave
  by (simp add: ReqConfig_Decide_def CountConfig_Decide_grave)

interpretation req: value_rules
  ReqPile_Add ReqPile_Merge empty_ReqPile req_pwf req_vwf req_covers "\<lambda>v. RP_HopIp v = []"
  ReqConfig_Learn "\<lambda>rr c v. Inr (ReqConfig_Decide rr c v)" req_cwf
proof (unfold_locales, goal_cases)
  case 1
  show ?case
    using set.pwf_empty ip_set.pwf_empty media.pwf_empty query.pwf_empty headers.pwf_empty
    by (simp add: req_pwf_def empty_ReqPile_def)
next
  case (2 p v)
  then show ?case by (rule ReqPile_Add_ok)
next
  case (3 p q)
  then show ?case by (rule ok_mono [OF ReqPile_Merge_ok]) blast
next
  case (4 rr c p)
  then show ?case by (rule ok_mono [OF ReqConfig_Learn_ok]) (auto intro: req_accepts)
next
  case (5 rr c v d)
  then show ?case using ReqConfig_Decide_grave [of rr c v] by simp
qed

section \<open>The rule of responses\<close>

definition resp_pwf :: "RespPile \<Rightarrow> bool" where
  "resp_pwf p \<longleftrightarrow> headers_pwf (RespQ_Headers p) \<and> media_pwf (RespQ_MediaType p)"

definition resp_vwf :: "RespProfile \<Rightarrow> bool" where
  "resp_vwf v \<longleftrightarrow> headers_vwf (RespP_Headers v) \<and> media_vwf (RespP_MediaType v)"

definition resp_covers :: "RespPile \<Rightarrow> RespProfile \<Rightarrow> bool" where
  "resp_covers p v \<longleftrightarrow> headers_covers (RespQ_Headers p) (RespP_Headers v)
     \<and> media_covers (RespQ_MediaType p) (RespP_MediaType v)
     \<and> count_covers (RespQ_ContentLength p) (RespP_ContentLength v)"

definition resp_cwf :: "RespConfig \<Rightarrow> bool" where
  "resp_cwf c \<longleftrightarrow> headers_cwf (RespC_Headers c) \<and> media_cwf (RespC_MediaType c) \<and> count_cwf (RespC_ContentLength c)"

definition empty_RespPile :: RespPile where
  "empty_RespPile = \<lparr>RespQ_Headers = \<lparr>HQ_Kv = None\<rparr>, RespQ_MediaType = empty_MediaTypePile, RespQ_ContentLength = []\<rparr>"

definition resp_accepts :: "RespConfig \<Rightarrow> RespProfile \<Rightarrow> bool" where
  "resp_accepts c v \<longleftrightarrow> accepts (\<lambda>rr c v. Inr (HeadersConfig_Decide rr c v)) (RespC_Headers c) (RespP_Headers v)
     \<and> accepts (\<lambda>rr c v. Inr (MediaTypeConfig_Decide rr c v)) (RespC_MediaType c) (RespP_MediaType v)
     \<and> CountConfig_Decide (RespC_ContentLength c) (RespP_ContentLength v) = None"

lemma resp_accepts: "resp_accepts c v \<Longrightarrow> accepts (\<lambda>rr c v. Inr (RespConfig_Decide rr c v)) c v"
  by (rule acceptsI) (simp add: resp_accepts_def RespConfig_Decide_def accepts_inner)

lemma RespConfig_Learn_ok:
  assumes "fair_ranger rr" and "resp_cwf c" and "resp_pwf p"
  shows "ok (RespConfig_Learn rr c p) (\<lambda>c'. resp_cwf c' \<and> (\<forall>u. resp_covers p u \<longrightarrow> resp_accepts c' u))"
  using assms unfolding resp_cwf_def resp_pwf_def resp_covers_def resp_accepts_def RespConfig_Learn_def
  by (intro ok_bindI [OF media.learn_ok] ok_bindI [OF count_Learn] ok_bindI [OF headers.learn_ok]) simp_all

interpretation resp: value_rules
  RespPile_Add RespPile_Merge empty_RespPile resp_pwf resp_vwf resp_covers "\<lambda>_. True"
  RespConfig_Learn "\<lambda>rr c v. Inr (RespConfig_Decide rr c v)" resp_cwf
proof (unfold_locales, goal_cases)
  case 1
  show ?case
    using media.pwf_empty headers.pwf_empty by (simp add: resp_pwf_def empty_RespPile_def)
next
  case (2 p v)
  then show ?case
    unfolding resp_pwf_def resp_vwf_def resp_covers_def RespPile_Add_def
    by (intro ok_bindI [OF media.add_ok] ok_bindI [OF headers.add_ok]) (simp_all add: count_Add)
next
  case (3 p q)
  then show ?case
    unfolding resp_pwf_def resp_covers_def RespPile_Merge_def
    by (intro ok_bindI [OF media.merge_ok] ok_bindI [OF headers.merge_ok]) (simp_all add: count_Merge)
next
  case (4 rr c p)
  then show ?case by (rule ok_mono [OF RespConfig_Learn_ok]) (auto intro: resp_accepts)
next
  case (5 rr c v d)
  then show ?case
    using headers.decide_grave media.decide_grave by (auto simp: RespConfig_Decide_def CountConfig_Decide_grave)
qed

section \<open>Well-formed profiles\<close>

text \<open>
  A request is regular when no header, query parameter or media-type parameter has an empty
  name and the addresses have four or sixteen bytes; its profile is then well formed.
\<close>

definition regular_header :: "parse_media \<Rightarrow> header \<Rightarrow> bool" where
  "regular_header ParseMediaType h \<longleftrightarrow> '''' \<notin> fst ` set (entries h) \<and>
     (\<forall>t m. ParseMediaType (header_Get h ''Content-Type'') = Some (t, m) \<longrightarrow> '''' \<notin> fst ` set (entries m))"

lemma media_vwf_Profile:
  "fair ro \<Longrightarrow> (\<And>t m. ParseMediaType s = Some (t, m) \<Longrightarrow> '''' \<notin> fst ` set (entries m)) \<Longrightarrow>
     media_vwf (MediaTypeProfile_Profile hash ParseMediaType ro s)"
  by (auto simp: MediaTypeProfile_Profile_def media_vwf_def Let_def kv_vwf_profiles split: option.splits)

lemma resp_vwf_Profile:
  assumes "fair_ranger rr" and "regular_header ParseMediaType (Rs_Header resp)"
  shows "resp_vwf (RespProfile_Profile hash ParseMediaType rr v resp)"
  using assms
  by (auto simp: RespProfile_Profile_def resp_vwf_def headers_vwf_def HeadersProfile_Profile_def regular_header_def
      kv_vwf_profiles media_vwf_Profile)

definition regular_request :: "(string \<Rightarrow> ip) \<Rightarrow> parse_media \<Rightarrow> request \<Rightarrow> ip \<Rightarrow> bool" where
  "regular_request ParseIP ParseMediaType req cip \<longleftrightarrow> regular_header ParseMediaType (Rq_Header req)
     \<and> '''' \<notin> fst ` set (entries (url_Query (Rq_RawQuery req)))
     \<and> (cip = [] \<or> valid_ip cip) \<and> (\<forall>s. ParseIP s = [] \<or> valid_ip (ParseIP s))"

lemma valid_To4: "To4 i = Some j \<Longrightarrow> valid_ip j"
  by (auto simp: To4_def valid_ip_def split: if_splits)

lemma req_vwf_Profile:
  assumes "fair_ranger rr" and "regular_request ParseIP ParseMediaType req cip"
  shows "req_vwf (ReqProfile_Profile hash ParseIP ParseMediaType rr v req cip)"
proof -
  have "ips_vwf (IpSetProfile_ProfileIP cip)"
    using assms(2) by (auto simp: IpSetProfile_ProfileIP_def ips_vwf_def regular_request_def)
  moreover have "ips_vwf (IpSetProfile_ProfileString ParseIP s)" for s
    using assms(2)
    by (auto simp: IpSetProfile_ProfileString_def ips_vwf_def regular_request_def Let_def valid_To4 split: option.splits)
  ultimately show ?thesis
    using assms
    by (auto simp: ReqProfile_Profile_def req_vwf_def headers_vwf_def HeadersProfile_Profile_def regular_request_def
        regular_header_def query_vwf_def QueryProfile_Profile_def kv_vwf_profiles media_vwf_Profile)
qed

section \<open>Properties\<close>

text \<open>
  C30. The profile of a path is the one of the path with all its slashes removed, together
  with the number of its segments: an empty segment at either end does not count, and the
  count saturates at 255 instead of wrapping around.
\<close>

theorem UrlProfile_Profile_spec:
  "UrlProfile_Profile p path =
     p\<lparr>UP_Val := SimpleValProfile_Profile (UP_Val p) (filter (\<lambda>c. c \<noteq> CHR ''/'') path),
       UP_Segments := of_nat (min 255 (url_segments path))\<rparr>
   \<and> unat (UP_Segments (UrlProfile_Profile p path)) = min 255 (url_segments path)"
proof -
  have "unat (of_nat (min 255 (url_segments path)) :: 8 word) = min 255 (url_segments path)"
    unfolding unat_of_nat by (rule mod_less) simp
  then show ?thesis by (simp add: UrlProfile_Profile_eq)
qed

lemma bit_length_lower: "0 < n \<Longrightarrow> 2 ^ (bit_length n - 1) \<le> n"
proof (induction n rule: bit_length.induct)
  case (1 n)
  show ?case
  proof (cases "n div 2 = 0")
    case True
    with 1(2) have "n = 1" by auto
    then show ?thesis by (subst bit_length.simps) simp
  next
    case False
    then have "2 ^ (bit_length (n div 2) - 1) \<le> n div 2" "bit_length (n div 2) \<noteq> 0"
      using 1 by (simp_all add: bit_length.simps [of "n div 2"])
    then have "2 * 2 ^ (bit_length (n div 2) - 1) \<le> n" "Suc (bit_length (n div 2) - 1) = bit_length (n div 2)"
      by linarith+
    moreover have "bit_length n - 1 = bit_length (n div 2)"
      using 1(2) by (subst bit_length.simps) simp
    ultimately show ?thesis by (metis power_Suc)
  qed
qed

text \<open>
  The loop over a 64-bit content length terminates and returns its number of binary
  digits: at most 63, so the 8-bit counter does not wrap; zero for a length that is zero or
  unknown.
\<close>

theorem content_length_spec:
  "unat (content_length 0 len) \<le> 63
   \<and> (sint len \<le> 0 \<longrightarrow> content_length 0 len = 0)
   \<and> (0 < sint len \<longrightarrow> 2 ^ (unat (content_length 0 len) - 1) \<le> sint len \<and> sint len < 2 ^ unat (content_length 0 len))"
proof (cases "0 < sint len")
  case False
  then show ?thesis by (simp add: content_length_def zero_sless)
next
  case True
  let ?n = "nat (sint len)"
  have "(2::nat) ^ (bit_length ?n - 1) \<le> ?n" "?n < 2 ^ bit_length ?n"
    using True bit_length_lower [of ?n] bit_length_bound [of ?n] by simp_all
  then have "(2::int) ^ (bit_length ?n - 1) \<le> sint len" "sint len < 2 ^ bit_length ?n"
    using True by (simp_all add: le_nat_iff nat_less_iff)
  then show ?thesis
    using True content_length_bits [OF True, of 0] by simp
qed

theorem content_length_spec_witness:
  "2 ^ (unat (content_length 0 (1000 :: 64 word)) - 1) \<le> sint (1000 :: 64 word)
   \<and> sint (1000 :: 64 word) < 2 ^ unat (content_length 0 (1000 :: 64 word)) \<and> content_length 0 1000 = 10"
proof (intro conjI)
  have pos: "0 < sint (1000 :: 64 word)" by code_simp
  show "2 ^ (unat (content_length 0 (1000 :: 64 word)) - 1) \<le> sint (1000 :: 64 word)"
    and "sint (1000 :: 64 word) < 2 ^ unat (content_length 0 (1000 :: 64 word))"
    using content_length_spec [of 1000] pos by blast+
  show "content_length 0 1000 = 10" by code_simp
qed

text \<open>
  C38. Merging piles drops the hops: however the gates gathered it and whatever else it has,
  a request that came through a public address is not accepted by the criteria learned from the
  merged pile, unless the service itself already knew a network for hops.
\<close>

theorem merged_hops_are_lost:
  assumes "fair_ranger rr" and "req_cwf c" and "RC_HopIp c = []"
    and "req_pwf p" and "IpSetPile_List (RQ_HopIp p) = []" and "req_pwf q" and "req_covers q v"
    and "i \<in> set (RP_HopIp v)" and "\<not> exempt i"
  shows "\<exists>r c'. ReqPile_Merge p q = Inr r \<and> ReqConfig_Learn rr c r = Inr c' \<and> ReqConfig_Decide rr' c' v \<noteq> None"
proof -
  obtain r where r: "ReqPile_Merge p q = Inr r" "req_pwf r" "RQ_HopIp r = RQ_HopIp p"
    using ReqPile_Merge_ok [OF assms(4,6)] by (auto simp: ok_iff)
  obtain c' where c': "ReqConfig_Learn rr c r = Inr c'"
    using ReqConfig_Learn_ok [OF assms(1,2) r(2)] by (auto simp: ok_iff)
  then have "IpSetConfig_Learn [] (RQ_HopIp p) = Inr (RC_HopIp c')"
    using r(3) assms(3) by (auto simp: ReqConfig_Learn_def Let_def bind_res_Inr)
  then have "RC_HopIp c' = []"
    using assms(5) by (simp add: IpSetConfig_Learn_def)
  then have "IpSetConfig_Decide (RC_HopIp c') (RP_HopIp v) \<noteq> None"
    using assms(8,9) by (auto simp: IpSetConfig_Decide_None in_nets_def)
  then have "ReqConfig_Decide rr' c' v \<noteq> None"
    by (simp add: ReqConfig_Decide_def Let_def)
  with r(1) c' show ?thesis by blast
qed

definition hop_profile :: ReqProfile where
  "hop_profile = new_ReqProfile\<lparr>RP_HopIp := [[8, 8, 8, 8]]\<rparr>"

definition new_ReqConfig :: ReqConfig where
  "new_ReqConfig = \<lparr>RC_ClientIp = [], RC_HopIp = [], RC_Method = new_SetConfig, RC_Proto = new_SetConfig,
     RC_MediaType = \<lparr>MC_TypeTokens = new_SetConfig, MC_Params = new_KeyValConfig\<rparr>, RC_ContentLength = None,
     RC_Url = \<lparr>UC_Val = new_SimpleValConfig, UC_Segments = None\<rparr>, RC_Qs = \<lparr>QC_Kv = new_KeyValConfig\<rparr>,
     RC_Headers = \<lparr>HC_Kv = new_KeyValConfig\<rparr>\<rparr>"

lemma req_cwf_new: "req_cwf new_ReqConfig"
  by (simp add: req_cwf_def new_ReqConfig_def nets_ok_def media_cwf_def count_cwf_def url_cwf_def query_cwf_def
      headers_cwf_def kv_cwf_new)

theorem merged_hops_are_lost_witness:
  "\<exists>q. ReqPile_Add empty_ReqPile hop_profile = Inr q \<and>
    (\<exists>r c'. ReqPile_Merge empty_ReqPile q = Inr r \<and> ReqConfig_Learn (\<lambda>_ ks. ks) new_ReqConfig r = Inr c'
      \<and> ReqConfig_Decide (\<lambda>_ ks. ks) c' hop_profile \<noteq> None)"
proof -
  have v: "req_vwf hop_profile"
    by (simp add: req_vwf_def hop_profile_def new_ReqProfile_def ips_vwf_def valid_ip_def media_vwf_def
        query_vwf_def headers_vwf_def)
  from req.add_ok [OF req.pwf_empty v] obtain q
    where q: "ReqPile_Add empty_ReqPile hop_profile = Inr q" "req_pwf q" "req_covers q hop_profile"
    by (auto simp: ok_iff)
  have e: "\<not> exempt [8, 8, 8, 8]" by code_simp
  have "RC_HopIp new_ReqConfig = []" "IpSetPile_List (RQ_HopIp empty_ReqPile) = []" "[8, 8, 8, 8] \<in> set (RP_HopIp hop_profile)"
    by (simp_all add: new_ReqConfig_def empty_ReqPile_def empty_IpSetPile_def hop_profile_def)
  from merged_hops_are_lost [OF fair_ranger_exists req_cwf_new this(1) req.pwf_empty this(2) q(2,3) this(3) e] q(1)
  show ?thesis by blast
qed

end
