(* ===== verification/Envelops.thy ===== *)
theory Envelops
  imports Limits Requests
begin

text \<open>
  \<open>pkg/apis/guard/v1alpha1/envelop.go\<close>: the times of a session. The differences of the
  \<open>int64\<close> times are converted to \<open>uint\<close>, so a negative one becomes a huge one.
\<close>

record EnvelopProfile =
  EP_ResponseTime :: LimitProfile
  EP_CompletionTime :: LimitProfile

record EnvelopPile =
  EQ_ResponseTime :: LimitPile
  EQ_CompletionTime :: LimitPile

record EnvelopConfig =
  EC_ResponseTime :: LimitConfig
  EC_CompletionTime :: LimitConfig

definition EnvelopProfile_Profile :: "64 word \<Rightarrow> 64 word \<Rightarrow> 64 word \<Rightarrow> EnvelopProfile" where
  "EnvelopProfile_Profile reqTime respTime endTime =
     (let completionTime = endTime - reqTime;
          responseTime = respTime - reqTime
      in \<lparr>EP_ResponseTime = LimitProfile_Profile responseTime, EP_CompletionTime = LimitProfile_Profile completionTime\<rparr>)"

definition EnvelopPile_Add :: "EnvelopPile \<Rightarrow> EnvelopProfile \<Rightarrow> EnvelopPile" where
  "EnvelopPile_Add pile profile =
     pile\<lparr>EQ_CompletionTime := LimitPile_Add (EQ_CompletionTime pile) (EP_CompletionTime profile),
       EQ_ResponseTime := LimitPile_Add (EQ_ResponseTime pile) (EP_ResponseTime profile)\<rparr>"

definition EnvelopPile_Clear :: "EnvelopPile \<Rightarrow> EnvelopPile" where
  "EnvelopPile_Clear pile =
     pile\<lparr>EQ_CompletionTime := LimitPile_Clear (EQ_CompletionTime pile),
       EQ_ResponseTime := LimitPile_Clear (EQ_ResponseTime pile)\<rparr>"

definition EnvelopPile_Merge :: "EnvelopPile \<Rightarrow> EnvelopPile \<Rightarrow> EnvelopPile" where
  "EnvelopPile_Merge pile otherPile =
     pile\<lparr>EQ_CompletionTime := LimitPile_Merge (EQ_CompletionTime pile) (EQ_CompletionTime otherPile),
       EQ_ResponseTime := LimitPile_Merge (EQ_ResponseTime pile) (EQ_ResponseTime otherPile)\<rparr>"

definition EnvelopConfig_Decide :: "EnvelopConfig \<Rightarrow> EnvelopProfile \<Rightarrow> decision option" where
  "EnvelopConfig_Decide config profile =
     (let current = DecideChild None (LimitConfig_Decide (EC_ResponseTime config) (EP_ResponseTime profile)) ''ResponseTime''
      in DecideChild current (LimitConfig_Decide (EC_CompletionTime config) (EP_CompletionTime profile)) ''CompletionTime'')"

definition EnvelopConfig_Learn :: "EnvelopConfig \<Rightarrow> EnvelopPile \<Rightarrow> EnvelopConfig" where
  "EnvelopConfig_Learn config pile =
     config\<lparr>EC_CompletionTime := LimitConfig_Learn (EC_CompletionTime config) (EQ_CompletionTime pile),
       EC_ResponseTime := LimitConfig_Learn (EC_ResponseTime config) (EQ_ResponseTime pile)\<rparr>"

definition EnvelopConfig_Prepare :: "EnvelopConfig \<Rightarrow> EnvelopConfig" where
  "EnvelopConfig_Prepare config =
     config\<lparr>EC_CompletionTime := LimitConfig_Prepare (EC_CompletionTime config),
       EC_ResponseTime := LimitConfig_Prepare (EC_ResponseTime config)\<rparr>"

section \<open>Correctness\<close>

definition envelop_covers :: "EnvelopPile \<Rightarrow> EnvelopProfile \<Rightarrow> bool" where
  "envelop_covers p v \<longleftrightarrow> limit_covers (EQ_ResponseTime p) (EP_ResponseTime v)
     \<and> limit_covers (EQ_CompletionTime p) (EP_CompletionTime v)"

definition empty_EnvelopPile :: EnvelopPile where
  "empty_EnvelopPile = \<lparr>EQ_ResponseTime = [], EQ_CompletionTime = []\<rparr>"

lemma limit_Add: "limit_covers (LimitPile_Add p v) v \<and> (\<forall>u. limit_covers p u \<longrightarrow> limit_covers (LimitPile_Add p v) u)"
  using limit.add_ok [of p v] by simp

lemma limit_Merge: "(\<forall>u. limit_covers p u \<longrightarrow> limit_covers (LimitPile_Merge p q) u)
    \<and> (\<forall>u. limit_covers q u \<longrightarrow> limit_covers (LimitPile_Merge p q) u)"
  using limit.merge_ok [of p q] by simp

lemma limit_Learn: "limit_covers p u \<Longrightarrow> LimitConfig_Decide (LimitConfig_Learn c p) u = None"
  using limit.learn_ok [OF fair_ranger_exists, of c p] by simp

lemma limit_keeps: "LimitConfig_Decide c u = None \<Longrightarrow> LimitConfig_Decide (LimitConfig_Learn c p) u = None"
  using limit.learn_mono [OF fair_ranger_exists, of c p] by simp

interpretation envelop: monotone_rules
  "pure_add EnvelopPile_Add" "pure_add EnvelopPile_Merge" empty_EnvelopPile "\<lambda>_. True" "\<lambda>_. True" envelop_covers "\<lambda>_. True"
  "pure_learn EnvelopConfig_Learn" "pure_decide EnvelopConfig_Decide" "\<lambda>_. True"
proof (unfold_locales, goal_cases)
  case (5 rr c v d)
  then show ?case using limit.decide_grave [of rr] by (auto simp: EnvelopConfig_Decide_def)
qed (auto simp: EnvelopPile_Add_def EnvelopPile_Merge_def envelop_covers_def EnvelopConfig_Decide_def
    EnvelopConfig_Learn_def limit_Add limit_Merge limit_Learn [simplified] limit_keeps [simplified])

end
