(* ===== verification/Pods.thy ===== *)
theory Pods
  imports Ip_Sets
begin

text \<open>
  \<open>pkg/apis/guard/v1alpha1/pod.go\<close>: the remote addresses of the connections of a pod, read
  from the tables of the kernel under \<open>/proc/net\<close>. The scanner is modelled with its slice
  expressions, which panic out of range; the content of the files is an argument.
\<close>

section \<open>Scanning a table\<close>

primrec find_byte_from :: "string \<Rightarrow> char \<Rightarrow> int \<Rightarrow> int" where
  "find_byte_from [] target i = - 1"
| "find_byte_from (b # bs) target i = (if b = target then i else find_byte_from bs target (i + 1))"

definition findByte :: "string \<Rightarrow> char \<Rightarrow> int" where
  "findByte data target = find_byte_from data target 0"

text \<open>\<open>data[i+1:]\<close> and \<open>data[i:j]\<close>.\<close>

definition slice_after :: "string \<Rightarrow> int \<Rightarrow> string res" where
  "slice_after data i =
     (if 0 \<le> i + 1 \<and> i + 1 \<le> int (length data) then Inr (drop (nat (i + 1)) data) else Inl IndexOutOfRange)"

definition slice_between :: "string \<Rightarrow> nat \<Rightarrow> int \<Rightarrow> string res" where
  "slice_between data i j =
     (if int i \<le> j \<and> j \<le> int (length data) then Inr (take (nat j - i) (drop i data)) else Inl IndexOutOfRange)"

text \<open>\<open>strconv.ParseUint(s, 16, 32)\<close>.\<close>

fun hex_value :: "nat \<Rightarrow> string \<Rightarrow> nat option" where
  "hex_value n [] = Some n"
| "hex_value n (c # cs) = (case hex_digit c of None \<Rightarrow> None | Some d \<Rightarrow> hex_value (16 * n + d) cs)"

definition ParseUint_16_32 :: "string \<Rightarrow> nat option" where
  "ParseUint_16_32 s =
     (if s = '''' then None
      else (case hex_value 0 s of None \<Rightarrow> None | Some v \<Rightarrow> if v < 2 ^ 32 then Some v else None))"

text \<open>\<open>binary.LittleEndian.PutUint32\<close>: the four bytes written.\<close>

definition PutUint32 :: "32 word \<Rightarrow> ip" where
  "PutUint32 v = [ucast v, ucast (drop_bit 8 v), ucast (drop_bit 16 v), ucast (drop_bit 24 v)]"

text \<open>The loop over the groups of an IPv6 address, with the number of groups left.\<close>

fun parse_groups :: "nat \<Rightarrow> string \<Rightarrow> ip option" where
  "parse_groups 0 ipstr = Some []"
| "parse_groups (Suc n) ipstr =
     (case ParseUint_16_32 (take 8 ipstr) of
        None \<Rightarrow> None
      | Some u \<Rightarrow> map_option ((@) (PutUint32 (of_nat u))) (parse_groups n (drop 8 ipstr)))"

definition parse_proc_ip :: "string \<Rightarrow> ip option" where
  "parse_proc_ip ipstr =
     (if length ipstr = 8 then map_option (\<lambda>v. PutUint32 (of_nat v)) (ParseUint_16_32 ipstr)
      else if length ipstr = 32 then parse_groups 4 ipstr
      else None)"

text \<open>
  One turn of the loop: no more lines, go on with the rest of the data (\<open>continue NextLine\<close>),
  or an address and the rest.
\<close>

datatype line = NoMore | NextLine string | Remote ip string

definition next_line :: "string \<Rightarrow> line res" where
  "next_line data =
     (let i = findByte data (CHR 0x0A) in
      if i < 0 then Inr NoMore
      else bind_res (slice_after data i) (\<lambda>data.
      let i = findByte data (CHR '':'') in
      if i < 0 then Inr (NextLine data)
      else bind_res (slice_after data i) (\<lambda>data.
      let i = findByte data (CHR '':'') in
      if i < 0 then Inr (NextLine data)
      else bind_res (slice_after data i) (\<lambda>data.
      let i = findByte data (CHR '':'') in
      if i < 13 then Inr (NextLine data)
      else bind_res (slice_between data 5 i) (\<lambda>ipstr.
      bind_res (slice_after data i) (\<lambda>data.
      case parse_proc_ip ipstr of
        None \<Rightarrow> Inr (NextLine data)
      | Some remote \<Rightarrow>
          if IsUnspecified remote \<or> IsLoopback remote \<or> IsPrivate remote then Inr (NextLine data)
          else Inr (Remote remote data)))))))"

section \<open>The scanner terminates and does not panic\<close>

lemma find_byte_from_eq:
  "find_byte_from bs t i = (if t \<in> set bs then i + int (length (takeWhile (\<lambda>b. b \<noteq> t) bs)) else - 1)"
  by (induction bs arbitrary: i) auto

lemma findByte_eq: "findByte bs t = (if t \<in> set bs then int (length (takeWhile (\<lambda>b. b \<noteq> t) bs)) else - 1)"
  by (simp add: findByte_def find_byte_from_eq)

lemma takeWhile_found: "t \<in> set bs \<Longrightarrow> length (takeWhile (\<lambda>b. b \<noteq> t) bs) < length bs"
  by (induction bs) auto

lemma found_slices:
  assumes "0 \<le> findByte bs t"
  shows "slice_after bs (findByte bs t) = Inr (tl (dropWhile (\<lambda>b. b \<noteq> t) bs))"
    and "n \<le> findByte bs t \<Longrightarrow> 0 \<le> n \<Longrightarrow>
      slice_between bs (nat n) (findByte bs t) = Inr (drop (nat n) (takeWhile (\<lambda>b. b \<noteq> t) bs))"
    and "length (tl (dropWhile (\<lambda>b. b \<noteq> t) bs)) < length bs"
proof -
  have t: "t \<in> set bs" using assms by (auto simp: findByte_eq split: if_splits)
  have l: "length (takeWhile (\<lambda>b. b \<noteq> t) bs) < length bs" by (rule takeWhile_found [OF t])
  have d: "dropWhile (\<lambda>b. b \<noteq> t) bs = drop (length (takeWhile (\<lambda>b. b \<noteq> t) bs)) bs"
    by (rule dropWhile_eq_drop)
  show "slice_after bs (findByte bs t) = Inr (tl (dropWhile (\<lambda>b. b \<noteq> t) bs))"
    using t l by (simp add: slice_after_def findByte_eq d nat_add_distrib drop_Suc tl_drop)
  have tw: "takeWhile (\<lambda>b. b \<noteq> t) bs = take (length (takeWhile (\<lambda>b. b \<noteq> t) bs)) bs"
    by (rule takeWhile_eq_take)
  show "slice_between bs (nat n) (findByte bs t) = Inr (drop (nat n) (takeWhile (\<lambda>b. b \<noteq> t) bs))"
    if "n \<le> findByte bs t" "0 \<le> n"
  proof -
    have "drop (nat n) (take (length (takeWhile (\<lambda>b. b \<noteq> t) bs)) bs)
        = take (length (takeWhile (\<lambda>b. b \<noteq> t) bs) - nat n) (drop (nat n) bs)"
      by (rule drop_take)
    then show ?thesis
      using that t l tw by (simp add: slice_between_def findByte_eq)
  qed
  show "length (tl (dropWhile (\<lambda>b. b \<noteq> t) bs)) < length bs"
    using l by (simp add: d)
qed

definition rest_after :: "char \<Rightarrow> string \<Rightarrow> string" where
  "rest_after t bs = tl (dropWhile (\<lambda>b. b \<noteq> t) bs)"

text \<open>A turn without its slice expressions.\<close>

definition turn :: "string \<Rightarrow> line" where
  "turn data =
     (if CHR 0x0A \<notin> set data then NoMore
      else (let d1 = rest_after (CHR 0x0A) data in
        if CHR '':'' \<notin> set d1 then NextLine d1
        else (let d2 = rest_after (CHR '':'') d1 in
          if CHR '':'' \<notin> set d2 then NextLine d2
          else (let d3 = rest_after (CHR '':'') d2; field = takeWhile (\<lambda>b. b \<noteq> CHR '':'') d3; d4 = rest_after (CHR '':'') d3 in
            if CHR '':'' \<notin> set d3 \<or> length field < 13 then NextLine d3
            else (case parse_proc_ip (drop 5 field) of
                None \<Rightarrow> NextLine d4
              | Some remote \<Rightarrow> if exempt remote then NextLine d4 else Remote remote d4)))))"

lemma findByte_neg: "findByte bs t < 0 \<longleftrightarrow> t \<notin> set bs"
  by (simp add: findByte_eq)

lemma findByte_13: "findByte bs t < 13 \<longleftrightarrow> t \<notin> set bs \<or> length (takeWhile (\<lambda>b. b \<noteq> t) bs) < 13"
  by (simp add: findByte_eq)

lemma slice_found: "t \<in> set bs \<Longrightarrow> slice_after bs (findByte bs t) = Inr (rest_after t bs)"
  using found_slices(1) [of bs t] findByte_neg [of bs t] by (simp add: rest_after_def)

lemma slice_field: "\<not> findByte bs t < 13 \<Longrightarrow>
    slice_between bs 5 (findByte bs t) = Inr (drop 5 (takeWhile (\<lambda>b. b \<noteq> t) bs))"
  using found_slices(2) [of bs t 5] by simp

lemma length_rest_after: "t \<in> set bs \<Longrightarrow> length (rest_after t bs) < length bs"
  using found_slices(3) [of bs t] findByte_neg [of bs t] by (simp add: rest_after_def)

lemma next_line_turn: "next_line data = Inr (turn data)"
  unfolding next_line_def turn_def Let_def
  by (simp add: findByte_neg findByte_13 slice_found slice_field exempt_def split: option.splits)

lemma turn_shorter: "turn data = NextLine d \<Longrightarrow> length d < length data" "turn data = Remote i d \<Longrightarrow> length d < length data"
proof -
  have "length d < length data" if "turn data = NextLine d \<or> turn data = Remote i d"
  proof -
    have 1: "CHR 0x0A \<in> set data" by (rule ccontr) (use that in \<open>auto simp: turn_def\<close>)
    let ?d1 = "rest_after (CHR 0x0A) data" let ?d2 = "rest_after (CHR '':'') ?d1"
    let ?d3 = "rest_after (CHR '':'') ?d2" let ?d4 = "rest_after (CHR '':'') ?d3"
    have l1: "length ?d1 < length data" using 1 by (rule length_rest_after)
    have l2: "length (rest_after t s) \<le> length s" for t s
      by (simp add: rest_after_def) (meson diff_le_self length_dropWhile_le order_trans)
    have "d \<in> {?d1, ?d2, ?d3, ?d4}"
      using that 1 by (auto simp: turn_def Let_def split: if_splits option.splits)
    moreover have "length ?d2 \<le> length ?d1" "length ?d3 \<le> length ?d2" "length ?d4 \<le> length ?d3"
      by (rule l2)+
    ultimately show ?thesis using l1 by auto
  qed
  then show "turn data = NextLine d \<Longrightarrow> length d < length data" "turn data = Remote i d \<Longrightarrow> length d < length data"
    by blast+
qed

function nextRemoteIp :: "string \<Rightarrow> (ip \<times> string) option res" where
  "nextRemoteIp data =
     (case next_line data of
        Inl e \<Rightarrow> Inl e
      | Inr l \<Rightarrow>
          (case l of
             NoMore \<Rightarrow> Inr None
           | NextLine d \<Rightarrow> nextRemoteIp d
           | Remote i d \<Rightarrow> Inr (Some (i, d))))"
  by pat_completeness auto
termination
  by (relation "measure length") (auto simp: next_line_turn turn_shorter)

declare nextRemoteIp.simps [simp del]

lemma nextRemoteIp_turn:
  "nextRemoteIp data =
     (case turn data of NoMore \<Rightarrow> Inr None | NextLine d \<Rightarrow> nextRemoteIp d | Remote i d \<Rightarrow> Inr (Some (i, d)))"
  by (subst nextRemoteIp.simps) (simp add: next_line_turn)

section \<open>What is found\<close>

lemma length_PutUint32 [simp]: "length (PutUint32 v) = 4"
  by (simp add: PutUint32_def)

lemma length_parse_groups: "parse_groups n s = Some i \<Longrightarrow> length i = 4 * n"
  by (induction n arbitrary: s i) (auto split: option.splits)

lemma parse_proc_ip_valid: "parse_proc_ip s = Some i \<Longrightarrow> valid_ip i"
  by (auto simp: parse_proc_ip_def valid_ip_def dest: length_parse_groups split: if_splits)

lemma turn_Remote: "turn data = Remote i d \<Longrightarrow> valid_ip i \<and> \<not> exempt i"
proof (rule ccontr)
  assume t: "turn data = Remote i d" and n: "\<not> (valid_ip i \<and> \<not> exempt i)"
  from t have "\<exists>s. parse_proc_ip s = Some i \<and> \<not> exempt i"
    unfolding turn_def Let_def by (auto split: if_splits option.splits)
  with n parse_proc_ip_valid show False by blast
qed

lemma nextRemoteIp_ok:
  "ok (nextRemoteIp data) (\<lambda>r. case r of None \<Rightarrow> True
     | Some (i, d) \<Rightarrow> valid_ip i \<and> \<not> exempt i \<and> length d < length data)"
proof (induction data rule: length_induct)
  case (1 data)
  show ?case
  proof (cases "turn data")
    case NoMore
    then show ?thesis by (simp add: nextRemoteIp_turn [of data])
  next
    case (NextLine d)
    then have d: "length d < length data" by (rule turn_shorter)
    with 1 have "ok (nextRemoteIp d) (\<lambda>r. case r of None \<Rightarrow> True
        | Some (i, d') \<Rightarrow> valid_ip i \<and> \<not> exempt i \<and> length d' < length d)" by blast
    then have "ok (nextRemoteIp d) (\<lambda>r. case r of None \<Rightarrow> True
        | Some (i, d') \<Rightarrow> valid_ip i \<and> \<not> exempt i \<and> length d' < length data)"
      by (rule ok_mono) (use d in \<open>auto split: option.splits\<close>)
    with NextLine show ?thesis by (simp add: nextRemoteIp_turn [of data])
  next
    case (Remote i d)
    then show ?thesis
      using turn_Remote [OF Remote] turn_shorter(2) [OF Remote] by (simp add: nextRemoteIp_turn [of data])
  qed
qed

lemma nextRemoteIp_shorter: "nextRemoteIp data = Inr (Some (i, d)) \<Longrightarrow> length d < length data"
  using nextRemoteIp_ok [of data] by simp

text \<open>The loop of \<open>IpNetFromProc\<close>, with the addresses known so far and the addresses found.\<close>

function collect_ips :: "string \<Rightarrow> bool entries \<Rightarrow> ip list \<Rightarrow> ip list res" where
  "collect_ips data ipMap ips =
     (case nextRemoteIp data of
        Inl e \<Rightarrow> Inl e
      | Inr None \<Rightarrow> Inr ips
      | Inr (Some (i, d)) \<Rightarrow>
          (let ipStr = ip_String i in
           if map_of ipMap ipStr = None then collect_ips d (AList.update ipStr True ipMap) (ips @ [i])
           else collect_ips d ipMap ips))"
  by pat_completeness auto
termination
  by (relation "measure (\<lambda>(data, _, _). length data)") (auto dest: nextRemoteIp_shorter)

declare collect_ips.simps [simp del]

text \<open>A file that cannot be read gives nil: no address.\<close>

definition IpNetFromProc :: "(string \<Rightarrow> string option) \<Rightarrow> string \<Rightarrow> ip list res" where
  "IpNetFromProc ReadFile protocol =
     (case ReadFile (''/proc/net/'' @ protocol) of
        None \<Rightarrow> Inr []
      | Some data \<Rightarrow> collect_ips data [] [])"

definition peers_ok :: "ip list \<Rightarrow> bool" where
  "peers_ok ips \<longleftrightarrow> (\<forall>i \<in> set ips. valid_ip i \<and> \<not> exempt i) \<and> distinct (map norm4 ips)"

lemma collect_ips_ok:
  assumes "peers_ok ips" and "\<forall>s. map_of m s = None \<longleftrightarrow> s \<notin> ip_String ` set ips"
  shows "ok (collect_ips data m ips) (\<lambda>r. peers_ok r \<and> (\<exists>more. r = ips @ more))"
  using assms
proof (induction data arbitrary: m ips rule: length_induct)
  case (1 data)
  from nextRemoteIp_ok [of data] obtain r where r: "nextRemoteIp data = Inr r"
    "case r of None \<Rightarrow> True | Some (i, d) \<Rightarrow> valid_ip i \<and> \<not> exempt i \<and> length d < length data"
    by (auto simp: ok_iff)
  show ?case
  proof (cases r)
    case None
    with r(1) 1(2) show ?thesis by (simp add: collect_ips.simps [of data])
  next
    case (Some x)
    then obtain i d where x: "r = Some (i, d)" by (cases x) simp
    with r(2) have i: "valid_ip i" "\<not> exempt i" "length d < length data" by simp_all
    have IH: "ok (collect_ips d m' ips') (\<lambda>r. peers_ok r \<and> (\<exists>more. r = ips' @ more))"
      if "peers_ok ips'" "\<forall>s. map_of m' s = None \<longleftrightarrow> s \<notin> ip_String ` set ips'" for m' ips'
      using 1(1) i(3) that by blast
    show ?thesis
    proof (cases "map_of m (ip_String i) = None")
      case False
      then show ?thesis
        using IH [OF 1(2,3)] r(1) x by (auto simp: collect_ips.simps [of data] Let_def)
    next
      case True
      have "ip_String j \<noteq> ip_String i" if "j \<in> set ips" for j
        using True 1(3) that by (metis imageI)
      moreover have "valid_ip j" if "j \<in> set ips" for j
        using that 1(2) by (simp add: peers_ok_def)
      ultimately have "norm4 i \<noteq> norm4 j" if "j \<in> set ips" for j
        using ip_String_eq [OF i(1), of j] that by metis
      then have "norm4 i \<notin> norm4 ` set ips" by blast
      then have "peers_ok (ips @ [i])"
        using 1(2) i by (auto simp: peers_ok_def)
      moreover have "\<forall>s. map_of (AList.update (ip_String i) True m) s = None \<longleftrightarrow> s \<notin> ip_String ` set (ips @ [i])"
        using 1(3) by auto
      ultimately have "ok (collect_ips d (AList.update (ip_String i) True m) (ips @ [i])) (\<lambda>r. peers_ok r \<and> (\<exists>more. r = (ips @ [i]) @ more))"
        by (rule IH)
      then have "ok (collect_ips d (AList.update (ip_String i) True m) (ips @ [i])) (\<lambda>r. peers_ok r \<and> (\<exists>more. r = ips @ more))"
        by (rule ok_mono) auto
      with True r(1) x show ?thesis by (simp add: collect_ips.simps [of data] Let_def)
    qed
  qed
qed

lemma IpNetFromProc_ok: "ok (IpNetFromProc ReadFile protocol) peers_ok"
proof (cases "ReadFile (''/proc/net/'' @ protocol)")
  case None
  then show ?thesis by (simp add: IpNetFromProc_def peers_ok_def)
next
  case (Some data)
  have "ok (collect_ips data [] []) (\<lambda>r. peers_ok r \<and> (\<exists>more. r = [] @ more))"
    by (rule collect_ips_ok) (simp_all add: peers_ok_def)
  then show ?thesis
    using Some by (auto simp: IpNetFromProc_def elim: ok_mono)
qed

section \<open>The six tables\<close>

record PodProfile =
  PP_Tcp4Peers :: IpSetProfile
  PP_Udp4Peers :: IpSetProfile
  PP_Udplite4Peers :: IpSetProfile
  PP_Tcp6Peers :: IpSetProfile
  PP_Udp6Peers :: IpSetProfile
  PP_Udplite6Peers :: IpSetProfile

record PodPile =
  PQ_Tcp4Peers :: IpSetPile
  PQ_Udp4Peers :: IpSetPile
  PQ_Udplite4Peers :: IpSetPile
  PQ_Tcp6Peers :: IpSetPile
  PQ_Udp6Peers :: IpSetPile
  PQ_Udplite6Peers :: IpSetPile

record PodConfig =
  PC_Tcp4Peers :: IpSetConfig
  PC_Udp4Peers :: IpSetConfig
  PC_Udplite4Peers :: IpSetConfig
  PC_Tcp6Peers :: IpSetConfig
  PC_Udp6Peers :: IpSetConfig
  PC_Udplite6Peers :: IpSetConfig

definition PodProfile_Profile :: "(string \<Rightarrow> string option) \<Rightarrow> PodProfile res" where
  "PodProfile_Profile ReadFile =
     bind_res (IpNetFromProc ReadFile ''tcp'') (\<lambda>tcp.
     bind_res (IpNetFromProc ReadFile ''udp'') (\<lambda>udp.
     bind_res (IpNetFromProc ReadFile ''udplite'') (\<lambda>udplite.
     bind_res (IpNetFromProc ReadFile ''tcp6'') (\<lambda>tcp6.
     bind_res (IpNetFromProc ReadFile ''udp6'') (\<lambda>udp6.
     bind_res (IpNetFromProc ReadFile ''udplite6'') (\<lambda>udplite6.
     Inr \<lparr>PP_Tcp4Peers = IpSetProfile_ProfileIPSlice tcp, PP_Udp4Peers = IpSetProfile_ProfileIPSlice udp,
       PP_Udplite4Peers = IpSetProfile_ProfileIPSlice udplite, PP_Tcp6Peers = IpSetProfile_ProfileIPSlice tcp6,
       PP_Udp6Peers = IpSetProfile_ProfileIPSlice udp6, PP_Udplite6Peers = IpSetProfile_ProfileIPSlice udplite6\<rparr>))))))"

definition PodPile_Add :: "PodPile \<Rightarrow> PodProfile \<Rightarrow> PodPile" where
  "PodPile_Add pile profile =
     \<lparr>PQ_Tcp4Peers = IpSetPile_Add (PQ_Tcp4Peers pile) (PP_Tcp4Peers profile),
      PQ_Udp4Peers = IpSetPile_Add (PQ_Udp4Peers pile) (PP_Udp4Peers profile),
      PQ_Udplite4Peers = IpSetPile_Add (PQ_Udplite4Peers pile) (PP_Udplite4Peers profile),
      PQ_Tcp6Peers = IpSetPile_Add (PQ_Tcp6Peers pile) (PP_Tcp6Peers profile),
      PQ_Udp6Peers = IpSetPile_Add (PQ_Udp6Peers pile) (PP_Udp6Peers profile),
      PQ_Udplite6Peers = IpSetPile_Add (PQ_Udplite6Peers pile) (PP_Udplite6Peers profile)\<rparr>"

definition PodPile_Clear :: "PodPile \<Rightarrow> PodPile" where
  "PodPile_Clear pile =
     \<lparr>PQ_Tcp4Peers = IpSetPile_Clear (PQ_Tcp4Peers pile), PQ_Udp4Peers = IpSetPile_Clear (PQ_Udp4Peers pile),
      PQ_Udplite4Peers = IpSetPile_Clear (PQ_Udplite4Peers pile), PQ_Tcp6Peers = IpSetPile_Clear (PQ_Tcp6Peers pile),
      PQ_Udp6Peers = IpSetPile_Clear (PQ_Udp6Peers pile), PQ_Udplite6Peers = IpSetPile_Clear (PQ_Udplite6Peers pile)\<rparr>"

definition PodPile_Merge :: "PodPile \<Rightarrow> PodPile \<Rightarrow> PodPile" where
  "PodPile_Merge pile otherPile =
     \<lparr>PQ_Tcp4Peers = IpSetPile_Merge (PQ_Tcp4Peers pile) (PQ_Tcp4Peers otherPile),
      PQ_Udp4Peers = IpSetPile_Merge (PQ_Udp4Peers pile) (PQ_Udp4Peers otherPile),
      PQ_Udplite4Peers = IpSetPile_Merge (PQ_Udplite4Peers pile) (PQ_Udplite4Peers otherPile),
      PQ_Tcp6Peers = IpSetPile_Merge (PQ_Tcp6Peers pile) (PQ_Tcp6Peers otherPile),
      PQ_Udp6Peers = IpSetPile_Merge (PQ_Udp6Peers pile) (PQ_Udp6Peers otherPile),
      PQ_Udplite6Peers = IpSetPile_Merge (PQ_Udplite6Peers pile) (PQ_Udplite6Peers otherPile)\<rparr>"

definition PodConfig_Decide :: "PodConfig \<Rightarrow> PodProfile \<Rightarrow> decision option" where
  "PodConfig_Decide config profile =
     (let current = None;
          current = DecideChild current (IpSetConfig_Decide (PC_Tcp4Peers config) (PP_Tcp4Peers profile)) ''Tcp4Peers'';
          current = DecideChild current (IpSetConfig_Decide (PC_Udp4Peers config) (PP_Udp4Peers profile)) ''Udp4Peers'';
          current = DecideChild current (IpSetConfig_Decide (PC_Udplite4Peers config) (PP_Udplite4Peers profile)) ''Udplite4Peers'';
          current = DecideChild current (IpSetConfig_Decide (PC_Tcp6Peers config) (PP_Tcp6Peers profile)) ''Tcp6Peers'';
          current = DecideChild current (IpSetConfig_Decide (PC_Udp6Peers config) (PP_Udp6Peers profile)) ''Udp6Peers''
      in DecideChild current (IpSetConfig_Decide (PC_Udplite6Peers config) (PP_Udplite6Peers profile)) ''Udplite6Peers'')"

definition PodConfig_Learn :: "PodConfig \<Rightarrow> PodPile \<Rightarrow> PodConfig res" where
  "PodConfig_Learn config pile =
     bind_res (IpSetConfig_Learn (PC_Tcp4Peers config) (PQ_Tcp4Peers pile)) (\<lambda>tcp4.
     bind_res (IpSetConfig_Learn (PC_Udp4Peers config) (PQ_Udp4Peers pile)) (\<lambda>udp4.
     bind_res (IpSetConfig_Learn (PC_Udplite4Peers config) (PQ_Udplite4Peers pile)) (\<lambda>udplite4.
     bind_res (IpSetConfig_Learn (PC_Tcp6Peers config) (PQ_Tcp6Peers pile)) (\<lambda>tcp6.
     bind_res (IpSetConfig_Learn (PC_Udp6Peers config) (PQ_Udp6Peers pile)) (\<lambda>udp6.
     bind_res (IpSetConfig_Learn (PC_Udplite6Peers config) (PQ_Udplite6Peers pile)) (\<lambda>udplite6.
     Inr \<lparr>PC_Tcp4Peers = tcp4, PC_Udp4Peers = udp4, PC_Udplite4Peers = udplite4, PC_Tcp6Peers = tcp6,
       PC_Udp6Peers = udp6, PC_Udplite6Peers = udplite6\<rparr>))))))"

definition PodConfig_Prepare :: "PodConfig \<Rightarrow> PodConfig" where
  "PodConfig_Prepare config =
     \<lparr>PC_Tcp4Peers = IpSetConfig_Prepare (PC_Tcp4Peers config), PC_Udp4Peers = IpSetConfig_Prepare (PC_Udp4Peers config),
      PC_Udplite4Peers = IpSetConfig_Prepare (PC_Udplite4Peers config), PC_Tcp6Peers = IpSetConfig_Prepare (PC_Tcp6Peers config),
      PC_Udp6Peers = IpSetConfig_Prepare (PC_Udp6Peers config), PC_Udplite6Peers = IpSetConfig_Prepare (PC_Udplite6Peers config)\<rparr>"

definition pod_pwf :: "PodPile \<Rightarrow> bool" where
  "pod_pwf p \<longleftrightarrow> ips_pwf (PQ_Tcp4Peers p) \<and> ips_pwf (PQ_Udp4Peers p) \<and> ips_pwf (PQ_Udplite4Peers p)
     \<and> ips_pwf (PQ_Tcp6Peers p) \<and> ips_pwf (PQ_Udp6Peers p) \<and> ips_pwf (PQ_Udplite6Peers p)"

definition pod_vwf :: "PodProfile \<Rightarrow> bool" where
  "pod_vwf v \<longleftrightarrow> ips_vwf (PP_Tcp4Peers v) \<and> ips_vwf (PP_Udp4Peers v) \<and> ips_vwf (PP_Udplite4Peers v)
     \<and> ips_vwf (PP_Tcp6Peers v) \<and> ips_vwf (PP_Udp6Peers v) \<and> ips_vwf (PP_Udplite6Peers v)"

definition pod_covers :: "PodPile \<Rightarrow> PodProfile \<Rightarrow> bool" where
  "pod_covers p v \<longleftrightarrow> ips_covers (PQ_Tcp4Peers p) (PP_Tcp4Peers v) \<and> ips_covers (PQ_Udp4Peers p) (PP_Udp4Peers v)
     \<and> ips_covers (PQ_Udplite4Peers p) (PP_Udplite4Peers v) \<and> ips_covers (PQ_Tcp6Peers p) (PP_Tcp6Peers v)
     \<and> ips_covers (PQ_Udp6Peers p) (PP_Udp6Peers v) \<and> ips_covers (PQ_Udplite6Peers p) (PP_Udplite6Peers v)"

definition pod_cwf :: "PodConfig \<Rightarrow> bool" where
  "pod_cwf c \<longleftrightarrow> nets_ok (PC_Tcp4Peers c) \<and> nets_ok (PC_Udp4Peers c) \<and> nets_ok (PC_Udplite4Peers c)
     \<and> nets_ok (PC_Tcp6Peers c) \<and> nets_ok (PC_Udp6Peers c) \<and> nets_ok (PC_Udplite6Peers c)"

definition empty_PodPile :: PodPile where
  "empty_PodPile = \<lparr>PQ_Tcp4Peers = empty_IpSetPile, PQ_Udp4Peers = empty_IpSetPile, PQ_Udplite4Peers = empty_IpSetPile,
     PQ_Tcp6Peers = empty_IpSetPile, PQ_Udp6Peers = empty_IpSetPile, PQ_Udplite6Peers = empty_IpSetPile\<rparr>"

lemma PodConfig_Learn_ok:
  assumes "pod_cwf c" and "pod_pwf p"
  shows "ok (PodConfig_Learn c p) (\<lambda>c'. pod_cwf c' \<and> (\<forall>u. pod_covers p u \<longrightarrow> PodConfig_Decide c' u = None)
    \<and> (\<forall>u. PodConfig_Decide c u = None \<longrightarrow> PodConfig_Decide c' u = None))"
  using assms unfolding pod_cwf_def pod_pwf_def PodConfig_Learn_def
  by (intro ok_bindI [OF ips_Learn]) (simp_all add: pod_covers_def PodConfig_Decide_def)

interpretation pod: monotone_rules
  "pure_add PodPile_Add" "pure_add PodPile_Merge" empty_PodPile pod_pwf pod_vwf pod_covers "\<lambda>_. True"
  "\<lambda>rr. PodConfig_Learn" "pure_decide PodConfig_Decide" pod_cwf
proof (unfold_locales, goal_cases)
  case 1
  show ?case using ip_set.pwf_empty by (simp add: pod_pwf_def empty_PodPile_def)
next
  case (2 p v)
  then show ?case by (simp add: pod_pwf_def pod_vwf_def pod_covers_def PodPile_Add_def ips_Add)
next
  case (3 p q)
  then show ?case by (simp add: pod_pwf_def pod_covers_def PodPile_Merge_def ips_Merge)
next
  case (4 rr c p)
  then show ?case by (intro ok_mono [OF PodConfig_Learn_ok]) simp_all
next
  case (5 rr c v d)
  then show ?case by (auto simp: PodConfig_Decide_def)
next
  case (6 rr c p)
  then show ?case by (intro ok_mono [OF PodConfig_Learn_ok]) simp_all
qed

lemma ProfileIPSlice_peers: "peers_ok ips \<Longrightarrow> IpSetProfile_ProfileIPSlice ips = ips \<and> ips_vwf ips"
proof
  assume p: "peers_ok ips"
  have "fold (\<lambda>i profile. if i \<noteq> [] \<and> \<not> IsUnspecified i \<and> \<not> IsLoopback i \<and> \<not> IsPrivate i then profile @ [i] else profile) xs ys
      = ys @ xs" if "\<forall>i \<in> set xs. valid_ip i \<and> \<not> exempt i" for xs ys
    using that by (induction xs arbitrary: ys) (auto simp: exempt_def valid_ip_def)
  then show "IpSetProfile_ProfileIPSlice ips = ips"
    using p by (simp add: IpSetProfile_ProfileIPSlice_def peers_ok_def)
  show "ips_vwf ips" using p by (simp add: peers_ok_def ips_vwf_def)
qed

lemma PodProfile_Profile_ok: "ok (PodProfile_Profile ReadFile) pod_vwf"
  unfolding PodProfile_Profile_def
  by (intro ok_bindI [OF IpNetFromProc_ok]) (simp add: pod_vwf_def ProfileIPSlice_peers)

section \<open>The lines of the kernel\<close>

text \<open>
  The kernel prints an address as 32-bit words in the byte order of the machine (here little
  endian), each as eight upper-case hexadecimal digits.
\<close>

definition upper_digit :: "nat \<Rightarrow> char" where
  "upper_digit d = (if d < 10 then char_of (48 + d) else char_of (55 + d))"

definition upper_byte :: "8 word \<Rightarrow> string" where
  "upper_byte b = [upper_digit (unat b div 16), upper_digit (unat b mod 16)]"

fun proc_hex :: "ip \<Rightarrow> string" where
  "proc_hex (a # b # c # d # r) = upper_byte d @ upper_byte c @ upper_byte b @ upper_byte a @ proc_hex r"
| "proc_hex _ = []"

definition proc_line :: "string \<Rightarrow> string \<Rightarrow> string \<Rightarrow> ip \<Rightarrow> string \<Rightarrow> string" where
  "proc_line slot local port i rest =
     CHR 0x0A # slot @ CHR '':'' # local @ CHR '':'' # port @ CHR '' '' # proc_hex i @ CHR '':'' # rest"

lemma of_char_upper_digit: "d < 16 \<Longrightarrow> (of_char (upper_digit d) :: nat) = (if d < 10 then 48 + d else 55 + d)"
  by (simp add: upper_digit_def)

lemma upper_digit [simp]: "d < 16 \<Longrightarrow> hex_digit (upper_digit d) = Some d"
  by (simp add: hex_digit_def Let_def of_char_upper_digit)

lemma upper_digit_no_colon [simp]: "d < 16 \<Longrightarrow> CHR '':'' \<noteq> upper_digit d"
proof
  assume d: "d < 16" and "CHR '':'' = upper_digit d"
  then have "(of_char (CHR '':'') :: nat) = of_char (upper_digit d)" by (simp only:)
  then show False by (simp add: of_char_upper_digit [OF d] split: if_splits)
qed

lemma unat_byte: "unat (b :: 8 word) < 256"
  using unsigned_less [of b] by simp

lemma hex_value_byte: "hex_value n (upper_byte b @ s) = hex_value (256 * n + unat b) s"
proof -
  have "unat b div 16 < 16" "unat b mod 16 < 16" using unat_byte [of b] by simp_all
  moreover have "16 * (16 * n + unat b div 16) + unat b mod 16 = 256 * n + unat b" by simp
  ultimately show ?thesis by (simp only: upper_byte_def append_Cons append_Nil hex_value.simps upper_digit option.case)
qed

lemma unat_byte_of: "v < 2 ^ 32 \<Longrightarrow> unat (ucast (drop_bit k (of_nat v :: 32 word)) :: 8 word) = v div 2 ^ k mod 256"
proof -
  assume v: "v < 2 ^ 32"
  have "unat (drop_bit k (of_nat v :: 32 word)) = v div 2 ^ k"
    using v by (subst unat_drop_bit_eq) (simp add: unat_of_nat drop_bit_eq_div)
  then show ?thesis by (simp add: unsigned_ucast_eq take_bit_eq_mod)
qed

lemma PutUint32_ParseUint:
  "map_option (\<lambda>v. PutUint32 (of_nat v)) (ParseUint_16_32 (upper_byte d @ upper_byte c @ upper_byte b @ upper_byte a)) = Some [a, b, c, d]"
proof -
  define v where "v = unat a + 256 * (unat b + 256 * (unat c + 256 * unat d))"
  note lt = unat_byte [of a] unat_byte [of b] unat_byte [of c] unat_byte [of d]
  have v: "v < 2 ^ 32" using lt by (simp add: v_def)
  have "hex_value 0 (upper_byte d @ upper_byte c @ upper_byte b @ upper_byte a @ []) = Some v"
    unfolding hex_value_byte by (simp add: v_def algebra_simps)
  then have "ParseUint_16_32 (upper_byte d @ upper_byte c @ upper_byte b @ upper_byte a) = Some v"
    using v by (simp add: ParseUint_16_32_def upper_byte_def)
  have d8: "v div 2 ^ 8 = unat b + 256 * (unat c + 256 * unat d)"
    using lt by (simp add: v_def)
  have d16: "v div 2 ^ 16 = unat c + 256 * unat d"
  proof -
    have "v div 2 ^ 16 = v div 2 ^ 8 div 2 ^ 8" by (simp add: div_mult2_eq [symmetric])
    then show ?thesis using lt d8 by simp
  qed
  have d24: "v div 2 ^ 24 = unat d"
  proof -
    have "v div 2 ^ 24 = v div 2 ^ 16 div 2 ^ 8" by (simp add: div_mult2_eq [symmetric])
    then show ?thesis using lt d16 by simp
  qed
  have "v div 2 ^ 0 mod 256 = unat a"
    using lt(1) by (simp only: v_def power_0 div_by_1 mod_mult_self2 mod_less)
  moreover have "v div 2 ^ 8 mod 256 = unat b" "v div 2 ^ 16 mod 256 = unat c" "v div 2 ^ 24 mod 256 = unat d"
    using lt(2-4) by (simp_all only: d8 d16 d24 mod_mult_self2 mod_less)
  ultimately have "map unat (PutUint32 (of_nat v)) = map unat [a, b, c, d]"
    using unat_byte_of [OF v, of 0] unat_byte_of [OF v, of 8] unat_byte_of [OF v, of 16] unat_byte_of [OF v, of 24]
    by (simp add: PutUint32_def)
  then have "PutUint32 (of_nat v) = [a, b, c, d]"
    by (simp add: PutUint32_def word_unat_eq_iff)
  with \<open>ParseUint_16_32 _ = Some v\<close> show ?thesis by simp
qed

lemma length_upper_byte [simp]: "length (upper_byte b) = 2"
  by (simp add: upper_byte_def)

lemma parse_groups_proc_hex: "length i = 4 * n \<Longrightarrow> parse_groups n (proc_hex i) = Some i"
proof (induction n arbitrary: i)
  case (Suc n)
  then obtain a b c d r where i: "i = a # b # c # d # r" "length r = 4 * n"
    by (auto simp: length_Suc_conv numeral_eq_Suc)
  let ?w = "upper_byte d @ upper_byte c @ upper_byte b @ upper_byte a"
  have "take 8 (proc_hex i) = ?w" "drop 8 (proc_hex i) = proc_hex r"
    by (simp_all add: i(1) upper_byte_def)
  moreover obtain u where "ParseUint_16_32 ?w = Some u" "PutUint32 (of_nat u) = [a, b, c, d]"
    using PutUint32_ParseUint [of d c b a] by auto
  ultimately show ?case
    using Suc.IH [OF i(2)] by (simp add: i(1))
qed simp

lemma length_proc_hex: "length i = 4 * n \<Longrightarrow> length (proc_hex i) = 8 * n"
proof (induction n arbitrary: i)
  case (Suc n)
  then obtain a b c d r where "i = a # b # c # d # r" "length r = 4 * n"
    by (auto simp: length_Suc_conv numeral_eq_Suc)
  with Suc.IH show ?case by simp
qed simp

lemma parse_proc_ip_proc_hex: "valid_ip i \<Longrightarrow> parse_proc_ip (proc_hex i) = Some i"
proof -
  assume "valid_ip i"
  then consider "length i = 4 * 1" | "length i = 4 * 4" by (auto simp: valid_ip_def)
  then show ?thesis
  proof cases
    case 1
    then obtain a b c d where i: "i = [a, b, c, d]" by (auto simp: length_Suc_conv numeral_eq_Suc)
    show ?thesis using PutUint32_ParseUint [of d c b a] by (simp add: parse_proc_ip_def i)
  next
    case 2
    with parse_groups_proc_hex [OF 2] length_proc_hex [OF 2] show ?thesis by (simp add: parse_proc_ip_def)
  qed
qed

lemma proc_hex_no_colon: "CHR '':'' \<notin> set (proc_hex i)"
proof (induction i rule: proc_hex.induct)
  case (1 a b c d r)
  have "CHR '':'' \<notin> set (upper_byte x)" for x
    using unat_byte [of x] by (simp add: upper_byte_def)
  with 1 show ?case by simp
qed simp_all

lemma after_found [simp]:
  "t \<notin> set xs \<Longrightarrow> rest_after t (xs @ t # ys) = ys"
  "t \<notin> set xs \<Longrightarrow> takeWhile (\<lambda>b. b \<noteq> t) (xs @ t # ys) = xs"
  by (induction xs) (auto simp: rest_after_def)

lemma turn_proc_line:
  assumes "valid_ip i" and "\<not> exempt i" and "CHR 0x0A \<notin> set header"
    and "CHR '':'' \<notin> set slot" and "CHR '':'' \<notin> set local" and "CHR '':'' \<notin> set port" and "length port = 4"
  shows "turn (header @ proc_line slot local port i rest) = Remote i rest"
proof -
  let ?field = "port @ CHR '' '' # proc_hex i"
  have f: "CHR '':'' \<notin> set ?field" "drop 5 ?field = proc_hex i" "\<not> length ?field < 13"
    using assms(1,6,7) proc_hex_no_colon length_proc_hex [of i 1] length_proc_hex [of i 4]
    by (auto simp: valid_ip_def)
  have "rest_after (CHR 0x0A) (header @ proc_line slot local port i rest)
      = slot @ CHR '':'' # local @ CHR '':'' # ?field @ CHR '':'' # rest"
    using assms(3) by (simp add: proc_line_def)
  moreover have "rest_after (CHR '':'') (?field @ CHR '':'' # rest) = rest"
    "takeWhile (\<lambda>b. b \<noteq> CHR '':'') (?field @ CHR '':'' # rest) = ?field"
    using f(1) by (rule after_found)+
  moreover have "CHR 0x0A \<in> set (header @ proc_line slot local port i rest)" by (simp add: proc_line_def)
  ultimately show ?thesis
    using assms(2,4,5) f(2,3) parse_proc_ip_proc_hex [OF assms(1)]
    unfolding turn_def Let_def by simp
qed

section \<open>Properties\<close>

text \<open>
  C23. Whatever a table holds, scanning it terminates, no slice expression is out of range, and
  what it finds are distinct addresses of four or sixteen bytes, none of them unspecified,
  loopback or private.
\<close>

theorem IpNetFromProc_total:
  "\<exists>ips. IpNetFromProc ReadFile protocol = Inr ips \<and> peers_ok ips"
  using IpNetFromProc_ok [of ReadFile protocol] by (auto simp: ok_iff)

text \<open>
  C22. The scanner reads back what the kernel prints: after any header line, a line with the
  address of a remote peer gives exactly that address (IPv4 or IPv6) and leaves the rest of
  the table to be scanned.
\<close>

theorem nextRemoteIp_proc_line:
  assumes "valid_ip i" and "\<not> exempt i" and "CHR 0x0A \<notin> set header"
    and "CHR '':'' \<notin> set slot" and "CHR '':'' \<notin> set local" and "CHR '':'' \<notin> set port" and "length port = 4"
  shows "nextRemoteIp (header @ proc_line slot local port i rest) = Inr (Some (i, rest))"
  using turn_proc_line [OF assms, of rest] by (simp add: nextRemoteIp_turn [of "header @ proc_line slot local port i rest"])

theorem nextRemoteIp_proc_line_witness:
  "nextRemoteIp (''  sl  local_address rem_address'' @ proc_line ''   0'' ''0100007F'' ''1F90'' [8, 8, 4, 4] ''0050 01'')
     = Inr (Some ([8, 8, 4, 4], ''0050 01''))"
proof (rule nextRemoteIp_proc_line)
  show "\<not> exempt [8, 8, 4, 4]" by code_simp
qed (simp_all add: valid_ip_def)

end
