(* ===== verification/Session_Data.thy ===== *)
theory Session_Data
  imports Requests Envelops Pods
begin

text \<open>
  \<open>pkg/apis/guard/v1alpha1/sessionData.go\<close>: everything a session is judged by, and
  \<open>guardianSpec.go\<close>: the record of a service, with its configured and its learned criteria.
\<close>

section \<open>Profile\<close>

record SessionDataProfile =
  SDP_Req :: ReqProfile
  SDP_Resp :: RespProfile
  SDP_ReqBody :: BodyProfile
  SDP_RespBody :: BodyProfile
  SDP_Envelop :: EnvelopProfile
  SDP_Pod :: PodProfile

definition new_RespProfile :: RespProfile where
  "new_RespProfile = \<lparr>RespP_Headers = \<lparr>HP_Kv = None\<rparr>, RespP_MediaType = \<lparr>MP_TypeTokens = None, MP_Params = None\<rparr>,
     RespP_ContentLength = 0\<rparr>"

definition new_PodProfile :: PodProfile where
  "new_PodProfile = \<lparr>PP_Tcp4Peers = [], PP_Udp4Peers = [], PP_Udplite4Peers = [], PP_Tcp6Peers = [],
     PP_Udp6Peers = [], PP_Udplite6Peers = []\<rparr>"

definition new_SessionDataProfile :: SessionDataProfile where
  "new_SessionDataProfile = \<lparr>SDP_Req = new_ReqProfile, SDP_Resp = new_RespProfile, SDP_ReqBody = new_BodyProfile,
     SDP_RespBody = new_BodyProfile, SDP_Envelop = \<lparr>EP_ResponseTime = 0, EP_CompletionTime = 0\<rparr>,
     SDP_Pod = new_PodProfile\<rparr>"

text \<open>
  What the environment of a gate provides: the hash, the parsers of the standard library and
  the files under \<open>/proc\<close>.
\<close>

record world =
  w_hash :: hash
  w_ParseIP :: "string \<Rightarrow> ip"
  w_ParseMediaType :: parse_media
  w_ReadFile :: "string \<Rightarrow> string option"

definition SessionDataProfile_Profile ::
    "world \<Rightarrow> ranger \<Rightarrow> SessionDataProfile \<Rightarrow> request \<Rightarrow> ip \<Rightarrow> response \<Rightarrow> godata \<Rightarrow> godata \<Rightarrow>
     64 word \<Rightarrow> 64 word \<Rightarrow> 64 word \<Rightarrow> SessionDataProfile res" where
  "SessionDataProfile_Profile w rr profile req cip resp reqData respData reqTime respTime endTime =
     (let profile = profile\<lparr>
            SDP_Req := ReqProfile_Profile (w_hash w) (w_ParseIP w) (w_ParseMediaType w) (at_site rr ''Req'') (SDP_Req profile) req cip,
            SDP_Resp := RespProfile_Profile (w_hash w) (w_ParseMediaType w) (at_site rr ''Resp'') (SDP_Resp profile) resp\<rparr> in
      bind_res (BodyProfile_ProfileStructured (w_hash w) (rr ''ReqBody'') (SDP_ReqBody profile) reqData) (\<lambda>reqBody.
      bind_res (BodyProfile_ProfileStructured (w_hash w) (rr ''RespBody'') (SDP_RespBody profile) respData) (\<lambda>respBody.
      bind_res (PodProfile_Profile (w_ReadFile w)) (\<lambda>pod.
      Inr (profile\<lparr>SDP_ReqBody := reqBody, SDP_RespBody := respBody,
        SDP_Envelop := EnvelopProfile_Profile reqTime respTime endTime, SDP_Pod := pod\<rparr>)))))"

section \<open>Pile\<close>

record SessionDataPile =
  SDQ_Count :: "32 word"
  SDQ_Req :: ReqPile
  SDQ_Resp :: RespPile
  SDQ_ReqBody :: BodyPile
  SDQ_RespBody :: BodyPile
  SDQ_Envelop :: EnvelopPile
  SDQ_Pod :: PodPile

definition empty_SessionDataPile :: SessionDataPile where
  "empty_SessionDataPile = \<lparr>SDQ_Count = 0, SDQ_Req = empty_ReqPile, SDQ_Resp = empty_RespPile,
     SDQ_ReqBody = new_BodyPile, SDQ_RespBody = new_BodyPile, SDQ_Envelop = empty_EnvelopPile, SDQ_Pod = empty_PodPile\<rparr>"

definition SessionDataPile_Add :: "SessionDataPile \<Rightarrow> SessionDataProfile \<Rightarrow> SessionDataPile res" where
  "SessionDataPile_Add pile profile =
     (let pile = pile\<lparr>SDQ_Count := SDQ_Count pile + 1\<rparr> in
      bind_res (ReqPile_Add (SDQ_Req pile) (SDP_Req profile)) (\<lambda>req.
      bind_res (RespPile_Add (SDQ_Resp pile) (SDP_Resp profile)) (\<lambda>resp.
      bind_res (BodyPile_Add (SDQ_ReqBody pile) (SDP_ReqBody profile)) (\<lambda>reqBody.
      bind_res (BodyPile_Add (SDQ_RespBody pile) (SDP_RespBody profile)) (\<lambda>respBody.
      Inr (pile\<lparr>SDQ_Req := req, SDQ_Resp := resp, SDQ_ReqBody := reqBody, SDQ_RespBody := respBody,
        SDQ_Envelop := EnvelopPile_Add (SDQ_Envelop pile) (SDP_Envelop profile),
        SDQ_Pod := PodPile_Add (SDQ_Pod pile) (SDP_Pod profile)\<rparr>))))))"

definition SessionDataPile_Clear :: "SessionDataPile \<Rightarrow> SessionDataPile" where
  "SessionDataPile_Clear pile =
     \<lparr>SDQ_Count = 0, SDQ_Req = ReqPile_Clear (SDQ_Req pile), SDQ_Resp = RespPile_Clear (SDQ_Resp pile),
      SDQ_ReqBody = BodyPile_Clear (SDQ_ReqBody pile), SDQ_RespBody = BodyPile_Clear (SDQ_RespBody pile),
      SDQ_Envelop = EnvelopPile_Clear (SDQ_Envelop pile), SDQ_Pod = PodPile_Clear (SDQ_Pod pile)\<rparr>"

definition SessionDataPile_Merge :: "SessionDataPile \<Rightarrow> SessionDataPile \<Rightarrow> SessionDataPile res" where
  "SessionDataPile_Merge pile otherPile =
     (let pile = pile\<lparr>SDQ_Count := SDQ_Count pile + SDQ_Count otherPile\<rparr> in
      bind_res (ReqPile_Merge (SDQ_Req pile) (SDQ_Req otherPile)) (\<lambda>req.
      bind_res (RespPile_Merge (SDQ_Resp pile) (SDQ_Resp otherPile)) (\<lambda>resp.
      bind_res (BodyPile_Merge (SDQ_ReqBody pile) (SDQ_ReqBody otherPile)) (\<lambda>reqBody.
      bind_res (BodyPile_Merge (SDQ_RespBody pile) (SDQ_RespBody otherPile)) (\<lambda>respBody.
      Inr (pile\<lparr>SDQ_Req := req, SDQ_Resp := resp, SDQ_ReqBody := reqBody, SDQ_RespBody := respBody,
        SDQ_Envelop := EnvelopPile_Merge (SDQ_Envelop pile) (SDQ_Envelop otherPile),
        SDQ_Pod := PodPile_Merge (SDQ_Pod pile) (SDQ_Pod otherPile)\<rparr>))))))"

section \<open>Criteria\<close>

record SessionDataConfig =
  SDC_Active :: bool
  SDC_Req :: ReqConfig
  SDC_Resp :: RespConfig
  SDC_ReqBody :: BodyConfig
  SDC_RespBody :: BodyConfig
  SDC_Envelop :: EnvelopConfig
  SDC_Pod :: PodConfig

definition SessionDataConfig_Decide :: "ranger \<Rightarrow> SessionDataConfig \<Rightarrow> SessionDataProfile \<Rightarrow> decision option res" where
  "SessionDataConfig_Decide rr config profile =
     (let current = None;
          current = DecideChild current (ReqConfig_Decide (at_site rr ''Req'') (SDC_Req config) (SDP_Req profile)) ''Req'';
          current = DecideChild current (RespConfig_Decide (at_site rr ''Resp'') (SDC_Resp config) (SDP_Resp profile)) ''Resp'' in
      bind_res (BodyConfig_Decide (at_site rr ''ReqBody'') (SDC_ReqBody config) (SDP_ReqBody profile)) (\<lambda>d.
      let current = DecideChild current d ''ReqBody'' in
      bind_res (BodyConfig_Decide (at_site rr ''RespBody'') (SDC_RespBody config) (SDP_RespBody profile)) (\<lambda>d.
      let current = DecideChild current d ''RespBody'';
          current = DecideChild current (EnvelopConfig_Decide (SDC_Envelop config) (SDP_Envelop profile)) ''Envelop'';
          current = DecideChild current (PodConfig_Decide (SDC_Pod config) (SDP_Pod profile)) ''Pod''
      in Inr current)))"

definition SessionDataConfig_Learn :: "ranger \<Rightarrow> SessionDataConfig \<Rightarrow> SessionDataPile \<Rightarrow> SessionDataConfig res" where
  "SessionDataConfig_Learn rr config pile =
     (let config = config\<lparr>SDC_Active := True\<rparr> in
      bind_res (ReqConfig_Learn (at_site rr ''Req'') (SDC_Req config) (SDQ_Req pile)) (\<lambda>req.
      bind_res (RespConfig_Learn (at_site rr ''Resp'') (SDC_Resp config) (SDQ_Resp pile)) (\<lambda>resp.
      bind_res (BodyConfig_Learn (at_site rr ''ReqBody'') (SDC_ReqBody config) (SDQ_ReqBody pile)) (\<lambda>reqBody.
      bind_res (BodyConfig_Learn (at_site rr ''RespBody'') (SDC_RespBody config) (SDQ_RespBody pile)) (\<lambda>respBody.
      bind_res (PodConfig_Learn (SDC_Pod config) (SDQ_Pod pile)) (\<lambda>pod.
      Inr (config\<lparr>SDC_Req := req, SDC_Resp := resp, SDC_ReqBody := reqBody, SDC_RespBody := respBody,
        SDC_Envelop := EnvelopConfig_Learn (SDC_Envelop config) (SDQ_Envelop pile), SDC_Pod := pod\<rparr>)))))))"

definition SessionDataConfig_Prepare :: "ranger \<Rightarrow> SessionDataConfig \<Rightarrow> SessionDataConfig res" where
  "SessionDataConfig_Prepare rr config =
     bind_res (ReqConfig_Prepare (at_site rr ''Req'') (SDC_Req config)) (\<lambda>req.
     bind_res (RespConfig_Prepare (at_site rr ''Resp'') (SDC_Resp config)) (\<lambda>resp.
     bind_res (BodyConfig_Prepare (at_site rr ''ReqBody'') (SDC_ReqBody config)) (\<lambda>reqBody.
     bind_res (BodyConfig_Prepare (at_site rr ''RespBody'') (SDC_RespBody config)) (\<lambda>respBody.
     Inr (config\<lparr>SDC_Req := req, SDC_Resp := resp, SDC_ReqBody := reqBody, SDC_RespBody := respBody,
       SDC_Envelop := EnvelopConfig_Prepare (SDC_Envelop config), SDC_Pod := PodConfig_Prepare (SDC_Pod config)\<rparr>)))))"

section \<open>Correctness\<close>

definition session_pwf :: "SessionDataPile \<Rightarrow> bool" where
  "session_pwf p \<longleftrightarrow> req_pwf (SDQ_Req p) \<and> resp_pwf (SDQ_Resp p) \<and> body_pwf (SDQ_ReqBody p) \<and> body_pwf (SDQ_RespBody p)
     \<and> pod_pwf (SDQ_Pod p)"

definition session_vwf :: "SessionDataProfile \<Rightarrow> bool" where
  "session_vwf v \<longleftrightarrow> req_vwf (SDP_Req v) \<and> resp_vwf (SDP_Resp v) \<and> body_vwf (SDP_ReqBody v) \<and> body_vwf (SDP_RespBody v)
     \<and> pod_vwf (SDP_Pod v)"

definition session_covers :: "SessionDataPile \<Rightarrow> SessionDataProfile \<Rightarrow> bool" where
  "session_covers p v \<longleftrightarrow> req_covers (SDQ_Req p) (SDP_Req v) \<and> resp_covers (SDQ_Resp p) (SDP_Resp v)
     \<and> body_covers (SDQ_ReqBody p) (SDP_ReqBody v) \<and> body_covers (SDQ_RespBody p) (SDP_RespBody v)
     \<and> envelop_covers (SDQ_Envelop p) (SDP_Envelop v) \<and> pod_covers (SDQ_Pod p) (SDP_Pod v)"

definition session_cwf :: "SessionDataConfig \<Rightarrow> bool" where
  "session_cwf c \<longleftrightarrow> req_cwf (SDC_Req c) \<and> resp_cwf (SDC_Resp c) \<and> body_cwf (SDC_ReqBody c) \<and> body_cwf (SDC_RespBody c)
     \<and> pod_cwf (SDC_Pod c)"

definition session_accepts :: "SessionDataConfig \<Rightarrow> SessionDataProfile \<Rightarrow> bool" where
  "session_accepts c v \<longleftrightarrow> req_accepts (SDC_Req c) (SDP_Req v) \<and> resp_accepts (SDC_Resp c) (SDP_Resp v)
     \<and> body_accepts (SDC_ReqBody c) (SDP_ReqBody v) \<and> body_accepts (SDC_RespBody c) (SDP_RespBody v)
     \<and> EnvelopConfig_Decide (SDC_Envelop c) (SDP_Envelop v) = None \<and> PodConfig_Decide (SDC_Pod c) (SDP_Pod v) = None"

lemma session_accepts: "session_accepts c v \<Longrightarrow> accepts SessionDataConfig_Decide c v"
  by (rule acceptsI)
    (simp add: session_accepts_def SessionDataConfig_Decide_def Let_def
      accepts_inner [OF req_accepts] accepts_inner [OF resp_accepts] accepts_site [OF body_accepts])

lemma SessionDataConfig_Decide_grave: "SessionDataConfig_Decide rr c v = Inr d \<Longrightarrow> grave_opt d"
  using resp.decide_grave envelop.decide_grave pod.decide_grave
  by (auto simp: SessionDataConfig_Decide_def Let_def bind_res_Inr ReqConfig_Decide_grave dest!: BodyConfig_Decide_grave)

lemma envelop_Add: "envelop_covers (EnvelopPile_Add p v) v \<and> (\<forall>u. envelop_covers p u \<longrightarrow> envelop_covers (EnvelopPile_Add p v) u)"
  using envelop.add_ok [of p v] by simp

lemma envelop_Merge: "(\<forall>u. envelop_covers p u \<longrightarrow> envelop_covers (EnvelopPile_Merge p q) u)
    \<and> (\<forall>u. envelop_covers q u \<longrightarrow> envelop_covers (EnvelopPile_Merge p q) u)"
  using envelop.merge_ok [of p q] by simp

lemma envelop_Learn: "envelop_covers p u \<Longrightarrow> EnvelopConfig_Decide (EnvelopConfig_Learn c p) u = None"
  using envelop.learn_ok [OF fair_ranger_exists, of c p] by simp

lemma pod_Add: "pod_pwf p \<Longrightarrow> pod_vwf v \<Longrightarrow> pod_pwf (PodPile_Add p v) \<and> pod_covers (PodPile_Add p v) v
    \<and> (\<forall>u. pod_covers p u \<longrightarrow> pod_covers (PodPile_Add p v) u)"
  using pod.add_ok [of p v] by simp

lemma pod_Merge: "pod_pwf p \<Longrightarrow> pod_pwf q \<Longrightarrow> pod_pwf (PodPile_Merge p q)
    \<and> (\<forall>u. pod_covers p u \<longrightarrow> pod_covers (PodPile_Merge p q) u)
    \<and> (\<forall>u. pod_covers q u \<longrightarrow> pod_covers (PodPile_Merge p q) u)"
  using pod.merge_ok [of p q] by simp

lemma SessionDataPile_Add_ok:
  assumes "session_pwf p" and "session_vwf v"
  shows "ok (SessionDataPile_Add p v) (\<lambda>p'. session_pwf p' \<and> session_covers p' v
    \<and> (\<forall>u. session_covers p u \<longrightarrow> session_covers p' u) \<and> SDQ_Count p' = SDQ_Count p + 1)"
  using assms unfolding session_pwf_def session_vwf_def session_covers_def SessionDataPile_Add_def Let_def
  by (intro ok_bindI [OF req.add_ok] ok_bindI [OF resp.add_ok] ok_bindI [OF body.add_ok])
    (simp_all add: envelop_Add pod_Add)

lemma SessionDataPile_Merge_ok:
  assumes "session_pwf p" and "session_pwf q"
  shows "ok (SessionDataPile_Merge p q) (\<lambda>r. session_pwf r \<and> (\<forall>u. session_covers p u \<longrightarrow> session_covers r u)
    \<and> (\<forall>u. session_covers q u \<longrightarrow> RP_HopIp (SDP_Req u) = [] \<longrightarrow> session_covers r u) \<and> SDQ_Count r = SDQ_Count p + SDQ_Count q)"
  using assms unfolding session_pwf_def session_covers_def SessionDataPile_Merge_def Let_def
  by (intro ok_bindI [OF req.merge_ok] ok_bindI [OF resp.merge_ok] ok_bindI [OF body.merge_ok])
    (simp_all add: envelop_Merge pod_Merge)

lemma SessionDataConfig_Learn_ok:
  assumes "fair_ranger rr" and "session_cwf c" and "session_pwf p"
  shows "ok (SessionDataConfig_Learn rr c p) (\<lambda>c'. session_cwf c' \<and> SDC_Active c' \<and> (\<forall>u. session_covers p u \<longrightarrow> session_accepts c' u))"
  using assms unfolding session_cwf_def session_pwf_def session_covers_def session_accepts_def SessionDataConfig_Learn_def Let_def
  by (intro ok_bindI [OF ReqConfig_Learn_ok] ok_bindI [OF RespConfig_Learn_ok] ok_bindI [OF BodyConfig_Learn_ok]
      ok_bindI [OF PodConfig_Learn_ok])
    (simp_all add: envelop_Learn)

interpretation session: value_rules
  SessionDataPile_Add SessionDataPile_Merge empty_SessionDataPile session_pwf session_vwf session_covers
  "\<lambda>v. RP_HopIp (SDP_Req v) = []" SessionDataConfig_Learn SessionDataConfig_Decide session_cwf
proof (unfold_locales, goal_cases)
  case 1
  show ?case
    using req.pwf_empty resp.pwf_empty body.pwf_empty pod.pwf_empty by (simp add: session_pwf_def empty_SessionDataPile_def)
next
  case (2 p v)
  then show ?case by (rule ok_mono [OF SessionDataPile_Add_ok]) blast
next
  case (3 p q)
  then show ?case by (rule ok_mono [OF SessionDataPile_Merge_ok]) blast
next
  case (4 rr c p)
  then show ?case by (rule ok_mono [OF SessionDataConfig_Learn_ok]) (auto intro: session_accepts)
next
  case (5 rr c v d)
  then show ?case by (rule SessionDataConfig_Decide_grave)
qed

section \<open>Guardians\<close>

text \<open>\<open>guardianSpec.go\<close>: the switches of a service and its record.\<close>

record ctrl =
  Alert :: bool
  Block :: bool
  Learn :: bool
  Force :: bool
  Auto :: bool

definition new_Ctrl :: ctrl where
  "new_Ctrl = \<lparr>Alert = False, Block = False, Learn = False, Force = False, Auto = False\<rparr>"

record GuardianSpec =
  Configured :: "SessionDataConfig option"
  Learned :: "SessionDataConfig option"
  NumSamples :: "32 word"
  Control :: "ctrl option"

definition new_GuardianSpec :: GuardianSpec where
  "new_GuardianSpec = \<lparr>Configured = None, Learned = None, NumSamples = 0, Control = None\<rparr>"

definition SetToMaximalAutomation :: "GuardianSpec \<Rightarrow> GuardianSpec" where
  "SetToMaximalAutomation g =
     (let c = or_new new_Ctrl (Control g)
      in g\<lparr>Control := Some (c\<lparr>Auto := True, Learn := True, Force := True, Alert := True\<rparr>)\<rparr>)"

section \<open>Properties\<close>

text \<open>
  What the service makes of the profiles that its gates piled: each gate starts from an empty
  pile, the service merges the piles it is sent into its own.
\<close>

definition gather :: "SessionDataProfile list list \<Rightarrow> SessionDataPile \<Rightarrow> SessionDataPile res" where
  "gather gates p =
     fold_res (\<lambda>vs p. bind_res (fold_res (\<lambda>v q. SessionDataPile_Add q v) vs empty_SessionDataPile) (SessionDataPile_Merge p)) gates p"


text \<open>Criteria as they are created.\<close>

definition new_SessionDataConfig :: SessionDataConfig where
  "new_SessionDataConfig = \<lparr>SDC_Active = False, SDC_Req = new_ReqConfig,
     SDC_Resp = \<lparr>RespC_Headers = \<lparr>HC_Kv = new_KeyValConfig\<rparr>,
       RespC_MediaType = \<lparr>MC_TypeTokens = new_SetConfig, MC_Params = new_KeyValConfig\<rparr>, RespC_ContentLength = None\<rparr>,
     SDC_ReqBody = new_BodyConfig, SDC_RespBody = new_BodyConfig,
     SDC_Envelop = \<lparr>EC_ResponseTime = 0, EC_CompletionTime = 0\<rparr>,
     SDC_Pod = \<lparr>PC_Tcp4Peers = [], PC_Udp4Peers = [], PC_Udplite4Peers = [], PC_Tcp6Peers = [], PC_Udp6Peers = [],
       PC_Udplite6Peers = []\<rparr>\<rparr>"

lemma session_cwf_new: "session_cwf new_SessionDataConfig"
  using req_cwf_new
  by (simp add: session_cwf_def new_SessionDataConfig_def resp_cwf_def headers_cwf_def media_cwf_def kv_cwf_new
      count_cwf_def body_cwf_def new_BodyConfig_def pod_cwf_def nets_ok_def)

lemma session_vwf_new: "session_vwf new_SessionDataProfile"
  by (simp add: session_vwf_def new_SessionDataProfile_def req_vwf_def new_ReqProfile_def ips_vwf_def media_vwf_def
      query_vwf_def headers_vwf_def resp_vwf_def new_RespProfile_def body_vwf_def new_BodyProfile_def pod_vwf_def new_PodProfile_def)


lemma cleared_values:
  "SetPile_Clear t = empty_SetPile" "IpSetPile_Clear i = empty_IpSetPile" "SimpleValPile_Clear u = new_SimpleValPile"
  by (cases t; cases i; cases u;
      simp add: SetPile_Clear_def empty_SetPile_def IpSetPile_Clear_def empty_IpSetPile_def SimpleValPile_Clear_def
        new_SimpleValPile_def LimitPile_Clear_def AsciiFlagsPile_Clear_def FlagSlicePile_Clear_def)+

lemma cleared:
  "SetPile_Clear t = empty_SetPile" "IpSetPile_Clear i = empty_IpSetPile"
  "MediaTypePile_Clear m = empty_MediaTypePile"
  "ReqPile_Clear q = empty_ReqPile\<lparr>RQ_HopIp := RQ_HopIp q\<rparr>"
  "BodyPile_Clear b = new_BodyPile\<lparr>BQ_Faults := BQ_Faults b\<rparr>"
  "EnvelopPile_Clear e = empty_EnvelopPile"
  by (cases q; cases b; cases e;
      simp add: cleared_values MediaTypePile_Clear_def empty_MediaTypePile_def KeyValPile_Clear_def ReqPile_Clear_def
        empty_ReqPile_def CountPile_Clear_def UrlPile_Clear_def QueryPile_Clear_def HeadersPile_Clear_def
        BodyPile_Clear_def new_BodyPile_def EnvelopPile_Clear_def empty_EnvelopPile_def LimitPile_Clear_def)+

lemma SessionDataPile_Clear_eq:
  "SessionDataPile_Clear p = empty_SessionDataPile
     \<lparr>SDQ_Req := empty_ReqPile\<lparr>RQ_HopIp := RQ_HopIp (SDQ_Req p)\<rparr>,
      SDQ_ReqBody := new_BodyPile\<lparr>BQ_Faults := BQ_Faults (SDQ_ReqBody p)\<rparr>,
      SDQ_RespBody := new_BodyPile\<lparr>BQ_Faults := BQ_Faults (SDQ_RespBody p)\<rparr>\<rparr>"
  by (simp add: SessionDataPile_Clear_def empty_SessionDataPile_def cleared RespPile_Clear_def empty_RespPile_def
      PodPile_Clear_def empty_PodPile_def HeadersPile_Clear_def CountPile_Clear_def)

lemma session_pwf_Clear: "session_pwf p \<Longrightarrow> session_pwf (SessionDataPile_Clear p)"
  using session.pwf_empty
  by (simp add: SessionDataPile_Clear_eq session_pwf_def empty_SessionDataPile_def empty_ReqPile_def req_pwf_def
      body_pwf_def new_BodyPile_def)

lemma SessionDataPile_Clear_Count [simp]: "SDQ_Count (SessionDataPile_Clear p) = 0"
  by (simp add: SessionDataPile_Clear_def)

text \<open>
  Clearing a pile empties everything but the hop addresses of its requests and the faults
  of its bodies, which the next samples are then added to.
\<close>

theorem Clear_leaves_hops_and_faults:
  "SessionDataPile_Clear p = empty_SessionDataPile
     \<lparr>SDQ_Req := empty_ReqPile\<lparr>RQ_HopIp := RQ_HopIp (SDQ_Req p)\<rparr>,
      SDQ_ReqBody := new_BodyPile\<lparr>BQ_Faults := BQ_Faults (SDQ_ReqBody p)\<rparr>,
      SDQ_RespBody := new_BodyPile\<lparr>BQ_Faults := BQ_Faults (SDQ_RespBody p)\<rparr>\<rparr>"
  by (rule SessionDataPile_Clear_eq)

end
