(* ===== verification/Utils.thy ===== *)
theory Utils
  imports Prelude
begin

text \<open>
  The helpers of \<open>pkg/guard-utils\<close> (statistics, names, intervals, log levels) and the registry of
  plugs and the once-only logger of \<open>pkg/pluginterfaces\<close>. What is printed or logged is not
  modelled; which messages are is.
\<close>

section \<open>Strings compared without case\<close>

text \<open>
  \<open>strings.EqualFold\<close> compares rune by rune up to case. Besides the letters of the other case
  only U+017F and U+212A fold to an ASCII rune, so this is exact when one side is ASCII, as
  everywhere in the program.
\<close>

definition fold_rune :: "nat \<Rightarrow> nat" where
  "fold_rune r =
     (if 65 \<le> r \<and> r \<le> 90 then r + 32 else if r = 0x17F then 115 else if r = 0x212A then 107 else r)"

definition EqualFold :: "string \<Rightarrow> string \<Rightarrow> bool" where
  "EqualFold s t \<longleftrightarrow> map fold_rune (runes s) = map fold_rune (runes t)"

lemma EqualFold_refl [simp]: "EqualFold s s"
  by (simp add: EqualFold_def)

section \<open>Statistics: \<open>stats.go\<close>\<close>

type_synonym Stat = "32 word gomap"

definition Stat_Init :: Stat where
  "Stat_Init = Some []"

definition Stat_Add :: "Stat \<Rightarrow> string \<Rightarrow> Stat res" where
  "Stat_Add s key = map_put s key ((case map_get s key of None \<Rightarrow> 0 | Some n \<Rightarrow> n) + 1)"

definition stat_of :: "Stat \<Rightarrow> string \<Rightarrow> 32 word" where
  "stat_of s key = (case map_get s key of None \<Rightarrow> 0 | Some n \<Rightarrow> n)"

lemma Stat_Add_ok: "s \<noteq> None \<Longrightarrow> ok (Stat_Add s key) (\<lambda>s'. s' \<noteq> None
    \<and> (\<forall>k. stat_of s' k = (if k = key then stat_of s k + 1 else stat_of s k)))"
  by (auto simp: Stat_Add_def stat_of_def)

section \<open>Names: \<open>santize.go\<close>\<close>

text \<open>
  The loop over the runes: whether it is at the first one, whether the last rune was
  alphanumeric, and None for the early returns of the empty string.
\<close>

fun sanitize_loop :: "bool \<Rightarrow> bool \<Rightarrow> nat list \<Rightarrow> bool option" where
  "sanitize_loop first alphanumeric [] = Some alphanumeric"
| "sanitize_loop first alphanumeric (r # rs) =
     (if (97 \<le> r \<and> r \<le> 122) \<or> (48 \<le> r \<and> r \<le> 57) then sanitize_loop False True rs
      else if r = 45 then (if first then None else sanitize_loop False False rs)
      else None)"

definition Sanitize :: "string \<Rightarrow> string" where
  "Sanitize s =
     (if length s > 60 then ''''
      else (case sanitize_loop True False (runes s) of
          None \<Rightarrow> ''''
        | Some alphanumeric \<Rightarrow> if \<not> alphanumeric then '''' else s))"

text \<open>The names the API server allows for services and namespaces.\<close>

definition alnum :: "char \<Rightarrow> bool" where
  "alnum c \<longleftrightarrow> (CHR ''a'' \<le> c \<and> c \<le> CHR ''z'') \<or> (CHR ''0'' \<le> c \<and> c \<le> CHR ''9'')"

definition dns_label :: "string \<Rightarrow> bool" where
  "dns_label s \<longleftrightarrow> s \<noteq> '''' \<and> length s \<le> 60 \<and> (\<forall>c \<in> set s. alnum c \<or> c = CHR ''-'') \<and> alnum (hd s) \<and> alnum (last s)"

definition alnum_rune :: "nat \<Rightarrow> bool" where
  "alnum_rune r \<longleftrightarrow> (97 \<le> r \<and> r \<le> 122) \<or> (48 \<le> r \<and> r \<le> 57)"

lemma sanitize_loop_eq:
  "sanitize_loop first a rs = Some True \<longleftrightarrow>
     (\<forall>r \<in> set rs. alnum_rune r \<or> r = 45) \<and> (rs = [] \<longrightarrow> a)
     \<and> (rs \<noteq> [] \<longrightarrow> alnum_rune (last rs) \<and> (first \<longrightarrow> alnum_rune (hd rs)))"
proof (induction rs arbitrary: first a)
  case (Cons r rs)
  have step: "sanitize_loop first a (r # rs) =
      (if alnum_rune r then sanitize_loop False True rs
       else if r = 45 then (if first then None else sanitize_loop False False rs) else None)"
    by (simp add: alnum_rune_def)
  have "\<not> alnum_rune 45" by (simp add: alnum_rune_def)
  then show ?case
    unfolding step using Cons.IH [of False True] Cons.IH [of False False]
    by (cases "rs = []") (auto split: if_splits)
qed simp

lemma Sanitize_eq: "Sanitize s = (if length s \<le> 60 \<and> sanitize_loop True False (runes s) = Some True then s else '''')"
  by (auto simp: Sanitize_def split: option.splits)

text \<open>A string whose runes are all ASCII is its runes.\<close>

lemma decode_rune_ascii: "fst (decode_rune b bs) < 0x80 \<Longrightarrow> b < 0x80 \<and> decode_rune b bs = (b, 0)"
  by (auto simp: decode_rune_def cont_byte_def split: if_splits)

lemma decode_runes_all_ascii: "\<forall>r \<in> set (decode_runes bs). r < 0x80 \<Longrightarrow> decode_runes bs = bs"
proof (induction bs rule: decode_runes.induct)
  case (2 b bs)
  then have d: "decode_rune b bs = (b, 0)" by (auto dest: decode_rune_ascii)
  with 2 show ?case by simp
qed simp

lemma runes_ascii: "(\<forall>r \<in> set (runes s). r < 0x80) \<longleftrightarrow> (\<forall>c \<in> set s. (of_char c :: nat) < 0x80)"
proof
  assume "\<forall>r \<in> set (runes s). r < 0x80"
  then have "decode_runes (map of_char s) = map of_char s"
    unfolding runes_def by (rule decode_runes_all_ascii)
  with \<open>\<forall>r \<in> set (runes s). r < 0x80\<close> show "\<forall>c \<in> set s. (of_char c :: nat) < 0x80"
    by (simp add: runes_def)
next
  assume "\<forall>c \<in> set s. (of_char c :: nat) < 0x80"
  then show "\<forall>r \<in> set (runes s). r < 0x80"
    using decode_runes_ascii [of "map of_char s"] by (simp add: runes_def)
qed

lemma runes_of_ascii: "\<forall>c \<in> set s. (of_char c :: nat) < 0x80 \<Longrightarrow> runes s = map of_char s"
  using decode_runes_ascii [of "map of_char s"] by (simp add: runes_def)

lemma alnum_alnum_rune: "alnum c \<longleftrightarrow> alnum_rune (of_char c)"
  by (simp add: alnum_def alnum_rune_def less_eq_char_def)

lemma dash_code: "c = CHR ''-'' \<longleftrightarrow> (of_char c :: nat) = 45"
proof
  assume "(of_char c :: nat) = 45"
  then have "(of_char c :: nat) = of_char (CHR ''-'')" by simp
  then show "c = CHR ''-''" by (simp only: of_char_eq_iff)
qed simp

lemma Sanitize_dns_label: "Sanitize s = (if dns_label s then s else '''')"
proof (cases "\<forall>c \<in> set s. (of_char c :: nat) < 0x80")
  case True
  then have r: "runes s = map of_char s" by (rule runes_of_ascii)
  have "sanitize_loop True False (runes s) = Some True \<longleftrightarrow>
      s \<noteq> '''' \<and> (\<forall>c \<in> set s. alnum c \<or> c = CHR ''-'') \<and> alnum (hd s) \<and> alnum (last s)"
    unfolding r sanitize_loop_eq alnum_alnum_rune dash_code
    by (cases "s = ''''") (auto simp: hd_map last_map)
  then show ?thesis by (auto simp: Sanitize_eq dns_label_def)
next
  case False
  then obtain r where r: "r \<in> set (runes s)" "\<not> r < 0x80" using runes_ascii by blast
  then have "\<not> (alnum_rune r \<or> r = 45)" by (simp add: alnum_rune_def)
  with r(1) have "sanitize_loop True False (runes s) \<noteq> Some True"
    unfolding sanitize_loop_eq by blast
  moreover have "\<not> dns_label s"
  proof
    assume "dns_label s"
    then have "\<forall>c \<in> set s. alnum_rune (of_char c) \<or> (of_char c :: nat) = 45"
      unfolding dns_label_def alnum_alnum_rune dash_code by blast
    with False show False by (auto simp: alnum_rune_def)
  qed
  ultimately show ?thesis by (simp add: Sanitize_eq)
qed

section \<open>Intervals: \<open>ticker.go\<close>\<close>

text \<open>
  Durations in nanoseconds; \<open>ticker\<close> is the period of the \<open>time.Ticker\<close> and whether it runs.
  \<open>time.ParseDuration\<close> is an argument; \<open>time.NewTicker\<close> panics unless its period is positive.
\<close>

record Ticker =
  minimumInterval :: int
  interval :: int
  ticker :: "(int \<times> bool) option"

definition NewTicker :: "int \<Rightarrow> Ticker" where
  "NewTicker minimum = \<lparr>minimumInterval = minimum, interval = 0, ticker = None\<rparr>"

definition time_NewTicker :: "int \<Rightarrow> (int \<times> bool) res" where
  "time_NewTicker d = (if d \<le> 0 then Inl (PanicMsg ''non-positive interval for NewTicker'') else Inr (d, True))"

text \<open>The ticker after \<open>Parse\<close>, and whether it returns an error.\<close>

definition Ticker_Parse :: "(string \<Rightarrow> int option) \<Rightarrow> Ticker \<Rightarrow> string \<Rightarrow> int \<Rightarrow> Ticker \<times> bool" where
  "Ticker_Parse ParseDuration t intervalStr defaultInterval =
     (let t = t\<lparr>interval := defaultInterval\<rparr> in
      if intervalStr = '''' then (t, False)
      else (case ParseDuration intervalStr of
          None \<Rightarrow> (t, True)
        | Some d \<Rightarrow> (t\<lparr>interval := d\<rparr>, False)))"

definition Ticker_Start :: "Ticker \<Rightarrow> Ticker res" where
  "Ticker_Start t =
     (let t = (if interval t < minimumInterval t then t\<lparr>interval := minimumInterval t\<rparr> else t) in
      bind_res (time_NewTicker (interval t)) (\<lambda>k. Inr (t\<lparr>ticker := Some k\<rparr>)))"

definition Ticker_Stop :: "Ticker \<Rightarrow> Ticker" where
  "Ticker_Stop t = t\<lparr>ticker := map_option (\<lambda>(d, _). (d, False)) (ticker t)\<rparr>"

definition Ticker_Ch :: "Ticker \<Rightarrow> Ticker res" where
  "Ticker_Ch t =
     (case ticker t of
        Some _ \<Rightarrow> Inr t
      | None \<Rightarrow> bind_res (time_NewTicker (minimumInterval t)) (\<lambda>(d, _). Inr (t\<lparr>ticker := Some (d, False)\<rparr>)))"

section \<open>Log levels: \<open>log.go\<close>\<close>

datatype log_level = DebugLevel | InfoLevel | WarnLevel | ErrorLevel

definition getLogLevel :: "string \<Rightarrow> log_level" where
  "getLogLevel level =
     (if level = ''debug'' then DebugLevel else if level = ''warn'' then WarnLevel
      else if level = ''error'' then ErrorLevel else InfoLevel)"

section \<open>Plugs and the once-only logger: \<open>pluginterfaces.go\<close>\<close>

text \<open>The registry holds the plugs by their names, in the order they registered.\<close>

type_synonym plugs = "string list"

definition GetPlugByName :: "plugs \<Rightarrow> string \<Rightarrow> string option" where
  "GetPlugByName roundTripPlugs name =
     (if length roundTripPlugs = 0 then None else List.find (\<lambda>p. EqualFold name p) roundTripPlugs)"

definition GetPlug :: "plugs \<Rightarrow> string option" where
  "GetPlug roundTripPlugs =
     (if length roundTripPlugs = 0 then None
      else if length roundTripPlugs > 1 then None
      else Some (roundTripPlugs ! 0))"

definition RegisterPlug :: "plugs \<Rightarrow> string \<Rightarrow> plugs" where
  "RegisterPlug roundTripPlugs p = roundTripPlugs @ [p]"

text \<open>The messages known at each level with how often they came; \<open>uint\<close> has 64 bits.\<close>

type_synonym LogOnce = "64 word gomap list"

definition new_LogOnce :: LogOnce where
  "new_LogOnce = replicate 4 (Some [])"

definition once :: "LogOnce \<Rightarrow> nat \<Rightarrow> string \<Rightarrow> (LogOnce \<times> bool) res" where
  "once known level str =
     bind_res (index_at known level) (\<lambda>m.
     let firstTime = (map_get m str = None) in
     bind_res (if firstTime then map_put m str 0 else Inr m) (\<lambda>m.
     bind_res (map_put m str ((case map_get m str of None \<Rightarrow> 0 | Some n \<Rightarrow> n) + 1)) (\<lambda>m.
     Inr (known[level := m], firstTime))))"

definition known_at :: "LogOnce \<Rightarrow> nat \<Rightarrow> string set" where
  "known_at known level = {s. map_get (known ! level) s \<noteq> None}"

definition logger_ok :: "LogOnce \<Rightarrow> bool" where
  "logger_ok known \<longleftrightarrow> length known = 4 \<and> (\<forall>l < 4. known ! l \<noteq> None)"

lemma once_ok:
  assumes "logger_ok known" and "level < 4"
  shows "ok (once known level s) (\<lambda>(known', first). logger_ok known' \<and> first = (s \<notin> known_at known level)
    \<and> (\<forall>l < 4. known_at known' l = (if l = level then insert s (known_at known l) else known_at known l)))"
proof -
  have m: "known ! level \<noteq> None" "level < length known" "length known = 4"
    using assms by (auto simp: logger_ok_def)
  then obtain kvs where kvs: "known ! level = Some kvs" by blast
  then show ?thesis
    using assms m
    by (auto simp: once_def index_at_def Let_def logger_ok_def known_at_def nth_list_update)
qed

section \<open>Properties\<close>

text \<open>
  C31. Sanitizing keeps a string exactly when it is a name the API server allows (at most sixty
  lower-case letters, digits and dashes that start and end alphanumeric, whatever its
  encoding) and returns the empty string otherwise; so it is idempotent.
\<close>

theorem Sanitize_spec: "Sanitize s = (if dns_label s then s else '''') \<and> Sanitize (Sanitize s) = Sanitize s"
  by (simp add: Sanitize_dns_label)

text \<open>
  A ticker with a positive minimum starts whatever interval was configured, never faster
  than the minimum, and its channel never panics afterwards.
\<close>

theorem Ticker_Start_safe:
  assumes "0 < m"
  shows "\<exists>t'. Ticker_Start (fst (Ticker_Parse ParseDuration (NewTicker m) s d)) = Inr t' \<and> m \<le> interval t'
    \<and> ticker t' = Some (interval t', True) \<and> Ticker_Ch t' = Inr t'"
  using assms
  by (auto simp: Ticker_Parse_def NewTicker_def Ticker_Start_def time_NewTicker_def Ticker_Ch_def Let_def split: option.splits)

theorem Ticker_Start_safe_witness:
  "\<exists>t'. Ticker_Start (fst (Ticker_Parse (\<lambda>_. Some (- 7)) (NewTicker 1000) ''-7ns'' 5)) = Inr t' \<and> 1000 \<le> interval t'
    \<and> ticker t' = Some (interval t', True) \<and> Ticker_Ch t' = Inr t'"
  by (rule Ticker_Start_safe) simp

end
