(* ===== verification/Kube_Mgr.thy ===== *)
theory Kube_Mgr
  imports Session_Data Utils
begin

text \<open>
  \<open>pkg/guard-kubemgr\<close>: guardians kept by the API server of the cluster, in a custom resource or
  in a ConfigMap, the identity behind a token, and the watch that reports changes. The API
  server, \<open>encoding/json\<close> on guardians and the JWT library are arguments, gathered in a record
  over the abstract state \<open>'k\<close> of the cluster; an error carries where it was raised.
\<close>

section \<open>The API server\<close>

datatype api_error = NotFound | OtherError

text \<open>What \<open>parseJwt\<close> finds in the claims of a token, as decoded JSON.\<close>

datatype claim = CString string | CMap "claim gomap" | COther

record 'k kube_api =
  cm_Get :: "'k \<Rightarrow> string \<Rightarrow> string \<Rightarrow> api_error + string gomap"
  cm_Delete :: "'k \<Rightarrow> string \<Rightarrow> string \<Rightarrow> 'k"
  cm_Create :: "'k \<Rightarrow> string \<Rightarrow> string \<Rightarrow> string gomap \<Rightarrow> 'k \<times> api_error option"
  cm_Update :: "'k \<Rightarrow> string \<Rightarrow> string \<Rightarrow> string gomap \<Rightarrow> 'k \<times> api_error option"
  crd_Get :: "'k \<Rightarrow> string \<Rightarrow> string \<Rightarrow> api_error + GuardianSpec option"
  crd_Delete :: "'k \<Rightarrow> string \<Rightarrow> string \<Rightarrow> 'k"
  crd_Create :: "'k \<Rightarrow> string \<Rightarrow> string \<Rightarrow> GuardianSpec option \<Rightarrow> 'k \<times> api_error option"
  crd_Patch :: "'k \<Rightarrow> string \<Rightarrow> string \<Rightarrow> string \<Rightarrow> 'k \<times> api_error option"
  pod_Delete :: "'k \<Rightarrow> string \<Rightarrow> string \<Rightarrow> 'k"
  pod_Labels :: "'k \<Rightarrow> string \<Rightarrow> string \<Rightarrow> api_error + string gomap"
  token_Review :: "'k \<Rightarrow> string \<Rightarrow> string list \<Rightarrow> api_error + bool"
  jwt_Parse :: "string \<Rightarrow> claim option"
  marshal_spec :: "GuardianSpec \<Rightarrow> string option"
  marshal_config :: "SessionDataConfig option \<Rightarrow> string option"
  unmarshal_spec :: "string \<Rightarrow> GuardianSpec \<times> bool"

text \<open>
  \<open>json.Marshal\<close> returns None for an error; \<open>json.Unmarshal\<close> into a new guardian returns what it
  left there and whether it succeeded.
\<close>

datatype kube_error =
  ReadError api_error | Malformed | UnmarshalError | MarshalError | CreateError api_error | UpdateError api_error
| PatchError api_error | TokenReviewError api_error | NotAuthenticated | BadClaims string | PodError api_error

section \<open>Reading\<close>

definition readCrd :: "'k kube_api \<Rightarrow> 'k \<Rightarrow> string \<Rightarrow> string \<Rightarrow> kube_error + GuardianSpec option" where
  "readCrd api k ns sid = (case crd_Get api k ns sid of Inl e \<Rightarrow> Inl (ReadError e) | Inr g \<Rightarrow> Inr g)"

definition readCm :: "'k kube_api \<Rightarrow> 'k \<Rightarrow> string \<Rightarrow> string \<Rightarrow> kube_error + GuardianSpec option" where
  "readCm api k ns sid =
     (let cmName = ''guardian.'' @ sid in
      case cm_Get api k ns cmName of
        Inl e \<Rightarrow> Inl (ReadError e)
      | Inr cm \<Rightarrow>
          (case map_get cm ''Guardian'' of
             None \<Rightarrow> Inl Malformed
           | Some gData \<Rightarrow>
               if length gData = 0 then Inl Malformed
               else (let (g, success) = unmarshal_spec api gData in
                     if \<not> success then Inl UnmarshalError else Inr (Some g))))"

definition Read :: "'k kube_api \<Rightarrow> 'k \<Rightarrow> string \<Rightarrow> string \<Rightarrow> bool \<Rightarrow> kube_error + GuardianSpec option" where
  "Read api k ns sid isCm = (if isCm then readCm api k ns sid else readCrd api k ns sid)"

section \<open>Creating\<close>

definition createCm :: "'k kube_api \<Rightarrow> 'k \<Rightarrow> string \<Rightarrow> string \<Rightarrow> GuardianSpec \<Rightarrow> 'k \<times> kube_error option" where
  "createCm api k ns sid guardianSpec =
     (let cmName = ''guardian.'' @ sid;
          k = cm_Delete api k ns cmName
      in case marshal_spec api guardianSpec of
           None \<Rightarrow> (k, Some MarshalError)
         | Some gBytes \<Rightarrow>
             (let (k, err) = cm_Create api k ns cmName (Some [(''Guardian'', gBytes)])
              in (k, map_option CreateError err)))"

definition createCrd :: "'k kube_api \<Rightarrow> 'k \<Rightarrow> string \<Rightarrow> string \<Rightarrow> GuardianSpec \<Rightarrow> 'k \<times> kube_error option" where
  "createCrd api k ns sid guardianSpec =
     (let k = crd_Delete api k ns sid;
          (k, err) = crd_Create api k ns sid (Some guardianSpec)
      in (k, map_option CreateError err))"

definition Create :: "'k kube_api \<Rightarrow> 'k \<Rightarrow> string \<Rightarrow> string \<Rightarrow> bool \<Rightarrow> GuardianSpec \<Rightarrow> 'k \<times> kube_error option" where
  "Create api k ns sid isCm guardianSpec =
     (if isCm then createCm api k ns sid guardianSpec else createCrd api k ns sid guardianSpec)"

section \<open>Storing\<close>

text \<open>What \<open>setCm\<close> writes: the stored guardian with the parts that are given; not the number of samples.\<close>

definition merge_spec :: "GuardianSpec \<Rightarrow> GuardianSpec \<Rightarrow> GuardianSpec" where
  "merge_spec g guardianSpec =
     (let g = (if Control guardianSpec \<noteq> None then g\<lparr>Control := Control guardianSpec\<rparr> else g);
          g = (if Configured guardianSpec \<noteq> None then g\<lparr>Configured := Configured guardianSpec\<rparr> else g)
      in if Learned guardianSpec \<noteq> None then g\<lparr>Learned := Learned guardianSpec\<rparr> else g)"

definition setCm :: "'k kube_api \<Rightarrow> 'k \<Rightarrow> string \<Rightarrow> string \<Rightarrow> GuardianSpec \<Rightarrow> ('k \<times> kube_error option) res" where
  "setCm api k ns sid guardianSpec =
     (let cmName = ''guardian.'' @ sid in
      case cm_Get api k ns cmName of
        Inl NotFound \<Rightarrow> Inr (createCm api k ns sid guardianSpec)
      | Inl OtherError \<Rightarrow> Inr (k, Some (ReadError OtherError))
      | Inr cm \<Rightarrow>
          (let (g, cm) =
             (case map_get cm ''Guardian'' of
                None \<Rightarrow> (new_GuardianSpec, Some [])
              | Some gData \<Rightarrow>
                  if length gData > 0
                  then (let (g, success) = unmarshal_spec api gData in (g, if success then cm else Some []))
                  else (new_GuardianSpec, Some []));
               g = merge_spec g guardianSpec
           in case marshal_spec api g of
                None \<Rightarrow> Inr (k, Some MarshalError)
              | Some gBytes \<Rightarrow>
                  bind_res (map_put cm ''Guardian'' gBytes) (\<lambda>cm.
                  let (k, err) = cm_Update api k ns cmName cm
                  in Inr (k, map_option UpdateError err))))"

text \<open>The patch document.\<close>

definition patch_string :: "string \<Rightarrow> 32 word \<Rightarrow> string" where
  "patch_string learned samples =
     ''[{'' @ [CHR 0x22] @ ''op'' @ [CHR 0x22] @ '':'' @ [CHR 0x22] @ ''replace'' @ [CHR 0x22] @ '','' @
     [CHR 0x22] @ ''path'' @ [CHR 0x22] @ '':'' @ [CHR 0x22] @ ''/spec/learned'' @ [CHR 0x22] @ '','' @
     [CHR 0x22] @ ''value'' @ [CHR 0x22] @ '':'' @ learned @ ''},{'' @
     [CHR 0x22] @ ''op'' @ [CHR 0x22] @ '':'' @ [CHR 0x22] @ ''replace'' @ [CHR 0x22] @ '','' @
     [CHR 0x22] @ ''path'' @ [CHR 0x22] @ '':'' @ [CHR 0x22] @ ''/spec/samples'' @ [CHR 0x22] @ '','' @
     [CHR 0x22] @ ''value'' @ [CHR 0x22] @ '':'' @ fmt_d (unat samples) @ ''}]''"

definition setCrd :: "'k kube_api \<Rightarrow> 'k \<Rightarrow> string \<Rightarrow> string \<Rightarrow> GuardianSpec \<Rightarrow> 'k \<times> kube_error option" where
  "setCrd api k ns sid guardianSpec =
     (case marshal_config api (Learned guardianSpec) of
        None \<Rightarrow> (k, Some MarshalError)
      | Some learned \<Rightarrow>
          (let str = patch_string learned (NumSamples guardianSpec);
               (k, errPatch) = crd_Patch api k ns sid str
           in case errPatch of
                None \<Rightarrow> (k, None)
              | Some e \<Rightarrow>
                  (case crd_Get api k ns sid of
                     Inr _ \<Rightarrow> (k, Some (PatchError e))
                   | Inl OtherError \<Rightarrow> (k, Some (ReadError OtherError))
                   | Inl NotFound \<Rightarrow> createCrd api k ns sid guardianSpec)))"

definition Set :: "'k kube_api \<Rightarrow> 'k \<Rightarrow> string \<Rightarrow> string \<Rightarrow> bool \<Rightarrow> GuardianSpec \<Rightarrow> ('k \<times> kube_error option) res" where
  "Set api k ns sid isCm guardianSpec =
     (if isCm then setCm api k ns sid guardianSpec else Inr (setCrd api k ns sid guardianSpec))"

section \<open>The guardian of a service\<close>

definition or_nil :: "kube_error + GuardianSpec option \<Rightarrow> GuardianSpec option" where
  "or_nil r = (case r of Inl _ \<Rightarrow> None | Inr g \<Rightarrow> g)"

definition GetGuardian :: "'k kube_api \<Rightarrow> 'k \<Rightarrow> string \<Rightarrow> string \<Rightarrow> bool \<Rightarrow> bool \<Rightarrow> GuardianSpec" where
  "GetGuardian api k ns sid cm autoActivate =
     (let g =
        (if \<not> EqualFold sid (''ns-'' @ ns)
         then (if cm
               then (case readCm api k ns sid of
                       Inr g \<Rightarrow> g
                     | Inl _ \<Rightarrow> or_nil (readCm api k ns (''ns-'' @ ns)))
               else (case readCrd api k ns sid of
                       Inr g \<Rightarrow> g
                     | Inl _ \<Rightarrow> or_nil (readCrd api k ns (''ns-'' @ ns))))
         else None)
      in case g of
           Some g \<Rightarrow> g
         | None \<Rightarrow> if autoActivate then SetToMaximalAutomation new_GuardianSpec else new_GuardianSpec)"

definition DeletePod :: "'k kube_api \<Rightarrow> 'k \<Rightarrow> string \<Rightarrow> string \<Rightarrow> 'k" where
  "DeletePod api k ns podname = pod_Delete api k ns podname"

section \<open>Tokens: \<open>token-handler.go\<close>\<close>

definition ServiceAudience :: string where
  "ServiceAudience = ''guard-service''"

definition validateToken :: "'k kube_api \<Rightarrow> 'k \<Rightarrow> string \<Rightarrow> kube_error option" where
  "validateToken api k token =
     (case token_Review api k token [ServiceAudience] of
        Inl e \<Rightarrow> Some (TokenReviewError e)
      | Inr authenticated \<Rightarrow> if \<not> authenticated then Some NotAuthenticated else None)"

definition claim_map :: "claim option \<Rightarrow> claim gomap option" where
  "claim_map c = (case c of Some (CMap m) \<Rightarrow> Some m | _ \<Rightarrow> None)"

definition claim_string :: "claim option \<Rightarrow> string option" where
  "claim_string c = (case c of Some (CString s) \<Rightarrow> Some s | _ \<Rightarrow> None)"

definition parseJwt :: "'k kube_api \<Rightarrow> string \<Rightarrow> kube_error + string \<times> string" where
  "parseJwt api token =
     (case jwt_Parse api token of
        None \<Rightarrow> Inl (BadClaims ''failed to parse jwtToken'')
      | Some jwt \<Rightarrow>
     case claim_map (Some jwt) of
        None \<Rightarrow> Inl (BadClaims ''claims.(jwt.MapClaims) failed'')
      | Some claims \<Rightarrow>
     case claim_map (map_get claims ''kubernetes.io'') of
        None \<Rightarrow> Inl (BadClaims ''claims[kubernetes.io] failed'')
      | Some data \<Rightarrow>
     case claim_string (map_get data ''namespace'') of
        None \<Rightarrow> Inl (BadClaims ''namespace failed'')
      | Some ns \<Rightarrow>
     if ns = '''' then Inl (BadClaims ''namespace empty'')
     else case claim_map (map_get data ''pod'') of
        None \<Rightarrow> Inl (BadClaims ''pod failed'')
      | Some podData \<Rightarrow>
     case claim_string (map_get podData ''name'') of
        None \<Rightarrow> Inl (BadClaims ''pod name failed'')
      | Some podname \<Rightarrow>
     if podname = '''' then Inl (BadClaims ''pod name empty'')
     else Inr (podname, ns))"

text \<open>
  The loop over the configured labels stops at the first label the pod has, even when its
  value is empty; an absent label leaves the empty string.
\<close>

fun find_label :: "string gomap \<Rightarrow> string list \<Rightarrow> string" where
  "find_label labels [] = ''''"
| "find_label labels (l # ls) = (case map_get labels l of Some sid \<Rightarrow> sid | None \<Rightarrow> find_label labels ls)"

definition getPodData :: "'k kube_api \<Rightarrow> 'k \<Rightarrow> string \<Rightarrow> string \<Rightarrow> string list \<Rightarrow> kube_error + string" where
  "getPodData api k podname ns labels =
     (case pod_Labels api k ns podname of
        Inl e \<Rightarrow> Inl (PodError e)
      | Inr podLabels \<Rightarrow>
          (let sid = find_label podLabels labels in
           if sid = '''' then
             (case map_get podLabels ''serving.knative.dev/service'' of
                Some sid \<Rightarrow> Inr sid
              | None \<Rightarrow>
                  (case map_get podLabels ''app'' of
                     Some sid \<Rightarrow> Inr sid
                   | None \<Rightarrow> Inr podname))
           else Inr sid))"

text \<open>The pod, the service and the namespace behind a token.\<close>

definition TokenData :: "'k kube_api \<Rightarrow> 'k \<Rightarrow> string \<Rightarrow> string list \<Rightarrow> kube_error + string \<times> string \<times> string" where
  "TokenData api k token labels =
     (case validateToken api k token of
        Some e \<Rightarrow> Inl e
      | None \<Rightarrow>
          (case parseJwt api token of
             Inl e \<Rightarrow> Inl e
           | Inr (podname, ns) \<Rightarrow>
               (case getPodData api k podname ns labels of
                  Inl e \<Rightarrow> Inl e
                | Inr sid \<Rightarrow> Inr (podname, sid, ns))))"

section \<open>The watch: \<open>watcher.go\<close>\<close>

datatype event_type = Added | Modified | Deleted | WatchError | Bookmark

text \<open>
  What arrives on the two channels or the timer. An object of another type is None; \<open>True\<close> with
  \<open>WatchError\<close> says that the object is a status, as the code assumes.
\<close>

datatype watch_event =
  CrdEvent event_type "(string \<times> string \<times> GuardianSpec option) option" bool
| CmEvent event_type "(string \<times> string \<times> string gomap) option" bool
| CrdClosed | CmClosed | WatchTimeout

text \<open>A call of \<open>set\<close>: namespace, service, flag and guardian (nil to delete).\<close>

type_synonym watch_update = "string \<times> string \<times> bool \<times> GuardianSpec option"

definition has_prefix :: "string \<Rightarrow> string \<Rightarrow> bool" where
  "has_prefix s p \<longleftrightarrow> take (length p) s = p"

text \<open>
  One turn of the loop: the update it makes, if any, and whether the loop goes on.
\<close>

definition watch_event_step :: "'k kube_api \<Rightarrow> bool \<Rightarrow> watch_event \<Rightarrow> watch_update option \<times> bool" where
  "watch_event_step api cmFlag ev =
     (case ev of
        CrdClosed \<Rightarrow> (None, False)
      | CmClosed \<Rightarrow> (None, False)
      | WatchTimeout \<Rightarrow> (None, False)
      | CrdEvent ty obj status \<Rightarrow>
          (case ty of
             WatchError \<Rightarrow> (None, status)
           | Bookmark \<Rightarrow> (None, True)
           | _ \<Rightarrow>
               (case obj of
                  None \<Rightarrow> (None, False)
                | Some (ns, sid, spec) \<Rightarrow>
                    if ty = Deleted then (Some (ns, sid, cmFlag, None), True)
                    else (Some (ns, sid, cmFlag, spec), True)))
      | CmEvent ty obj status \<Rightarrow>
          (case ty of
             WatchError \<Rightarrow> (None, status)
           | Bookmark \<Rightarrow> (None, True)
           | _ \<Rightarrow>
               (case obj of
                  None \<Rightarrow> (None, False)
                | Some (ns, sid, cm) \<Rightarrow>
                    if \<not> has_prefix sid ''guardian.'' \<or> has_prefix sid ''guardian.ns.'' then (None, True)
                    else if ty = Deleted then (Some (ns, sid, cmFlag, None), True)
                    else
                      (case map_get cm ''Guardian'' of
                         None \<Rightarrow> (Some (ns, sid, cmFlag, None), True)
                       | Some gdata \<Rightarrow>
                           if gdata = '''' then (Some (ns, sid, cmFlag, None), True)
                           else (let (g, success) = unmarshal_spec api gdata in
                                 if \<not> success then (Some (ns, sid, cmFlag, None), True)
                                 else (Some (ns, sid, cmFlag, Some g), True))))))"

text \<open>The loop over the events that arrive: the updates made until it returns.\<close>

fun WatchOnce :: "'k kube_api \<Rightarrow> bool \<Rightarrow> watch_event list \<Rightarrow> watch_update list" where
  "WatchOnce api cmFlag [] = []"
| "WatchOnce api cmFlag (ev # evs) =
     (let (upd, goes_on) = watch_event_step api cmFlag ev;
          now = (case upd of None \<Rightarrow> [] | Some u \<Rightarrow> [u])
      in if goes_on then now @ WatchOnce api cmFlag evs else now)"

section \<open>Properties\<close>

text \<open>The guardian a read finds: nothing when it fails or when the resource has no spec.\<close>

definition found :: "'k kube_api \<Rightarrow> 'k \<Rightarrow> string \<Rightarrow> string \<Rightarrow> bool \<Rightarrow> GuardianSpec option" where
  "found api k ns sid cm = or_nil (Read api k ns sid cm)"


text \<open>What the documentation of the cluster and of \<open>encoding/json\<close> promises.\<close>

definition cm_updates :: "'k kube_api \<Rightarrow> bool" where
  "cm_updates api \<longleftrightarrow> (\<forall>k ns n cm k'. cm_Update api k ns n cm = (k', None) \<longrightarrow> cm_Get api k' ns n = Inr cm)"

definition json_numbers :: "'k kube_api \<Rightarrow> bool" where
  "json_numbers api \<longleftrightarrow> (\<forall>g b. marshal_spec api g = Some b \<longrightarrow> b \<noteq> '''' \<and> snd (unmarshal_spec api b)
     \<and> NumSamples (fst (unmarshal_spec api b)) = NumSamples g \<and> Control (fst (unmarshal_spec api b)) = Control g)"

text \<open>
  Storing a guardian in an existing ConfigMap: when the call succeeds the guardian can be
  read back and has the control that was given, but its number of samples is still the one
  that was stored before, whatever the guardian given says.
\<close>

theorem setCm_forgets_samples:
  assumes "cm_updates api" and "json_numbers api"
    and "readCm api k ns sid = Inr (Some old)" and "setCm api k ns sid new = Inr (k', None)"
  shows "\<exists>g. readCm api k' ns sid = Inr (Some g) \<and> NumSamples g = NumSamples old
    \<and> Control g = (if Control new = None then Control old else Control new)"
proof -
  let ?n = "''guardian.'' @ sid"
  obtain cm where cm: "cm_Get api k ns ?n = Inr cm"
    using assms(3) by (auto simp: readCm_def Let_def split: sum.splits)
  obtain gData where gData: "map_get cm ''Guardian'' = Some gData" "gData \<noteq> ''''"
      "unmarshal_spec api gData = (old, True)"
    using assms(3) cm by (auto simp: readCm_def Let_def split: option.splits if_splits prod.splits)
  let ?g = "merge_spec old new"
  obtain kvs where kvs: "cm = Some kvs" using gData(1) by (cases cm) simp_all
  obtain b where b: "marshal_spec api ?g = Some b"
    using assms(4) cm gData by (auto simp: setCm_def Let_def split: option.splits)
  let ?cm = "Some (AList.update ''Guardian'' b kvs)"
  have "cm_Update api k ns ?n ?cm = (k', None)"
    using assms(4) cm gData kvs b by (auto simp: setCm_def Let_def split: prod.splits)
  then have "cm_Get api k' ns ?n = Inr ?cm" using assms(1) unfolding cm_updates_def by blast
  moreover have j: "b \<noteq> ''''" "snd (unmarshal_spec api b)" "NumSamples (fst (unmarshal_spec api b)) = NumSamples ?g"
      "Control (fst (unmarshal_spec api b)) = Control ?g"
    using assms(2) b unfolding json_numbers_def by blast+
  ultimately have "readCm api k' ns sid = Inr (Some (fst (unmarshal_spec api b)))"
    by (cases "unmarshal_spec api b") (simp add: readCm_def)
  moreover have "NumSamples ?g = NumSamples old" "Control ?g = (if Control new = None then Control old else Control new)"
    by (auto simp: merge_spec_def Let_def)
  ultimately show ?thesis using j by auto
qed

text \<open>A cluster with one ConfigMap, and a codec that keeps the number of samples in unary.\<close>

definition one_cm :: "string gomap kube_api" where
  "one_cm = \<lparr>cm_Get = \<lambda>k ns n. Inr k, cm_Delete = \<lambda>k ns n. None, cm_Create = \<lambda>k ns n cm. (cm, None),
     cm_Update = \<lambda>k ns n cm. (cm, None), crd_Get = \<lambda>k ns n. Inl NotFound, crd_Delete = \<lambda>k ns n. k,
     crd_Create = \<lambda>k ns n g. (k, None), crd_Patch = \<lambda>k ns n s. (k, Some NotFound), pod_Delete = \<lambda>k ns n. k,
     pod_Labels = \<lambda>k ns n. Inl NotFound, token_Review = \<lambda>k t a. Inr False, jwt_Parse = \<lambda>t. None,
     marshal_spec = \<lambda>g. if Control g = None then Some (CHR ''s'' # replicate (unat (NumSamples g)) (CHR ''1'')) else None,
     marshal_config = \<lambda>c. None,
     unmarshal_spec = \<lambda>s. (new_GuardianSpec\<lparr>NumSamples := of_nat (length s - 1)\<rparr>, True)\<rparr>"

theorem setCm_forgets_samples_witness:
  "\<exists>g. readCm one_cm (Some [(''Guardian'', ''s'')]) ''default'' ''shop'' = Inr (Some g) \<and> NumSamples g = 0
    \<and> Control g = (if Control (new_GuardianSpec\<lparr>NumSamples := 7\<rparr>) = None then Control new_GuardianSpec
                   else Control (new_GuardianSpec\<lparr>NumSamples := 7\<rparr>))"
proof -
  have "cm_updates one_cm" "json_numbers one_cm"
    by (auto simp: cm_updates_def json_numbers_def one_cm_def new_GuardianSpec_def split: if_splits)
  moreover have "readCm one_cm (Some [(''Guardian'', ''s'')]) ''default'' ''shop'' = Inr (Some new_GuardianSpec)"
    by (simp add: readCm_def one_cm_def new_GuardianSpec_def)
  moreover have "setCm one_cm (Some [(''Guardian'', ''s'')]) ''default'' ''shop'' (new_GuardianSpec\<lparr>NumSamples := 7\<rparr>)
      = Inr (Some [(''Guardian'', ''s'')], None)"
    by (simp add: setCm_def one_cm_def new_GuardianSpec_def merge_spec_def)
  ultimately have "\<exists>g. readCm one_cm (Some [(''Guardian'', ''s'')]) ''default'' ''shop'' = Inr (Some g)
      \<and> NumSamples g = NumSamples new_GuardianSpec
      \<and> Control g = (if Control (new_GuardianSpec\<lparr>NumSamples := 7\<rparr>) = None then Control new_GuardianSpec
                     else Control (new_GuardianSpec\<lparr>NumSamples := 7\<rparr>))"
    by (rule setCm_forgets_samples)
  then show ?thesis by (simp add: new_GuardianSpec_def)
qed

text \<open>
  C19. The identity behind a token: it is given only for a token that the API server
  authenticated for this service's audience; the namespace and the pod are the non-empty
  strings of its claims, and the service is named by the labels of that pod or, without any,
  by the pod itself.
\<close>

theorem TokenData_sound:
  assumes "TokenData api k token labels = Inr (podname, sid, ns)"
  shows "token_Review api k token [''guard-service''] = Inr True \<and> ns \<noteq> '''' \<and> podname \<noteq> ''''
    \<and> parseJwt api token = Inr (podname, ns)
    \<and> (\<exists>podLabels. pod_Labels api k ns podname = Inr podLabels
        \<and> (sid = podname \<or> (\<exists>l. map_get podLabels l = Some sid)))"
proof -
  have j: "validateToken api k token = None" "parseJwt api token = Inr (podname, ns)"
      "getPodData api k podname ns labels = Inr sid"
    using assms by (auto simp: TokenData_def split: option.splits sum.splits prod.splits)
  have lbl: "find_label m ls = '''' \<or> (\<exists>l. map_get m l = Some (find_label m ls))" for m ls
    by (induction ls) (auto split: option.splits)
  have "token_Review api k token [''guard-service''] = Inr True"
    using j(1) by (simp add: validateToken_def ServiceAudience_def split: sum.splits if_splits)
  moreover have "ns \<noteq> ''''" "podname \<noteq> ''''"
    using j(2) by (auto simp: parseJwt_def split: option.splits if_splits)
  moreover obtain m where "pod_Labels api k ns podname = Inr m" "sid = podname \<or> (\<exists>l. map_get m l = Some sid)"
    using j(3) lbl by (auto simp: getPodData_def Let_def split: sum.splits if_splits option.splits)
  ultimately show ?thesis using j(2) by blast
qed

definition token_api :: "unit kube_api" where
  "token_api = \<lparr>cm_Get = \<lambda>k ns n. Inl NotFound, cm_Delete = \<lambda>k ns n. k, cm_Create = \<lambda>k ns n cm. (k, None),
     cm_Update = \<lambda>k ns n cm. (k, None), crd_Get = \<lambda>k ns n. Inl NotFound, crd_Delete = \<lambda>k ns n. k,
     crd_Create = \<lambda>k ns n g. (k, None), crd_Patch = \<lambda>k ns n s. (k, Some NotFound), pod_Delete = \<lambda>k ns n. k,
     pod_Labels = \<lambda>k ns n. Inr (Some [(''app'', ''shop'')]), token_Review = \<lambda>k t a. Inr (t = ''t''),
     jwt_Parse = \<lambda>t. Some (CMap (Some [(''kubernetes.io'', CMap (Some [(''namespace'', CString ''default''),
       (''pod'', CMap (Some [(''name'', CString ''shop-1'')]))]))])),
     marshal_spec = \<lambda>g. None, marshal_config = \<lambda>c. None, unmarshal_spec = \<lambda>s. (new_GuardianSpec, False)\<rparr>"

theorem TokenData_sound_witness:
  "token_Review token_api () ''t'' [''guard-service''] = Inr True \<and> ''default'' \<noteq> '''' \<and> ''shop-1'' \<noteq> ''''
    \<and> parseJwt token_api ''t'' = Inr (''shop-1'', ''default'')
    \<and> (\<exists>podLabels. pod_Labels token_api () ''default'' ''shop-1'' = Inr podLabels
        \<and> (''shop'' = ''shop-1'' \<or> (\<exists>l. map_get podLabels l = Some ''shop'')))"
proof (rule TokenData_sound)
  show "TokenData token_api () ''t'' [] = Inr (''shop-1'', ''shop'', ''default'')"
    by (simp add: TokenData_def validateToken_def parseJwt_def getPodData_def token_api_def claim_map_def claim_string_def)
qed

end
