(* ===== verification/Services.thy ===== *)
theory Services
  imports Kube_Mgr Machines
begin

text \<open>
  \<open>cmd/guard-service/services.go\<close>: the records of the services under guard, cached by name,
  with their piles and guardians; how piles are merged, learned and persisted. Records are
  reached through pointers, which the cache and the work list of the ticker share: they live
  in a heap and a pointer is an index of it. Times are in nanoseconds; a call sees one time
  \<open>now\<close>. Goroutines that a call starts are recorded, to run as steps of their own.
\<close>

section \<open>State\<close>

definition pileMergeLimit :: "32 word" where "pileMergeLimit = 1000"
definition numSamplesLimit :: "32 word" where "numSamplesLimit = 1000000"
definition pileLearnMinTime :: int where "pileLearnMinTime = 30 * 1000000000"
definition guardianPersistMinTime :: int where "guardianPersistMinTime = 5 * 60 * 1000000000"

record serviceRecord =
  SR_ns :: string
  SR_sid :: string
  SR_cmFlag :: bool
  SR_guardianSpec :: GuardianSpec
  SR_pile :: SessionDataPile
  SR_pileLastLearn :: int
  SR_guardianLastPersist :: int
  SR_guardianPersistCounter :: "64 word"
  SR_guardianLearnCounter :: "64 word"
  SR_pileMergeCounter :: "64 word"
  SR_alerts :: "64 word"
  SR_deleted :: bool

record services =
  SV_heap :: "serviceRecord list"
  SV_cache :: "nat entries"
  SV_namespaces :: "bool entries"
  SV_records :: "nat list"
  SV_lastCreatedRecords :: int
  SV_watching :: "(string \<times> bool) list"
  SV_persisting :: "nat list"

text \<open>The zero of \<open>time.Time\<close>: the first of January of the year 1.\<close>

definition zero_time :: int where "zero_time = - 62135596800 * 1000000000"

definition newServices :: services where
  "newServices = \<lparr>SV_heap = [], SV_cache = [], SV_namespaces = [], SV_records = [], SV_lastCreatedRecords = zero_time,
     SV_watching = [], SV_persisting = []\<rparr>"

definition serviceKey :: "string \<Rightarrow> string \<Rightarrow> bool \<Rightarrow> string" where
  "serviceKey ns sid cmFlag =
     (let service = sid @ ''.'' @ ns in if cmFlag then service @ ''.cm'' else service)"

abbreviation record_at :: "services \<Rightarrow> nat \<Rightarrow> serviceRecord" where
  "record_at s a \<equiv> SV_heap s ! a"

definition put_record :: "nat \<Rightarrow> serviceRecord \<Rightarrow> services \<Rightarrow> services" where
  "put_record a r s = s\<lparr>SV_heap := (SV_heap s)[a := r]\<rparr>"

section \<open>Learning and persisting a record\<close>

text \<open>Whether to persist and whether to learn.\<close>

definition should :: "int \<Rightarrow> serviceRecord \<Rightarrow> bool \<times> bool" where
  "should now r =
     (if Learned (SR_guardianSpec r) = None then (True, True)
      else (now - SR_guardianLastPersist r > guardianPersistMinTime,
            SDQ_Count (SR_pile r) \<ge> pileMergeLimit \<or> NumSamples (SR_guardianSpec r) < SDQ_Count (SR_pile r) * 10
            \<or> now - SR_pileLastLearn r \<ge> pileLearnMinTime))"

definition learn_pile :: "ranger \<Rightarrow> int \<Rightarrow> serviceRecord \<Rightarrow> SessionDataConfig \<Rightarrow> serviceRecord res" where
  "learn_pile rr now r learned =
     bind_res (SessionDataConfig_Learn rr learned (SR_pile r)) (\<lambda>learned.
     let n = NumSamples (SR_guardianSpec r) + SDQ_Count (SR_pile r);
         n = (if n > numSamplesLimit then numSamplesLimit else n)
     in Inr (r\<lparr>SR_guardianSpec := (SR_guardianSpec r)\<lparr>Learned := Some learned, NumSamples := n\<rparr>,
          SR_pileLastLearn := now, SR_pile := SessionDataPile_Clear (SR_pile r),
          SR_guardianLearnCounter := SR_guardianLearnCounter r + 1\<rparr>))"

text \<open>The record after the call, whether it starts to persist, and what it returns.\<close>

definition learnAndPersistGuardian :: "ranger \<Rightarrow> int \<Rightarrow> serviceRecord \<Rightarrow> (serviceRecord \<times> bool \<times> bool) res" where
  "learnAndPersistGuardian rr now r =
     (let (shouldPersist, shouldLearn) = should now r;
          learned = or_new new_SessionDataConfig (Learned (SR_guardianSpec r));
          r = r\<lparr>SR_guardianSpec := (SR_guardianSpec r)\<lparr>Learned := Some learned\<rparr>\<rparr>
      in bind_res (if shouldLearn \<and> SDQ_Count (SR_pile r) > 0 then learn_pile rr now r learned else Inr r) (\<lambda>r.
         if shouldPersist \<and> SR_guardianLastPersist r < SR_pileLastLearn r
         then Inr (r\<lparr>SR_guardianLastPersist := now, SR_guardianPersistCounter := SR_guardianPersistCounter r + 1\<rparr>,
                True, shouldPersist)
         else Inr (r, False, shouldPersist)))"

text \<open>The same on a record of the heap.\<close>

definition learn_at :: "ranger \<Rightarrow> int \<Rightarrow> nat \<Rightarrow> services \<Rightarrow> (services \<times> bool) res" where
  "learn_at rr now a s =
     bind_res (learnAndPersistGuardian rr now (record_at s a)) (\<lambda>(r, persist, result).
     let s = put_record a r s
     in Inr (if persist then s\<lparr>SV_persisting := SV_persisting s @ [a]\<rparr> else s, result))"

definition mergeAndLearnAndPersistGuardian ::
    "ranger \<Rightarrow> int \<Rightarrow> nat \<Rightarrow> SessionDataPile option \<Rightarrow> services \<Rightarrow> services res" where
  "mergeAndLearnAndPersistGuardian rr now a pile s =
     bind_res
       (case pile of
          None \<Rightarrow> Inr s
        | Some q \<Rightarrow>
            if SDQ_Count q > 0 then
              (let r = record_at s a in
               bind_res (SessionDataPile_Merge (SR_pile r) q) (\<lambda>p.
               Inr (put_record a (r\<lparr>SR_pile := p, SR_pileMergeCounter := SR_pileMergeCounter r + 1\<rparr>) s)))
            else Inr s)
       (\<lambda>s. bind_res (learn_at rr now a s) (\<lambda>(s, _). Inr s))"

text \<open>The goroutine that \<open>go s.persistGuardian(record)\<close> starts: an error is only logged.\<close>

definition persistGuardian :: "'k kube_api \<Rightarrow> serviceRecord \<Rightarrow> 'k \<Rightarrow> 'k res" where
  "persistGuardian api r k =
     bind_res (Set api k (SR_ns r) (SR_sid r) (SR_cmFlag r) (SR_guardianSpec r)) (\<lambda>(k, _). Inr k)"

definition deletePod :: "'k kube_api \<Rightarrow> serviceRecord \<Rightarrow> string \<Rightarrow> 'k \<Rightarrow> 'k" where
  "deletePod api r podname k = DeletePod api k (SR_ns r) podname"

section \<open>The ticker\<close>

definition cached_in_order :: "order \<Rightarrow> services \<Rightarrow> nat list" where
  "cached_in_order ro s = map snd (range_over ro (SV_cache s))"

definition createRecords :: "ranger \<Rightarrow> int \<Rightarrow> services \<Rightarrow> services" where
  "createRecords rr now s =
     (if now - SV_lastCreatedRecords s < guardianPersistMinTime then s
      else s\<lparr>SV_lastCreatedRecords := now, SV_records := cached_in_order (rr ''createRecords'') s\<rparr>)"

definition flushTickerRecords :: "ranger \<Rightarrow> services \<Rightarrow> services" where
  "flushTickerRecords rr s =
     fold (\<lambda>a s. let r = record_at s a
                 in (put_record a (r\<lparr>SR_pileLastLearn := 0, SR_guardianLastPersist := 0\<rparr>) s)\<lparr>SV_records := SV_records s @ [a]\<rparr>)
       (cached_in_order (rr ''flushTickerRecords'') s) (s\<lparr>SV_records := []\<rparr>)"

text \<open>
  The loop over the records of this tick; \<open>i\<close> records are done, \<open>persistCounter\<close> of them count
  as persisted. It returns the index it stopped at.
\<close>

fun tick_loop :: "ranger \<Rightarrow> int \<Rightarrow> nat list \<Rightarrow> nat \<Rightarrow> nat \<Rightarrow> services \<Rightarrow> (services \<times> nat) res" where
  "tick_loop rr now [] i persistCounter s = Inr (s, i)"
| "tick_loop rr now (a # as) i persistCounter s =
     (if \<not> SR_deleted (record_at s a) then
        bind_res (learn_at rr now a s) (\<lambda>(s, persisted).
          if persisted then
            (if persistCounter + 1 > 10 then Inr (s, i + 1)
             else tick_loop rr now as (i + 1) (persistCounter + 1) s)
          else tick_loop rr now as (i + 1) persistCounter s)
      else tick_loop rr now as (i + 1) persistCounter s)"

definition tick :: "ranger \<Rightarrow> int \<Rightarrow> services \<Rightarrow> services res" where
  "tick rr now s =
     (let numRecordsToProcess = length (SV_records s) in
      if numRecordsToProcess = 0 then Inr (createRecords rr now s)
      else
        (let numRecordsToProcess = (if numRecordsToProcess > 100 then 100 else numRecordsToProcess)
         in bind_res (tick_loop rr now (take numRecordsToProcess (SV_records s)) 0 0 s) (\<lambda>(s, i).
            Inr (s\<lparr>SV_records := drop i (SV_records s)\<rparr>))))"

section \<open>The cache\<close>

definition delete_service :: "string \<Rightarrow> string \<Rightarrow> bool \<Rightarrow> services \<Rightarrow> services" where
  "delete_service ns sid cmFlag s =
     (let service = serviceKey ns sid cmFlag;
          s = (case map_of (SV_cache s) service of
                 Some a \<Rightarrow> put_record a ((record_at s a)\<lparr>SR_deleted := True\<rparr>) s
               | None \<Rightarrow> s)
      in s\<lparr>SV_cache := AList.delete service (SV_cache s)\<rparr>)"

definition prepared :: "ranger \<Rightarrow> GuardianSpec \<Rightarrow> GuardianSpec res" where
  "prepared rr g =
     (case Learned g of
        None \<Rightarrow> Inr g
      | Some c \<Rightarrow> bind_res (SessionDataConfig_Prepare rr c) (\<lambda>c. Inr (g\<lparr>Learned := Some c\<rparr>)))"

definition new_serviceRecord :: "string \<Rightarrow> string \<Rightarrow> bool \<Rightarrow> serviceRecord" where
  "new_serviceRecord ns sid cmFlag =
     \<lparr>SR_ns = ns, SR_sid = sid, SR_cmFlag = cmFlag, SR_guardianSpec = new_GuardianSpec,
      SR_pile = SessionDataPile_Clear empty_SessionDataPile, SR_pileLastLearn = 0, SR_guardianLastPersist = 0,
      SR_guardianPersistCounter = 0, SR_guardianLearnCounter = 0, SR_pileMergeCounter = 0, SR_alerts = 0,
      SR_deleted = False\<rparr>"

text \<open>The services and the pointer returned.\<close>

definition set_service :: "ranger \<Rightarrow> string \<Rightarrow> string \<Rightarrow> bool \<Rightarrow> GuardianSpec \<Rightarrow> services \<Rightarrow> (services \<times> nat) res" where
  "set_service rr ns sid cmFlag guardianSpec s =
     bind_res (prepared rr guardianSpec) (\<lambda>guardianSpec.
     let service = serviceKey ns sid cmFlag;
         (s, a) =
           (case map_of (SV_cache s) service of
              Some a \<Rightarrow> (s, a)
            | None \<Rightarrow>
                (let a = length (SV_heap s)
                 in (s\<lparr>SV_heap := SV_heap s @ [new_serviceRecord ns sid cmFlag],
                       SV_cache := AList.update service a (SV_cache s)\<rparr>, a)))
     in Inr (put_record a ((record_at s a)\<lparr>SR_guardianSpec := guardianSpec\<rparr>) s, a))"

definition get_service ::
    "'k kube_api \<Rightarrow> 'k \<Rightarrow> ranger \<Rightarrow> string \<Rightarrow> string \<Rightarrow> bool \<Rightarrow> services \<Rightarrow> (services \<times> nat) res" where
  "get_service api k rr ns sid cmFlag s =
     (let service = serviceKey ns sid cmFlag;
          knownNamespace = (map_of (SV_namespaces s) ns \<noteq> None);
          s = (if \<not> knownNamespace
               then s\<lparr>SV_namespaces := AList.update ns True (SV_namespaces s),
                      SV_watching := SV_watching s @ [(ns, cmFlag)]\<rparr>
               else s)
      in case map_of (SV_cache s) service of
           Some a \<Rightarrow> Inr (s, a)
         | None \<Rightarrow> set_service rr ns sid cmFlag (GetGuardian api k ns sid cmFlag True) s)"

definition update_service :: "ranger \<Rightarrow> watch_update \<Rightarrow> services \<Rightarrow> services res" where
  "update_service rr u s =
     (case u of (ns, sid, cmFlag, guardianSpec) \<Rightarrow>
       (case guardianSpec of
          None \<Rightarrow> Inr (delete_service ns sid cmFlag s)
        | Some g \<Rightarrow> bind_res (set_service rr ns sid cmFlag g s) (\<lambda>(s, _). Inr s)))"

section \<open>Invariants\<close>

definition record_ok :: "serviceRecord \<Rightarrow> bool" where
  "record_ok r \<longleftrightarrow> session_pwf (SR_pile r) \<and> (\<forall>c. Learned (SR_guardianSpec r) = Some c \<longrightarrow> session_cwf c)"

definition same_service :: "serviceRecord \<Rightarrow> serviceRecord \<Rightarrow> bool" where
  "same_service r r' \<longleftrightarrow> SR_ns r' = SR_ns r \<and> SR_sid r' = SR_sid r \<and> SR_cmFlag r' = SR_cmFlag r \<and> SR_deleted r' = SR_deleted r"

definition entry_ok :: "services \<Rightarrow> string \<times> nat \<Rightarrow> bool" where
  "entry_ok s e \<longleftrightarrow> snd e < length (SV_heap s) \<and> \<not> SR_deleted (record_at s (snd e))
     \<and> fst e = serviceKey (SR_ns (record_at s (snd e))) (SR_sid (record_at s (snd e))) (SR_cmFlag (record_at s (snd e)))"

definition services_ok :: "services \<Rightarrow> bool" where
  "services_ok s \<longleftrightarrow> (\<forall>r \<in> set (SV_heap s). record_ok r) \<and> kvs_ok (SV_cache s) \<and> distinct (map snd (SV_cache s))
     \<and> (\<forall>e \<in> set (SV_cache s). entry_ok s e)
     \<and> (\<forall>a \<in> set (SV_records s). a < length (SV_heap s)) \<and> (\<forall>a \<in> set (SV_persisting s). a < length (SV_heap s))"

lemma services_ok_record: "services_ok s \<Longrightarrow> a < length (SV_heap s) \<Longrightarrow> record_ok (record_at s a)"
  by (simp add: services_ok_def)

lemma same_service_refl [simp]: "same_service r r"
  by (simp add: same_service_def)

lemma put_record_simps [simp]:
  "length (SV_heap (put_record a r s)) = length (SV_heap s)" "SV_cache (put_record a r s) = SV_cache s"
  "SV_records (put_record a r s) = SV_records s" "SV_persisting (put_record a r s) = SV_persisting s"
  "SV_namespaces (put_record a r s) = SV_namespaces s"
  "record_at (put_record a r s) b = (if b = a \<and> a < length (SV_heap s) then r else record_at s b)"
  by (auto simp: put_record_def nth_list_update list_update_beyond not_less)

text \<open>Writing a record back that is still the record of the same service keeps the invariant.\<close>

lemma put_record_ok:
  assumes "services_ok s" and "a < length (SV_heap s)" and "record_ok r" and "same_service (record_at s a) r"
  shows "services_ok (put_record a r s)"
proof -
  have "\<forall>x \<in> set (SV_heap (put_record a r s)). record_ok x"
    using assms(1,3) set_update_subset_insert [of "SV_heap s" a r] by (auto simp: services_ok_def put_record_def)
  moreover have "\<forall>e \<in> set (SV_cache s). entry_ok (put_record a r s) e"
  proof -
    have "\<forall>e \<in> set (SV_cache s). entry_ok s e" using assms(1) by (simp add: services_ok_def)
    moreover have "entry_ok s e \<Longrightarrow> entry_ok (put_record a r s) e" for e
      using assms(2,4) by (cases "snd e = a") (simp_all add: entry_ok_def same_service_def)
    ultimately show ?thesis by blast
  qed
  ultimately show ?thesis
    using assms(1) unfolding services_ok_def by simp
qed

section \<open>What learning does to a record\<close>

lemma learn_pile_ok:
  assumes "fair_ranger rr" and "record_ok r" and "session_cwf c"
  shows "ok (learn_pile rr now r c) (\<lambda>r'. record_ok r' \<and> same_service r r' \<and> SDQ_Count (SR_pile r') = 0
    \<and> NumSamples (SR_guardianSpec r') \<le> numSamplesLimit \<and> SR_pileLastLearn r' = now
    \<and> SR_guardianLastPersist r' = SR_guardianLastPersist r
    \<and> (\<exists>c'. Learned (SR_guardianSpec r') = Some c' \<and> (\<forall>u. session_covers (SR_pile r) u \<longrightarrow> session_accepts c' u)))"
  unfolding learn_pile_def
  using SessionDataConfig_Learn_ok [OF assms(1,3), of "SR_pile r"] assms(2)
  by (intro ok_bindI [where P = "\<lambda>c'. session_cwf c' \<and> (\<forall>u. session_covers (SR_pile r) u \<longrightarrow> session_accepts c' u)"])
    (auto simp: record_ok_def Let_def same_service_def session_pwf_Clear elim: ok_mono)

text \<open>The criteria a record learns on, and the whole call.\<close>

definition learns :: "int \<Rightarrow> serviceRecord \<Rightarrow> bool" where
  "learns now r \<longleftrightarrow> snd (should now r) \<and> SDQ_Count (SR_pile r) > 0"

lemma session_cwf_or_new: "record_ok r \<Longrightarrow> session_cwf (or_new new_SessionDataConfig (Learned (SR_guardianSpec r)))"
  by (auto simp: record_ok_def or_new_def session_cwf_new split: option.splits)

lemma learnAndPersist_ok:
  assumes "fair_ranger rr" and "record_ok r"
  shows "ok (learnAndPersistGuardian rr now r) (\<lambda>(r', persist, result).
    record_ok r' \<and> same_service r r' \<and> result = fst (should now r)
    \<and> (\<exists>c'. Learned (SR_guardianSpec r') = Some c' \<and>
        (learns now r \<longrightarrow> (\<forall>u. session_covers (SR_pile r) u \<longrightarrow> session_accepts c' u)))
    \<and> (if learns now r
       then SDQ_Count (SR_pile r') = 0 \<and> NumSamples (SR_guardianSpec r') \<le> numSamplesLimit \<and> SR_pileLastLearn r' = now
         \<and> persist = (result \<and> SR_guardianLastPersist r < now)
       else SR_pile r' = SR_pile r \<and> NumSamples (SR_guardianSpec r') = NumSamples (SR_guardianSpec r)
         \<and> SR_pileLastLearn r' = SR_pileLastLearn r \<and> persist = (result \<and> SR_guardianLastPersist r < SR_pileLastLearn r)))"
proof -
  let ?c = "or_new new_SessionDataConfig (Learned (SR_guardianSpec r))"
  let ?r = "r\<lparr>SR_guardianSpec := (SR_guardianSpec r)\<lparr>Learned := Some ?c\<rparr>\<rparr>"
  obtain sp sl where should: "should now r = (sp, sl)" by (cases "should now r")
  have c: "session_cwf ?c" by (rule session_cwf_or_new [OF assms(2)])
  have r: "record_ok ?r" "same_service r ?r"
    using assms(2) c by (auto simp: record_ok_def same_service_def)
  show ?thesis
  proof (cases "learns now r")
    case True
    from learn_pile_ok [OF assms(1) r(1) c, of now] obtain r1 c1 where r1: "learn_pile rr now ?r ?c = Inr r1" "record_ok r1"
      "same_service ?r r1" "SDQ_Count (SR_pile r1) = 0" "NumSamples (SR_guardianSpec r1) \<le> numSamplesLimit"
      "SR_pileLastLearn r1 = now" "SR_guardianLastPersist r1 = SR_guardianLastPersist r"
      "Learned (SR_guardianSpec r1) = Some c1" "\<forall>u. session_covers (SR_pile r) u \<longrightarrow> session_accepts c1 u"
      by (auto simp: ok_iff)
    have "same_service r r1" using r1(3) by (simp add: same_service_def)
    then show ?thesis
      using True should r1 unfolding learnAndPersistGuardian_def
      by (simp add: learns_def Let_def) (auto simp: record_ok_def same_service_def)
  next
    case False
    then show ?thesis
      using should r assms(2) c unfolding learnAndPersistGuardian_def
      by (auto simp: learns_def Let_def record_ok_def same_service_def)
  qed
qed

section \<open>Every operation keeps the invariant\<close>

text \<open>What the operations on one record leave alone: the other records, the cache, the work list.\<close>

definition touches :: "nat \<Rightarrow> services \<Rightarrow> services \<Rightarrow> bool" where
  "touches a s s' \<longleftrightarrow> length (SV_heap s') = length (SV_heap s) \<and> SV_cache s' = SV_cache s \<and> SV_records s' = SV_records s
     \<and> SV_namespaces s' = SV_namespaces s \<and> SV_watching s' = SV_watching s
     \<and> (\<forall>b. b \<noteq> a \<longrightarrow> record_at s' b = record_at s b) \<and> same_service (record_at s a) (record_at s' a)"

lemma services_ok_persisting:
  "services_ok s \<Longrightarrow> a < length (SV_heap s) \<Longrightarrow> services_ok (s\<lparr>SV_persisting := SV_persisting s @ [a]\<rparr>)"
  by (simp add: services_ok_def entry_ok_def ball_Un)

lemma services_ok_records:
  "services_ok s \<Longrightarrow> \<forall>a \<in> set as. a < length (SV_heap s) \<Longrightarrow> services_ok (s\<lparr>SV_records := as\<rparr>)"
  by (simp add: services_ok_def entry_ok_def)

lemma put_record_watching [simp]: "SV_watching (put_record a r s) = SV_watching s"
  by (simp add: put_record_def)

lemma learn_at_ok:
  assumes "fair_ranger rr" and "services_ok s" and "a < length (SV_heap s)"
  shows "ok (learn_at rr now a s) (\<lambda>(s', result). services_ok s' \<and> touches a s s'
    \<and> result = fst (should now (record_at s a))
    \<and> (\<exists>c'. Learned (SR_guardianSpec (record_at s' a)) = Some c'
         \<and> (\<forall>u. session_covers (SR_pile (record_at s a)) u \<longrightarrow>
                 session_accepts c' u \<or> session_covers (SR_pile (record_at s' a)) u))
    \<and> (learns now (record_at s a) \<longrightarrow> NumSamples (SR_guardianSpec (record_at s' a)) \<le> numSamplesLimit))"
proof -
  let ?r = "record_at s a"
  from learnAndPersist_ok [OF assms(1) services_ok_record [OF assms(2,3)], of now]
  obtain r' persist result where r': "learnAndPersistGuardian rr now ?r = Inr (r', persist, result)"
    and rec: "record_ok r'" "same_service ?r r'" "result = fst (should now ?r)"
    and c: "\<exists>c'. Learned (SR_guardianSpec r') = Some c' \<and>
        (learns now ?r \<longrightarrow> (\<forall>u. session_covers (SR_pile ?r) u \<longrightarrow> session_accepts c' u))"
    and p: "\<not> learns now ?r \<Longrightarrow> SR_pile r' = SR_pile ?r" "learns now ?r \<Longrightarrow> NumSamples (SR_guardianSpec r') \<le> numSamplesLimit"
    by (fastforce simp: ok_iff split: if_splits)
  let ?s = "put_record a r' s"
  let ?t = "if persist then ?s\<lparr>SV_persisting := SV_persisting ?s @ [a]\<rparr> else ?s"
  have "services_ok ?s" by (rule put_record_ok [OF assms(2,3) rec(1,2)])
  then have "services_ok ?t" using services_ok_persisting [of ?s a] assms(3) by simp
  moreover have "touches a s ?t" using rec(2) assms(3) by (simp add: touches_def)
  moreover have "record_at ?t a = r'" using assms(3) by simp
  ultimately show ?thesis
    using r' rec(3) c p by (cases "learns now ?r") (auto simp: learn_at_def Let_def)
qed

lemma merge_at_ok:
  assumes "services_ok s" and "a < length (SV_heap s)" and "session_pwf q"
  shows "ok (SessionDataPile_Merge (SR_pile (record_at s a)) q) (\<lambda>p. 
     let s' = put_record a ((record_at s a)\<lparr>SR_pile := p, SR_pileMergeCounter := n\<rparr>) s in
     services_ok s' \<and> touches a s s' \<and> SR_guardianSpec (record_at s' a) = SR_guardianSpec (record_at s a)
     \<and> (\<forall>u. session_covers (SR_pile (record_at s a)) u \<longrightarrow> session_covers (SR_pile (record_at s' a)) u)
     \<and> (\<forall>u. session_covers q u \<longrightarrow> RP_HopIp (SDP_Req u) = [] \<longrightarrow> session_covers (SR_pile (record_at s' a)) u))"
proof -
  let ?r = "record_at s a"
  have "record_ok ?r" by (rule services_ok_record [OF assms(1,2)])
  then have "session_pwf (SR_pile ?r)" by (simp add: record_ok_def)
  then show ?thesis
  proof (rule ok_mono [OF SessionDataPile_Merge_ok [OF _ assms(3)]])
    fix p assume p: "session_pwf p \<and> (\<forall>u. session_covers (SR_pile ?r) u \<longrightarrow> session_covers p u) \<and>
      (\<forall>u. session_covers q u \<longrightarrow> RP_HopIp (SDP_Req u) = [] \<longrightarrow> session_covers p u) \<and> SDQ_Count p = SDQ_Count (SR_pile ?r) + SDQ_Count q"
    let ?r' = "?r\<lparr>SR_pile := p, SR_pileMergeCounter := n\<rparr>"
    have "record_ok ?r'" using p \<open>record_ok ?r\<close> by (simp add: record_ok_def)
    moreover have "same_service ?r ?r'" by (simp add: same_service_def)
    ultimately have "services_ok (put_record a ?r' s)" "touches a s (put_record a ?r' s)"
      using put_record_ok [OF assms(1,2)] assms(2) by (simp_all add: touches_def)
    then show "let s' = put_record a ?r' s in services_ok s' \<and> touches a s s' \<and> SR_guardianSpec (record_at s' a) = SR_guardianSpec ?r
       \<and> (\<forall>u. session_covers (SR_pile ?r) u \<longrightarrow> session_covers (SR_pile (record_at s' a)) u)
       \<and> (\<forall>u. session_covers q u \<longrightarrow> RP_HopIp (SDP_Req u) = [] \<longrightarrow> session_covers (SR_pile (record_at s' a)) u)"
      using p assms(2) by (simp add: Let_def)
  qed
qed

lemma touches_trans: "touches a s t \<Longrightarrow> touches a t u \<Longrightarrow> touches a s u"
  by (simp add: touches_def same_service_def)

lemma touches_refl [simp]: "touches a s s"
  by (simp add: touches_def)

text \<open>A pile taken in: what it holds is accepted by the criteria or still in the pile.\<close>

definition taken_in :: "serviceRecord \<Rightarrow> SessionDataProfile \<Rightarrow> bool" where
  "taken_in r u \<longleftrightarrow> (\<exists>c. Learned (SR_guardianSpec r) = Some c \<and> session_accepts c u) \<or> session_covers (SR_pile r) u"

lemma learn_at_taken_in:
  assumes "fair_ranger rr" and "services_ok s" and "a < length (SV_heap s)"
  shows "ok (learn_at rr now a s) (\<lambda>(s', result). services_ok s' \<and> touches a s s'
    \<and> Learned (SR_guardianSpec (record_at s' a)) \<noteq> None
    \<and> (\<forall>u. session_covers (SR_pile (record_at s a)) u \<longrightarrow> taken_in (record_at s' a) u))"
  by (rule ok_mono [OF learn_at_ok [OF assms]]) (auto simp: taken_in_def)

lemma mergeAndLearn_ok:
  assumes "fair_ranger rr" and "services_ok s" and "a < length (SV_heap s)" and "\<And>q. pile = Some q \<Longrightarrow> session_pwf q"
  shows "ok (mergeAndLearnAndPersistGuardian rr now a pile s) (\<lambda>s'. services_ok s' \<and> touches a s s'
    \<and> Learned (SR_guardianSpec (record_at s' a)) \<noteq> None
    \<and> (\<forall>u. session_covers (SR_pile (record_at s a)) u \<longrightarrow> taken_in (record_at s' a) u)
    \<and> (\<forall>q u. pile = Some q \<longrightarrow> SDQ_Count q > 0 \<longrightarrow> session_covers q u \<longrightarrow> RP_HopIp (SDP_Req u) = [] \<longrightarrow> taken_in (record_at s' a) u))"
  (is "ok _ ?Q")
proof -
  let ?M = "\<lambda>t. services_ok t \<and> touches a s t
    \<and> (\<forall>u. session_covers (SR_pile (record_at s a)) u \<longrightarrow> session_covers (SR_pile (record_at t a)) u)
    \<and> (\<forall>q u. pile = Some q \<longrightarrow> SDQ_Count q > 0 \<longrightarrow> session_covers q u \<longrightarrow> RP_HopIp (SDP_Req u) = [] \<longrightarrow> session_covers (SR_pile (record_at t a)) u)"
  have learn: "ok (bind_res (learn_at rr now a t) (\<lambda>(s, _). Inr s)) ?Q" if "?M t" for t
  proof -
    have "a < length (SV_heap t)" using that assms(3) by (simp add: touches_def)
    moreover have "services_ok t" using that by blast
    ultimately show ?thesis
      using that unfolding ok_bind
      by (intro ok_mono [OF learn_at_taken_in [OF assms(1), of t a now]]) (auto intro: touches_trans)
  qed
  show ?thesis
  proof (cases "\<exists>q. pile = Some q \<and> SDQ_Count q > 0")
    case True
    then obtain q where q: "pile = Some q" "SDQ_Count q > 0" by blast
    show ?thesis
      unfolding mergeAndLearnAndPersistGuardian_def
      using merge_at_ok [OF assms(2,3) assms(4) [OF q(1)], of "SR_pileMergeCounter (record_at s a) + 1"] q
      by (intro ok_bindI [where P = ?M] learn) (auto simp: Let_def ok_iff)
  next
    case False
    then have "mergeAndLearnAndPersistGuardian rr now a pile s = bind_res (learn_at rr now a s) (\<lambda>(s, _). Inr s)"
      by (auto simp: mergeAndLearnAndPersistGuardian_def split: option.splits)
    moreover have "?M s" using False assms(2) by auto
    ultimately show ?thesis using learn [of s] by simp
  qed
qed

text \<open>What the ticker leaves alone: the cache, and which service each record is of.\<close>

definition keeps :: "services \<Rightarrow> services \<Rightarrow> bool" where
  "keeps s s' \<longleftrightarrow> length (SV_heap s') = length (SV_heap s) \<and> SV_cache s' = SV_cache s
     \<and> (\<forall>a. same_service (record_at s a) (record_at s' a))"

lemma touches_keeps: "touches a s s' \<Longrightarrow> keeps s s'"
  unfolding touches_def keeps_def by (metis same_service_refl)

lemma keeps_trans: "keeps s t \<Longrightarrow> keeps t u \<Longrightarrow> keeps s u"
  by (simp add: keeps_def same_service_def)

lemma keeps_refl [simp]: "keeps s s"
  by (simp add: keeps_def)

lemma tick_loop_ok:
  assumes "fair_ranger rr" and "services_ok s" and "\<forall>a \<in> set as. a < length (SV_heap s)"
  shows "ok (tick_loop rr now as i n s) (\<lambda>(s', j). services_ok s' \<and> keeps s s' \<and> SV_records s' = SV_records s
    \<and> i \<le> j \<and> j \<le> i + length as \<and> (as \<noteq> [] \<longrightarrow> i < j))"
  using assms(2,3)
proof (induction as arbitrary: i n s)
  case (Cons a as)
  show ?case
  proof (cases "SR_deleted (record_at s a)")
    case True
    then show ?thesis using Cons.IH [of s "i + 1" n] Cons.prems by (auto elim!: ok_monoI)
  next
    case False
    have a: "a < length (SV_heap s)" using Cons.prems(2) by simp
    from learn_at_ok [OF assms(1) Cons.prems(1) a, of now]
    obtain s' res where s': "learn_at rr now a s = Inr (s', res)" "services_ok s'" "touches a s s'"
      by (auto simp: ok_iff)
    have k: "keeps s s'" by (rule touches_keeps [OF s'(3)])
    have rec: "SV_records s' = SV_records s" using s'(3) by (simp add: touches_def)
    have as: "\<forall>b \<in> set as. b < length (SV_heap s')" using Cons.prems(2) k by (simp add: keeps_def)
    have IH: "ok (tick_loop rr now as (i + 1) m s') (\<lambda>(s'', j). services_ok s'' \<and> keeps s s'' \<and> SV_records s'' = SV_records s
        \<and> i \<le> j \<and> j \<le> i + length (a # as) \<and> (a # as \<noteq> [] \<longrightarrow> i < j))" for m
      using Cons.IH [OF s'(2) as, of "i + 1" m] k rec by (auto elim!: ok_mono intro: keeps_trans)
    have stop: "ok (Inr (s', i + 1)) (\<lambda>(s'', j). services_ok s'' \<and> keeps s s'' \<and> SV_records s'' = SV_records s
        \<and> i \<le> j \<and> j \<le> i + length (a # as) \<and> (a # as \<noteq> [] \<longrightarrow> i < j))"
      using s'(2) k rec by simp
    have "tick_loop rr now (a # as) i n s =
        (if res \<and> n + 1 > 10 then Inr (s', i + 1) else tick_loop rr now as (i + 1) (if res then n + 1 else n) s')"
      using False s'(1) by simp
    then show ?thesis using IH stop by (simp only:) (simp split: if_split)
  qed
qed simp

lemma tick_ok:
  assumes "fair_ranger rr" and "services_ok s"
  shows "ok (tick rr now s) (\<lambda>s'. services_ok s' \<and> keeps s s'
    \<and> (SV_records s \<noteq> [] \<longrightarrow> (\<exists>i. 0 < i \<and> i \<le> 100 \<and> SV_records s' = drop i (SV_records s))))"
proof (cases "SV_records s = []")
  case True
  have "set (map snd (range_over (rr ''createRecords'') (SV_cache s))) = snd ` set (SV_cache s)"
    using assms by (simp add: set_range_over services_ok_def)
  then have "services_ok (createRecords rr now s)"
    using assms(2) by (auto simp: services_ok_def entry_ok_def createRecords_def cached_in_order_def)
  moreover have "keeps s (createRecords rr now s)" by (simp add: createRecords_def keeps_def)
  ultimately show ?thesis using True by (simp add: tick_def)
next
  case False
  define as where "as = take (min 100 (length (SV_records s))) (SV_records s)"
  have as: "\<forall>a \<in> set as. a < length (SV_heap s)"
    using assms(2) unfolding as_def services_ok_def by (blast dest: in_set_takeD)
  have "as \<noteq> []" "length as \<le> 100" using False by (simp_all add: as_def)
  have eq: "tick rr now s = bind_res (tick_loop rr now as 0 0 s) (\<lambda>(s, i). Inr (s\<lparr>SV_records := drop i (SV_records s)\<rparr>))"
    using False by (simp add: tick_def Let_def as_def min_def)
  have fin: "services_ok (t\<lparr>SV_records := drop i (SV_records t)\<rparr>)" if "services_ok t" for t i
    using that services_ok_records [OF that, of "drop i (SV_records t)"] by (auto simp: services_ok_def dest: in_set_dropD)
  show ?thesis
    unfolding eq ok_bind
  proof (rule ok_mono [OF tick_loop_ok [OF assms as]], clarify)
    fix t i assume t: "services_ok t" "keeps s t" "SV_records t = SV_records s" "0 \<le> i" "i \<le> 0 + length as" "as \<noteq> [] \<longrightarrow> 0 < i"
    have "keeps s (t\<lparr>SV_records := drop i (SV_records t)\<rparr>)" using t(2) by (simp add: keeps_def)
    moreover have "0 < i" "i \<le> 100" using t \<open>as \<noteq> []\<close> \<open>length as \<le> 100\<close> by auto
    ultimately show "ok (Inr (t\<lparr>SV_records := drop i (SV_records t)\<rparr>)) (\<lambda>s'. services_ok s' \<and> keeps s s'
        \<and> (SV_records s \<noteq> [] \<longrightarrow> (\<exists>i. 0 < i \<and> i \<le> 100 \<and> SV_records s' = drop i (SV_records s))))"
      using fin [OF t(1)] t(3) by auto
  qed
qed

section \<open>The cache keeps the invariant\<close>

lemma cached_bound: "services_ok s \<Longrightarrow> map_of (SV_cache s) key = Some a \<Longrightarrow> a < length (SV_heap s) \<and> entry_ok s (key, a)"
  unfolding services_ok_def entry_ok_def by (metis map_of_SomeD snd_conv)

text \<open>The pointers of the cache are distinct, so dropping a name drops its record.\<close>

lemma cached_distinct:
  assumes "services_ok s" and "map_of (SV_cache s) key = Some a" and "map_of (SV_cache s) key' = Some b" and "key \<noteq> key'"
  shows "a \<noteq> b"
proof
  assume "a = b"
  have "inj_on snd (set (SV_cache s))" using assms(1) by (simp add: services_ok_def distinct_map)
  moreover have "(key, a) \<in> set (SV_cache s)" "(key', b) \<in> set (SV_cache s)"
    using assms(2,3) by (simp_all add: map_of_SomeD)
  ultimately have "(key, a) = (key', b)" using \<open>a = b\<close> by (metis inj_onD snd_conv)
  then show False using assms(4) by simp
qed

lemma delete_service_ok:
  assumes "services_ok s"
  shows "services_ok (delete_service ns sid cm s)"
proof -
  let ?key = "serviceKey ns sid cm"
  let ?c = "AList.delete ?key (SV_cache s)"
  have sub: "set ?c \<subseteq> set (SV_cache s)" by (auto simp: AList.delete_eq)
  have keys: "?key \<notin> fst ` set ?c" by (simp add: delete_notin_dom)
  have dist: "distinct (map snd ?c)"
    using assms by (simp add: services_ok_def AList.delete_eq distinct_map_filter)
  have cache: "kvs_ok ?c" using assms by (simp add: services_ok_def)
  show ?thesis
  proof (cases "map_of (SV_cache s) ?key")
    case None
    then show ?thesis
      using assms sub dist cache by (auto simp: delete_service_def Let_def services_ok_def entry_ok_def)
  next
    case (Some a)
    let ?s = "put_record a ((record_at s a)\<lparr>SR_deleted := True\<rparr>) s"
    have a: "a < length (SV_heap s)" using cached_bound [OF assms Some] by blast
    have "\<forall>x \<in> set (SV_heap ?s). record_ok x"
      using assms services_ok_record [OF assms a] set_update_subset_insert [of "SV_heap s" a "(record_at s a)\<lparr>SR_deleted := True\<rparr>"]
      by (auto simp: services_ok_def put_record_def record_ok_def)
    moreover have "\<forall>e \<in> set ?c. entry_ok ?s e"
    proof
      fix e assume e: "e \<in> set ?c"
      then have "e \<in> set (SV_cache s)" using sub by blast
      moreover have "fst e \<noteq> ?key" using e keys imageI [of e "set ?c" fst] by metis
      moreover have "(?key, a) \<in> set (SV_cache s)" using Some by (rule map_of_SomeD)
      moreover have "inj_on snd (set (SV_cache s))" using assms by (simp add: services_ok_def distinct_map)
      ultimately have "snd e \<noteq> a" by (metis fst_conv inj_onD snd_conv)
      moreover have "entry_ok s e" using assms \<open>e \<in> set (SV_cache s)\<close> by (simp add: services_ok_def)
      ultimately show "entry_ok ?s e" by (simp add: entry_ok_def)
    qed
    moreover have "entry_ok (?s\<lparr>SV_cache := ?c\<rparr>) e = entry_ok ?s e" for e by (simp add: entry_ok_def)
    ultimately have "services_ok (?s\<lparr>SV_cache := ?c\<rparr>)"
      using assms dist cache unfolding services_ok_def by simp
    then show ?thesis using Some by (simp add: delete_service_def Let_def)
  qed
qed

text \<open>What a guardian read from the cluster must satisfy: it can be prepared.\<close>

definition guardian_ok :: "GuardianSpec \<Rightarrow> bool" where
  "guardian_ok g \<longleftrightarrow> (\<forall>rr. fair_ranger rr \<longrightarrow> ok (prepared rr g) (\<lambda>g'. (\<forall>c. Learned g' = Some c \<longrightarrow> session_cwf c)
     \<and> g' = g\<lparr>Learned := Learned g'\<rparr> \<and> (Learned g' = None \<longleftrightarrow> Learned g = None)))"

lemma guardian_okD: "guardian_ok g \<Longrightarrow> fair_ranger rr \<Longrightarrow> ok (prepared rr g) (\<lambda>g'. (\<forall>c. Learned g' = Some c \<longrightarrow> session_cwf c)
     \<and> g' = g\<lparr>Learned := Learned g'\<rparr> \<and> (Learned g' = None \<longleftrightarrow> Learned g = None))"
  by (simp add: guardian_ok_def)

lemma guardian_ok_unlearned: "Learned g = None \<Longrightarrow> guardian_ok g"
  by (cases g) (simp add: guardian_ok_def prepared_def)

lemma update_new_key: "k \<notin> fst ` set kvs \<Longrightarrow> AList.update k v kvs = kvs @ [(k, v)]"
  by (induction kvs) auto

lemma record_ok_new: "record_ok (new_serviceRecord ns sid cm)"
  by (simp add: record_ok_def new_serviceRecord_def new_GuardianSpec_def session_pwf_Clear session.pwf_empty)

text \<open>Adding the record of a new service.\<close>

lemma new_record_ok:
  assumes "services_ok s" and "map_of (SV_cache s) (serviceKey ns sid cm) = None"
  shows "services_ok (s\<lparr>SV_heap := SV_heap s @ [new_serviceRecord ns sid cm],
    SV_cache := AList.update (serviceKey ns sid cm) (length (SV_heap s)) (SV_cache s)\<rparr>)"
proof -
  let ?key = "serviceKey ns sid cm"
  let ?n = "length (SV_heap s)"
  have upd: "AList.update ?key ?n (SV_cache s) = SV_cache s @ [(?key, ?n)]"
    using assms(2) by (simp add: map_of_eq_None_iff update_new_key)
  have "\<forall>e \<in> set (SV_cache s). snd e < ?n" using assms(1) by (simp add: services_ok_def entry_ok_def)
  then have "?n \<notin> snd ` set (SV_cache s)" by auto
  moreover have "entry_ok s e \<Longrightarrow> entry_ok (s\<lparr>SV_heap := SV_heap s @ [new_serviceRecord ns sid cm], SV_cache := c\<rparr>) e" for e c
    by (simp add: entry_ok_def nth_append)
  moreover have "entry_ok (s\<lparr>SV_heap := SV_heap s @ [new_serviceRecord ns sid cm], SV_cache := c\<rparr>) (?key, ?n)" for c
    by (simp add: entry_ok_def new_serviceRecord_def)
  moreover have "kvs_ok (SV_cache s @ [(?key, ?n)])"
    using assms by (simp add: services_ok_def kvs_ok_def map_of_eq_None_iff)
  ultimately show ?thesis
    using assms(1) record_ok_new unfolding services_ok_def upd by (simp add: less_SucI)
qed

text \<open>Setting a guardian: the record of its name has it, the other names keep theirs.\<close>

lemma set_service_ok:
  assumes "fair_ranger rr" and "services_ok s" and "guardian_ok g"
  shows "ok (set_service rr ns sid cm g s) (\<lambda>(s', a). services_ok s' \<and> map_of (SV_cache s') (serviceKey ns sid cm) = Some a
    \<and> a < length (SV_heap s') \<and> (\<exists>g'. prepared rr g = Inr g' \<and> SR_guardianSpec (record_at s' a) = g')
    \<and> SR_pile (record_at s' a) =
        (case map_of (SV_cache s) (serviceKey ns sid cm) of
           Some b \<Rightarrow> SR_pile (record_at s b) | None \<Rightarrow> SessionDataPile_Clear empty_SessionDataPile)
    \<and> (\<forall>key. key \<noteq> serviceKey ns sid cm \<longrightarrow> map_of (SV_cache s') key = map_of (SV_cache s) key)
    \<and> (\<forall>b. b \<noteq> a \<longrightarrow> b < length (SV_heap s) \<longrightarrow> record_at s' b = record_at s b)
    \<and> (map_of (SV_cache s) (serviceKey ns sid cm) = None \<longrightarrow> a = length (SV_heap s)))"
proof -
  let ?key = "serviceKey ns sid cm"
  from guardian_okD [OF assms(3,1)] obtain g' where g': "prepared rr g = Inr g'" "\<forall>c. Learned g' = Some c \<longrightarrow> session_cwf c"
    by (auto simp: ok_iff)
  have put: "services_ok (put_record a ((record_at t a)\<lparr>SR_guardianSpec := g'\<rparr>) t)"
    if "services_ok t" "a < length (SV_heap t)" for t a
    using that services_ok_record [OF that] g'(2) by (intro put_record_ok) (simp_all add: record_ok_def same_service_def)
  show ?thesis
  proof (cases "map_of (SV_cache s) ?key")
    case (Some a)
    then have "a < length (SV_heap s)" using cached_bound [OF assms(2)] by blast
    then show ?thesis using put [OF assms(2)] g'(1) Some by (simp add: set_service_def Let_def)
  next
    case None
    let ?t = "s\<lparr>SV_heap := SV_heap s @ [new_serviceRecord ns sid cm], SV_cache := AList.update ?key (length (SV_heap s)) (SV_cache s)\<rparr>"
    have t: "services_ok ?t" by (rule new_record_ok [OF assms(2) None])
    have "services_ok (put_record (length (SV_heap s)) ((record_at ?t (length (SV_heap s)))\<lparr>SR_guardianSpec := g'\<rparr>) ?t)"
      by (rule put [OF t]) simp
    then show ?thesis
      using None g'(1) by (simp add: set_service_def Let_def update_conv' nth_append new_serviceRecord_def)
  qed
qed

text \<open>A cluster whose guardians can be prepared.\<close>

definition cluster_ok :: "'k kube_api \<Rightarrow> bool" where
  "cluster_ok api \<longleftrightarrow> (\<forall>k ns sid cm auto. guardian_ok (GetGuardian api k ns sid cm auto))"

lemma services_ok_watch:
  "services_ok s \<Longrightarrow> services_ok (s\<lparr>SV_namespaces := nss, SV_watching := ws\<rparr>)"
  by (simp add: services_ok_def entry_ok_def)

lemma get_service_ok:
  assumes "fair_ranger rr" and "services_ok s" and "guardian_ok (GetGuardian api k ns sid cm True)"
  shows "ok (get_service api k rr ns sid cm s) (\<lambda>(s', a). services_ok s' \<and> map_of (SV_cache s') (serviceKey ns sid cm) = Some a
    \<and> a < length (SV_heap s') \<and> map_of (SV_namespaces s') ns \<noteq> None
    \<and> (\<forall>b < length (SV_heap s). record_at s' b = record_at s b))"
proof -
  define t where "t = (if \<not> map_of (SV_namespaces s) ns \<noteq> None
    then s\<lparr>SV_namespaces := AList.update ns True (SV_namespaces s), SV_watching := SV_watching s @ [(ns, cm)]\<rparr> else s)"
  have t: "services_ok t" using assms(2) services_ok_watch by (simp add: t_def)
  have ns: "map_of (SV_namespaces t) ns \<noteq> None" by (cases "map_of (SV_namespaces s) ns") (auto simp: t_def update_conv')
  have heap: "SV_heap t = SV_heap s" by (simp add: t_def)
  have eq: "get_service api k rr ns sid cm s =
      (case map_of (SV_cache t) (serviceKey ns sid cm) of Some a \<Rightarrow> Inr (t, a)
       | None \<Rightarrow> set_service rr ns sid cm (GetGuardian api k ns sid cm True) t)"
    unfolding get_service_def Let_def t_def by (rule refl)
  have nss: "set_service rr ns sid cm g t = Inr (t', a) \<Longrightarrow> SV_namespaces t' = SV_namespaces t" for g t' a
    by (cases "prepared rr g") (auto simp: set_service_def Let_def split: option.splits)
  show ?thesis
  proof (cases "map_of (SV_cache t) (serviceKey ns sid cm)")
    case (Some a)
    then show ?thesis using eq t ns cached_bound [OF t Some] heap by simp
  next
    case None
    from set_service_ok [OF assms(1) t assms(3), of ns sid cm] show ?thesis
      unfolding eq None option.case by (rule ok_monoI) (use ns nss None heap in auto)
  qed
qed

lemma update_service_ok:
  assumes "fair_ranger rr" and "services_ok s" and "\<And>ns sid cm g. u = (ns, sid, cm, Some g) \<Longrightarrow> guardian_ok g"
  shows "ok (update_service rr u s) services_ok"
proof -
  obtain ns sid cm g where u: "u = (ns, sid, cm, g)" by (cases u)
  show ?thesis
  proof (cases g)
    case None
    then show ?thesis using u delete_service_ok [OF assms(2)] by (simp add: update_service_def)
  next
    case (Some g')
    have "guardian_ok g'" by (rule assms(3)) (simp add: u Some)
    from set_service_ok [OF assms(1,2) this, of ns sid cm] show ?thesis
      by (auto simp: update_service_def u Some ok_iff)
  qed
qed

section \<open>The service as a state machine\<close>

lemma flush_ok:
  assumes "fair_ranger rr" and "services_ok s"
  shows "services_ok (flushTickerRecords rr s) \<and> keeps s (flushTickerRecords rr s)
    \<and> SV_records (flushTickerRecords rr s) = cached_in_order (rr ''flushTickerRecords'') s
    \<and> SV_persisting (flushTickerRecords rr s) = SV_persisting s
    \<and> (\<forall>a \<in> snd ` set (SV_cache s). record_at (flushTickerRecords rr s) a
         = (record_at s a)\<lparr>SR_pileLastLearn := 0, SR_guardianLastPersist := 0\<rparr>)
    \<and> (\<forall>a. a \<notin> snd ` set (SV_cache s) \<longrightarrow> record_at (flushTickerRecords rr s) a = record_at s a)"
proof -
  let ?f = "\<lambda>a s. (put_record a ((record_at s a)\<lparr>SR_pileLastLearn := 0, SR_guardianLastPersist := 0\<rparr>) s)\<lparr>SV_records := SV_records s @ [a]\<rparr>"
  have loop: "services_ok (fold ?f as t) \<and> keeps t (fold ?f as t) \<and> SV_records (fold ?f as t) = SV_records t @ as
      \<and> SV_persisting (fold ?f as t) = SV_persisting t
      \<and> (\<forall>a \<in> set as. record_at (fold ?f as t) a = (record_at t a)\<lparr>SR_pileLastLearn := 0, SR_guardianLastPersist := 0\<rparr>)
      \<and> (\<forall>a. a \<notin> set as \<longrightarrow> record_at (fold ?f as t) a = record_at t a)"
    if "services_ok t" "\<forall>a \<in> set as. a < length (SV_heap t)" for as t
    using that
  proof (induction as arbitrary: t)
    case (Cons a as)
    have a: "a < length (SV_heap t)" using Cons.prems(2) by simp
    let ?r = "(record_at t a)\<lparr>SR_pileLastLearn := 0, SR_guardianLastPersist := 0\<rparr>"
    have "record_ok ?r" using services_ok_record [OF Cons.prems(1) a] by (simp add: record_ok_def)
    then have p: "services_ok (put_record a ?r t)" by (intro put_record_ok [OF Cons.prems(1) a]) (simp_all add: same_service_def)
    have t: "services_ok (?f a t)"
      using services_ok_records [OF p, of "SV_records t @ [a]"] Cons.prems by (auto simp: services_ok_def)
    have k: "keeps t (?f a t)" using a by (simp add: keeps_def same_service_def)
    have "\<forall>b \<in> set as. b < length (SV_heap (?f a t))" using Cons.prems(2) by simp
    note IH = Cons.IH [OF t this]
    have rec: "record_at (?f a t) b = (if b = a then ?r else record_at t b)" for b using a by simp
    show ?case
      unfolding fold_Cons o_apply
    proof (intro conjI ballI allI impI)
      show "services_ok (fold ?f as (?f a t))" using IH by blast
      show "keeps t (fold ?f as (?f a t))" using IH keeps_trans [OF k] by blast
      show "SV_records (fold ?f as (?f a t)) = SV_records t @ a # as" using IH by simp
      show "SV_persisting (fold ?f as (?f a t)) = SV_persisting t" using IH by simp
      show "record_at (fold ?f as (?f a t)) b = (record_at t b)\<lparr>SR_pileLastLearn := 0, SR_guardianLastPersist := 0\<rparr>"
        if "b \<in> set (a # as)" for b
      proof (cases "b \<in> set as")
        case True
        then have "record_at (fold ?f as (?f a t)) b = (record_at (?f a t) b)\<lparr>SR_pileLastLearn := 0, SR_guardianLastPersist := 0\<rparr>"
          using IH by blast
        then show ?thesis unfolding rec by simp
      next
        case False
        then have "record_at (fold ?f as (?f a t)) b = record_at (?f a t) b" using IH by blast
        then show ?thesis unfolding rec using that False by simp
      qed
      show "record_at (fold ?f as (?f a t)) b = record_at t b" if "b \<notin> set (a # as)" for b
      proof -
        have "record_at (fold ?f as (?f a t)) b = record_at (?f a t) b" using IH that by simp
        then show ?thesis unfolding rec using that by simp
      qed
    qed
  qed simp
  have t: "services_ok (s\<lparr>SV_records := []\<rparr>)" using services_ok_records [OF assms(2), of "[]"] by simp
  have set_eq: "set (cached_in_order (rr ''flushTickerRecords'') s) = snd ` set (SV_cache s)"
    using assms by (simp add: cached_in_order_def set_range_over services_ok_def)
  then have "\<forall>a \<in> set (cached_in_order (rr ''flushTickerRecords'') s). a < length (SV_heap (s\<lparr>SV_records := []\<rparr>))"
    using assms(2) by (auto simp: services_ok_def entry_ok_def)
  from loop [OF t this] show ?thesis
    unfolding flushTickerRecords_def Let_def set_eq by (simp add: keeps_def)
qed

text \<open>
  The steps of the service with its cluster: a request's record is got and its pile taken in, a
  tick, an update of the watch, a goroutine that persists, the flush at shutdown, and whatever
  others do to the cluster.
\<close>

inductive service_step :: "'k kube_api \<Rightarrow> 'k \<times> services \<Rightarrow> 'k \<times> services \<Rightarrow> bool" for api where
  Sync: "\<lbrakk>fair_ranger rr; guardian_ok (GetGuardian api k ns sid cm True); \<And>q. pile = Some q \<Longrightarrow> session_pwf q;
     get_service api k rr ns sid cm s = Inr (s', a); mergeAndLearnAndPersistGuardian rr now a pile s' = Inr s''\<rbrakk>
     \<Longrightarrow> service_step api (k, s) (k, s'')"
| Tick: "\<lbrakk>fair_ranger rr; tick rr now s = Inr s'\<rbrakk> \<Longrightarrow> service_step api (k, s) (k, s')"
| Update: "\<lbrakk>fair_ranger rr; \<And>ns sid cm g. u = (ns, sid, cm, Some g) \<Longrightarrow> guardian_ok g; update_service rr u s = Inr s'\<rbrakk>
     \<Longrightarrow> service_step api (k, s) (k, s')"
| Persist: "\<lbrakk>a \<in> set (SV_persisting s); persistGuardian api (record_at s a) k = Inr k'\<rbrakk>
     \<Longrightarrow> service_step api (k, s) (k', s\<lparr>SV_persisting := remove1 a (SV_persisting s)\<rparr>)"
| Flush: "fair_ranger rr \<Longrightarrow> service_step api (k, s) (k, flushTickerRecords rr s)"
| Cluster: "service_step api (k, s) (k', s)"

inductive_cases service_step_elim: "service_step api (k, s) (k', s')"
lemmas service_stepE = service_step_elim [consumes 1, case_names Sync Tick Update Persist Flush Cluster]

lemma services_ok_new: "services_ok newServices"
  by (simp add: services_ok_def newServices_def)

lemma services_ok_persisted: "services_ok s \<Longrightarrow> services_ok (s\<lparr>SV_persisting := remove1 a (SV_persisting s)\<rparr>)"
  using set_remove1_subset [of a "SV_persisting s"] by (auto simp: services_ok_def entry_ok_def)

lemma ok_Inr: "ok m P \<Longrightarrow> m = Inr x \<Longrightarrow> P x"
  by simp

lemma service_step_ok:
  assumes "service_step api (k, s) (k', s')" and "services_ok s"
  shows "services_ok s'"
  using assms(1)
proof (cases rule: service_stepE)
  case (Sync rr ns sid cm pile t a now)
  have t: "services_ok t" "a < length (SV_heap t)"
    using ok_Inr [OF get_service_ok [OF Sync(2) assms(2) Sync(3)] Sync(5)] by simp_all
  show ?thesis using ok_Inr [OF mergeAndLearn_ok [OF Sync(2) t Sync(4)] Sync(6)] by blast
next
  case (Tick rr now)
  show ?thesis using ok_Inr [OF tick_ok [OF Tick(2) assms(2)] Tick(3)] by blast
next
  case (Update rr u)
  show ?thesis by (rule ok_Inr [OF update_service_ok [OF Update(2) assms(2) Update(3)] Update(4)])
next
  case (Persist a)
  then show ?thesis using services_ok_persisted [OF assms(2)] by simp
next
  case (Flush rr)
  then show ?thesis using flush_ok [of rr s] assms(2) by simp
qed (use assms(2) in simp)

interpretation guard_service: machine "\<lambda>x. snd x = newServices" "service_step api" "\<lambda>x. services_ok (snd x)"
  by unfold_locales (auto simp: services_ok_new intro: service_step_ok)

section \<open>Properties\<close>


text \<open>A cluster without any object, which keeps nothing.\<close>

definition empty_cluster :: "unit kube_api" where
  "empty_cluster = \<lparr>cm_Get = \<lambda>k ns n. Inl NotFound, cm_Delete = \<lambda>k ns n. k, cm_Create = \<lambda>k ns n cm. (k, None),
     cm_Update = \<lambda>k ns n cm. (k, None), crd_Get = \<lambda>k ns n. Inl NotFound, crd_Delete = \<lambda>k ns n. k,
     crd_Create = \<lambda>k ns n g. (k, None), crd_Patch = \<lambda>k ns n s. (k, Some NotFound), pod_Delete = \<lambda>k ns n. k,
     pod_Labels = \<lambda>k ns n. Inl NotFound, token_Review = \<lambda>k t a. Inr False, jwt_Parse = \<lambda>t. None,
     marshal_spec = \<lambda>g. None, marshal_config = \<lambda>c. None, unmarshal_spec = \<lambda>s. (new_GuardianSpec, False)\<rparr>"

lemma empty_cluster_ok: "cluster_ok empty_cluster"
proof -
  have "Learned (GetGuardian empty_cluster k ns sid cm auto) = None" for k ns sid cm auto
    by (simp add: GetGuardian_def Read_def readCm_def readCrd_def empty_cluster_def Let_def or_nil_def
        SetToMaximalAutomation_def new_GuardianSpec_def)
  then show ?thesis by (simp add: cluster_ok_def guardian_ok_unlearned)
qed



lemma one_record_ok:
  "services_ok (newServices\<lparr>SV_heap := [new_serviceRecord ns sid cm], SV_cache := [(serviceKey ns sid cm, 0)]\<rparr>)"
  using new_record_ok [OF services_ok_new, of ns sid cm] by (simp add: newServices_def)


text \<open>
  The name under which a record is cached identifies the service, as long as no name has a
  dot in it, which is what the sanitised names of unauthenticated requests are.
\<close>

theorem serviceKey_injective:
  assumes "CHR ''.'' \<notin> set ns" and "CHR ''.'' \<notin> set sid" and "CHR ''.'' \<notin> set ns'" and "CHR ''.'' \<notin> set sid'"
  shows "serviceKey ns sid cm = serviceKey ns' sid' cm' \<longleftrightarrow> ns = ns' \<and> sid = sid' \<and> cm = cm'"
proof
  have cut: "as = as' \<and> bs = bs'" if "as @ CHR ''.'' # bs = as' @ CHR ''.'' # bs'" "CHR ''.'' \<notin> set as" "CHR ''.'' \<notin> set as'"
    for as bs as' bs' :: string
    using that
  proof (induction as arbitrary: as')
    case Nil
    then show ?case by (cases as') auto
  next
    case (Cons x as)
    then show ?case by (cases as') auto
  qed
  have key: "serviceKey ns sid cm = sid @ CHR ''.'' # (ns @ (if cm then ''.cm'' else ''''))" for ns sid cm
    by (simp add: serviceKey_def)
  assume "serviceKey ns sid cm = serviceKey ns' sid' cm'"
  then have "sid = sid'" and rest: "ns @ (if cm then ''.cm'' else '''') = ns' @ (if cm' then ''.cm'' else '''')"
    using cut assms(2,4) unfolding key by blast+
  moreover have "ns = ns' \<and> cm = cm'"
  proof (cases "cm = cm'")
    case False
    then have "CHR ''.'' \<in> set ns \<union> set ns'" using rest by (cases cm; cases cm') (auto dest: arg_cong [of _ _ set])
    then show ?thesis using assms(1,3) by blast
  qed (use rest in simp)
  ultimately show "ns = ns' \<and> sid = sid' \<and> cm = cm'" by blast
qed simp

theorem serviceKey_injective_witness:
  "serviceKey ''default'' ''shop'' True = serviceKey ''cart'' ''shop'' False \<longleftrightarrow>
     ''default'' = ''cart'' \<and> ''shop'' = ''shop'' \<and> True = False"
  by (rule serviceKey_injective) simp_all

text \<open>
  With a dot in a name it does not: the label of a pod may hold dots, and a pod of the
  namespace \<open>cm\<close> labelled \<open>a.b\<close> shares its record with the service \<open>a\<close> of the namespace \<open>b\<close>
  that uses a ConfigMap. Whoever comes first decides which guardian both get, and under whose
  name it is persisted.
\<close>

theorem serviceKey_shared:
  "serviceKey ''cm'' (sid @ ''.'' @ ns) False = serviceKey ns sid True
    \<and> (map_of (SV_cache s) (serviceKey ns sid True) = Some a \<longrightarrow>
        (\<exists>s'. get_service api k rr ''cm'' (sid @ ''.'' @ ns) False s = Inr (s', a) \<and> SV_heap s' = SV_heap s))"
proof -
  have "serviceKey ''cm'' (sid @ ''.'' @ ns) False = serviceKey ns sid True" by (simp add: serviceKey_def)
  then show ?thesis by (cases "map_of (SV_namespaces s) ''cm''") (simp_all add: get_service_def)
qed

theorem serviceKey_shared_witness:
  "\<exists>s' t. set_service (\<lambda>_. rev) ''b'' ''a'' True new_GuardianSpec newServices = Inr (s', 0)
    \<and> get_service empty_cluster () (\<lambda>_. rev) ''cm'' ''a.b'' False s' = Inr (t, 0) \<and> SR_ns (record_at t 0) = ''b''"
proof -
  obtain s' where s': "set_service (\<lambda>_. rev) ''b'' ''a'' True new_GuardianSpec newServices = Inr (s', 0)"
      "SR_ns (record_at s' 0) = ''b''" "map_of (SV_cache s') (serviceKey ''b'' ''a'' True) = Some 0"
    by (simp add: set_service_def prepared_def new_GuardianSpec_def newServices_def put_record_def new_serviceRecord_def)
  then show ?thesis
    using serviceKey_shared [of "''a''" "''b''" s' 0 empty_cluster "()" "\<lambda>_. rev"] by auto
qed

text \<open>
  The watch of ConfigMaps misses the service: an event for the ConfigMap that stores the
  guardian of a service, \<open>guardian.<service>\<close>, is applied under the name of the ConfigMap, prefix
  and all, so the record cached for the service keeps its guardian, whatever the event says.
\<close>

theorem configmap_event_misses_service:
  assumes "fair_ranger rr" and "services_ok s" and "map_of (SV_cache s) (serviceKey ns sid cm) = Some a"
    and "watch_event_step api cm (CmEvent ty (Some (ns, ''guardian.'' @ sid, obj)) status) = (Some u, goes_on)"
    and "\<And>ns sid cm g. u = (ns, sid, cm, Some g) \<Longrightarrow> guardian_ok g"
  shows "\<exists>s'. update_service rr u s = Inr s' \<and> services_ok s'
    \<and> map_of (SV_cache s') (serviceKey ns sid cm) = Some a \<and> record_at s' a = record_at s a"
proof -
  obtain g where u: "u = (ns, ''guardian.'' @ sid, cm, g)"
    using assms(4) by (auto simp: watch_event_step_def Let_def split: event_type.splits if_splits option.splits prod.splits)
  let ?key = "serviceKey ns (''guardian.'' @ sid) cm"
  have "length (serviceKey ns sid cm) \<noteq> length ?key" by (simp add: serviceKey_def Let_def)
  then have key: "serviceKey ns sid cm \<noteq> ?key" by (rule contrapos_nn) simp
  have a: "a < length (SV_heap s)" "entry_ok s (serviceKey ns sid cm, a)" using cached_bound [OF assms(2,3)] by auto
  show ?thesis
  proof (cases g)
    case None
    have "b \<noteq> a" if "map_of (SV_cache s) ?key = Some b" for b
      by (rule cached_distinct [OF assms(2) that assms(3) not_sym [OF key]])
    then have "record_at (delete_service ns (''guardian.'' @ sid) cm s) a = record_at s a"
      by (cases "map_of (SV_cache s) ?key") (simp_all add: delete_service_def)
    moreover have "map_of (SV_cache (delete_service ns (''guardian.'' @ sid) cm s)) (serviceKey ns sid cm) = Some a"
      using key assms(3) by (cases "map_of (SV_cache s) ?key") (simp_all add: delete_service_def Let_def)
    ultimately show ?thesis
      using delete_service_ok [OF assms(2)] by (simp add: update_service_def u None)
  next
    case (Some g')
    have "guardian_ok g'" by (rule assms(5)) (simp add: u Some)
    from set_service_ok [OF assms(1,2) this, of ns "''guardian.'' @ sid" cm]
    obtain s' b where s': "set_service rr ns (''guardian.'' @ sid) cm g' s = Inr (s', b)" "services_ok s'"
        "map_of (SV_cache s') ?key = Some b" "\<forall>key. key \<noteq> ?key \<longrightarrow> map_of (SV_cache s') key = map_of (SV_cache s) key"
        "\<forall>c. c \<noteq> b \<longrightarrow> c < length (SV_heap s) \<longrightarrow> record_at s' c = record_at s c"
      by (auto simp: ok_iff)
    have cache: "map_of (SV_cache s') (serviceKey ns sid cm) = Some a" using s'(4) key assms(3) by simp
    have "b \<noteq> a" by (rule cached_distinct [OF s'(2,3) cache not_sym [OF key]])
    then show ?thesis using s' cache a(1) by (simp add: update_service_def u Some)
  qed
qed

theorem configmap_event_misses_service_witness:
  "\<exists>s'. update_service (\<lambda>_. rev) (''default'', ''guardian.shop'', True, None)
      (newServices\<lparr>SV_heap := [new_serviceRecord ''default'' ''shop'' True], SV_cache := [(serviceKey ''default'' ''shop'' True, 0)]\<rparr>) = Inr s'
    \<and> services_ok s' \<and> map_of (SV_cache s') (serviceKey ''default'' ''shop'' True) = Some 0
    \<and> record_at s' 0 = record_at (newServices\<lparr>SV_heap := [new_serviceRecord ''default'' ''shop'' True],
        SV_cache := [(serviceKey ''default'' ''shop'' True, 0)]\<rparr>) 0"
proof (rule configmap_event_misses_service [OF _ one_record_ok])
  show "watch_event_step empty_cluster True (CmEvent Deleted (Some (''default'', ''guardian.'' @ ''shop'', Some [])) False)
      = (Some (''default'', ''guardian.shop'', True, None), True)"
    by (simp add: watch_event_step_def has_prefix_def)
qed (auto simp: fair_def)

end
