(* ===== verification/Service_Main.thy ===== *)
theory Service_Main
  imports Services
begin

text \<open>
  \<open>cmd/guard-service/main.go\<close>: the identity of a request, with its cache of tokens; the handler
  of a synchronisation; the event loop with its two tickers, and the draining of the records at
  shutdown. The API server is the record of \<open>Kube_Mgr\<close>; \<open>encoding/json\<close> on the messages is a pair
  of arguments.
\<close>

section \<open>State\<close>

definition MAX_SYNC_BODY :: nat where "MAX_SYNC_BODY = 10000000"

record tokenData =
  TD_podname :: string
  TD_sid :: string
  TD_ns :: string
  TD_ticks :: int

record sync_env =
  GuardServiceAuth :: string
  GuardServiceLabels :: "string list"

text \<open>\<open>LR_serving\<close> tells that the HTTP server has not been shut down.\<close>

record learner =
  LR_services :: services
  LR_pileLearnTicker :: Ticker
  LR_chacheTokenTicker :: Ticker
  LR_env :: sync_env
  LR_tokens :: "tokenData entries"
  LR_serving :: bool

text \<open>
  An alert as it comes: its decision may be missing (JSON null). A child that is missing inside
  a decision is not represented.
\<close>

record sync_alert =
  SA_Decision :: "decision option"
  SA_Time :: int
  SA_Level :: string
  SA_Count :: "64 word"

record SyncMessageReq =
  SMR_Pile :: "SessionDataPile option"
  SMR_Alerts :: "sync_alert list option"
  SMR_IamCompromised :: bool

record SyncMessageResp =
  SMS_Guardian :: "GuardianSpec option"

text \<open>
  The codec of the messages: decoding gets the bytes that may be read and whether the reader
  then fails because there are more.
\<close>

record sync_codec =
  decode_req :: "string \<Rightarrow> bool \<Rightarrow> SyncMessageReq option"
  marshal_resp :: "SyncMessageResp \<Rightarrow> string option"

record http_req =
  HR_Method :: string
  HR_Path :: string
  HR_Query :: "string list gomap"
  HR_Authorization :: string
  HR_ContentLength :: int
  HR_Body :: "string option"

section \<open>Tokens\<close>

text \<open>Seconds of the clock, and the token data that is cached, if it is fresh.\<close>

definition Unix :: "int \<Rightarrow> int" where "Unix now = now div 1000000000"

definition getToken :: "int \<Rightarrow> string \<Rightarrow> learner \<Rightarrow> learner \<times> tokenData option" where
  "getToken now token l =
     (let ticks = Unix now in
      case map_of (LR_tokens l) token of
        Some td \<Rightarrow>
          if ticks - TD_ticks td > 3600 then (l\<lparr>LR_tokens := AList.delete token (LR_tokens l)\<rparr>, None)
          else (l, Some td)
      | None \<Rightarrow> (l, None))"

definition setToken :: "int \<Rightarrow> string \<Rightarrow> tokenData \<Rightarrow> learner \<Rightarrow> learner" where
  "setToken now token td l =
     (let ticks = Unix now in l\<lparr>LR_tokens := AList.update token (td\<lparr>TD_ticks := ticks\<rparr>) (LR_tokens l)\<rparr>)"

definition chacheOutTokens :: "int \<Rightarrow> learner \<Rightarrow> learner" where
  "chacheOutTokens now l =
     (let ticks = Unix now in l\<lparr>LR_tokens := filter (\<lambda>(token, td). ticks - TD_ticks td < 3600) (LR_tokens l)\<rparr>)"

section \<open>Who is calling\<close>

datatype auth_error =
  MissingToken | InvalidToken | CantVerifyToken kube_error | IllegalName string

text \<open>The pod, the service and the namespace.\<close>

definition authenticate ::
    "'k kube_api \<Rightarrow> 'k \<Rightarrow> int \<Rightarrow> string \<Rightarrow> learner \<Rightarrow> learner \<times> (auth_error + string \<times> string \<times> string)" where
  "authenticate api k now authorization l =
     (let token = authorization in
      if \<not> has_prefix token ''Bearer '' then (l, Inl MissingToken)
      else if length token < 8 then (l, Inl InvalidToken)
      else
        (let token = drop 7 token;
             (l, cached) = getToken now token l
         in case cached of
              Some td \<Rightarrow> (l, Inr (TD_podname td, TD_sid td, TD_ns td))
            | None \<Rightarrow>
                (case TokenData api k token (GuardServiceLabels (LR_env l)) of
                   Inl e \<Rightarrow> (l, Inl (CantVerifyToken e))
                 | Inr (podname, sid, ns) \<Rightarrow>
                     if sid = ''ns-'' @ ns then (l, Inl (IllegalName sid))
                     else (setToken now token \<lparr>TD_podname = podname, TD_sid = sid, TD_ns = ns, TD_ticks = 0\<rparr> l,
                           Inr (podname, sid, ns)))))"

datatype query_error =
  TwoFlags | NotSingle | IllegalSid | MissingPod | MissingSid | MissingNs

abbreviation query_values :: "string list gomap \<Rightarrow> string \<Rightarrow> string list" where
  "query_values query key \<equiv> (case map_get query key of Some vs \<Rightarrow> vs | None \<Rightarrow> [])"

definition queryDataAuth :: "string list gomap \<Rightarrow> query_error + bool" where
  "queryDataAuth query =
     (let cmFlagSlice = query_values query ''cm'' in
      if length cmFlagSlice > 1 then Inl TwoFlags
      else Inr (if length cmFlagSlice > 0 then cmFlagSlice ! 0 = ''true'' else False))"

definition queryDataNoAuth :: "string list gomap \<Rightarrow> query_error + bool \<times> string \<times> string \<times> string" where
  "queryDataNoAuth query =
     (case queryDataAuth query of
        Inl e \<Rightarrow> Inl e
      | Inr cmFlag \<Rightarrow>
          (let sidSlice = query_values query ''sid'';
               nsSlice = query_values query ''ns'';
               podSlice = query_values query ''pod''
           in if length sidSlice \<noteq> 1 \<or> length nsSlice \<noteq> 1 \<or> length podSlice \<noteq> 1 then Inl NotSingle
              else
                (let pod = Sanitize (podSlice ! 0);
                     sid = Sanitize (sidSlice ! 0);
                     ns = Sanitize (nsSlice ! 0)
                 in if sid = ''ns-'' @ ns then Inl IllegalSid
                    else if length pod < 1 then Inl MissingPod
                    else if length sid < 1 then Inl MissingSid
                    else if length ns < 1 then Inl MissingNs
                    else Inr (cmFlag, pod, sid, ns))))"

section \<open>The handler\<close>

text \<open>What is sent back: the status of an error, or the bytes of the answer.\<close>

datatype http_reply = HttpError nat | HttpOk string

definition baseHandler ::
    "'k kube_api \<Rightarrow> ranger \<Rightarrow> int \<Rightarrow> http_req \<Rightarrow> 'k \<Rightarrow> learner \<Rightarrow> (learner \<times> (nat + nat \<times> string)) res" where
  "baseHandler api rr now req k l =
     (let (l, who) =
        (if GuardServiceAuth (LR_env l) \<noteq> ''false'' then
           (case queryDataAuth (HR_Query req) of
              Inl e \<Rightarrow> (l, Inl 400)
            | Inr cmFlag \<Rightarrow>
                (let (l, id) = authenticate api k now (HR_Authorization req) l in
                 case id of
                   Inl e \<Rightarrow> (l, Inl 401)
                 | Inr (podname, sid, ns) \<Rightarrow> (l, Inr (cmFlag, podname, sid, ns))))
         else
           (case queryDataNoAuth (HR_Query req) of
              Inl e \<Rightarrow> (l, Inl 400)
            | Inr data \<Rightarrow> (l, Inr data)))
      in case who of
           Inl status \<Rightarrow> Inr (l, Inl status)
         | Inr (cmFlag, podname, sid, ns) \<Rightarrow>
             bind_res (get_service api k rr ns sid cmFlag (LR_services l)) (\<lambda>(s, record).
             Inr (l\<lparr>LR_services := s\<rparr>, Inr (record, podname))))"

text \<open>The loop over the alerts: each is counted and printed to the log.\<close>

definition add_alerts :: "sync_alert list option \<Rightarrow> serviceRecord \<Rightarrow> serviceRecord res" where
  "add_alerts alerts r =
     (case alerts of
        None \<Rightarrow> Inr r
      | Some as \<Rightarrow>
          fold_res (\<lambda>alert r. bind_res (deref (SA_Decision alert)) (\<lambda>_. Inr (r\<lparr>SR_alerts := SR_alerts r + 1\<rparr>))) as r)"

definition processSync ::
    "'k kube_api \<Rightarrow> sync_codec \<Rightarrow> ranger \<Rightarrow> int \<Rightarrow> http_req \<Rightarrow> 'k \<Rightarrow> learner \<Rightarrow> ('k \<times> learner \<times> http_reply) res" where
  "processSync api codec rr now req k l =
     bind_res (baseHandler api rr now req k l) (\<lambda>(l, who).
     case who of
       Inl status \<Rightarrow> Inr (k, l, HttpError status)
     | Inr (a, podname) \<Rightarrow>
         if HR_Method req \<noteq> ''POST'' \<or> HR_Path req \<noteq> ''/sync'' then Inr (k, l, HttpError 404)
         else if HR_ContentLength req = 0 \<or> HR_Body req = None then Inr (k, l, HttpError 400)
         else
           (let body = the (HR_Body req) in
            case decode_req codec (take MAX_SYNC_BODY body) (length body > MAX_SYNC_BODY) of
              None \<Rightarrow> Inr (k, l, HttpError 400)
            | Some syncReq \<Rightarrow>
                (let k = (if SMR_IamCompromised syncReq then deletePod api (record_at (LR_services l) a) podname k else k) in
                 bind_res (mergeAndLearnAndPersistGuardian rr now a (SMR_Pile syncReq) (LR_services l)) (\<lambda>s.
                 bind_res (add_alerts (SMR_Alerts syncReq) (record_at s a)) (\<lambda>r.
                 let s = put_record a r s;
                     syncResp = \<lparr>SMS_Guardian = Some (SR_guardianSpec (record_at s a))\<rparr>
                 in case marshal_resp codec syncResp of
                      None \<Rightarrow> Inr (k, l\<lparr>LR_services := s\<rparr>, HttpError 500)
                    | Some buf \<Rightarrow> Inr (k, l\<lparr>LR_services := s\<rparr>, HttpOk buf))))))"

section \<open>The event loop\<close>

datatype main_event = PileLearnTick | TokenTick | Kill string | Quit

text \<open>One turn: the learner, and whether the loop stays alive.\<close>

definition mainEventProcessing :: "ranger \<Rightarrow> int \<Rightarrow> main_event \<Rightarrow> learner \<Rightarrow> (learner \<times> bool) res" where
  "mainEventProcessing rr now ev l =
     (case ev of
        PileLearnTick \<Rightarrow> bind_res (tick rr now (LR_services l)) (\<lambda>s. Inr (l\<lparr>LR_services := s\<rparr>, True))
      | TokenTick \<Rightarrow> Inr (chacheOutTokens now l, True)
      | Kill reason \<Rightarrow> Inr (l\<lparr>LR_serving := False\<rparr>, True)
      | Quit \<Rightarrow> Inr (l, False))"

fun mainEventLoop :: "ranger \<Rightarrow> (int \<times> main_event) list \<Rightarrow> learner \<Rightarrow> (learner \<times> bool) res" where
  "mainEventLoop rr [] l = Inr (l, True)"
| "mainEventLoop rr ((now, ev) # evs) l =
     bind_res (mainEventProcessing rr now ev l) (\<lambda>(l, alive). if alive then mainEventLoop rr evs l else Inr (l, False))"

text \<open>
  After the loop: the records are marked and drained, one tick after the other, the \<open>n\<close>-th at
  time \<open>clock n\<close>. The loop ends because a tick on a non-empty list always shortens it.
\<close>

lemma learn_at_records: "learn_at rr now a s = Inr (s', b) \<Longrightarrow> SV_records s' = SV_records s"
  by (auto simp: learn_at_def bind_res_Inr Let_def)

lemma tick_loop_advances:
  "tick_loop rr now as i n s = Inr (s', j) \<Longrightarrow> SV_records s' = SV_records s \<and> i \<le> j \<and> (as \<noteq> [] \<longrightarrow> i < j)"
proof (induction as arbitrary: i n s)
  case (Cons a as)
  show ?case
  proof (cases "SR_deleted (record_at s a)")
    case True
    then show ?thesis using Cons.IH [of "i + 1" n s] Cons.prems by simp
  next
    case False
    then obtain t b where t: "learn_at rr now a s = Inr (t, b)"
      "(if b \<and> n + 1 > 10 then Inr (t, i + 1) else tick_loop rr now as (i + 1) (if b then n + 1 else n) t) = Inr (s', j)"
      using Cons.prems by (auto simp: bind_res_Inr split: if_splits)
    have rec: "SV_records t = SV_records s" by (rule learn_at_records [OF t(1)])
    show ?thesis
    proof (cases "b \<and> n + 1 > 10")
      case True
      then show ?thesis using t(2) rec by simp
    next
      case False
      then have "tick_loop rr now as (i + 1) (if b then n + 1 else n) t = Inr (s', j)" using t(2) by (simp only: if_False)
      from Cons.IH [OF this] rec show ?thesis by simp
    qed
  qed
qed simp

lemma tick_shortens:
  "SV_records s \<noteq> [] \<Longrightarrow> tick rr now s = Inr s' \<Longrightarrow> length (SV_records s') < length (SV_records s)"
  by (auto simp: tick_def Let_def bind_res_Inr dest!: tick_loop_advances split: if_splits)

function drain :: "ranger \<Rightarrow> (nat \<Rightarrow> int) \<Rightarrow> nat \<Rightarrow> services \<Rightarrow> services res" where
  "drain rr clock n s =
     (if length (SV_records s) > 0
      then (case tick rr (clock n) s of Inl e \<Rightarrow> Inl e | Inr s' \<Rightarrow> drain rr clock (n + 1) s')
      else Inr s)"
  by pat_completeness auto
termination
  by (relation "measure (\<lambda>(rr, clock, n, s). length (SV_records s))") (auto dest: tick_shortens)

declare drain.simps [simp del]

definition shutdown :: "ranger \<Rightarrow> (nat \<Rightarrow> int) \<Rightarrow> learner \<Rightarrow> learner res" where
  "shutdown rr clock l =
     bind_res (drain rr clock 0 (flushTickerRecords rr (LR_services l))) (\<lambda>s. Inr (l\<lparr>LR_services := s\<rparr>))"

section \<open>Start\<close>

definition init_learner :: "sync_env \<Rightarrow> learner res" where
  "init_learner env =
     bind_res (Ticker_Start (NewTicker 1000000000)) (\<lambda>pileLearnTicker.
     bind_res (Ticker_Start (NewTicker (60 * 1000000000 * 10))) (\<lambda>chacheTokenTicker.
     let env = (if GuardServiceAuth env \<noteq> ''false'' then env\<lparr>GuardServiceAuth := ''true''\<rparr> else env)
     in Inr \<lparr>LR_services = newServices, LR_pileLearnTicker = pileLearnTicker, LR_chacheTokenTicker = chacheTokenTicker,
          LR_env = env, LR_tokens = [], LR_serving = True\<rparr>))"

section \<open>Draining at shutdown\<close>

text \<open>
  After the flush every cached record is due. What draining has done to a record: one with a
  pile has learned it and is on its way to the cluster, one without is not.
\<close>

definition drained :: "services \<Rightarrow> services \<Rightarrow> nat \<Rightarrow> bool" where
  "drained s0 s a \<longleftrightarrow>
     (if SDQ_Count (SR_pile (record_at s0 a)) > 0
      then a \<in> set (SV_persisting s) \<and> SDQ_Count (SR_pile (record_at s a)) = 0
        \<and> (\<exists>c. Learned (SR_guardianSpec (record_at s a)) = Some c
             \<and> (\<forall>u. session_covers (SR_pile (record_at s0 a)) u \<longrightarrow> session_accepts c u))
      else (a \<in> set (SV_persisting s) \<longleftrightarrow> a \<in> set (SV_persisting s0)))"

definition draining :: "services \<Rightarrow> services \<Rightarrow> nat list \<Rightarrow> bool" where
  "draining s0 s todo \<longleftrightarrow> services_ok s \<and> keeps s0 s \<and> distinct todo \<and> set todo \<subseteq> snd ` set (SV_cache s0)
     \<and> (\<forall>a \<in> snd ` set (SV_cache s0).
          if a \<in> set todo then record_at s a = record_at s0 a \<and> (a \<in> set (SV_persisting s) \<longleftrightarrow> a \<in> set (SV_persisting s0))
          else drained s0 s a)"

definition all_due :: "services \<Rightarrow> bool" where
  "all_due s \<longleftrightarrow> (\<forall>a \<in> snd ` set (SV_cache s). SR_pileLastLearn (record_at s a) = 0 \<and> SR_guardianLastPersist (record_at s a) = 0)"

lemma should_due:
  "SR_pileLastLearn r = 0 \<Longrightarrow> SR_guardianLastPersist r = 0 \<Longrightarrow> guardianPersistMinTime < now \<Longrightarrow> should now r = (True, True)"
  by (simp add: should_def guardianPersistMinTime_def pileLearnMinTime_def)

lemma draining_learn:
  assumes "fair_ranger rr" and "draining s0 s (a # todo)" and "all_due s0" and "guardianPersistMinTime < now"
  shows "ok (learn_at rr now a s) (\<lambda>(s', b). draining s0 s' todo)"
proof -
  let ?r = "record_at s a"
  have a: "a \<in> snd ` set (SV_cache s0)" "a \<notin> set todo" and eq: "?r = record_at s0 a"
    and pers: "a \<in> set (SV_persisting s) \<longleftrightarrow> a \<in> set (SV_persisting s0)" and s: "services_ok s" "keeps s0 s"
    using assms(2) by (auto simp: draining_def)
  have due: "should now ?r = (True, True)" "SR_guardianLastPersist ?r = 0" "SR_pileLastLearn ?r = 0"
    using should_due assms(3,4) a(1) unfolding eq all_due_def by auto
  have la: "a < length (SV_heap s)"
    using s a(1) by (auto simp: services_ok_def entry_ok_def keeps_def)
  have now: "0 < now" using assms(4) by (simp add: guardianPersistMinTime_def)
  have L: "learns now ?r \<longleftrightarrow> SDQ_Count (SR_pile ?r) > 0" using due(1) by (simp add: learns_def)
  from learnAndPersist_ok [OF assms(1) services_ok_record [OF s(1) la], of now]
  obtain r' persist result where r': "learnAndPersistGuardian rr now ?r = Inr (r', persist, result)" "same_service ?r r'"
    and c: "\<exists>c'. Learned (SR_guardianSpec r') = Some c' \<and>
        (learns now ?r \<longrightarrow> (\<forall>u. session_covers (SR_pile ?r) u \<longrightarrow> session_accepts c' u))"
    and p: "if learns now ?r then SDQ_Count (SR_pile r') = 0 \<and> persist else \<not> persist"
    using due now by (fastforce simp: ok_iff split: if_splits)
  let ?s = "put_record a r' s"
  let ?t = "if persist then ?s\<lparr>SV_persisting := SV_persisting ?s @ [a]\<rparr> else ?s"
  have learn: "learn_at rr now a s = Inr (?t, result)" using r'(1) by (simp add: learn_at_def Let_def)
  have t: "services_ok ?t" "keeps s ?t"
    using ok_Inr [OF learn_at_ok [OF assms(1) s(1) la] learn] touches_keeps by auto
  have rec: "record_at ?t b = (if b = a then r' else record_at s b)" for b using la by simp
  have per: "b \<in> set (SV_persisting ?t) \<longleftrightarrow> b \<in> set (SV_persisting s) \<or> b = a \<and> persist" for b by auto
  have "drained s0 ?t a"
    unfolding drained_def rec per using p c L pers eq by auto
  moreover have "drained s0 ?t b = drained s0 s b" if "b \<noteq> a" for b
    unfolding drained_def rec per using that by simp
  ultimately have "\<forall>b \<in> snd ` set (SV_cache s0).
      if b \<in> set todo then record_at ?t b = record_at s0 b \<and> (b \<in> set (SV_persisting ?t) \<longleftrightarrow> b \<in> set (SV_persisting s0))
      else drained s0 ?t b"
    using assms(2) a(2) unfolding draining_def rec per by auto
  then have "draining s0 ?t todo"
    using assms(2) t keeps_trans [OF s(2) t(2)] unfolding draining_def by auto
  then show ?thesis unfolding learn by simp
qed

lemma drop_step: "Suc i \<le> j \<Longrightarrow> drop (j - i) (a # xs) = drop (j - Suc i) xs"
proof -
  assume "Suc i \<le> j"
  then have "j - i = Suc (j - Suc i)" by arith
  then show ?thesis by simp
qed

lemma draining_loop:
  assumes "fair_ranger rr" and "all_due s0" and "guardianPersistMinTime < now"
  shows "draining s0 s (as @ rest) \<Longrightarrow>
    ok (tick_loop rr now as i n s) (\<lambda>(s', j). i \<le> j \<and> j \<le> i + length as \<and> draining s0 s' (drop (j - i) (as @ rest)))"
proof (induction as arbitrary: i n s)
  case (Cons a as)
  have d: "draining s0 s (a # (as @ rest))" using Cons.prems by simp
  from draining_learn [OF assms(1) d assms(2,3)]
  obtain t b where t: "learn_at rr now a s = Inr (t, b)" "draining s0 t (as @ rest)" by (auto simp: ok_iff)
  have "a \<in> snd ` set (SV_cache s)" "services_ok s" using d by (auto simp: draining_def keeps_def)
  then have nd: "\<not> SR_deleted (record_at s a)" by (auto simp: services_ok_def entry_ok_def)
  have IH: "ok (tick_loop rr now as (i + 1) m t)
      (\<lambda>(s', j). i \<le> j \<and> j \<le> i + length (a # as) \<and> draining s0 s' (drop (j - i) ((a # as) @ rest)))" for m
    using Cons.IH [OF t(2), of "i + 1" m] by (rule ok_mono) (auto simp: drop_step)
  have "tick_loop rr now (a # as) i n s =
      (if b \<and> n + 1 > 10 then Inr (t, i + 1) else tick_loop rr now as (i + 1) (if b then n + 1 else n) t)"
    using nd t(1) by simp
  moreover have "ok (Inr (t, i + 1)) (\<lambda>(s', j). i \<le> j \<and> j \<le> i + length (a # as) \<and> draining s0 s' (drop (j - i) ((a # as) @ rest)))"
    using t(2) by simp
  ultimately show ?case using IH by (simp only:) (simp split: if_split)
qed simp

lemma draining_records:
  assumes "draining s0 s todo" and "\<forall>a \<in> set as. a < length (SV_heap s)"
  shows "draining s0 (s\<lparr>SV_records := as\<rparr>) todo"
proof -
  have "services_ok (s\<lparr>SV_records := as\<rparr>)"
    using assms services_ok_records by (simp add: draining_def)
  moreover have "drained s0 (s\<lparr>SV_records := as\<rparr>) a = drained s0 s a" for a by (simp add: drained_def)
  moreover have "keeps s0 (s\<lparr>SV_records := as\<rparr>) = keeps s0 s" by (simp add: keeps_def)
  ultimately show ?thesis using assms(1) by (simp add: draining_def)
qed

lemma draining_tick:
  assumes "fair_ranger rr" and "all_due s0" and "guardianPersistMinTime < now"
    and "draining s0 s (SV_records s)" and "SV_records s \<noteq> []"
  shows "ok (tick rr now s) (\<lambda>s'. draining s0 s' (SV_records s'))"
proof -
  let ?n = "if length (SV_records s) > 100 then 100 else length (SV_records s)"
  let ?as = "take ?n (SV_records s)"
  have "draining s0 s (?as @ drop ?n (SV_records s))" using assms(4) by simp
  from draining_loop [OF assms(1-3) this, of 0 0]
  obtain s' j where s': "tick_loop rr now ?as 0 0 s = Inr (s', j)" "draining s0 s' (drop j (SV_records s))"
    by (auto simp: ok_iff)
  have rec: "SV_records s' = SV_records s" using tick_loop_advances [OF s'(1)] by blast
  have "\<forall>a \<in> set (drop j (SV_records s')). a < length (SV_heap s')"
    using s'(2) by (auto simp: draining_def services_ok_def dest: in_set_dropD)
  from draining_records [OF s'(2) this] have
    "draining s0 (s'\<lparr>SV_records := drop j (SV_records s')\<rparr>) (drop j (SV_records s))" .
  then show ?thesis
    using assms(5) s'(1) rec by (simp add: tick_def Let_def)
qed

lemma drain_ok:
  assumes "fair_ranger rr" and "all_due s0" and "\<And>n. guardianPersistMinTime < clock n"
  shows "draining s0 s (SV_records s) \<Longrightarrow> ok (drain rr clock n s) (\<lambda>s'. draining s0 s' [] \<and> SV_records s' = [])"
proof (induction "length (SV_records s)" arbitrary: s n rule: less_induct)
  case less
  show ?case
  proof (cases "SV_records s = []")
    case True
    then show ?thesis using less.prems by (simp add: drain.simps [of rr clock n s])
  next
    case False
    from draining_tick [OF assms(1,2) assms(3) less.prems False] obtain t where
      t: "tick rr (clock n) s = Inr t" "draining s0 t (SV_records t)" by (auto simp: ok_iff)
    from less.hyps [OF tick_shortens [OF False t(1)] t(2)] show ?thesis
      using False t(1) by (simp add: drain.simps [of rr clock n s])
  qed
qed

section \<open>Properties\<close>

lemma flush_due:
  assumes "fair_ranger rr" and "services_ok s"
  shows "all_due (flushTickerRecords rr s)
    \<and> draining (flushTickerRecords rr s) (flushTickerRecords rr s) (SV_records (flushTickerRecords rr s))"
proof -
  let ?s = "flushTickerRecords rr s"
  have f: "services_ok ?s" "keeps s ?s" "SV_records ?s = cached_in_order (rr ''flushTickerRecords'') s"
      "\<forall>a \<in> snd ` set (SV_cache s). record_at ?s a = (record_at s a)\<lparr>SR_pileLastLearn := 0, SR_guardianLastPersist := 0\<rparr>"
    using flush_ok [OF assms] by blast+
  have cache: "SV_cache ?s = SV_cache s" using f(2) by (simp add: keeps_def)
  have kv: "kvs_ok (SV_cache s)" "distinct (map snd (SV_cache s))" using assms(2) by (simp_all add: services_ok_def)
  have ord: "set (range_over (rr ''flushTickerRecords'') (SV_cache s)) = set (SV_cache s)"
    using kv(1) assms(1) by (simp add: set_range_over)
  moreover have "distinct (range_over (rr ''flushTickerRecords'') (SV_cache s))"
    using kvs_ok_range_over [of "rr ''flushTickerRecords''" "SV_cache s"] kv(1) assms(1) by (simp add: kvs_ok_def distinct_map)
  moreover have "inj_on snd (set (SV_cache s))" using kv(2) by (simp add: distinct_map)
  ultimately have "distinct (SV_records ?s)" "set (SV_records ?s) = snd ` set (SV_cache s)"
    unfolding f(3) cached_in_order_def by (simp_all add: distinct_map)
  moreover have "all_due ?s" using f(4) unfolding all_due_def cache by simp
  ultimately show ?thesis using f(1) cache by (simp add: draining_def)
qed

lemma shutdown_ok:
  assumes "fair_ranger rr" and "services_ok (LR_services l)" and "\<And>n. guardianPersistMinTime < clock n"
  shows "\<exists>s'. shutdown rr clock l = Inr (l\<lparr>LR_services := s'\<rparr>) \<and> SV_records s' = [] \<and> services_ok s'
    \<and> draining (flushTickerRecords rr (LR_services l)) s' []"
proof -
  let ?f = "flushTickerRecords rr (LR_services l)"
  have f: "all_due ?f" "draining ?f ?f (SV_records ?f)" using flush_due [OF assms(1,2)] by auto
  obtain s' where "drain rr clock 0 ?f = Inr s'" "draining ?f s' []" "SV_records s' = []"
    using drain_ok [where clock = clock and n = 0, OF assms(1) f(1) assms(3) f(2)] by (auto simp: ok_iff)
  then show ?thesis by (auto simp: shutdown_def draining_def)
qed

text \<open>
  Shutting down terminates: the records are drained, whatever their number, and at the end
  every cached service whose pile was not empty has learned it, its criteria accepting all
  that the pile covered, and has a goroutine that persists it. A service whose pile was empty
  gets none, however long ago its guardian was persisted last: what it learned since is lost.
\<close>

theorem shutdown_drains:
  assumes "fair_ranger rr" and "services_ok (LR_services l)" and "\<And>n. guardianPersistMinTime < clock n"
    and "(key, a) \<in> set (SV_cache (LR_services l))"
  shows "\<exists>l'. shutdown rr clock l = Inr l' \<and> SV_records (LR_services l') = [] \<and> services_ok (LR_services l')
    \<and> (let r = record_at (LR_services l) a; r' = record_at (LR_services l') a in
       if SDQ_Count (SR_pile r) > 0
       then a \<in> set (SV_persisting (LR_services l')) \<and> SDQ_Count (SR_pile r') = 0
         \<and> (\<exists>c. Learned (SR_guardianSpec r') = Some c
              \<and> (\<forall>u. session_covers (SR_pile r) u \<longrightarrow> (\<forall>rr'. fair_ranger rr' \<longrightarrow> SessionDataConfig_Decide rr' c u = Inr None)))
       else a \<in> set (SV_persisting (LR_services l')) \<longleftrightarrow> a \<in> set (SV_persisting (LR_services l)))"
proof -
  let ?s = "LR_services l"
  let ?f = "flushTickerRecords rr ?s"
  obtain s' where s': "shutdown rr clock l = Inr (l\<lparr>LR_services := s'\<rparr>)" "draining ?f s' []" "SV_records s' = []" "services_ok s'"
    using shutdown_ok [where clock = clock, OF assms(1-3)] by blast
  have flush: "SV_cache ?f = SV_cache ?s" "SV_persisting ?f = SV_persisting ?s"
      "record_at ?f a = (record_at ?s a)\<lparr>SR_pileLastLearn := 0, SR_guardianLastPersist := 0\<rparr>"
    using flush_ok [OF assms(1,2)] assms(4) by (force simp: keeps_def)+
  have "a \<in> snd ` set (SV_cache ?f)" using assms(4) flush(1) by force
  then have "drained ?f s' a" using s'(2) by (auto simp: draining_def)
  moreover have "\<forall>rr'. fair_ranger rr' \<longrightarrow> SessionDataConfig_Decide rr' c u = Inr None" if "session_accepts c u" for c u
    using session_accepts [OF that] by (simp add: accepts_def)
  ultimately show ?thesis
    using s'(1,3,4) flush(2,3) by (auto simp: drained_def Let_def)
qed

theorem shutdown_drains_witness:
  "\<exists>s a l'. set_service (\<lambda>_. rev) ''default'' ''shop'' True new_GuardianSpec newServices = Inr (s, a)
    \<and> shutdown (\<lambda>_. rev) (\<lambda>n. 1700000000000000000 + int n)
         \<lparr>LR_services = s, LR_pileLearnTicker = NewTicker 1, LR_chacheTokenTicker = NewTicker 1,
          LR_env = \<lparr>GuardServiceAuth = ''true'', GuardServiceLabels = []\<rparr>, LR_tokens = [], LR_serving = True\<rparr> = Inr l'
    \<and> SV_records (LR_services l') = [] \<and> services_ok (LR_services l')"
proof -
  have rr: "fair_ranger (\<lambda>_. rev)" by (auto simp: fair_def)
  have "guardian_ok new_GuardianSpec" by (rule guardian_ok_unlearned) (simp add: new_GuardianSpec_def)
  from set_service_ok [OF rr services_ok_new this, of "''default''" "''shop''" True] obtain s a where
    s: "set_service (\<lambda>_. rev) ''default'' ''shop'' True new_GuardianSpec newServices = Inr (s, a)" "services_ok s"
      "map_of (SV_cache s) (serviceKey ''default'' ''shop'' True) = Some a"
    by (auto simp: ok_iff)
  let ?l = "\<lparr>LR_services = s, LR_pileLearnTicker = NewTicker 1, LR_chacheTokenTicker = NewTicker 1,
      LR_env = \<lparr>GuardServiceAuth = ''true'', GuardServiceLabels = []\<rparr>, LR_tokens = [], LR_serving = True\<rparr>"
  have "services_ok (LR_services ?l)" "(serviceKey ''default'' ''shop'' True, a) \<in> set (SV_cache (LR_services ?l))"
    using s(2,3) by (simp_all add: map_of_SomeD)
  moreover have "guardianPersistMinTime < 1700000000000000000 + int n" for n by (simp add: guardianPersistMinTime_def)
  ultimately show ?thesis
    using shutdown_drains [OF rr, where l = ?l and clock = "\<lambda>n. 1700000000000000000 + int n"] s(1) by blast
qed

text \<open>
  C18. With authentication, an identity is given only to a bearer token that the cluster
  verified no more than an hour ago. \<open>V token td\<close> stands for what the verification established
  about a token; it is kept for the whole cache.
\<close>

theorem authenticate_identity:
  assumes "\<forall>(token, td) \<in> set (LR_tokens l). V token td" and "kvs_ok (LR_tokens l)"
    and "\<forall>token podname sid ns. TokenData api k token (GuardServiceLabels (LR_env l)) = Inr (podname, sid, ns) \<longrightarrow> sid \<noteq> ''ns-'' @ ns \<longrightarrow>
           V token \<lparr>TD_podname = podname, TD_sid = sid, TD_ns = ns, TD_ticks = Unix now\<rparr>"
    and "authenticate api k now authorization l = (l', Inr (podname, sid, ns))"
  shows "\<exists>token td. authorization = ''Bearer '' @ token \<and> token \<noteq> '''' \<and> V token td
      \<and> TD_podname td = podname \<and> TD_sid td = sid \<and> TD_ns td = ns \<and> Unix now - TD_ticks td \<le> 3600
      \<and> (\<forall>(token, td) \<in> set (LR_tokens l'). V token td) \<and> kvs_ok (LR_tokens l')"
proof -
  have upd: "\<forall>(t, td) \<in> set (AList.update token x kvs). V t td"
    if "\<forall>(t, td) \<in> set kvs. V t td" "V token x" "kvs_ok kvs" for token x and kvs :: "tokenData entries"
    using that by (auto simp: kvs_ok_map_of [symmetric] kvs_ok_update update_conv' split: if_splits)
  have del: "V t td" if "(t, td) \<in> set (AList.delete token (LR_tokens l))" for token t td
    using assms(1) that by (auto simp: AList.delete_eq)
  let ?token = "drop 7 authorization"
  have pre: "has_prefix authorization ''Bearer ''" "\<not> length authorization < 8"
    using assms(4) by (auto simp: authenticate_def Let_def split: if_splits)
  have seven: "length ''Bearer '' = 7" by simp
  have "take (length ''Bearer '') authorization = ''Bearer ''" using pre(1) unfolding has_prefix_def .
  then have tok: "authorization = ''Bearer '' @ ?token" "?token \<noteq> ''''"
    using pre(2) append_take_drop_id [of 7 authorization] unfolding seven by (metis, simp)
  obtain l1 cached where g: "getToken now ?token l = (l1, cached)" by (cases "getToken now ?token l")
  have l1: "\<forall>(t, td) \<in> set (LR_tokens l1). V t td" "kvs_ok (LR_tokens l1)" "LR_env l1 = LR_env l"
    using g assms(1,2) by (auto simp: getToken_def Let_def dest: del split: option.splits if_splits)
  have rest: "(case cached of
        Some td \<Rightarrow> (l1, Inr (TD_podname td, TD_sid td, TD_ns td))
      | None \<Rightarrow>
          (case TokenData api k ?token (GuardServiceLabels (LR_env l1)) of
             Inl e \<Rightarrow> (l1, Inl (CantVerifyToken e))
           | Inr (podname, sid, ns) \<Rightarrow>
               if sid = ''ns-'' @ ns then (l1, Inl (IllegalName sid))
               else (setToken now ?token \<lparr>TD_podname = podname, TD_sid = sid, TD_ns = ns, TD_ticks = 0\<rparr> l1, Inr (podname, sid, ns))))
      = (l', Inr (podname, sid, ns))"
    using assms(4) pre g by (simp add: authenticate_def Let_def)
  show ?thesis
  proof (cases cached)
    case (Some td)
    have "map_of (LR_tokens l) ?token = Some td" "Unix now - TD_ticks td \<le> 3600"
      using g Some by (auto simp: getToken_def Let_def split: option.splits if_splits)
    then have "V ?token td" using assms(1) by (auto dest!: map_of_SomeD)
    then show ?thesis using tok rest Some l1 \<open>Unix now - TD_ticks td \<le> 3600\<close> by auto
  next
    case None
    then have td: "TokenData api k ?token (GuardServiceLabels (LR_env l)) = Inr (podname, sid, ns)" "sid \<noteq> ''ns-'' @ ns"
        "l' = setToken now ?token \<lparr>TD_podname = podname, TD_sid = sid, TD_ns = ns, TD_ticks = 0\<rparr> l1"
      using rest l1(3) by (auto split: sum.splits prod.splits if_splits)
    let ?td = "\<lparr>TD_podname = podname, TD_sid = sid, TD_ns = ns, TD_ticks = Unix now\<rparr>"
    have V: "V ?token ?td" using assms(3) td(1,2) by blast
    have "LR_tokens l' = AList.update ?token ?td (LR_tokens l1)" by (simp add: td(3) setToken_def Let_def)
    then have "(\<forall>(token, td) \<in> set (LR_tokens l'). V token td) \<and> kvs_ok (LR_tokens l')"
      using upd [OF l1(1) V l1(2)] l1(2) by simp
    then show ?thesis using tok V by (intro exI [of _ ?token] exI [of _ ?td]) simp
  qed
qed

theorem authenticate_identity_witness:
  "\<exists>token (td :: tokenData). ''Bearer t'' = ''Bearer '' @ token \<and> token \<noteq> '''' \<and> token_Review token_api () token [''guard-service''] = Inr True
      \<and> TD_podname td = ''shop-1'' \<and> TD_sid td = ''shop'' \<and> TD_ns td = ''default'' \<and> Unix 5000000000 - TD_ticks td \<le> 3600"
proof -
  let ?l = "\<lparr>LR_services = newServices, LR_pileLearnTicker = NewTicker 1, LR_chacheTokenTicker = NewTicker 1,
    LR_env = \<lparr>GuardServiceAuth = ''true'', GuardServiceLabels = []\<rparr>, LR_tokens = [], LR_serving = True\<rparr>"
  let ?V = "\<lambda>token td. token_Review token_api () token [''guard-service''] = Inr True"
  have "TokenData token_api () ''t'' [] = Inr (''shop-1'', ''shop'', ''default'')"
    by (simp add: TokenData_def validateToken_def parseJwt_def getPodData_def token_api_def claim_map_def claim_string_def)
  then have eq: "authenticate token_api () 5000000000 ''Bearer t'' ?l =
      (setToken 5000000000 ''t'' \<lparr>TD_podname = ''shop-1'', TD_sid = ''shop'', TD_ns = ''default'', TD_ticks = 0\<rparr> ?l,
       Inr (''shop-1'', ''shop'', ''default''))"
    by (simp add: authenticate_def has_prefix_def getToken_def eval_nat_numeral Let_def)
  have V: "?V token td" if "TokenData token_api () token labels = Inr (p, s, n)" "s \<noteq> ''ns-'' @ n" for token td labels p s n
    using that(1) by (auto simp: TokenData_def validateToken_def ServiceAudience_def split: option.splits sum.splits if_splits)
  have init: "\<forall>(token, td) \<in> set (LR_tokens ?l). ?V token td" "kvs_ok (LR_tokens ?l)" by simp_all
  have "\<forall>token podname sid ns. TokenData token_api () token (GuardServiceLabels (LR_env ?l)) = Inr (podname, sid, ns) \<longrightarrow>
      sid \<noteq> ''ns-'' @ ns \<longrightarrow> ?V token \<lparr>TD_podname = podname, TD_sid = sid, TD_ns = ns, TD_ticks = Unix 5000000000\<rparr>"
    using V by blast
  from authenticate_identity [where V = ?V, OF init this eq] show ?thesis by blast
qed

text \<open>What the codec may hand over: piles that are well formed, and alerts that say what they are about.\<close>

definition codec_ok :: "sync_codec \<Rightarrow> bool" where
  "codec_ok codec \<longleftrightarrow> (\<forall>body cut m. decode_req codec body cut = Some m \<longrightarrow>
     (\<forall>q. SMR_Pile m = Some q \<longrightarrow> session_pwf q) \<and> (\<forall>as. SMR_Alerts m = Some as \<longrightarrow> (\<forall>a \<in> set as. SA_Decision a \<noteq> None)))"

lemma add_alerts_ok:
  assumes "\<And>as. alerts = Some as \<Longrightarrow> \<forall>a \<in> set as. SA_Decision a \<noteq> None"
  shows "ok (add_alerts alerts r) (\<lambda>r'. \<exists>n. r' = r\<lparr>SR_alerts := n\<rparr>)"
proof (cases alerts)
  case None
  then show ?thesis by (cases r) (simp add: add_alerts_def)
next
  case (Some as)
  have "ok (fold_res (\<lambda>alert r. bind_res (deref (SA_Decision alert)) (\<lambda>_. Inr (r\<lparr>SR_alerts := SR_alerts r + 1\<rparr>))) as r)
      (\<lambda>r'. \<exists>n. r' = r\<lparr>SR_alerts := n\<rparr>)"
  proof (rule fold_res_inv [where I = "\<lambda>_ r'. \<exists>n. r' = r\<lparr>SR_alerts := n\<rparr>"])
    show "\<exists>n. r = r\<lparr>SR_alerts := n\<rparr>" by (cases r) simp
  qed (use assms [OF Some] in \<open>auto simp: deref_def split: option.splits\<close>)
  then show ?thesis by (simp add: add_alerts_def Some)
qed

text \<open>The identity step touches neither the cluster nor the services already known.\<close>

lemma baseHandler_ok:
  assumes "fair_ranger rr" and "services_ok (LR_services l)" and "cluster_ok api"
  shows "ok (baseHandler api rr now req k l) (\<lambda>(l', who). services_ok (LR_services l')
    \<and> (\<forall>b < length (SV_heap (LR_services l)). record_at (LR_services l') b = record_at (LR_services l) b)
    \<and> (\<forall>status. who = Inl status \<longrightarrow> status \<in> {400, 401})
    \<and> (\<forall>a podname. who = Inr (a, podname) \<longrightarrow> a < length (SV_heap (LR_services l'))))"
proof -
  have auth: "LR_services (fst (authenticate api k now h l)) = LR_services l" for h
    by (auto simp: authenticate_def Let_def getToken_def setToken_def split: option.splits sum.splits prod.splits)
  have "guardian_ok (GetGuardian api k ns sid cm True)" for ns sid cm using assms(3) by (simp add: cluster_ok_def)
  note get = get_service_ok [OF assms(1,2) this]
  have go: "ok (bind_res (get_service api k rr ns sid cm (LR_services l')) (\<lambda>(s, record). Inr (l'\<lparr>LR_services := s\<rparr>, Inr (record, podname))))
      (\<lambda>(l', who). services_ok (LR_services l')
        \<and> (\<forall>b < length (SV_heap (LR_services l)). record_at (LR_services l') b = record_at (LR_services l) b)
        \<and> (\<forall>status. who = Inl status \<longrightarrow> status \<in> {400, 401})
        \<and> (\<forall>a podname. who = Inr (a, podname) \<longrightarrow> a < length (SV_heap (LR_services l'))))"
    if "LR_services l' = LR_services l" for l' ns sid cm podname
    unfolding that ok_bind by (rule ok_mono [OF get]) auto
  show ?thesis
  proof (cases "GuardServiceAuth (LR_env l) \<noteq> ''false''")
    case True
    show ?thesis
    proof (cases "queryDataAuth (HR_Query req)")
      case (Inl e)
      then show ?thesis using True assms(2) by (simp add: baseHandler_def)
    next
      case (Inr cm)
      obtain l' id where a: "authenticate api k now (HR_Authorization req) l = (l', id)" by fastforce
      have l': "LR_services l' = LR_services l" using auth [of "HR_Authorization req"] a by simp
      show ?thesis
      proof (cases id)
        case (Inl e)
        then show ?thesis using True Inr a l' assms(2) by (simp add: baseHandler_def)
      next
        case id: (Inr x)
        obtain podname sid ns where x: "x = (podname, sid, ns)" by (cases x)
        have "baseHandler api rr now req k l = bind_res (get_service api k rr ns sid cm (LR_services l'))
            (\<lambda>(s, record). Inr (l'\<lparr>LR_services := s\<rparr>, Inr (record, podname)))"
          using True Inr a id x by (simp add: baseHandler_def)
        then show ?thesis using go [OF l'] by simp
      qed
    qed
  next
    case False
    show ?thesis
    proof (cases "queryDataNoAuth (HR_Query req)")
      case (Inl e)
      then show ?thesis using False assms(2) by (simp add: baseHandler_def)
    next
      case (Inr x)
      obtain cm podname sid ns where x: "x = (cm, podname, sid, ns)" by (cases x)
      have "baseHandler api rr now req k l = bind_res (get_service api k rr ns sid cm (LR_services l))
          (\<lambda>(s, record). Inr (l\<lparr>LR_services := s\<rparr>, Inr (record, podname)))"
        using False Inr x by (simp add: baseHandler_def)
      then show ?thesis using go [OF refl] by simp
    qed
  qed
qed

lemma processSync_ok:
  assumes "fair_ranger rr" and "services_ok (LR_services l)" and "cluster_ok api" and "codec_ok codec"
  shows "ok (processSync api codec rr now req k l) (\<lambda>(k', l', reply). services_ok (LR_services l')
    \<and> (\<forall>status. reply = HttpError status \<longrightarrow> status \<in> {400, 401, 404, 500})
    \<and> (\<forall>status. reply = HttpError status \<and> status \<noteq> 500 \<longrightarrow> k' = k
        \<and> (\<forall>b < length (SV_heap (LR_services l)). record_at (LR_services l') b = record_at (LR_services l) b)))"
proof -
  obtain l1 who where b0: "baseHandler api rr now req k l = Inr (l1, who)"
    using baseHandler_ok [OF assms(1-3), of now req k] unfolding ok_iff by (metis surj_pair)
  have b: "baseHandler api rr now req k l = Inr (l1, who)" "services_ok (LR_services l1)"
      "\<forall>b < length (SV_heap (LR_services l)). record_at (LR_services l1) b = record_at (LR_services l) b"
      "\<And>status. who = Inl status \<Longrightarrow> status \<in> {400, 401}" "\<And>a podname. who = Inr (a, podname) \<Longrightarrow> a < length (SV_heap (LR_services l1))"
    using b0 ok_Inr [OF baseHandler_ok [OF assms(1-3)] b0] by simp_all
  show ?thesis
  proof (cases who)
    case (Inl status)
    then show ?thesis using b by (auto simp: processSync_def)
  next
    case (Inr x)
    obtain a podname where x: "x = (a, podname)" by (cases x)
    have a: "a < length (SV_heap (LR_services l1))" using b(5) Inr x by simp
    show ?thesis
    proof (cases "HR_Method req \<noteq> ''POST'' \<or> HR_Path req \<noteq> ''/sync'' \<or> HR_ContentLength req = 0 \<or> HR_Body req = None \<or>
        decode_req codec (take MAX_SYNC_BODY (the (HR_Body req))) (length (the (HR_Body req)) > MAX_SYNC_BODY) = None")
      case True
      then show ?thesis using b Inr x by (auto simp: processSync_def Let_def)
    next
      case False
      then obtain m where m: "decode_req codec (take MAX_SYNC_BODY (the (HR_Body req))) (length (the (HR_Body req)) > MAX_SYNC_BODY) = Some m"
        by blast
      have codec: "\<And>q. SMR_Pile m = Some q \<Longrightarrow> session_pwf q" "\<And>as. SMR_Alerts m = Some as \<Longrightarrow> \<forall>a \<in> set as. SA_Decision a \<noteq> None"
        using assms(4) m unfolding codec_ok_def by blast+
      from mergeAndLearn_ok [OF assms(1) b(2) a codec(1), where pile = "SMR_Pile m" and now = now] obtain s where
        s: "mergeAndLearnAndPersistGuardian rr now a (SMR_Pile m) (LR_services l1) = Inr s" "services_ok s" "touches a (LR_services l1) s"
        by (auto simp: ok_iff)
      from add_alerts_ok [where alerts = "SMR_Alerts m" and r = "record_at s a", OF codec(2)] obtain n where
        r: "add_alerts (SMR_Alerts m) (record_at s a) = Inr ((record_at s a)\<lparr>SR_alerts := n\<rparr>)"
        by (auto simp: ok_iff)
      have la: "a < length (SV_heap s)" using s(3) a by (simp add: touches_def)
      have put: "services_ok (put_record a ((record_at s a)\<lparr>SR_alerts := n\<rparr>) s)"
        using services_ok_record [OF s(2) la] by (intro put_record_ok [OF s(2) la]) (simp_all add: record_ok_def same_service_def)
      have "\<exists>k' reply. processSync api codec rr now req k l
          = Inr (k', l1\<lparr>LR_services := put_record a ((record_at s a)\<lparr>SR_alerts := n\<rparr>) s\<rparr>, reply)
          \<and> (reply = HttpError 500 \<or> (\<exists>buf. reply = HttpOk buf))"
        using False b(1) Inr x m s(1) r
        by (cases "marshal_resp codec \<lparr>SMS_Guardian = Some (SR_guardianSpec (record_at (put_record a ((record_at s a)\<lparr>SR_alerts := n\<rparr>) s) a))\<rparr>")
          (simp_all add: processSync_def Let_def)
      then show ?thesis using put by auto
    qed
  qed
qed



text \<open>
  A request with an alert that has no decision makes the handler panic after it has taken
  the lock of its record, which it only releases by a plain call further on: the lock is never
  released again.
\<close>

theorem alert_without_decision_panics:
  assumes "fair_ranger rr" and "services_ok (LR_services l)" and "cluster_ok api"
    and "baseHandler api rr now req k l = Inr (l1, Inr (a, podname))"
    and "HR_Method req = ''POST''" and "HR_Path req = ''/sync''" and "HR_ContentLength req \<noteq> 0" and "HR_Body req = Some body"
    and "decode_req codec (take MAX_SYNC_BODY body) (length body > MAX_SYNC_BODY) = Some m" and "SMR_Pile m = None"
    and "SMR_Alerts m = Some as" and "\<exists>alert \<in> set as. SA_Decision alert = None"
  shows "processSync api codec rr now req k l = Inl NilDeref"
proof -
  have loop: "fold_res (\<lambda>alert r. bind_res (deref (SA_Decision alert)) (\<lambda>_. Inr (r\<lparr>SR_alerts := SR_alerts r + 1\<rparr>))) as r = Inl NilDeref"
    for r :: serviceRecord using assms(12) by (induction as arbitrary: r) (auto simp: deref_def split: option.splits)
  have "services_ok (LR_services l1)" "a < length (SV_heap (LR_services l1))"
    using ok_Inr [OF baseHandler_ok [OF assms(1-3)] assms(4)] by simp_all
  from mergeAndLearn_ok [OF assms(1) this, where pile = None and now = now] obtain s where
    "mergeAndLearnAndPersistGuardian rr now a None (LR_services l1) = Inr s" by (auto simp: ok_iff)
  then show ?thesis
    using assms(4-11) loop by (simp add: processSync_def add_alerts_def Let_def)
qed

end
