(* ===== verification/Gate_Client.thy ===== *)
theory Gate_Client
  imports Service_Main
begin

text \<open>
  \<open>pkg/guard-gate/client.go\<close>: the client of a gate, which keeps the pile and the alerts that
  have not been delivered, sends them to the guard-service and takes the guardian from its
  answer, or from the cluster when there is none. A synchronisation is two steps, sending and
  receiving, because the gate goes on working between them.
\<close>

section \<open>State\<close>

definition ALERTS_LIMIT :: nat where "ALERTS_LIMIT = 1000"
definition PILE_LIMIT :: "32 word" where "PILE_LIMIT = 1000"
definition MIN_TIME_BETWEEN_SYNCS :: int where "MIN_TIME_BETWEEN_SYNCS = 5"

record httpClient =
  HC_token :: string
  HC_missingToken :: bool

record gateClient =
  GC_podname :: string
  GC_sid :: string
  GC_ns :: string
  GC_useCm :: bool
  GC_tokenActive :: bool
  GC_certVerifyActive :: bool
  GC_httpClient :: httpClient
  GC_pile :: SessionDataPile
  GC_alerts :: "alert list"
  GC_IamCompromised :: bool
  GC_tokenRefreshTime :: int

text \<open>What is sent.\<close>

record client_sync =
  CS_Pile :: SessionDataPile
  CS_Alerts :: "alert list"
  CS_IamCompromised :: bool

text \<open>What comes back: no answer at all, or a status with a body that may be missing or fail to be read.\<close>

datatype answer_body = NoBody | UnreadableBody | BodyBytes string
datatype http_answer = DoError | Answer nat answer_body

text \<open>
  The surroundings of a gate: the token file, the path of the service's URL (None when the URL
  is malformed), the network, the cluster and the codec (decoding None is an error, a guardian
  of None is null).
\<close>

record 'k gate_env =
  GE_world :: world
  GE_TokenFile :: "string option"
  GE_UrlPath :: "string option"
  GE_Do :: "http_req \<Rightarrow> http_answer"
  GE_api :: "'k kube_api"
  GE_cluster :: 'k
  GE_marshal :: "client_sync \<Rightarrow> string option"
  GE_unmarshal :: "string \<Rightarrow> GuardianSpec option option"

section \<open>Operations\<close>

definition ReadToken :: "string option \<Rightarrow> httpClient \<Rightarrow> httpClient \<times> bool" where
  "ReadToken file hc =
     (case file of
        None \<Rightarrow> (hc\<lparr>HC_missingToken := True\<rparr>, False)
      | Some b \<Rightarrow> (hc\<lparr>HC_token := b, HC_missingToken := False\<rparr>, True))"

definition NewGateClient :: "string \<Rightarrow> string \<Rightarrow> string \<Rightarrow> bool \<Rightarrow> gateClient" where
  "NewGateClient podname sid ns useCm =
     \<lparr>GC_podname = podname, GC_sid = sid, GC_ns = ns, GC_useCm = useCm, GC_tokenActive = False, GC_certVerifyActive = False,
      GC_httpClient = \<lparr>HC_token = '''', HC_missingToken = False\<rparr>, GC_pile = SessionDataPile_Clear empty_SessionDataPile,
      GC_alerts = [], GC_IamCompromised = False, GC_tokenRefreshTime = 0\<rparr>"

definition initHttpClient :: "string option \<Rightarrow> bool \<Rightarrow> gateClient \<Rightarrow> gateClient" where
  "initHttpClient file insecureSkipVerify srv =
     (let srv = srv\<lparr>GC_certVerifyActive := \<not> insecureSkipVerify\<rparr>;
          (client, active) = ReadToken file \<lparr>HC_token = '''', HC_missingToken = False\<rparr>
      in srv\<lparr>GC_httpClient := client, GC_tokenActive := active\<rparr>)"

text \<open>The headers that \<open>Do\<close> adds are part of the request here.\<close>

definition sync_http :: "gateClient \<Rightarrow> string \<Rightarrow> string \<Rightarrow> http_req" where
  "sync_http srv urlPath postBody =
     (let query = (if \<not> GC_tokenActive srv then [(''sid'', [GC_sid srv]), (''ns'', [GC_ns srv]), (''pod'', [GC_podname srv])] else [])
            @ (if GC_useCm srv then [(''cm'', [''true''])] else [])
      in \<lparr>HR_Method = ''POST'', HR_Path = urlPath, HR_Query = Some query,
          HR_Authorization = (if HC_missingToken (GC_httpClient srv) then '''' else ''Bearer '' @ HC_token (GC_httpClient srv)),
          HR_ContentLength = int (length postBody), HR_Body = Some postBody\<rparr>)"

text \<open>The first half of \<open>syncWithService\<close>: up to sending.\<close>

definition sync_request :: "'k gate_env \<Rightarrow> int \<Rightarrow> gateClient \<Rightarrow> gateClient \<times> http_req option" where
  "sync_request e ticks srv =
     (let srv = (if GC_tokenRefreshTime srv \<le> ticks
                 then srv\<lparr>GC_tokenRefreshTime := ticks + 300, GC_httpClient := fst (ReadToken (GE_TokenFile e) (GC_httpClient srv))\<rparr>
                 else srv);
          syncReq = \<lparr>CS_Pile = GC_pile srv, CS_Alerts = GC_alerts srv, CS_IamCompromised = GC_IamCompromised srv\<rparr>
      in case GE_marshal e syncReq of
           None \<Rightarrow> (srv, None)
         | Some postBody \<Rightarrow>
             (case GE_UrlPath e of
                None \<Rightarrow> (srv, None)
              | Some urlPath \<Rightarrow> (srv, Some (sync_http srv urlPath postBody))))"

text \<open>The second half: from the answer on.\<close>

definition sync_reply :: "'k gate_env \<Rightarrow> http_answer \<Rightarrow> gateClient \<Rightarrow> gateClient \<times> GuardianSpec option" where
  "sync_reply e res srv =
     (case res of
        DoError \<Rightarrow> (srv, None)
      | Answer status bd \<Rightarrow>
          if status \<noteq> 200 then (srv, None)
          else (case bd of
              NoBody \<Rightarrow> (srv, None)
            | UnreadableBody \<Rightarrow> (srv, None)
            | BodyBytes body \<Rightarrow>
                if length body = 0 then (srv, None)
                else (case GE_unmarshal e body of
                    None \<Rightarrow> (srv, None)
                  | Some g \<Rightarrow> (srv\<lparr>GC_alerts := [], GC_pile := SessionDataPile_Clear (GC_pile srv)\<rparr>, g))))"

definition syncWithService :: "'k gate_env \<Rightarrow> int \<Rightarrow> gateClient \<Rightarrow> gateClient \<times> GuardianSpec option" where
  "syncWithService e ticks srv =
     (case sync_request e ticks srv of
        (srv, None) \<Rightarrow> (srv, None)
      | (srv, Some req) \<Rightarrow> sync_reply e (GE_Do e req) srv)"

definition signalCompromised :: "'k gate_env \<Rightarrow> int \<Rightarrow> gateClient \<Rightarrow> gateClient" where
  "signalCompromised e ticks srv =
     (if \<not> GC_IamCompromised srv then fst (syncWithService e ticks (srv\<lparr>GC_IamCompromised := True\<rparr>)) else srv)"

text \<open>The clock is an argument; the decision comes back with its reasons sorted.\<close>

definition client_addAlert :: "int \<Rightarrow> decision \<Rightarrow> string \<Rightarrow> gateClient \<Rightarrow> gateClient \<times> decision \<times> nat" where
  "client_addAlert now d level srv =
     (let (alerts, d) = AddAlert (GC_alerts srv) d level now;
          numAlerts = length alerts
      in if numAlerts > ALERTS_LIMIT then (srv\<lparr>GC_alerts := take (numAlerts - 1) alerts\<rparr>, d, numAlerts - 1)
         else (srv\<lparr>GC_alerts := alerts\<rparr>, d, numAlerts))"

definition addToPile :: "SessionDataProfile \<Rightarrow> gateClient \<Rightarrow> (gateClient \<times> 32 word) res" where
  "addToPile profile srv =
     bind_res
       (if SDQ_Count (GC_pile srv) < 2 * PILE_LIMIT
        then bind_res (SessionDataPile_Add (GC_pile srv) profile) (\<lambda>p. Inr (srv\<lparr>GC_pile := p\<rparr>))
        else Inr srv)
       (\<lambda>srv. Inr (srv, SDQ_Count (GC_pile srv)))"

definition syncWithServiceAndKubeApi :: "'k gate_env \<Rightarrow> int \<Rightarrow> bool \<Rightarrow> gateClient \<Rightarrow> gateClient \<times> GuardianSpec option" where
  "syncWithServiceAndKubeApi e ticks shouldLoad srv =
     (let (srv, wsGate) = syncWithService e ticks srv in
      if wsGate = None \<and> shouldLoad
      then (srv, Some (GetGuardian (GE_api e) (GE_cluster e) (GC_ns srv) (GC_sid srv) (GC_useCm srv) True))
      else (srv, wsGate))"

section \<open>Bounds of what is kept\<close>

definition client_ok :: "gateClient \<Rightarrow> bool" where
  "client_ok srv \<longleftrightarrow> length (GC_alerts srv) \<le> ALERTS_LIMIT \<and> alerts_ok (GC_alerts srv)
     \<and> SDQ_Count (GC_pile srv) \<le> 2 * PILE_LIMIT \<and> session_pwf (GC_pile srv)"

lemma pile_count_limit: "(n :: 32 word) < 2 * PILE_LIMIT \<Longrightarrow> n + 1 \<le> 2 * PILE_LIMIT"
  by (simp add: PILE_LIMIT_def word_less_nat_alt word_le_nat_alt unat_word_ariths)

lemma client_ok_new: "client_ok (NewGateClient podname sid ns useCm)"
  by (simp add: client_ok_def NewGateClient_def alerts_ok_def ALERTS_LIMIT_def session_pwf_Clear session.pwf_empty
      SessionDataPile_Clear_Count)

lemma initHttpClient_ok: "client_ok srv \<Longrightarrow> client_ok (initHttpClient file skip srv)"
  by (simp add: initHttpClient_def client_ok_def Let_def split: prod.split)

lemma alerts_ok_take: "alerts_ok as \<Longrightarrow> alerts_ok (take n as)"
  by (simp add: alerts_ok_def take_map [symmetric])

lemma client_addAlert_ok: "client_ok srv \<Longrightarrow> client_ok (fst (client_addAlert now d level srv)) \<and>
    snd (snd (client_addAlert now d level srv)) = length (GC_alerts (fst (client_addAlert now d level srv)))"
  using AddAlert_length [of "GC_alerts srv" d level now] AddAlert_alerts_ok [of "GC_alerts srv" d level now]
    alerts_ok_take [of "fst (AddAlert (GC_alerts srv) d level now)"]
  by (cases "AddAlert (GC_alerts srv) d level now")
    (auto simp: client_addAlert_def client_ok_def Let_def split: if_splits)

lemma addToPile_ok:
  assumes "client_ok srv" and "session_vwf v"
  shows "ok (addToPile v srv) (\<lambda>(srv', n). client_ok srv' \<and> n = SDQ_Count (GC_pile srv')
    \<and> srv' = srv\<lparr>GC_pile := GC_pile srv'\<rparr>
    \<and> (\<forall>u. session_covers (GC_pile srv) u \<longrightarrow> session_covers (GC_pile srv') u)
    \<and> (SDQ_Count (GC_pile srv) < 2 * PILE_LIMIT \<longrightarrow> session_covers (GC_pile srv') v))"
proof (cases "SDQ_Count (GC_pile srv) < 2 * PILE_LIMIT")
  case True
  have p: "session_pwf (GC_pile srv)" using assms(1) by (simp add: client_ok_def)
  have "ok (bind_res (SessionDataPile_Add (GC_pile srv) v) (\<lambda>p. Inr (srv\<lparr>GC_pile := p\<rparr>, SDQ_Count p)))
    (\<lambda>(srv', n). client_ok srv' \<and> n = SDQ_Count (GC_pile srv') \<and> srv' = srv\<lparr>GC_pile := GC_pile srv'\<rparr>
    \<and> (\<forall>u. session_covers (GC_pile srv) u \<longrightarrow> session_covers (GC_pile srv') u)
    \<and> (SDQ_Count (GC_pile srv) < 2 * PILE_LIMIT \<longrightarrow> session_covers (GC_pile srv') v))"
    using pile_count_limit [OF True] assms(1)
    by (intro ok_bindI [OF SessionDataPile_Add_ok [OF p assms(2)]]) (simp add: client_ok_def)
  then show ?thesis using True by (simp add: addToPile_def bind_res_assoc)
next
  case False
  then show ?thesis using assms(1) by (cases srv) (simp add: addToPile_def)
qed

lemma sync_request_keeps:
  "sync_request e ticks srv = (srv', r) \<Longrightarrow> GC_pile srv' = GC_pile srv \<and> GC_alerts srv' = GC_alerts srv \<and>
     GC_IamCompromised srv' = GC_IamCompromised srv"
  by (auto simp: sync_request_def Let_def split: if_splits option.splits)

lemma sync_request_ok: "client_ok srv \<Longrightarrow> client_ok (fst (sync_request e ticks srv))"
  by (cases "sync_request e ticks srv") (auto dest: sync_request_keeps simp: client_ok_def)

lemma sync_reply_cases:
  "sync_reply e res srv = (srv', g) \<Longrightarrow> srv' = srv \<and> g = None
     \<or> srv' = srv\<lparr>GC_alerts := [], GC_pile := SessionDataPile_Clear (GC_pile srv)\<rparr>
       \<and> (\<exists>body. res = Answer 200 (BodyBytes body) \<and> body \<noteq> '''' \<and> GE_unmarshal e body = Some g)"
  by (auto simp: sync_reply_def split: http_answer.splits answer_body.splits if_splits option.splits)

lemma sync_reply_ok: "client_ok srv \<Longrightarrow> client_ok (fst (sync_reply e res srv))"
proof -
  assume c: "client_ok srv"
  obtain srv' g where r: "sync_reply e res srv = (srv', g)" by fastforce
  have "client_ok (srv\<lparr>GC_alerts := [], GC_pile := SessionDataPile_Clear (GC_pile srv)\<rparr>)"
    using c by (simp add: client_ok_def alerts_ok_def SessionDataPile_Clear_Count session_pwf_Clear)
  then show ?thesis using sync_reply_cases [OF r] r c by auto
qed

lemma syncWithService_ok: "client_ok srv \<Longrightarrow> client_ok (fst (syncWithService e ticks srv))"
  using sync_request_ok [of srv e ticks]
  by (cases "sync_request e ticks srv"; cases "snd (sync_request e ticks srv)") (auto simp: syncWithService_def sync_reply_ok)

lemma signalCompromised_ok: "client_ok srv \<Longrightarrow> client_ok (signalCompromised e ticks srv)"
proof -
  assume "client_ok srv"
  moreover from this have "client_ok (srv\<lparr>GC_IamCompromised := True\<rparr>)" by (simp add: client_ok_def)
  ultimately show ?thesis by (simp add: signalCompromised_def syncWithService_ok)
qed

lemma syncWithServiceAndKubeApi_ok:
  "client_ok srv \<Longrightarrow> syncWithServiceAndKubeApi e ticks load srv = (srv', g) \<Longrightarrow> client_ok srv' \<and> (load \<longrightarrow> g \<noteq> None)"
  using syncWithService_ok [of srv e ticks]
  by (cases "syncWithService e ticks srv") (auto simp: syncWithServiceAndKubeApi_def Let_def split: if_splits)

section \<open>Properties\<close>

text \<open>What can happen to a client, in any order; the network may answer anything at any time.\<close>

inductive client_step :: "gateClient \<Rightarrow> gateClient \<Rightarrow> bool" where
  AddAlert_step: "client_step srv (fst (client_addAlert now d level srv))"
| AddProfile_step: "session_vwf v \<Longrightarrow> addToPile v srv = Inr (srv', n) \<Longrightarrow> client_step srv srv'"
| Send_step: "client_step srv (fst (sync_request (e :: unit gate_env) ticks srv))"
| Receive_step: "client_step srv (fst (sync_reply (e :: unit gate_env) res srv))"
| Compromise_step: "client_step srv (srv\<lparr>GC_IamCompromised := True\<rparr>)"

interpretation client: machine "\<lambda>srv. \<exists>podname sid ns useCm. srv = NewGateClient podname sid ns useCm" client_step client_ok
proof
  fix srv srv' assume "client_ok srv" and "client_step srv srv'"
  from this(2,1) show "client_ok srv'"
  proof (induction rule: client_step.induct)
    case (AddProfile_step v srv srv' n)
    then show ?case using ok_Inr [OF addToPile_ok] by fastforce
  next
    case (Compromise_step srv)
    then show ?case by (simp add: client_ok_def)
  qed (simp_all add: client_addAlert_ok sync_request_ok sync_reply_ok)
qed (auto simp: client_ok_new)

text \<open>
  Whatever happens, a gate keeps at most a thousand alerts, no two of the same finding, and
  a pile of at most two thousand profiles, well formed, and piling one more profile succeeds:
  a service that never answers cannot make the gate grow without bound.
\<close>

theorem client_bounded:
  assumes "reachable (\<lambda>srv. \<exists>podname sid ns useCm. srv = NewGateClient podname sid ns useCm) client_step srv"
    and "session_vwf v"
  shows "length (GC_alerts srv) \<le> 1000 \<and> alerts_ok (GC_alerts srv) \<and> unat (SDQ_Count (GC_pile srv)) \<le> 2000
    \<and> (\<exists>srv' n. addToPile v srv = Inr (srv', n) \<and> unat n \<le> 2000)"
proof -
  have c: "client_ok srv" by (rule client.inv_reachable [OF assms(1)])
  have lim: "n \<le> 2 * PILE_LIMIT \<longleftrightarrow> unat n \<le> 2000" for n :: "32 word"
    by (simp add: PILE_LIMIT_def word_le_nat_alt)
  have "\<exists>srv' n. addToPile v srv = Inr (srv', n) \<and> unat n \<le> 2000"
    using addToPile_ok [OF c assms(2)] lim by (auto simp: ok_iff client_ok_def)
  then show ?thesis using c lim by (simp add: client_ok_def ALERTS_LIMIT_def)
qed

theorem client_bounded_witness:
  "length (GC_alerts (NewGateClient ''p'' ''s'' ''n'' True)) \<le> 1000
    \<and> (\<exists>srv' n. addToPile new_SessionDataProfile (NewGateClient ''p'' ''s'' ''n'' True) = Inr (srv', n) \<and> unat n \<le> 2000)"
proof -
  have "reachable (\<lambda>srv. \<exists>podname sid ns useCm. srv = NewGateClient podname sid ns useCm) client_step (NewGateClient ''p'' ''s'' ''n'' True)"
    by (rule reachable_start) blast
  from client_bounded [OF this session_vwf_new] show ?thesis by blast
qed

text \<open>
  C36. A successful synchronisation forgets everything that was gathered while it was under way:
  what is sent is the pile and the alerts of the moment of sending, what is cleared is the pile
  and the alerts of the moment of the answer.
\<close>

theorem sync_forgets_what_came_meanwhile:
  assumes "sync_request e ticks srv = (srv1, Some req)" and "addToPile v srv1 = Inr (srv2, n)"
    and "client_addAlert now d level srv2 = (srv3, d', numAlerts)"
    and "body \<noteq> ''''" and "GE_unmarshal e body = Some g"
    and "client_ok srv" and "session_vwf v" and "SDQ_Count (GC_pile srv) < 2 * PILE_LIMIT"
  shows "session_covers (GC_pile srv3) v \<and> (\<exists>bytes. GE_marshal e \<lparr>CS_Pile = GC_pile srv, CS_Alerts = GC_alerts srv, CS_IamCompromised = GC_IamCompromised srv\<rparr> = Some bytes
    \<and> HR_Body req = Some bytes
    \<and> (\<exists>srv4. sync_reply e (Answer 200 (BodyBytes body)) srv3 = (srv4, g) \<and> SDQ_Count (GC_pile srv4) = 0 \<and> GC_alerts srv4 = []))"
proof -
  have "client_ok srv1" using sync_request_ok [OF assms(6), of e ticks] assms(1) by simp
  moreover have "SDQ_Count (GC_pile srv1) < 2 * PILE_LIMIT" using sync_request_keeps [OF assms(1)] assms(8) by simp
  ultimately have "session_covers (GC_pile srv2) v"
    using ok_Inr [OF addToPile_ok [OF _ assms(7)] assms(2)] by blast
  moreover have "GC_pile srv3 = GC_pile srv2"
    using assms(3) by (auto simp: client_addAlert_def Let_def split: prod.splits if_splits)
  moreover have "\<exists>bytes. GE_marshal e \<lparr>CS_Pile = GC_pile srv, CS_Alerts = GC_alerts srv, CS_IamCompromised = GC_IamCompromised srv\<rparr> = Some bytes
      \<and> HR_Body req = Some bytes"
    using assms(1) by (auto simp: sync_request_def sync_http_def Let_def split: if_splits option.splits)
  moreover have "\<exists>srv4. sync_reply e (Answer 200 (BodyBytes body)) srv3 = (srv4, g) \<and> SDQ_Count (GC_pile srv4) = 0 \<and> GC_alerts srv4 = []"
    using assms(4,5) by (simp add: sync_reply_def)
  ultimately show ?thesis by auto
qed

theorem sync_forgets_what_came_meanwhile_witness:
  "\<exists>e :: unit gate_env. \<exists>srv2 n srv4. addToPile new_SessionDataProfile (fst (sync_request e 0 (NewGateClient ''p'' ''s'' ''n'' True))) = Inr (srv2, n)
    \<and> sync_reply e (Answer 200 (BodyBytes ''{}'')) (fst (client_addAlert 0 finding_ab ''Session'' srv2)) = (srv4, None)
    \<and> SDQ_Count (GC_pile srv4) = 0 \<and> GC_alerts srv4 = []"
proof -
  let ?srv = "NewGateClient ''p'' ''s'' ''n'' True"
  let ?e = "\<lparr>GE_world = undefined, GE_TokenFile = None, GE_UrlPath = Some ''/sync'', GE_Do = \<lambda>r. DoError, GE_api = empty_cluster,
    GE_cluster = (), GE_marshal = \<lambda>m. Some ''{}'', GE_unmarshal = \<lambda>b. Some None\<rparr>"
  obtain e :: "unit gate_env" where e: "e = ?e" by blast
  obtain srv1 req where r: "sync_request e 0 ?srv = (srv1, Some req)"
    by (simp add: sync_request_def e Let_def)
  have c: "client_ok srv1" using sync_request_ok [OF client_ok_new, of e 0] r by (metis fst_conv)
  obtain srv2 n where a: "addToPile new_SessionDataProfile srv1 = Inr (srv2, n)"
    using addToPile_ok [OF c session_vwf_new] by (auto simp: ok_iff)
  obtain srv3 d' k where b: "client_addAlert 0 finding_ab ''Session'' srv2 = (srv3, d', k)" by (metis surj_pair)
  have "GE_unmarshal e ''{}'' = Some None" by (simp add: e)
  have "SDQ_Count (GC_pile ?srv) < 2 * PILE_LIMIT" by (simp add: NewGateClient_def PILE_LIMIT_def)
  from sync_forgets_what_came_meanwhile [OF r a b _ \<open>GE_unmarshal e ''{}'' = Some None\<close> client_ok_new session_vwf_new this] obtain srv4 where
    "sync_reply e (Answer 200 (BodyBytes ''{}'')) srv3 = (srv4, None)" "SDQ_Count (GC_pile srv4) = 0" "GC_alerts srv4 = []" by auto
  then show ?thesis using r a b by (intro exI [of _ e] exI [of _ srv2] exI [of _ n] exI [of _ srv4]) simp
qed

end
