(* ===== verification/Gates.thy ===== *)
theory Gates
  imports Gate_Client Iodup "HOL-Library.Signed_Division"
begin

text \<open>
  \<open>pkg/guard-gate/state.go\<close>: the state of a gate: the control and the criteria it last loaded,
  the alert and the profile of its pod, its statistics and its client; what happens every
  second, every synchronisation and for every part of a session that is to be judged.
\<close>

section \<open>State\<close>

record gateState =
  GS_analyzeBody :: bool
  GS_ctrl :: "ctrl option"
  GS_criteria :: "SessionDataConfig option"
  GS_numSamples :: "32 word"
  GS_stat :: Stat
  GS_alert :: string
  GS_decision :: "decision option"
  GS_monitorPod :: bool
  GS_pod :: PodProfile
  GS_srv :: gateClient
  GS_prevAlert :: string
  GS_skippedSyncs :: "32 word"
  GS_lastSync :: int
  GS_ticks :: int
  GS_syncServiceSecs :: int
  GS_podMonitorSecs :: int

text \<open>
  \<open>NewGateState\<close> and \<open>init\<close>: \<open>skipVerify\<close> tells that no root certificate could be added. The
  readers of bodies (\<open>iodups\<close>) are those of \<open>Iodup\<close> with two outputs, 128 buffers of 8192 bytes.
\<close>

definition NewGateState ::
    "int \<Rightarrow> string option \<Rightarrow> bool \<Rightarrow> int \<Rightarrow> int \<Rightarrow> bool \<Rightarrow> string \<Rightarrow> string \<Rightarrow> string \<Rightarrow> bool \<Rightarrow> gateState" where
  "NewGateState now file skipVerify syncServiceSecs podMonitorSecs monitorPod podname sid ns useCm =
     \<lparr>GS_analyzeBody = False, GS_ctrl = None, GS_criteria = None, GS_numSamples = 0, GS_stat = Stat_Init, GS_alert = '''',
      GS_decision = None, GS_monitorPod = monitorPod, GS_pod = new_PodProfile,
      GS_srv = initHttpClient file skipVerify (NewGateClient podname sid ns useCm), GS_prevAlert = '''', GS_skippedSyncs = 0,
      GS_lastSync = 0, GS_ticks = now, GS_syncServiceSecs = syncServiceSecs, GS_podMonitorSecs = podMonitorSecs\<rparr>"

definition gate_iodups :: "IoDups res" where
  "gate_iodups = NewIoDups [2, 128, 8192]"

section \<open>Small operations\<close>

definition addStat :: "string \<Rightarrow> gateState \<Rightarrow> gateState res" where
  "addStat key gs = bind_res (Stat_Add (GS_stat gs) key) (\<lambda>st. Inr (gs\<lparr>GS_stat := st\<rparr>))"

definition shouldBlock :: "gateState \<Rightarrow> bool" where
  "shouldBlock gs \<longleftrightarrow> (case GS_ctrl gs of None \<Rightarrow> False | Some c \<Rightarrow> Block c)"

definition gate_hasAlert :: "gateState \<Rightarrow> bool" where
  "gate_hasAlert gs \<longleftrightarrow> GS_decision gs \<noteq> None"

definition shouldLearn :: "bool \<Rightarrow> gateState \<Rightarrow> bool" where
  "shouldLearn sessionAlert gs \<longleftrightarrow>
     (let alert = (GS_alert gs \<noteq> '''') \<or> \<not> sessionAlert in
      case GS_ctrl gs of None \<Rightarrow> False | Some c \<Rightarrow> Learn c \<and> (\<not> alert \<or> Force c))"

definition copyPodProfile :: "gateState \<Rightarrow> PodProfile \<Rightarrow> PodProfile" where
  "copyPodProfile gs pp = (if \<not> GS_monitorPod gs then pp else GS_pod gs)"

section \<open>Synchronisation\<close>

text \<open>
  \<open>sync\<close> loads the guardian only when asked to. The arguments are the surroundings, the order
  of map ranges and the clock \<open>now\<close> for what is logged.
\<close>

definition load_guardian :: "ranger \<Rightarrow> GuardianSpec \<Rightarrow> gateState \<Rightarrow> gateState res" where
  "load_guardian rr g gs =
     (let gs = gs\<lparr>GS_numSamples := NumSamples g\<rparr>;
          c = (case Control g of None \<Rightarrow> new_Ctrl | Some c \<Rightarrow> c);
          gs = gs\<lparr>GS_ctrl := Some c\<rparr>;
          criteria = (if Auto c then Learned g else Configured g);
          criteria = (case criteria of None \<Rightarrow> new_SessionDataConfig | Some cr \<Rightarrow> cr)
      in bind_res (SessionDataConfig_Prepare rr criteria) (\<lambda>criteria. Inr (gs\<lparr>GS_criteria := Some criteria\<rparr>)))"

definition gate_sync :: "'k gate_env \<Rightarrow> ranger \<Rightarrow> bool \<Rightarrow> bool \<Rightarrow> int \<Rightarrow> gateState \<Rightarrow> gateState res" where
  "gate_sync e rr shouldLoad forceSync ticks gs =
     (if \<not> forceSync \<and> ticks - GS_lastSync gs < MIN_TIME_BETWEEN_SYNCS then Inr gs
      else
        (let gs = gs\<lparr>GS_skippedSyncs := 0\<rparr>;
             (srv, g) = syncWithServiceAndKubeApi e ticks shouldLoad (GS_srv gs);
             gs = gs\<lparr>GS_srv := srv\<rparr>
         in if \<not> shouldLoad then Inr gs
            else bind_res (deref g) (\<lambda>g. load_guardian rr g gs)))"

definition addProfile :: "'k gate_env \<Rightarrow> ranger \<Rightarrow> SessionDataProfile \<Rightarrow> int \<Rightarrow> gateState \<Rightarrow> gateState res" where
  "addProfile e rr profile ticks gs =
     bind_res (addToPile profile (GS_srv gs)) (\<lambda>(srv, n).
     let gs = gs\<lparr>GS_srv := srv\<rparr> in
     if n \<ge> PILE_LIMIT then gate_sync e rr True False ticks gs else Inr gs)"

text \<open>The decision comes back with its reasons sorted.\<close>

definition gate_addAlert :: "'k gate_env \<Rightarrow> ranger \<Rightarrow> int \<Rightarrow> decision \<Rightarrow> string \<Rightarrow> gateState \<Rightarrow> (gateState \<times> decision) res" where
  "gate_addAlert e rr now d level gs =
     (let (srv, d, n) = client_addAlert now d level (GS_srv gs);
          gs = gs\<lparr>GS_srv := srv\<rparr>
      in bind_res (if n \<ge> ALERTS_LIMIT then gate_sync e rr True False (GS_ticks gs) gs else Inr gs) (\<lambda>gs. Inr (gs, d)))"

section \<open>The pod\<close>

definition gate_logAlert :: "'k gate_env \<Rightarrow> ranger \<Rightarrow> int \<Rightarrow> gateState \<Rightarrow> gateState res" where
  "gate_logAlert e rr now gs =
     (case GS_decision gs of
        None \<Rightarrow> Inr gs
      | Some d \<Rightarrow>
          (let gs = gs\<lparr>GS_alert := String_of (rr ''String'') d ''Gate ->''\<rparr> in
           if GS_prevAlert gs = GS_alert gs then Inr gs
           else bind_res (addStat ''GateLevelAlert'' (gs\<lparr>GS_prevAlert := GS_alert gs\<rparr>)) (\<lambda>gs.
                bind_res (gate_addAlert e rr now d ''Gate'' gs) (\<lambda>(gs, d).
                Inr (gs\<lparr>GS_decision := Some d\<rparr>)))))"

definition active_criteria :: "gateState \<Rightarrow> SessionDataConfig option" where
  "active_criteria gs =
     (case GS_criteria gs of None \<Rightarrow> None | Some c \<Rightarrow> if SDC_Active c then Some c else None)"

definition profileAndDecidePod :: "'k gate_env \<Rightarrow> ranger \<Rightarrow> int \<Rightarrow> int \<Rightarrow> gateState \<Rightarrow> gateState res" where
  "profileAndDecidePod e rr now ticks gs =
     (if \<not> GS_monitorPod gs then Inr gs
      else bind_res (PodProfile_Profile (w_ReadFile (GE_world e))) (\<lambda>pod.
        let gs = gs\<lparr>GS_pod := pod\<rparr> in
        case active_criteria gs of
          None \<Rightarrow> Inr gs
        | Some c \<Rightarrow>
            (let gs = gs\<lparr>GS_decision := DecideChild (GS_decision gs) (PodConfig_Decide (SDC_Pod c) (GS_pod gs)) ''Pod''\<rparr> in
             if GS_decision gs = None then Inr gs
             else bind_res (gate_logAlert e rr now gs) (\<lambda>gs.
               if shouldBlock gs
               then addStat ''BlockOnPod'' (gs\<lparr>GS_srv := signalCompromised e ticks (GS_srv gs)\<rparr>)
               else Inr gs))))"

section \<open>Every second\<close>

text \<open>Go's remainder truncates, and panics on zero.\<close>

definition remainder :: "int \<Rightarrow> int \<Rightarrow> int res" where
  "remainder a b = (if b = 0 then Inl DivideByZero else Inr (a smod b))"

definition should_sync :: "gateState \<Rightarrow> bool" where
  "should_sync gs \<longleftrightarrow> GS_numSamples gs < SDQ_Count (GC_pile (GS_srv gs)) * 10 \<or> GC_alerts (GS_srv gs) \<noteq> [] \<or> GS_skippedSyncs gs \<ge> 5"

definition setTicks :: "'k gate_env \<Rightarrow> ranger \<Rightarrow> int \<Rightarrow> int \<Rightarrow> gateState \<Rightarrow> gateState res" where
  "setTicks e rr now ticks gs =
     (let gs = gs\<lparr>GS_ticks := ticks, GS_skippedSyncs := GS_skippedSyncs gs + 1\<rparr>;
          shouldSync = should_sync gs
      in bind_res (if shouldSync then bind_res (remainder ticks (GS_syncServiceSecs gs)) (\<lambda>r. Inr (r = 0)) else Inr False) (\<lambda>due.
         bind_res (if due then gate_sync e (at_site rr ''sync'') True False ticks gs else Inr gs) (\<lambda>gs.
         bind_res (remainder ticks (GS_podMonitorSecs gs)) (\<lambda>r.
         if r = 1 then profileAndDecidePod e (at_site rr ''pod'') now ticks gs else Inr gs))))"

section \<open>Judging the parts of a session\<close>

text \<open>
  The five methods have the same shape: with active criteria, the decision on a part becomes a
  child of the session's decision, and the statistics count it when there is any decision.
\<close>

definition decide_part ::
    "(SessionDataConfig \<Rightarrow> decision option res) \<Rightarrow> string \<Rightarrow> string \<Rightarrow> gateState \<Rightarrow> decision option \<Rightarrow> (gateState \<times> decision option) res" where
  "decide_part part tag key gs d =
     (case active_criteria gs of
        None \<Rightarrow> Inr (gs, d)
      | Some c \<Rightarrow>
          bind_res (part c) (\<lambda>child.
          let d = DecideChild d child tag in
          if d = None then Inr (gs, d)
          else bind_res (addStat key gs) (\<lambda>gs. Inr (gs, d))))"

definition decideReq :: "ranger \<Rightarrow> ReqProfile \<Rightarrow> gateState \<Rightarrow> decision option \<Rightarrow> (gateState \<times> decision option) res" where
  "decideReq rr rp = decide_part (\<lambda>c. Inr (ReqConfig_Decide rr (SDC_Req c) rp)) ''HttpRequest'' ''ReqAlert''"

definition decideResp :: "ranger \<Rightarrow> RespProfile \<Rightarrow> gateState \<Rightarrow> decision option \<Rightarrow> (gateState \<times> decision option) res" where
  "decideResp rr rp = decide_part (\<lambda>c. Inr (RespConfig_Decide rr (SDC_Resp c) rp)) ''HttpResponse'' ''RespAlert''"

definition decideReqBody :: "ranger \<Rightarrow> BodyProfile \<Rightarrow> gateState \<Rightarrow> decision option \<Rightarrow> (gateState \<times> decision option) res" where
  "decideReqBody rr bp = decide_part (\<lambda>c. BodyConfig_Decide rr (SDC_ReqBody c) bp) ''HttpRequestBody'' ''ReqBodyAlert''"

definition decideRespBody :: "ranger \<Rightarrow> BodyProfile \<Rightarrow> gateState \<Rightarrow> decision option \<Rightarrow> (gateState \<times> decision option) res" where
  "decideRespBody rr bp = decide_part (\<lambda>c. BodyConfig_Decide rr (SDC_RespBody c) bp) ''HttpResponseBody'' ''RespBodyAlert''"

definition decideEnvelop :: "EnvelopProfile \<Rightarrow> gateState \<Rightarrow> decision option \<Rightarrow> (gateState \<times> decision option) res" where
  "decideEnvelop ep = decide_part (\<lambda>c. Inr (EnvelopConfig_Decide (SDC_Envelop c) ep)) ''Envelop'' ''EnvelopAlert''"

section \<open>What the operations keep\<close>

text \<open>Criteria that can be prepared, and guardians all of whose criteria can.\<close>

definition preparable :: "SessionDataConfig \<Rightarrow> bool" where
  "preparable c \<longleftrightarrow> (\<forall>rr. fair_ranger rr \<longrightarrow> ok (SessionDataConfig_Prepare rr c) session_cwf)"

definition spec_ok :: "GuardianSpec \<Rightarrow> bool" where
  "spec_ok g \<longleftrightarrow> (\<forall>c. Learned g = Some c \<longrightarrow> preparable c) \<and> (\<forall>c. Configured g = Some c \<longrightarrow> preparable c)"

definition env_ok :: "'k gate_env \<Rightarrow> bool" where
  "env_ok e \<longleftrightarrow> (\<forall>body g. GE_unmarshal e body = Some (Some g) \<longrightarrow> spec_ok g)
     \<and> (\<forall>k ns sid cm auto. spec_ok (GetGuardian (GE_api e) k ns sid cm auto))"

text \<open>The well-formed state of a gate: its bounds, its statistics, criteria that are prepared.\<close>

definition gate_ok :: "gateState \<Rightarrow> bool" where
  "gate_ok gs \<longleftrightarrow> client_ok (GS_srv gs) \<and> GS_stat gs \<noteq> None \<and> (\<forall>c. GS_criteria gs = Some c \<longrightarrow> session_cwf c)
     \<and> pod_vwf (GS_pod gs) \<and> GS_lastSync gs = 0"

definition intervals :: "gateState \<Rightarrow> int \<times> int" where
  "intervals gs = (GS_syncServiceSecs gs, GS_podMonitorSecs gs)"

text \<open>What an operation keeps: the invariant, the settings, and an alert of the gate.\<close>

definition gate_keeps :: "gateState \<Rightarrow> gateState \<Rightarrow> bool" where
  "gate_keeps gs gs' \<longleftrightarrow> gate_ok gs' \<and> intervals gs' = intervals gs \<and> GS_monitorPod gs' = GS_monitorPod gs
     \<and> GS_analyzeBody gs' = GS_analyzeBody gs \<and> (gate_hasAlert gs \<longrightarrow> gate_hasAlert gs')"

lemma gate_keeps_trans: "gate_keeps gs gs' \<Longrightarrow> gate_keeps gs' gs'' \<Longrightarrow> gate_keeps gs gs''"
  by (simp add: gate_keeps_def)

lemma gate_keeps_refl: "gate_ok gs \<Longrightarrow> gate_keeps gs gs"
  by (simp add: gate_keeps_def)

lemma preparable_new: "preparable new_SessionDataConfig"
proof -
  have none: "range_over ro [] = []" for ro by (simp add: range_over_def)
  have kv: "KeyValConfig_Prepare rr new_KeyValConfig = Inr new_KeyValConfig" for rr
    by (simp add: KeyValConfig_Prepare_def new_KeyValConfig_def none)
  show ?thesis
    using session_cwf_new
    by (simp add: preparable_def SessionDataConfig_Prepare_def new_SessionDataConfig_def new_ReqConfig_def new_BodyConfig_def
        ReqConfig_Prepare_def RespConfig_Prepare_def BodyConfig_Prepare_def QueryConfig_Prepare_def HeadersConfig_Prepare_def
        MediaTypeConfig_Prepare_def UrlConfig_Prepare_def kv Let_def session_cwf_def req_cwf_def resp_cwf_def
        IpSetConfig_Prepare_def CountConfig_Prepare_def media_cwf_def url_cwf_def body_cwf_def PodConfig_Prepare_def pod_cwf_def)
qed

lemma addStat_ok: "gate_ok gs \<Longrightarrow> ok (addStat key gs) (\<lambda>gs'. gate_keeps gs gs' \<and> gs' = gs\<lparr>GS_stat := GS_stat gs'\<rparr>)"
  using Stat_Add_ok [of "GS_stat gs" key]
  by (auto simp: addStat_def gate_ok_def gate_keeps_def intervals_def gate_hasAlert_def ok_iff)

lemma load_guardian_ok:
  assumes "fair_ranger rr" and "gate_ok gs" and "spec_ok g"
  shows "ok (load_guardian rr g gs) (\<lambda>gs'. gate_keeps gs gs' \<and> GS_criteria gs' \<noteq> None \<and> GS_ctrl gs' \<noteq> None \<and> GS_srv gs' = GS_srv gs)"
proof -
  define c where "c = (case Control g of None \<Rightarrow> new_Ctrl | Some c \<Rightarrow> c)"
  define cr where "cr = (case if Auto c then Learned g else Configured g of None \<Rightarrow> new_SessionDataConfig | Some cr \<Rightarrow> cr)"
  have "preparable cr" using assms(3) preparable_new by (auto simp: cr_def spec_ok_def split: option.split)
  then obtain p where "SessionDataConfig_Prepare rr cr = Inr p" "session_cwf p" using assms(1) by (auto simp: preparable_def ok_iff)
  then show ?thesis
    using assms(2) by (simp add: load_guardian_def Let_def c_def [symmetric] cr_def [symmetric] gate_keeps_def gate_ok_def intervals_def gate_hasAlert_def)
qed

text \<open>Loading always finds a guardian.\<close>

lemma loaded_spec_ok:
  assumes "env_ok e" and "syncWithServiceAndKubeApi e ticks True srv = (srv', g)"
  shows "\<exists>s. g = Some s \<and> spec_ok s"
proof -
  obtain srv1 g1 where s: "syncWithService e ticks srv = (srv1, g1)" by fastforce
  show ?thesis
  proof (cases g1)
    case None
    then show ?thesis using assms s by (auto simp: syncWithServiceAndKubeApi_def env_ok_def)
  next
    case (Some x)
    obtain srv2 r where r: "sync_request e ticks srv = (srv2, r)" by fastforce
    then obtain req where "r = Some req" "sync_reply e (GE_Do e req) srv2 = (srv1, Some x)"
      using s Some by (cases r) (auto simp: syncWithService_def)
    then have "\<exists>body. GE_unmarshal e body = Some (Some x)" using sync_reply_cases by fastforce
    then show ?thesis using assms s Some by (auto simp: syncWithServiceAndKubeApi_def env_ok_def)
  qed
qed

lemma gate_sync_ok:
  assumes "fair_ranger rr" and "gate_ok gs" and "env_ok e"
  shows "ok (gate_sync e rr load force ticks gs) (gate_keeps gs)"
proof (cases "\<not> force \<and> ticks - GS_lastSync gs < MIN_TIME_BETWEEN_SYNCS")
  case True
  then show ?thesis using assms(2) by (simp add: gate_sync_def gate_keeps_def)
next
  case False
  obtain srv g where s: "syncWithServiceAndKubeApi e ticks load (GS_srv gs) = (srv, g)" by fastforce
  have "client_ok srv" using syncWithServiceAndKubeApi_ok [OF _ s] assms(2) by (simp add: gate_ok_def)
  then have k: "gate_keeps gs (gs\<lparr>GS_skippedSyncs := 0, GS_srv := srv\<rparr>)"
    using assms(2) by (simp add: gate_keeps_def gate_ok_def intervals_def gate_hasAlert_def)
  show ?thesis
  proof (cases load)
    case True
    obtain x where x: "g = Some x" "spec_ok x"
      using loaded_spec_ok [OF assms(3), of ticks "GS_srv gs" srv g] s True by auto
    have "gate_ok (gs\<lparr>GS_skippedSyncs := 0, GS_srv := srv\<rparr>)" using k by (simp add: gate_keeps_def)
    from load_guardian_ok [OF assms(1) this x(2)]
    have "ok (load_guardian rr x (gs\<lparr>GS_skippedSyncs := 0, GS_srv := srv\<rparr>)) (gate_keeps gs)"
      by (rule ok_mono) (use k gate_keeps_trans in blast)
    then show ?thesis using False s x(1) True by (auto simp: gate_sync_def)
  next
    case load: False
    then show ?thesis using False s k by (auto simp: gate_sync_def)
  qed
qed

lemma addProfile_ok:
  assumes "fair_ranger rr" and "gate_ok gs" and "env_ok e" and "session_vwf v"
  shows "ok (addProfile e rr v ticks gs) (gate_keeps gs)"
proof -
  have c: "client_ok (GS_srv gs)" using assms(2) by (simp add: gate_ok_def)
  from addToPile_ok [OF c assms(4)] obtain srv n where a: "addToPile v (GS_srv gs) = Inr (srv, n)" "client_ok srv"
    by (auto simp: ok_iff)
  have k: "gate_keeps gs (gs\<lparr>GS_srv := srv\<rparr>)" using assms(2) a(2) by (simp add: gate_keeps_def gate_ok_def intervals_def gate_hasAlert_def)
  then have g: "gate_ok (gs\<lparr>GS_srv := srv\<rparr>)" by (simp add: gate_keeps_def)
  have "ok (gate_sync e rr True False ticks (gs\<lparr>GS_srv := srv\<rparr>)) (gate_keeps gs)"
    by (rule ok_mono [OF gate_sync_ok [OF assms(1) g assms(3)]]) (rule gate_keeps_trans [OF k])
  then show ?thesis using a(1) k by (simp add: addProfile_def Let_def)
qed

lemma gate_addAlert_ok:
  assumes "fair_ranger rr" and "gate_ok gs" and "env_ok e"
  shows "ok (gate_addAlert e rr now d level gs) (\<lambda>(gs', d'). gate_keeps gs gs')"
proof -
  obtain srv d' n where a: "client_addAlert now d level (GS_srv gs) = (srv, d', n)" by (metis surj_pair)
  have "client_ok srv" using client_addAlert_ok [of "GS_srv gs" now d level] assms(2) a by (simp add: gate_ok_def)
  then have k: "gate_keeps gs (gs\<lparr>GS_srv := srv\<rparr>)" using assms(2) by (simp add: gate_keeps_def gate_ok_def intervals_def gate_hasAlert_def)
  then have g: "gate_ok (gs\<lparr>GS_srv := srv\<rparr>)" by (simp add: gate_keeps_def)
  have "ok (gate_sync e rr True False (GS_ticks (gs\<lparr>GS_srv := srv\<rparr>)) (gs\<lparr>GS_srv := srv\<rparr>)) (gate_keeps gs)"
    by (rule ok_mono [OF gate_sync_ok [OF assms(1) g assms(3)]]) (rule gate_keeps_trans [OF k])
  then show ?thesis using a k by (simp add: gate_addAlert_def Let_def)
qed

lemma gate_logAlert_ok:
  assumes "fair_ranger rr" and "gate_ok gs" and "env_ok e"
  shows "ok (gate_logAlert e rr now gs) (gate_keeps gs)"
proof (cases "GS_decision gs")
  case None
  then show ?thesis using assms(2) by (simp add: gate_logAlert_def gate_keeps_def)
next
  case (Some d)
  let ?gs = "gs\<lparr>GS_alert := String_of (rr ''String'') d ''Gate ->''\<rparr>"
  show ?thesis
  proof (cases "GS_prevAlert gs = GS_alert ?gs")
    case True
    have "gate_keeps gs ?gs" using assms(2) by (simp add: gate_keeps_def gate_ok_def intervals_def gate_hasAlert_def)
    then show ?thesis using Some True by (simp add: gate_logAlert_def Let_def)
  next
    case False
    let ?g1 = "?gs\<lparr>GS_prevAlert := GS_alert ?gs\<rparr>"
    have g1: "gate_ok ?g1" and k1: "gate_keeps gs ?g1" using assms(2) by (simp_all add: gate_keeps_def gate_ok_def intervals_def gate_hasAlert_def)
    from addStat_ok [OF g1, of "''GateLevelAlert''"] obtain g2 where g2: "addStat ''GateLevelAlert'' ?g1 = Inr g2" "gate_keeps ?g1 g2"
      by (auto simp: ok_iff)
    then have ok2: "gate_ok g2" by (simp add: gate_keeps_def)
    from gate_addAlert_ok [OF assms(1) ok2 assms(3), of now d "''Gate''"] obtain g3 d' where
      g3: "gate_addAlert e rr now d ''Gate'' g2 = Inr (g3, d')" "gate_keeps g2 g3" by (auto simp: ok_iff)
    have k3: "gate_keeps gs g3" using k1 g2(2) g3(2) gate_keeps_trans by blast
    have "gate_logAlert e rr now gs = Inr (g3\<lparr>GS_decision := Some d'\<rparr>)"
      using Some False g2(1) g3(1) by (simp add: gate_logAlert_def Let_def)
    moreover have "gate_keeps gs (g3\<lparr>GS_decision := Some d'\<rparr>)" using k3 by (simp add: gate_keeps_def gate_ok_def intervals_def gate_hasAlert_def)
    ultimately show ?thesis by simp
  qed
qed

lemma profileAndDecidePod_ok:
  assumes "fair_ranger rr" and "gate_ok gs" and "env_ok e"
  shows "ok (profileAndDecidePod e rr now ticks gs) (gate_keeps gs)"
proof (cases "GS_monitorPod gs")
  case False
  then show ?thesis using assms(2) by (simp add: profileAndDecidePod_def gate_keeps_def)
next
  case True
  from PodProfile_Profile_ok obtain pod where pod: "PodProfile_Profile (w_ReadFile (GE_world e)) = Inr pod" "pod_vwf pod"
    by (auto simp: ok_iff)
  let ?g0 = "gs\<lparr>GS_pod := pod\<rparr>"
  have k0: "gate_keeps gs ?g0" using assms(2) pod(2) by (simp add: gate_keeps_def gate_ok_def intervals_def gate_hasAlert_def)
  show ?thesis
  proof (cases "active_criteria ?g0")
    case None
    then show ?thesis using True pod(1) k0 by (simp add: profileAndDecidePod_def Let_def)
  next
    case (Some c)
    let ?g1 = "?g0\<lparr>GS_decision := DecideChild (GS_decision ?g0) (PodConfig_Decide (SDC_Pod c) pod) ''Pod''\<rparr>"
    have k1: "gate_keeps gs ?g1" and g1: "gate_ok ?g1" using k0 by (simp_all add: gate_keeps_def gate_ok_def intervals_def gate_hasAlert_def)
    show ?thesis
    proof (cases "GS_decision ?g1 = None")
      case none: True
      have "profileAndDecidePod e rr now ticks gs = Inr ?g1"
        unfolding profileAndDecidePod_def using True pod(1) Some none by (simp add: Let_def)
      then show ?thesis using k1 by simp
    next
      case False
      from gate_logAlert_ok [OF assms(1) g1 assms(3), of now] obtain g2 where
        g2: "gate_logAlert e rr now ?g1 = Inr g2" "gate_keeps ?g1 g2" by (auto simp: ok_iff)
      have k2: "gate_keeps gs g2" using k1 g2(2) gate_keeps_trans by blast
      let ?g3 = "g2\<lparr>GS_srv := signalCompromised e ticks (GS_srv g2)\<rparr>"
      have g3: "gate_ok ?g3" and k3: "gate_keeps gs ?g3"
        using k2 signalCompromised_ok [of "GS_srv g2"] by (simp_all add: gate_keeps_def gate_ok_def intervals_def gate_hasAlert_def)
      have "profileAndDecidePod e rr now ticks gs = (if shouldBlock g2 then addStat ''BlockOnPod'' ?g3 else Inr g2)"
        unfolding profileAndDecidePod_def using True pod(1) Some False g2(1) by (auto simp: Let_def)
      moreover have "ok (addStat ''BlockOnPod'' ?g3) (gate_keeps gs)"
        by (rule ok_mono [OF addStat_ok [OF g3]]) (use k3 gate_keeps_trans in blast)
      ultimately show ?thesis using k2 by simp
    qed
  qed
qed

lemma setTicks_ok:
  assumes "fair_ranger rr" and "gate_ok gs" and "env_ok e" and "GS_syncServiceSecs gs \<noteq> 0" and "GS_podMonitorSecs gs \<noteq> 0"
  shows "ok (setTicks e rr now ticks gs) (gate_keeps gs)"
proof -
  let ?g0 = "gs\<lparr>GS_ticks := ticks, GS_skippedSyncs := GS_skippedSyncs gs + 1\<rparr>"
  have g0: "gate_ok ?g0" and k0: "gate_keeps gs ?g0" using assms(2) by (simp_all add: gate_keeps_def gate_ok_def intervals_def gate_hasAlert_def)
  have secs: "GS_podMonitorSecs g \<noteq> 0" if "gate_keeps gs g" for g using that assms(5) by (simp add: gate_keeps_def intervals_def gate_hasAlert_def)
  have pod: "ok (bind_res (remainder ticks (GS_podMonitorSecs g)) (\<lambda>r.
      if r = 1 then profileAndDecidePod e (at_site rr ''pod'') now ticks g else Inr g)) (gate_keeps gs)" if k: "gate_keeps gs g" for g
  proof -
    have g: "gate_ok g" using k by (simp add: gate_keeps_def)
    have "ok (profileAndDecidePod e (at_site rr ''pod'') now ticks g) (gate_keeps gs)"
      by (rule ok_mono [OF profileAndDecidePod_ok [OF fair_at_site [OF assms(1)] g assms(3)]]) (rule gate_keeps_trans [OF k])
    then show ?thesis using secs [OF k] k by (simp add: remainder_def)
  qed
  have sync: "ok (if due then gate_sync e (at_site rr ''sync'') True False ticks ?g0 else Inr ?g0) (gate_keeps gs)" for due
    using gate_sync_ok [OF fair_at_site [OF assms(1)] g0 assms(3), of "''sync''" True False ticks] k0
    by (cases due) (auto elim!: ok_mono intro: gate_keeps_trans)
  have due: "ok (if should_sync ?g0 then bind_res (remainder ticks (GS_syncServiceSecs ?g0)) (\<lambda>r. Inr (r = 0)) else Inr False) (\<lambda>_. True)"
    using assms(4) by (simp add: remainder_def)
  show ?thesis
    unfolding setTicks_def Let_def by (intro ok_bindI [OF due] ok_bindI [OF sync] pod)
qed

text \<open>With an interval of zero a tick may panic, but when it returns it has kept as much.\<close>

lemma setTicks_partial:
  assumes "setTicks e rr now ticks gs = Inr gs'" and "fair_ranger rr" and "gate_ok gs" and "env_ok e"
  shows "gate_keeps gs gs'"
proof -
  let ?g0 = "gs\<lparr>GS_ticks := ticks, GS_skippedSyncs := GS_skippedSyncs gs + 1\<rparr>"
  have g0: "gate_ok ?g0" and k0: "gate_keeps gs ?g0"
    using assms(3) by (simp_all add: gate_keeps_def gate_ok_def intervals_def gate_hasAlert_def)
  obtain due g and r :: int where sync: "(if due then gate_sync e (at_site rr ''sync'') True False ticks ?g0 else Inr ?g0) = Inr g"
    and pod: "(if r = 1 then profileAndDecidePod e (at_site rr ''pod'') now ticks g else Inr g) = Inr gs'"
    using assms(1) unfolding setTicks_def Let_def bind_res_Inr by (elim exE conjE) (rule that)
  have k: "gate_keeps gs g"
  proof (cases due)
    case True
    then have "gate_sync e (at_site rr ''sync'') True False ticks ?g0 = Inr g" using sync by simp
    from ok_Inr [OF gate_sync_ok [OF fair_at_site [OF assms(2)] g0 assms(4)] this] show ?thesis by (rule gate_keeps_trans [OF k0])
  next
    case False
    then show ?thesis using sync k0 by simp
  qed
  then have g: "gate_ok g" by (simp add: gate_keeps_def)
  show ?thesis
  proof (cases "r = 1")
    case True
    then have "profileAndDecidePod e (at_site rr ''pod'') now ticks g = Inr gs'" using pod by simp
    from ok_Inr [OF profileAndDecidePod_ok [OF fair_at_site [OF assms(2)] g assms(4)] this] show ?thesis by (rule gate_keeps_trans [OF k])
  next
    case False
    then show ?thesis using pod k by simp
  qed
qed

section \<open>The steps of a gate\<close>

text \<open>What the server, the sessions and the clock make a gate do.\<close>

inductive gate_step :: "gateState \<Rightarrow> gateState \<Rightarrow> bool" where
  Second: "\<lbrakk>fair_ranger rr; env_ok (e :: unit gate_env); setTicks e rr now ticks gs = Inr gs'\<rbrakk> \<Longrightarrow> gate_step gs gs'"
| Synced: "\<lbrakk>fair_ranger rr; env_ok (e :: unit gate_env); gate_sync e rr load force ticks gs = Inr gs'\<rbrakk> \<Longrightarrow> gate_step gs gs'"
| Piled: "\<lbrakk>fair_ranger rr; env_ok (e :: unit gate_env); session_vwf v; addProfile e rr v ticks gs = Inr gs'\<rbrakk> \<Longrightarrow> gate_step gs gs'"
| Alerted: "\<lbrakk>fair_ranger rr; env_ok (e :: unit gate_env); gate_addAlert e rr now d level gs = Inr (gs', d')\<rbrakk> \<Longrightarrow> gate_step gs gs'"
| Watched: "\<lbrakk>fair_ranger rr; env_ok (e :: unit gate_env); profileAndDecidePod e rr now ticks gs = Inr gs'\<rbrakk> \<Longrightarrow> gate_step gs gs'"
| Counted: "addStat key gs = Inr gs' \<Longrightarrow> gate_step gs gs'"

definition gate_start :: "int \<Rightarrow> int \<Rightarrow> gateState \<Rightarrow> bool" where
  "gate_start syncSecs podSecs gs \<longleftrightarrow> (\<exists>now file skip monitorPod podname sid ns useCm.
     gs = NewGateState now file skip syncSecs podSecs monitorPod podname sid ns useCm)"

lemma gate_ok_start: "gate_start syncSecs podSecs gs \<Longrightarrow> gate_ok gs \<and> intervals gs = (syncSecs, podSecs)"
  by (auto simp: gate_start_def gate_ok_def NewGateState_def initHttpClient_ok client_ok_new Stat_Init_def intervals_def
      pod_vwf_def new_PodProfile_def ips_vwf_def)

inductive_cases gate_step_elim: "gate_step gs gs'"
lemmas gate_stepE = gate_step_elim [consumes 1, case_names Second Synced Piled Alerted Watched Counted]

lemma gate_step_keeps: "gate_step gs gs' \<Longrightarrow> gate_ok gs \<Longrightarrow> gate_keeps gs gs'"
proof (induction rule: gate_step.induct)
  case (Second rr e now ticks gs gs')
  then show ?case using setTicks_partial by blast
next
  case (Synced rr e load force ticks gs gs')
  then show ?case using gate_sync_ok [of rr gs e load force ticks] by (auto simp: ok_iff)
next
  case (Piled rr e v ticks gs gs')
  then show ?case using addProfile_ok [of rr gs e v ticks] by (auto simp: ok_iff)
next
  case (Alerted rr e now d level gs gs' d')
  then show ?case using gate_addAlert_ok [of rr gs e now d level] by (auto simp: ok_iff)
next
  case (Watched rr e now ticks gs gs')
  then show ?case using profileAndDecidePod_ok [of rr gs e now ticks] by (auto simp: ok_iff)
next
  case (Counted key gs gs')
  then show ?case using addStat_ok [of gs key] by (auto simp: ok_iff)
qed

interpretation gate: machine "gate_start syncSecs podSecs" gate_step "\<lambda>gs. gate_ok gs \<and> intervals gs = (syncSecs, podSecs)"
  for syncSecs podSecs
proof
  fix gs gs' assume "gate_ok gs \<and> intervals gs = (syncSecs, podSecs)" and "gate_step gs gs'"
  then show "gate_ok gs' \<and> intervals gs' = (syncSecs, podSecs)" using gate_step_keeps [of gs gs'] by (simp add: gate_keeps_def)
qed (rule gate_ok_start)

text \<open>What a gate never takes back.\<close>

definition gate_le :: "gateState \<Rightarrow> gateState \<Rightarrow> bool" where
  "gate_le gs gs' \<longleftrightarrow> (gate_ok gs \<longrightarrow> gate_keeps gs gs')"

interpretation gate_run: monotone_machine gate_step gate_le
proof
  show "gate_le gs gs" for gs by (simp add: gate_le_def gate_keeps_refl)
  show "gate_le gs gs''" if "gate_le gs gs'" and "gate_le gs' gs''" for gs gs' gs''
    using that gate_keeps_trans by (auto simp: gate_le_def gate_keeps_def)
  show "gate_le gs gs'" if "gate_step gs gs'" for gs gs' using gate_step_keeps [OF that] by (simp add: gate_le_def)
qed

text \<open>A tick divides by the interval of the pod in any case.\<close>

lemma setTicks_zero:
  assumes "GS_podMonitorSecs gs = 0" and "gate_ok gs" and "fair_ranger rr" and "env_ok e"
  shows "setTicks e rr now ticks gs = Inl DivideByZero"
proof -
  let ?g0 = "gs\<lparr>GS_ticks := ticks, GS_skippedSyncs := GS_skippedSyncs gs + 1\<rparr>"
  have g0: "gate_ok ?g0" using assms(2) by (simp add: gate_ok_def)
  obtain g where g: "gate_sync e (at_site rr ''sync'') True False ticks ?g0 = Inr g" "gate_keeps ?g0 g"
    using gate_sync_ok [OF fair_at_site [OF assms(3)] g0 assms(4)] unfolding ok_iff by blast
  have "GS_podMonitorSecs g = 0" using g(2) assms(1) by (simp add: gate_keeps_def intervals_def)
  then show ?thesis using g(1) assms(1) by (simp add: setTicks_def Let_def remainder_def)
qed

text \<open>An environment without a service and without guardians, for concrete runs.\<close>

definition quiet_env :: "unit gate_env" where
  "quiet_env = \<lparr>GE_world = \<lparr>w_hash = \<lambda>s. 0, w_ParseIP = \<lambda>s. [], w_ParseMediaType = \<lambda>s. None, w_ReadFile = \<lambda>f. None\<rparr>,
     GE_TokenFile = None, GE_UrlPath = None,
     GE_Do = \<lambda>r. DoError, GE_api = empty_cluster, GE_cluster = (), GE_marshal = \<lambda>m. None, GE_unmarshal = \<lambda>b. None\<rparr>"

lemma quiet_env_ok: "env_ok quiet_env"
proof -
  have "Learned (GetGuardian empty_cluster k ns sid cm auto) = None \<and> Configured (GetGuardian empty_cluster k ns sid cm auto) = None"
    for k ns sid cm auto
    by (simp add: GetGuardian_def Read_def readCm_def readCrd_def empty_cluster_def Let_def or_nil_def
        SetToMaximalAutomation_def new_GuardianSpec_def)
  then show ?thesis by (simp add: env_ok_def quiet_env_def spec_ok_def)
qed

text \<open>A gate just created, with the given intervals, for concrete runs.\<close>

definition gate_example :: "int \<Rightarrow> int \<Rightarrow> gateState" where
  "gate_example syncSecs podSecs = NewGateState 0 None True syncSecs podSecs False ''pod'' ''shop'' ''default'' True"

lemma gate_example_start: "gate_start syncSecs podSecs (gate_example syncSecs podSecs)"
  unfolding gate_start_def gate_example_def by blast

section \<open>Properties\<close>

text \<open>
  However a gate was driven since it was created with positive intervals, a second that passes,
  a synchronisation and a finished session never panic, and what is kept for the service stays
  bounded.
\<close>

theorem gate_never_panics:
  assumes "reachable (gate_start syncSecs podSecs) gate_step gs" and "syncSecs > 0" and "podSecs > 0"
    and "fair_ranger rr" and "env_ok (e :: unit gate_env)" and "session_vwf v"
  shows "(\<exists>gs'. setTicks e rr now ticks gs = Inr gs') \<and> (\<exists>gs'. gate_sync e rr load force ticks gs = Inr gs')
    \<and> (\<exists>gs'. addProfile e rr v ticks gs = Inr gs') \<and> (\<exists>gs' d'. gate_addAlert e rr now d level gs = Inr (gs', d'))
    \<and> length (GC_alerts (GS_srv gs)) \<le> ALERTS_LIMIT \<and> SDQ_Count (GC_pile (GS_srv gs)) \<le> 2 * PILE_LIMIT"
proof -
  have g: "gate_ok gs" and i: "intervals gs = (syncSecs, podSecs)" using gate.inv_reachable [OF assms(1)] by simp_all
  then have nz: "GS_syncServiceSecs gs \<noteq> 0" "GS_podMonitorSecs gs \<noteq> 0" using assms(2,3) by (auto simp: intervals_def)
  note gate_addAlert_ok [OF assms(4) g assms(5), of now d level, THEN ok_iff [THEN iffD1]]
    setTicks_ok [OF assms(4) g assms(5) nz, of now ticks, THEN ok_iff [THEN iffD1]]
    gate_sync_ok [OF assms(4) g assms(5), of load force ticks, THEN ok_iff [THEN iffD1]]
    addProfile_ok [OF assms(4) g assms(5,6), of ticks, THEN ok_iff [THEN iffD1]]
  moreover have "length (GC_alerts (GS_srv gs)) \<le> ALERTS_LIMIT \<and> SDQ_Count (GC_pile (GS_srv gs)) \<le> 2 * PILE_LIMIT"
    using g by (simp add: gate_ok_def client_ok_def)
  ultimately show ?thesis by auto
qed

theorem gate_never_panics_witness:
  "\<exists>gs' gs''. setTicks quiet_env (\<lambda>_ ks. ks) 7 66 (gate_example 60 5) = Inr gs'
     \<and> addProfile quiet_env (\<lambda>_ ks. ks) new_SessionDataProfile 66 (gate_example 60 5) = Inr gs''"
proof -
  have "reachable (gate_start 60 5) gate_step (gate_example 60 5)" by (rule reachable_start [where start = "gate_start 60 5", OF gate_example_start])
  moreover have "fair_ranger (\<lambda>_ ks. ks)" by (simp add: fair_rangerI)
  ultimately show ?thesis using gate_never_panics [OF _ _ _ _ quiet_env_ok session_vwf_new] by fastforce
qed



text \<open>
  The rate of synchronisations is not limited: the time of the last one is never recorded, so
  however the gate was driven a synchronisation asked for is carried out at any time from
  the first seconds of the epoch on.
\<close>

theorem sync_is_not_limited:
  assumes "reachable (gate_start syncSecs podSecs) gate_step gs" and "ticks \<ge> MIN_TIME_BETWEEN_SYNCS"
  shows "gate_sync e rr load False ticks gs = gate_sync e rr load True ticks gs"
  using gate.inv_reachable [OF assms(1)] assms(2) by (simp add: gate_sync_def gate_ok_def)

theorem sync_is_not_limited_witness:
  "gate_sync quiet_env (\<lambda>_ ks. ks) True False 5 (gate_example 60 5) = gate_sync quiet_env (\<lambda>_ ks. ks) True True 5 (gate_example 60 5)"
  by (rule sync_is_not_limited [OF reachable_start [where start = "gate_start 60 5", OF gate_example_start]])
    (simp add: MIN_TIME_BETWEEN_SYNCS_def)

text \<open>
  An alert of the gate is latched: whatever happens afterwards, the gate has an alert.
\<close>

theorem gate_alert_latches:
  assumes "gate_ok gs" and "gate_hasAlert gs" and "gate_step\<^sup>*\<^sup>* gs gs'"
  shows "gate_hasAlert gs'"
  using gate_run.le_run [OF assms(3)] assms(1,2) by (simp add: gate_le_def gate_keeps_def)

theorem gate_alert_latches_witness:
  "\<exists>gs'. addStat ''Total'' ((gate_example 60 5)\<lparr>GS_decision := Some finding_ab\<rparr>) = Inr gs' \<and> gate_hasAlert gs'"
proof -
  let ?gs = "(gate_example 60 5)\<lparr>GS_decision := Some finding_ab\<rparr>"
  have g: "gate_ok ?gs" using gate_ok_start [OF gate_example_start, of 60 5] by (simp add: gate_ok_def)
  obtain gs' where s: "addStat ''Total'' ?gs = Inr gs'" using addStat_ok [OF g, of "''Total''"] by (auto simp: ok_iff)
  have "gate_step\<^sup>*\<^sup>* ?gs gs'" using Counted [OF s] by blast
  from gate_alert_latches [OF g _ this] s show ?thesis by (simp add: gate_hasAlert_def)
qed

end
