(* ===== verification/Std_Lib.thy ===== *)
theory Std_Lib
  imports Gates
begin

text \<open>
  What the gate uses of Go's standard library: \<open>net.SplitHostPort\<close>, \<open>http.Request.ParseForm\<close> and
  \<open>time.ParseDuration\<close>. A fraction of a duration is computed exactly here and with floats there,
  which may differ by a nanosecond.
\<close>

section \<open>\<open>net.SplitHostPort\<close>\<close>

fun last_colon :: "string \<Rightarrow> nat option" where
  "last_colon [] = None"
| "last_colon (c # cs) =
     (case last_colon cs of Some i \<Rightarrow> Some (Suc i) | None \<Rightarrow> if c = CHR '':'' then Some 0 else None)"

definition addr_error :: "string \<Rightarrow> string \<Rightarrow> string" where
  "addr_error addr why = (if addr = '''' then why else ''address '' @ addr @ '': '' @ why)"

text \<open>No square bracket is left where none may be.\<close>

definition no_brackets :: "string \<Rightarrow> nat \<Rightarrow> nat \<Rightarrow> 'a \<Rightarrow> string + 'a" where
  "no_brackets hostport j k x =
     (if CHR ''['' \<in> set (drop j hostport) then Inl (addr_error hostport ''unexpected '' @ [CHR 0x27] @ ''['' @ [CHR 0x27] @ '' in address'')
      else if CHR '']'' \<in> set (drop k hostport) then Inl (addr_error hostport ''unexpected '' @ [CHR 0x27] @ '']'' @ [CHR 0x27] @ '' in address'')
      else Inr x)"

definition SplitHostPort :: "string \<Rightarrow> string + string \<times> string" where
  "SplitHostPort hostport =
     (case last_colon hostport of
        None \<Rightarrow> Inl (addr_error hostport ''missing port in address'')
      | Some i \<Rightarrow>
          let port = drop (i + 1) hostport in
          if hd hostport = CHR ''['' then
            (let end = length (takeWhile (\<lambda>c. c \<noteq> CHR '']'') hostport) in
             if end = length hostport then Inl (addr_error hostport ''missing '' @ [CHR 0x27] @ '']'' @ [CHR 0x27] @ '' in address'')
             else if end + 1 = length hostport then Inl (addr_error hostport ''missing port in address'')
             else if end + 1 = i then no_brackets hostport 1 (end + 1) (take (end - 1) (drop 1 hostport), port)
             else if hostport ! (end + 1) = CHR '':'' then Inl (addr_error hostport ''too many colons in address'')
             else Inl (addr_error hostport ''missing port in address''))
          else if CHR '':'' \<in> set (take i hostport) then Inl (addr_error hostport ''too many colons in address'')
          else no_brackets hostport 0 0 (take i hostport, port))"

lemma last_colon_split:
  "last_colon s = Some i \<Longrightarrow> \<exists>port. s = take i s @ CHR '':'' # port \<and> CHR '':'' \<notin> set port"
proof (induction s arbitrary: i)
  case (Cons c cs)
  show ?case
  proof (cases "last_colon cs")
    case None
    have "last_colon xs = None \<Longrightarrow> CHR '':'' \<notin> set xs" for xs by (induction xs) (auto split: option.splits if_splits)
    then show ?thesis using None Cons.prems by (auto split: if_splits)
  next
    case (Some j)
    then show ?thesis using Cons by auto
  qed
qed simp

text \<open>A plain host and port are taken apart where they were joined.\<close>

lemma SplitHostPort_plain:
  assumes "set host \<inter> {CHR '':'', CHR ''['', CHR '']''} = {}" and "set port \<inter> {CHR '':'', CHR ''['', CHR '']''} = {}"
  shows "SplitHostPort (host @ '':'' @ port) = Inr (host, port)"
proof -
  have p: "last_colon port = None" using assms(2) by (induction port) (auto split: option.splits)
  have c: "last_colon (host @ '':'' @ port) = Some (length host)" using p by (induction host) simp_all
  have "hd (host @ '':'' @ port) \<noteq> CHR ''[''" using assms(1) by (cases host) auto
  then show ?thesis using c assms by (auto simp: SplitHostPort_def no_brackets_def)
qed

section \<open>Forms\<close>

text \<open>
  \<open>url.ParseQuery\<close> returns what decodes and the first error. \<open>ParseForm\<close> reads a body only for
  three methods; for any other the form of the body is empty.
\<close>

definition bad_pair :: "string \<Rightarrow> bool" where
  "bad_pair part \<longleftrightarrow> CHR '';'' \<in> set part
     \<or> (part \<noteq> '''' \<and> (let (k, v) = cut (CHR ''='') part in QueryUnescape k = None \<or> QueryUnescape v = None))"

definition bad_query :: "string \<Rightarrow> bool" where
  "bad_query s \<longleftrightarrow> (\<exists>part \<in> set (split_on (CHR ''&'') s). bad_pair part)"

definition form_method :: "string \<Rightarrow> bool" where
  "form_method m \<longleftrightarrow> m = ''POST'' \<or> m = ''PUT'' \<or> m = ''PATCH''"

text \<open>The outcome of reading the form of a body: None when it waits for more, else an error or the form.\<close>

definition ParseForm :: "string \<Rightarrow> string \<Rightarrow> string \<times> bool \<Rightarrow> string list entries option option" where
  "ParseForm method rawQuery view =
     (let (bytes, eof) = view in
      if form_method method
      then (if \<not> eof then None
            else if bad_query bytes \<or> bad_query rawQuery then Some None
            else Some (Some (fold query_pair (split_on (CHR ''&'') bytes) [])))
      else if bad_query rawQuery then Some None else Some (Some []))"

section \<open>\<open>time.ParseDuration\<close>\<close>

definition is_digit :: "char \<Rightarrow> bool" where
  "is_digit c \<longleftrightarrow> 48 \<le> (of_char c :: nat) \<and> (of_char c :: nat) \<le> 57"

definition digit_val :: "char \<Rightarrow> nat" where
  "digit_val c = of_char c - 48"

fun leadingInt :: "string \<Rightarrow> nat \<Rightarrow> (nat \<times> string) option" where
  "leadingInt [] x = Some (x, [])"
| "leadingInt (c # cs) x =
     (if is_digit c
      then (let x = x * 10 + digit_val c in if x > 2 ^ 63 then None else leadingInt cs x)
      else Some (x, c # cs))"

fun leadingFraction :: "string \<Rightarrow> nat \<Rightarrow> nat \<Rightarrow> bool \<Rightarrow> nat \<times> nat \<times> string" where
  "leadingFraction [] x scale overflow = (x, scale, [])"
| "leadingFraction (c # cs) x scale overflow =
     (if is_digit c
      then (let y = x * 10 + digit_val c in
            if overflow \<or> x > (2 ^ 63 - 1) div 10 \<or> y > 2 ^ 63 then leadingFraction cs x scale True
            else leadingFraction cs y (scale * 10) False)
      else (x, scale, c # cs))"

text \<open>Nanoseconds of a unit; the micro sign has two spellings.\<close>

definition unit_ns :: "string \<Rightarrow> nat option" where
  "unit_ns u =
     (if u = ''ns'' then Some 1
      else if u = ''us'' \<or> u = [CHR 0xC2, CHR 0xB5, CHR ''s''] \<or> u = [CHR 0xCE, CHR 0xBC, CHR ''s''] then Some 1000
      else if u = ''ms'' then Some 1000000
      else if u = ''s'' then Some 1000000000
      else if u = ''m'' then Some 60000000000
      else if u = ''h'' then Some 3600000000000
      else None)"

definition fraction_part :: "string \<Rightarrow> nat \<times> nat \<times> string \<times> bool" where
  "fraction_part s =
     (case s of
        c # cs \<Rightarrow>
          if c = CHR ''.'' then (let (f, scale, r) = leadingFraction cs 0 1 False in (f, scale, r, r \<noteq> cs)) else (0, 1, s, False)
      | [] \<Rightarrow> (0, 1, s, False))"

definition duration_part :: "string \<Rightarrow> (nat \<times> string) option" where
  "duration_part s =
     (if hd s \<noteq> CHR ''.'' \<and> \<not> is_digit (hd s) then None
      else case leadingInt s 0 of
        None \<Rightarrow> None
      | Some (v, s1) \<Rightarrow>
          (let (f, scale, s2, post) = fraction_part s1;
             u = takeWhile (\<lambda>c. c \<noteq> CHR ''.'' \<and> \<not> is_digit c) s2;
             rest = dropWhile (\<lambda>c. c \<noteq> CHR ''.'' \<and> \<not> is_digit c) s2
           in if s1 = s \<and> \<not> post then None
              else if u = '''' then None
              else case unit_ns u of
                None \<Rightarrow> None
              | Some unit \<Rightarrow>
                  if v > 2 ^ 63 div unit then None
                  else if v * unit + f * unit div scale > 2 ^ 63 then None
                  else Some (v * unit + f * unit div scale, rest)))"

lemma leadingInt_length: "leadingInt s x = Some (v, r) \<Longrightarrow> length r \<le> length s"
  by (induction s arbitrary: x) (auto simp: Let_def split: if_splits intro: le_SucI)

lemma leadingFraction_length: "leadingFraction s x scale ov = (f, sc, r) \<Longrightarrow> length r \<le> length s"
proof (induction s arbitrary: x scale ov)
  case (Cons c cs)
  show ?case
  proof (cases "is_digit c")
    case True
    then obtain x' scale' ov' where "leadingFraction cs x' scale' ov' = (f, sc, r)"
      using Cons.prems by (auto simp: Let_def split: if_splits)
    then show ?thesis using Cons.IH by (simp add: le_SucI)
  qed (use Cons.prems in auto)
qed simp

lemma fraction_part_length: "fraction_part s = (f, scale, r, post) \<Longrightarrow> length r \<le> length s"
  by (auto simp: fraction_part_def split: list.splits if_splits prod.splits dest: leadingFraction_length)

lemma duration_part_length: "duration_part s = Some (v, rest) \<Longrightarrow> length rest < length s"
proof -
  assume a: "duration_part s = Some (v, rest)"
  then obtain w s1 where l: "leadingInt s 0 = Some (w, s1)" by (auto simp: duration_part_def split: if_splits option.splits)
  obtain f scale s2 post where fr: "fraction_part s1 = (f, scale, s2, post)" by (metis surj_pair)
  have s2: "rest = dropWhile (\<lambda>c. c \<noteq> CHR ''.'' \<and> \<not> is_digit c) s2"
      "takeWhile (\<lambda>c. c \<noteq> CHR ''.'' \<and> \<not> is_digit c) s2 \<noteq> ''''" "length s2 \<le> length s1"
    using a l fr fraction_part_length [OF fr] by (auto simp: duration_part_def Let_def split: if_splits option.splits)
  have "length s2 = length (takeWhile (\<lambda>c. c \<noteq> CHR ''.'' \<and> \<not> is_digit c) s2) + length rest"
    unfolding s2(1) by (metis length_append takeWhile_dropWhile_id)
  then show ?thesis using s2(2,3) leadingInt_length [OF l] by (cases "takeWhile (\<lambda>c. c \<noteq> CHR ''.'' \<and> \<not> is_digit c) s2") auto
qed

function duration_parts :: "string \<Rightarrow> nat \<Rightarrow> nat option" where
  "duration_parts s d =
     (if s = '''' then Some d
      else case duration_part s of
        None \<Rightarrow> None
      | Some (v, rest) \<Rightarrow> if d + v > 2 ^ 63 then None else duration_parts rest (d + v))"
  by pat_completeness auto
termination
  by (relation "measure (\<lambda>(s, d). length s)") (auto simp: duration_part_length)

declare duration_parts.simps [simp del]

definition ParseDuration :: "string \<Rightarrow> int option" where
  "ParseDuration s =
     (let neg = (s \<noteq> '''' \<and> hd s = CHR ''-'');
          s = (if s \<noteq> '''' \<and> (hd s = CHR ''-'' \<or> hd s = CHR ''+'') then tl s else s)
      in if s = ''0'' then Some 0
         else if s = '''' then None
         else case duration_parts s 0 of
           None \<Rightarrow> None
         | Some d \<Rightarrow> if neg then Some (- int d) else if d > 2 ^ 63 - 1 then None else Some (int d))"

text \<open>\<open>int64(d.Seconds())\<close>: whole seconds, towards zero.\<close>

definition whole_seconds :: "int \<Rightarrow> int" where
  "whole_seconds d = d sdiv 1000000000"

lemma ParseDuration_examples:
  "ParseDuration ''60s'' = Some 60000000000" "ParseDuration ''1m0.5s'' = Some 60500000000"
  "ParseDuration ''500ms'' = Some 500000000" "ParseDuration '''' = None" "ParseDuration ''5'' = None" "ParseDuration ''-1h'' = Some (- 3600000000000)"
  by (simp_all add: ParseDuration_def duration_parts.simps duration_part_def fraction_part_def is_digit_def digit_val_def unit_ns_def)

end
