(* ===== verification/Sessions.thy ===== *)
theory Sessions
  imports Std_Lib Dup_Views
begin

text \<open>
  \<open>pkg/guard-gate/session.go\<close>: one request with its response, what the gate finds in them, and
  what becomes of that when the session ends. A session and its gate are passed along; the
  order in which the server and the ticker call the operations is any.
\<close>

section \<open>State\<close>

text \<open>A message with what the session reads of it besides: who sent it, and its body, if any.\<close>

record http_request =
  Hq_msg :: request
  Hq_RemoteAddr :: string
  Hq_Body :: "src_result list option"

record http_response =
  Hs_msg :: response
  Hs_Body :: "src_result list option"

record session =
  SS_gotResponse :: bool
  SS_decision :: "decision option"
  SS_reqTime :: int
  SS_respTime :: int
  SS_canceled :: bool
  SS_profile :: SessionDataProfile

text \<open>
  The parsers a body is handed to. They read a stream: what they make of the bytes available, and
  whether the end follows, is nothing yet, an error or a value.
\<close>

record parsers =
  PA_json :: "string \<times> bool \<Rightarrow> godata option option"
  PA_multipart :: "string \<Rightarrow> string \<times> bool \<Rightarrow> string list entries option option"

definition newSession :: "int \<Rightarrow> gateState \<Rightarrow> (gateState \<times> session) res" where
  "newSession ticks gs =
     bind_res (addStat ''Total'' gs) (\<lambda>gs.
     Inr (gs, \<lparr>SS_gotResponse = False, SS_decision = None, SS_reqTime = ticks, SS_respTime = ticks, SS_canceled = False,
               SS_profile = new_SessionDataProfile\<rparr>))"

definition session_hasAlert :: "session \<Rightarrow> bool" where
  "session_hasAlert s \<longleftrightarrow> SS_decision s \<noteq> None"

definition session_cancel :: "session \<Rightarrow> session" where
  "session_cancel s = s\<lparr>SS_canceled := True\<rparr>"

section \<open>The end of a session\<close>

definition session_logAlert :: "'k gate_env \<Rightarrow> ranger \<Rightarrow> int \<Rightarrow> gateState \<Rightarrow> session \<Rightarrow> (gateState \<times> session) res" where
  "session_logAlert e rr now gs s =
     (case SS_decision s of
        None \<Rightarrow> Inr (gs, s)
      | Some d \<Rightarrow>
          bind_res (addStat ''SessionLevelAlert'' gs) (\<lambda>gs.
          bind_res (gate_addAlert e rr now d ''Session'' gs) (\<lambda>(gs, d).
          Inr (gs, s\<lparr>SS_decision := Some d\<rparr>))))"

definition complete_stat :: "gateState \<Rightarrow> session \<Rightarrow> string" where
  "complete_stat gs s =
     (if \<not> SS_gotResponse s then ''NoResponse''
      else case GS_criteria gs of
        None \<Rightarrow> ''NoAlertNoCriteria''
      | Some c \<Rightarrow> if \<not> SDC_Active c then ''NoAlertCriteriaNotActive'' else ''NoAlert'')"

definition session_complete :: "'k gate_env \<Rightarrow> ranger \<Rightarrow> int \<Rightarrow> int \<Rightarrow> gateState \<Rightarrow> session \<Rightarrow> (gateState \<times> session) res" where
  "session_complete e rr now ticks gs s =
     bind_res
       (if shouldLearn (session_hasAlert s) gs \<and> SS_gotResponse s
        then addProfile e (at_site rr ''learn'') (SS_profile s) ticks gs else Inr gs)
       (\<lambda>gs.
        if gate_hasAlert gs then bind_res (addStat ''BlockOnPod'' gs) (\<lambda>gs. Inr (gs, s))
        else if session_hasAlert s then session_logAlert e (at_site rr ''alert'') now gs s
        else bind_res (addStat (complete_stat gs s) gs) (\<lambda>gs. Inr (gs, s)))"

section \<open>Screening\<close>

definition screenEnvelop :: "int \<Rightarrow> gateState \<Rightarrow> session \<Rightarrow> (gateState \<times> session) res" where
  "screenEnvelop ticks gs s =
     (let respTime = (if SS_reqTime s = SS_respTime s then ticks else SS_respTime s);
          ep = EnvelopProfile_Profile (word_of_int (SS_reqTime s)) (word_of_int respTime) (word_of_int ticks);
          s = s\<lparr>SS_profile := SS_profile s\<lparr>SDP_Envelop := ep\<rparr>\<rparr>
      in bind_res (decideEnvelop ep gs (SS_decision s)) (\<lambda>(gs, d). Inr (gs, s\<lparr>SS_decision := d\<rparr>)))"

definition screenPod :: "gateState \<Rightarrow> session \<Rightarrow> session" where
  "screenPod gs s = s\<lparr>SS_profile := SS_profile s\<lparr>SDP_Pod := copyPodProfile gs (SDP_Pod (SS_profile s))\<rparr>\<rparr>"

definition remote_ip :: "gateState \<Rightarrow> http_request \<Rightarrow> session \<Rightarrow> (gateState \<times> session \<times> string) res" where
  "remote_ip gs req s =
     (case SplitHostPort (Hq_RemoteAddr req) of
        Inr (cip, _) \<Rightarrow> Inr (gs, s, cip)
      | Inl err \<Rightarrow>
          (let s = s\<lparr>SS_decision := DecideInner (SS_decision s) 1 (''illegal req.RemoteAddr '' @ err)\<rparr>
           in bind_res (addStat ''ReqCipFault'' gs) (\<lambda>gs. Inr (gs, s, ''''))))"

definition screenRequest :: "world \<Rightarrow> ranger \<Rightarrow> http_request \<Rightarrow> gateState \<Rightarrow> session \<Rightarrow> (gateState \<times> session) res" where
  "screenRequest w rr req gs s =
     bind_res (remote_ip gs req s) (\<lambda>(gs, s, cip).
     let ip = w_ParseIP w cip;
         rp = ReqProfile_Profile (w_hash w) (w_ParseIP w) (w_ParseMediaType w) (at_site rr ''profile'')
                (SDP_Req (SS_profile s)) (Hq_msg req) ip;
         s = s\<lparr>SS_profile := SS_profile s\<lparr>SDP_Req := rp\<rparr>\<rparr>
     in bind_res (decideReq (at_site rr ''decide'') rp gs (SS_decision s)) (\<lambda>(gs, d). Inr (gs, s\<lparr>SS_decision := d\<rparr>)))"

definition screenResponse :: "world \<Rightarrow> ranger \<Rightarrow> http_response \<Rightarrow> int \<Rightarrow> gateState \<Rightarrow> session \<Rightarrow> (gateState \<times> session) res" where
  "screenResponse w rr resp ticks gs s =
     (let s = s\<lparr>SS_respTime := ticks\<rparr>;
          rp = RespProfile_Profile (w_hash w) (w_ParseMediaType w) (at_site rr ''profile'') (SDP_Resp (SS_profile s)) (Hs_msg resp);
          s = s\<lparr>SS_profile := SS_profile s\<lparr>SDP_Resp := rp\<rparr>\<rparr>
      in bind_res (decideResp (at_site rr ''decide'') rp gs (SS_decision s)) (\<lambda>(gs, d). Inr (gs, s\<lparr>SS_decision := d\<rparr>)))"

section \<open>Bodies\<close>

definition maxBody :: int where "maxBody = 1048576"

datatype body_type = other_type | json_type | multipart_type | urlencoded_type

definition content_type :: "world \<Rightarrow> header \<Rightarrow> string" where
  "content_type w h =
     (case w_ParseMediaType w (header_Get h ''Content-Type'') of
        None \<Rightarrow> ''application/octet-stream'' | Some (ctype, params) \<Rightarrow> ctype)"

definition request_body_type :: "string \<Rightarrow> body_type" where
  "request_body_type ctype =
     (if ctype = ''application/json'' then json_type
      else if ctype = ''multipart/form-data'' then multipart_type
      else if ctype = ''application/x-www-form-urlencoded'' then urlencoded_type
      else other_type)"

definition response_body_type :: "string \<Rightarrow> body_type" where
  "response_body_type ctype = (if ctype = ''application/json'' then json_type else other_type)"

text \<open>
  The view of the first of the two readers of a body, with the buffers of the gate
  (\<open>Dup_Views.given_within_view\<close>, \<open>Dup_Views.end_within_view\<close>).
\<close>

definition body_view :: "src_result list \<Rightarrow> string \<times> bool" where
  "body_view src = dup_view 128 src"

text \<open>What reading a body comes to: it waits for ever, or gives a fault, data or a string.\<close>

datatype body_reading = Waits | BodyFault string | BodyData godata | BodyText string

definition read_json :: "parsers \<Rightarrow> string \<times> bool \<Rightarrow> body_reading" where
  "read_json pa view =
     (case PA_json pa view of
        None \<Rightarrow> Waits
      | Some None \<Rightarrow> BodyFault ''FailedJsonDecode''
      | Some (Some d) \<Rightarrow> BodyData d)"

text \<open>\<open>io.ReadAll\<close> needs the end; the readers of \<open>iodup\<close> never give an error.\<close>

definition read_text :: "string \<times> bool \<Rightarrow> body_reading" where
  "read_text view = (if snd view then BodyText (fst view) else Waits)"

definition form_data :: "string list entries \<Rightarrow> godata" where
  "form_data form = GMap (map (\<lambda>(k, vs). (k, GSlice False (map GString vs))) form)"

definition read_urlencoded :: "request \<Rightarrow> string \<times> bool \<Rightarrow> body_reading" where
  "read_urlencoded req view =
     (case ParseForm (Rq_Method req) (Rq_RawQuery req) view of
        None \<Rightarrow> Waits
      | Some None \<Rightarrow> BodyFault ''FailedUrlencoded''
      | Some (Some form) \<Rightarrow> BodyData (form_data form))"

text \<open>\<open>ParseMultipartForm\<close> parses the query too, and reports its error after the body is read.\<close>

definition read_multipart :: "parsers \<Rightarrow> request \<Rightarrow> string \<times> bool \<Rightarrow> body_reading" where
  "read_multipart pa req view =
     (case PA_multipart pa (header_Get (Rq_Header req) ''Content-Type'') view of
        None \<Rightarrow> Waits
      | Some None \<Rightarrow> BodyFault ''FailedMultipart''
      | Some (Some form) \<Rightarrow>
          if bad_query (Rq_RawQuery req) then BodyFault ''FailedMultipart'' else BodyData (form_data form))"

definition profile_reading :: "hash \<Rightarrow> order \<Rightarrow> BodyProfile \<Rightarrow> body_reading \<Rightarrow> BodyProfile option res" where
  "profile_reading hash ro bp reading =
     (case reading of
        Waits \<Rightarrow> Inr None
      | BodyFault fault \<Rightarrow> Inr (Some (BodyProfile_ProfileFaults bp fault))
      | BodyData d \<Rightarrow> bind_res (BodyProfile_ProfileStructured hash ro bp d) (\<lambda>bp. Inr (Some bp))
      | BodyText t \<Rightarrow> Inr (Some (BodyProfile_ProfileUnstructured bp t)))"

text \<open>Screening a body may wait for ever: None.\<close>

definition screenRequestBody ::
    "world \<Rightarrow> parsers \<Rightarrow> ranger \<Rightarrow> http_request \<Rightarrow> gateState \<Rightarrow> session \<Rightarrow> (gateState \<times> session) option res" where
  "screenRequestBody w pa rr req gs s =
     (let bp = SDP_ReqBody (SS_profile s);
          put = (\<lambda>bp. s\<lparr>SS_profile := SS_profile s\<lparr>SDP_ReqBody := bp\<rparr>\<rparr>)
      in case Hq_Body req of
           None \<Rightarrow> Inr (Some (gs, s))
         | Some src \<Rightarrow>
             if \<not> GS_analyzeBody gs then Inr (Some (gs, s))
             else if maxBody < sint (Rq_ContentLength (Hq_msg req))
             then Inr (Some (gs, put (BodyProfile_ProfileFaults bp ''TooLargeBody'')))
             else if sint (Rq_ContentLength (Hq_msg req)) \<le> 0
             then Inr (Some (gs, put (BodyProfile_ProfileFaults bp ''UnknownSizeBody'')))
             else bind_res (profile_reading (w_hash w) (rr ''ReqBody'') bp
                 (case request_body_type (content_type w (Rq_Header (Hq_msg req))) of
                    json_type \<Rightarrow> read_json pa (body_view src)
                  | multipart_type \<Rightarrow> read_multipart pa (Hq_msg req) (body_view src)
                  | urlencoded_type \<Rightarrow> read_urlencoded (Hq_msg req) (body_view src)
                  | other_type \<Rightarrow> read_text (body_view src)))
               (\<lambda>profiled. case profiled of
                  None \<Rightarrow> Inr None
                | Some bp \<Rightarrow>
                    bind_res (decideReqBody (at_site rr ''decide'') bp gs (SS_decision s)) (\<lambda>(gs, d).
                    Inr (Some (gs, (put bp)\<lparr>SS_decision := d\<rparr>)))))"

definition screenResponseBody ::
    "world \<Rightarrow> parsers \<Rightarrow> ranger \<Rightarrow> http_response \<Rightarrow> gateState \<Rightarrow> session \<Rightarrow> (gateState \<times> session) option res" where
  "screenResponseBody w pa rr resp gs s =
     (let bp = SDP_RespBody (SS_profile s);
          put = (\<lambda>bp. s\<lparr>SS_profile := SS_profile s\<lparr>SDP_RespBody := bp\<rparr>\<rparr>)
      in case Hs_Body resp of
           None \<Rightarrow> Inr (Some (gs, s))
         | Some src \<Rightarrow>
             if \<not> GS_analyzeBody gs then Inr (Some (gs, s))
             else if maxBody < sint (Rs_ContentLength (Hs_msg resp))
             then Inr (Some (gs, put (BodyProfile_ProfileFaults bp ''TooLargeBody'')))
             else if sint (Rs_ContentLength (Hs_msg resp)) \<le> 0
             then Inr (Some (gs, put (BodyProfile_ProfileFaults bp ''UnknownSizeBody'')))
             else bind_res (profile_reading (w_hash w) (rr ''RespBody'') bp
                 (case response_body_type (content_type w (Rs_Header (Hs_msg resp))) of
                    json_type \<Rightarrow> read_json pa (body_view src)
                  | _ \<Rightarrow> read_text (body_view src)))
               (\<lambda>profiled. case profiled of
                  None \<Rightarrow> Inr None
                | Some bp \<Rightarrow>
                    bind_res (decideRespBody (at_site rr ''decide'') bp gs (SS_decision s)) (\<lambda>(gs, d).
                    Inr (Some (gs, (put bp)\<lparr>SS_decision := d\<rparr>)))))"

section \<open>Every few seconds\<close>

definition session_tick :: "int \<Rightarrow> gateState \<Rightarrow> session \<Rightarrow> (gateState \<times> session) res" where
  "session_tick ticks gs s =
     bind_res (screenEnvelop ticks gs s) (\<lambda>(gs, s).
     let s = screenPod gs s in
     if shouldBlock gs \<and> (session_hasAlert s \<or> gate_hasAlert gs) then Inr (gs, session_cancel s) else Inr (gs, s))"

section \<open>What screening keeps\<close>

text \<open>A gate of which only the statistics changed.\<close>

definition counts_only :: "gateState \<Rightarrow> gateState \<Rightarrow> bool" where
  "counts_only gs gs' \<longleftrightarrow> gate_ok gs' \<and> (\<exists>st. gs' = gs\<lparr>GS_stat := st\<rparr>)"

lemma counts_only_refl: "gate_ok gs \<Longrightarrow> counts_only gs gs"
  unfolding counts_only_def by (metis gateState.surjective gateState.update_convs(5))

lemma counts_only_trans: "counts_only gs gs' \<Longrightarrow> counts_only gs' gs'' \<Longrightarrow> counts_only gs gs''"
  by (auto simp: counts_only_def)

lemma counts_only_ok: "counts_only gs gs' \<Longrightarrow> gate_ok gs'"
  by (simp add: counts_only_def)

lemma counts_only_same:
  assumes "counts_only gs gs'"
  shows "shouldBlock gs' = shouldBlock gs" and "gate_hasAlert gs' = gate_hasAlert gs" and "active_criteria gs' = active_criteria gs"
    and "GS_analyzeBody gs' = GS_analyzeBody gs" and "GS_criteria gs' = GS_criteria gs" and "GS_pod gs' = GS_pod gs"
    and "GS_ticks gs' = GS_ticks gs" and "GS_monitorPod gs' = GS_monitorPod gs"
  using assms by (auto simp: counts_only_def shouldBlock_def gate_hasAlert_def active_criteria_def)

lemma counts_only_keeps: "counts_only gs gs' \<Longrightarrow> gate_keeps gs gs'"
  by (auto simp: counts_only_def gate_keeps_def intervals_def gate_hasAlert_def)

lemma addStat_counts: "gate_ok gs \<Longrightarrow> ok (addStat key gs) (counts_only gs)"
  by (rule ok_mono [OF addStat_ok]) (auto simp: counts_only_def gate_keeps_def)

text \<open>A decision is only added to.\<close>

definition alert_kept :: "decision option \<Rightarrow> decision option \<Rightarrow> bool" where
  "alert_kept d d' \<longleftrightarrow> (d \<noteq> None \<longrightarrow> d' \<noteq> None)"

lemma decide_part_ok:
  assumes "gate_ok gs" and "\<forall>c. active_criteria gs = Some c \<longrightarrow> ok (part c) (\<lambda>_. True)"
  shows "ok (decide_part part tag key gs d) (\<lambda>(gs', d'). counts_only gs gs' \<and> alert_kept d d')"
proof (cases "active_criteria gs")
  case None
  then show ?thesis using assms(1) by (simp add: decide_part_def counts_only_refl alert_kept_def)
next
  case (Some c)
  then obtain child where p: "part c = Inr child" using assms(2) by (auto simp: ok_iff)
  show ?thesis
  proof (cases "DecideChild d child tag = None")
    case True
    then show ?thesis using Some p assms(1) by (simp add: decide_part_def counts_only_refl alert_kept_def)
  next
    case False
    obtain gs' where "addStat key gs = Inr gs'" "counts_only gs gs'" using addStat_counts [OF assms(1), of key] by (auto simp: ok_iff)
    moreover have "alert_kept d (DecideChild d child tag)" by (simp add: alert_kept_def)
    ultimately show ?thesis using Some p False by (auto simp: decide_part_def Let_def)
  qed
qed

text \<open>What the criteria accept leaves a decision as it was.\<close>

lemma decide_part_accepts:
  "\<forall>c. active_criteria gs = Some c \<longrightarrow> part c = Inr None \<Longrightarrow> decide_part part tag key gs None = Inr (gs, None)"
  by (cases "active_criteria gs") (simp_all add: decide_part_def)

section \<open>Which bodies panic\<close>

text \<open>A structured profile that can be judged: a single value has a value.\<close>

definition body_judged :: "BodyProfile \<Rightarrow> bool" where
  "body_judged bp \<longleftrightarrow> (\<forall>s. BP_Structured bp = Some s \<longrightarrow> scalar_kind (SP_Kind s) \<longrightarrow> SP_Vals s \<noteq> [])"

lemma StructuredConfig_Decide_total:
  assumes "sc_cwf c" and "scalar_kind (SP_Kind s) \<longrightarrow> SP_Vals s \<noteq> []"
  shows "ok (StructuredConfig_Decide rr c s) (\<lambda>_. True)"
proof -
  have vals: "ok (fold_res (decide_val (Some q)) vs d) (\<lambda>_. True)" for q vs d
    by (induction vs arbitrary: d) (simp_all add: decide_val_def)
  show ?thesis
  proof (cases "SC_Kind c = KindArray \<or> scalar_kind (SC_Kind c)")
    case True
    then obtain q where "SC_Val c = Some q" using assms(1) by (auto simp: sc_cwf_def)
    then show ?thesis using True assms(2) vals [of q]
      by (cases "SP_Vals s") (auto simp: StructuredConfig_Decide_def index_at_def decide_val_def)
  next
    case False
    then show ?thesis by (auto simp: StructuredConfig_Decide_def)
  qed
qed

lemma BodyConfig_Decide_total:
  assumes "body_cwf c" and "body_judged bp"
  shows "ok (BodyConfig_Decide rr c bp) (\<lambda>_. True)"
proof (cases "BP_Structured bp")
  case None
  then show ?thesis by (simp add: BodyConfig_Decide_def decide_structured_def Let_def)
next
  case (Some s)
  show ?thesis
  proof (cases "BC_Structured c")
    case None
    then show ?thesis using Some by (simp add: BodyConfig_Decide_def decide_structured_def Let_def)
  next
    case (Some sc)
    have "ok (StructuredConfig_Decide (at_site rr ''Structured'') sc s) (\<lambda>_. True)"
      by (rule StructuredConfig_Decide_total) (use assms \<open>BP_Structured bp = Some s\<close> Some in \<open>auto simp: body_cwf_def body_judged_def\<close>)
    then show ?thesis
      using \<open>BP_Structured bp = Some s\<close> Some by (auto simp: BodyConfig_Decide_def decide_structured_def Let_def ok_iff)
  qed
qed

text \<open>The data that the profiler panics on.\<close>

definition unprofilable :: "godata \<Rightarrow> bool" where
  "unprofilable d \<longleftrightarrow> (\<exists>n. d = GInt n) \<or> (\<exists>i xs. d = GSlice i xs \<and> (i \<and> xs \<noteq> [] \<or> (\<exists>n. GInt n \<in> set xs)))"

lemma profilable_form: "\<not> unprofilable (form_data form)"
  by (simp add: unprofilable_def form_data_def)

lemma StructuredProfile_judged:
  assumes "StructuredProfile_Profile hash ro new_StructuredProfile d = Inr s"
  shows "scalar_kind (SP_Kind s) \<longrightarrow> SP_Vals s \<noteq> []"
  using assms by (cases d) (auto simp: StructuredProfile_Profile_def new_StructuredProfile_def bind_res_Inr scalar_kind_def)

definition reading_panics :: "body_reading \<Rightarrow> bool" where
  "reading_panics reading \<longleftrightarrow> (\<exists>d. reading = BodyData d \<and> unprofilable d)"

lemma profile_reading_panics:
  assumes "reading_panics reading"
  shows "\<exists>p. profile_reading hash ro bp reading = Inl p"
proof -
  obtain d where d: "reading = BodyData d" "unprofilable d" using assms by (auto simp: reading_panics_def)
  then obtain p where "StructuredProfile_Profile hash ro new_StructuredProfile d = Inl p"
    using StructuredProfile_panics_iff [of hash ro new_StructuredProfile d] unfolding unprofilable_def by blast
  then show ?thesis using d(1) by (simp add: profile_reading_def BodyProfile_ProfileStructured_def)
qed

lemma profile_reading_ok:
  assumes "\<not> reading_panics reading" and "body_judged bp"
  shows "ok (profile_reading hash ro bp reading) (\<lambda>r. (r = None \<longleftrightarrow> reading = Waits) \<and> (\<forall>bp'. r = Some bp' \<longrightarrow> body_judged bp'))"
proof (cases reading)
  case (BodyData d)
  then have "\<nexists>p. StructuredProfile_Profile hash ro new_StructuredProfile d = Inl p"
    using assms(1) StructuredProfile_panics_iff [of hash ro new_StructuredProfile d] unfolding reading_panics_def unprofilable_def by blast
  then obtain s where "StructuredProfile_Profile hash ro new_StructuredProfile d = Inr s"
    by (cases "StructuredProfile_Profile hash ro new_StructuredProfile d") auto
  then show ?thesis using BodyData StructuredProfile_judged
    by (simp add: profile_reading_def BodyProfile_ProfileStructured_def body_judged_def)
qed (use assms(2) in \<open>auto simp: profile_reading_def body_judged_def BodyProfile_ProfileFaults_def BodyProfile_ProfileUnstructured_def\<close>)

section \<open>Screening never panics on its own\<close>

definition session_judged :: "session \<Rightarrow> bool" where
  "session_judged s \<longleftrightarrow> body_judged (SDP_ReqBody (SS_profile s)) \<and> body_judged (SDP_RespBody (SS_profile s))"

definition screened :: "gateState \<Rightarrow> session \<Rightarrow> gateState \<times> session \<Rightarrow> bool" where
  "screened gs s = (\<lambda>(gs', s'). counts_only gs gs' \<and> alert_kept (SS_decision s) (SS_decision s')
     \<and> SS_gotResponse s' = SS_gotResponse s \<and> SS_canceled s' = SS_canceled s \<and> (session_judged s \<longrightarrow> session_judged s'))"

lemma screened_trans: "screened gs s (gs', s') \<Longrightarrow> screened gs' s' r \<Longrightarrow> screened gs s r"
  using counts_only_trans by (cases r) (auto simp: screened_def alert_kept_def)

lemma screened_refl: "gate_ok gs \<Longrightarrow> screened gs s (gs, s)"
  by (simp add: screened_def counts_only_refl alert_kept_def)

lemma newSession_ok:
  "gate_ok gs \<Longrightarrow> ok (newSession ticks gs) (\<lambda>(gs', s). counts_only gs gs' \<and> s = \<lparr>SS_gotResponse = False, SS_decision = None,
     SS_reqTime = ticks, SS_respTime = ticks, SS_canceled = False, SS_profile = new_SessionDataProfile\<rparr>)"
  using addStat_counts [of gs "''Total''"] by (auto simp: newSession_def ok_iff)

lemma new_session_judged: "SS_profile s = new_SessionDataProfile \<Longrightarrow> session_judged s"
  by (simp add: session_judged_def new_SessionDataProfile_def new_BodyProfile_def body_judged_def)

lemma screenEnvelop_ok:
  assumes "gate_ok gs"
  shows "ok (screenEnvelop ticks gs s) (screened gs s)"
proof -
  obtain gs' d' where "decideEnvelop ep gs (SS_decision s) = Inr (gs', d')" "counts_only gs gs'" "alert_kept (SS_decision s) d'"
    if "ep = EnvelopProfile_Profile (word_of_int (SS_reqTime s)) (word_of_int (if SS_reqTime s = SS_respTime s then ticks else SS_respTime s)) (word_of_int ticks)" for ep
    using decide_part_ok [OF assms, of "\<lambda>c. Inr (EnvelopConfig_Decide (SDC_Envelop c) (EnvelopProfile_Profile (word_of_int (SS_reqTime s)) (word_of_int (if SS_reqTime s = SS_respTime s then ticks else SS_respTime s)) (word_of_int ticks)))" "''Envelop''" "''EnvelopAlert''" "SS_decision s"]
    by (auto simp: decideEnvelop_def ok_iff)
  then show ?thesis by (simp add: screenEnvelop_def Let_def screened_def session_judged_def)
qed

lemma screenPod_screened: "gate_ok gs \<Longrightarrow> screened gs s (gs, screenPod gs s)"
  by (simp add: screenPod_def screened_def counts_only_refl alert_kept_def session_judged_def)

lemma remote_ip_ok: "gate_ok gs \<Longrightarrow> ok (remote_ip gs req s) (\<lambda>(gs', s', cip). screened gs s (gs', s') \<and> SS_profile s' = SS_profile s)"
  using addStat_counts [of gs "''ReqCipFault''"]
  by (auto simp: remote_ip_def ok_iff screened_def counts_only_refl alert_kept_def DecideInner_def session_judged_def Let_def split: sum.split)

lemma screenRequest_ok:
  assumes "gate_ok gs"
  shows "ok (screenRequest w rr req gs s) (screened gs s)"
proof -
  obtain gs1 s1 cip where r: "remote_ip gs req s = Inr (gs1, s1, cip)" "screened gs s (gs1, s1)"
    using remote_ip_ok [OF assms, of req s] by (auto simp: ok_iff)
  then have g1: "gate_ok gs1" by (simp add: screened_def counts_only_def)
  let ?rp = "ReqProfile_Profile (w_hash w) (w_ParseIP w) (w_ParseMediaType w) (at_site rr ''profile'') (SDP_Req (SS_profile s1)) (Hq_msg req) (w_ParseIP w cip)"
  obtain gs2 d2 where "decideReq (at_site rr ''decide'') ?rp gs1 (SS_decision s1) = Inr (gs2, d2)" "counts_only gs1 gs2" "alert_kept (SS_decision s1) d2"
    using decide_part_ok [OF g1, of "\<lambda>c. Inr (ReqConfig_Decide (at_site rr ''decide'') (SDC_Req c) ?rp)" "''HttpRequest''" "''ReqAlert''" "SS_decision s1"]
    by (auto simp: decideReq_def ok_iff)
  then have "screenRequest w rr req gs s = Inr (gs2, s1\<lparr>SS_profile := SS_profile s1\<lparr>SDP_Req := ?rp\<rparr>, SS_decision := d2\<rparr>)"
      "screened gs1 s1 (gs2, s1\<lparr>SS_profile := SS_profile s1\<lparr>SDP_Req := ?rp\<rparr>, SS_decision := d2\<rparr>)"
    using r(1) by (simp_all add: screenRequest_def Let_def screened_def session_judged_def)
  then show ?thesis using screened_trans [OF r(2)] by simp
qed

lemma screenResponse_ok:
  assumes "gate_ok gs"
  shows "ok (screenResponse w rr resp ticks gs s) (screened gs s)"
proof -
  let ?rp = "RespProfile_Profile (w_hash w) (w_ParseMediaType w) (at_site rr ''profile'') (SDP_Resp (SS_profile s)) (Hs_msg resp)"
  obtain gs2 d2 where "decideResp (at_site rr ''decide'') ?rp gs (SS_decision s) = Inr (gs2, d2)" "counts_only gs gs2" "alert_kept (SS_decision s) d2"
    using decide_part_ok [OF assms, of "\<lambda>c. Inr (RespConfig_Decide (at_site rr ''decide'') (SDC_Resp c) ?rp)" "''HttpResponse''" "''RespAlert''" "SS_decision s"]
    by (auto simp: decideResp_def ok_iff)
  then show ?thesis by (simp add: screenResponse_def Let_def screened_def session_judged_def)
qed

text \<open>When the body of a message is read at all, and what reading it comes to.\<close>

definition body_read :: "gateState \<Rightarrow> 64 word \<Rightarrow> bool" where
  "body_read gs len \<longleftrightarrow> GS_analyzeBody gs \<and> 0 < sint len \<and> sint len \<le> maxBody"

definition request_reading :: "world \<Rightarrow> parsers \<Rightarrow> http_request \<Rightarrow> src_result list \<Rightarrow> body_reading" where
  "request_reading w pa req src =
     (case request_body_type (content_type w (Rq_Header (Hq_msg req))) of
        json_type \<Rightarrow> read_json pa (body_view src)
      | multipart_type \<Rightarrow> read_multipart pa (Hq_msg req) (body_view src)
      | urlencoded_type \<Rightarrow> read_urlencoded (Hq_msg req) (body_view src)
      | other_type \<Rightarrow> read_text (body_view src))"

definition response_reading :: "world \<Rightarrow> parsers \<Rightarrow> http_response \<Rightarrow> src_result list \<Rightarrow> body_reading" where
  "response_reading w pa resp src =
     (case response_body_type (content_type w (Rs_Header (Hs_msg resp))) of
        json_type \<Rightarrow> read_json pa (body_view src)
      | _ \<Rightarrow> read_text (body_view src))"

text \<open>Only JSON data can make reading a body panic.\<close>

lemma request_reading_panics:
  "reading_panics (request_reading w pa req src) \<longleftrightarrow>
     request_body_type (content_type w (Rq_Header (Hq_msg req))) = json_type \<and> (\<exists>d. PA_json pa (body_view src) = Some (Some d) \<and> unprofilable d)"
  by (auto simp: reading_panics_def request_reading_def read_json_def read_multipart_def read_urlencoded_def read_text_def profilable_form
      split: body_type.splits option.splits if_splits)

text \<open>The common part of the two bodies: \<open>sel\<close> is the criteria, \<open>put\<close> stores the profile and the decision.\<close>

lemma judge_reading_ok:
  assumes "gate_ok gs" and "body_judged bp" and "\<not> reading_panics reading" and "\<forall>c. session_cwf c \<longrightarrow> body_cwf (sel c)"
  shows "ok (bind_res (profile_reading hash ro bp reading) (\<lambda>profiled. case profiled of
        None \<Rightarrow> Inr None
      | Some bp \<Rightarrow> bind_res (decide_part (\<lambda>c. BodyConfig_Decide rr (sel c) bp) tag key gs d) (\<lambda>(gs, d). Inr (Some (gs, put bp d)))))
    (\<lambda>r. (r = None \<longleftrightarrow> reading = Waits) \<and> (\<forall>gs' s'. r = Some (gs', s') \<longrightarrow>
        counts_only gs gs' \<and> (\<exists>bp' d'. body_judged bp' \<and> alert_kept d d' \<and> s' = put bp' d')))"
proof -
  obtain r where r: "profile_reading hash ro bp reading = Inr r" "r = None \<longleftrightarrow> reading = Waits" "\<forall>bp'. r = Some bp' \<longrightarrow> body_judged bp'"
    using profile_reading_ok [OF assms(3,2), of hash ro] unfolding ok_iff by blast
  show ?thesis
  proof (cases r)
    case None
    then show ?thesis using r(1,2) by simp
  next
    case (Some bp')
    have "\<forall>c. active_criteria gs = Some c \<longrightarrow> ok (BodyConfig_Decide rr (sel c) bp') (\<lambda>_. True)"
      using assms(1,4) r(3) Some BodyConfig_Decide_total
      by (auto simp: active_criteria_def gate_ok_def split: option.splits if_splits)
    from decide_part_ok [OF assms(1) this, of tag key d] obtain gs' d' where
      "decide_part (\<lambda>c. BodyConfig_Decide rr (sel c) bp') tag key gs d = Inr (gs', d')" "counts_only gs gs'" "alert_kept d d'"
      by (auto simp: ok_iff)
    then show ?thesis using r Some by auto
  qed
qed

lemma faults_judged: "body_judged bp \<Longrightarrow> body_judged (BodyProfile_ProfileFaults bp f)"
  by (simp add: body_judged_def BodyProfile_ProfileFaults_def)

lemma screenRequestBody_ok:
  assumes "gate_ok gs" and "session_judged s"
    and "\<forall>src. Hq_Body req = Some src \<longrightarrow> body_read gs (Rq_ContentLength (Hq_msg req)) \<longrightarrow> \<not> reading_panics (request_reading w pa req src)"
  shows "ok (screenRequestBody w pa rr req gs s) (\<lambda>r. (r = None \<longleftrightarrow>
      (\<exists>src. Hq_Body req = Some src \<and> body_read gs (Rq_ContentLength (Hq_msg req)) \<and> request_reading w pa req src = Waits))
    \<and> (\<forall>r'. r = Some r' \<longrightarrow> screened gs s r'))"
proof (cases "Hq_Body req")
  case None
  then show ?thesis using assms(1) by (simp add: screenRequestBody_def Let_def screened_refl)
next
  case (Some src)
  let ?bp = "SDP_ReqBody (SS_profile s)" and ?len = "sint (Rq_ContentLength (Hq_msg req))"
  have j: "body_judged ?bp" using assms(2) by (simp add: session_judged_def)
  show ?thesis
  proof (cases "body_read gs (Rq_ContentLength (Hq_msg req))")
    case False
    then have "\<not> GS_analyzeBody gs \<or> maxBody < ?len \<or> ?len \<le> 0" by (auto simp: body_read_def)
    then show ?thesis using Some False assms(1,2) screened_refl [OF assms(1), of s] faults_judged [OF j]
      by (auto simp: screenRequestBody_def Let_def screened_def alert_kept_def session_judged_def)
  next
    case True
    let ?reading = "request_reading w pa req src"
    let ?put = "\<lambda>bp d. s\<lparr>SS_profile := SS_profile s\<lparr>SDP_ReqBody := bp\<rparr>, SS_decision := d\<rparr>"
    have "\<not> reading_panics ?reading" using assms(3) Some True by simp
    note jr = judge_reading_ok [OF assms(1) j this, where sel = SDC_ReqBody and put = ?put and hash = "w_hash w" and ro = "rr ''ReqBody''"
        and rr = "at_site rr ''decide''" and tag = "''HttpRequestBody''" and key = "''ReqBodyAlert''" and d = "SS_decision s"]
    have "ok (screenRequestBody w pa rr req gs s) (\<lambda>r. (r = None \<longleftrightarrow> ?reading = Waits) \<and> (\<forall>gs' s'. r = Some (gs', s') \<longrightarrow>
        counts_only gs gs' \<and> (\<exists>bp' d'. body_judged bp' \<and> alert_kept (SS_decision s) d' \<and> s' = ?put bp' d')))"
      using jr Some True by (simp add: screenRequestBody_def Let_def body_read_def request_reading_def decideReqBody_def session_cwf_def)
    then show ?thesis by (rule ok_mono) (use Some True assms(2) in \<open>auto simp: screened_def session_judged_def\<close>)
  qed
qed

lemma screenResponseBody_ok:
  assumes "gate_ok gs" and "session_judged s"
    and "\<forall>src. Hs_Body resp = Some src \<longrightarrow> body_read gs (Rs_ContentLength (Hs_msg resp)) \<longrightarrow> \<not> reading_panics (response_reading w pa resp src)"
  shows "ok (screenResponseBody w pa rr resp gs s) (\<lambda>r. (r = None \<longleftrightarrow>
      (\<exists>src. Hs_Body resp = Some src \<and> body_read gs (Rs_ContentLength (Hs_msg resp)) \<and> response_reading w pa resp src = Waits))
    \<and> (\<forall>r'. r = Some r' \<longrightarrow> screened gs s r'))"
proof (cases "Hs_Body resp")
  case None
  then show ?thesis using assms(1) by (simp add: screenResponseBody_def Let_def screened_refl)
next
  case (Some src)
  let ?bp = "SDP_RespBody (SS_profile s)" and ?len = "sint (Rs_ContentLength (Hs_msg resp))"
  have j: "body_judged ?bp" using assms(2) by (simp add: session_judged_def)
  show ?thesis
  proof (cases "body_read gs (Rs_ContentLength (Hs_msg resp))")
    case False
    then have "\<not> GS_analyzeBody gs \<or> maxBody < ?len \<or> ?len \<le> 0" by (auto simp: body_read_def)
    then show ?thesis using Some False assms(1,2) screened_refl [OF assms(1), of s] faults_judged [OF j]
      by (auto simp: screenResponseBody_def Let_def screened_def alert_kept_def session_judged_def)
  next
    case True
    let ?reading = "response_reading w pa resp src"
    let ?put = "\<lambda>bp d. s\<lparr>SS_profile := SS_profile s\<lparr>SDP_RespBody := bp\<rparr>, SS_decision := d\<rparr>"
    have "\<not> reading_panics ?reading" using assms(3) Some True by simp
    note jr = judge_reading_ok [OF assms(1) j this, where sel = SDC_RespBody and put = ?put and hash = "w_hash w" and ro = "rr ''RespBody''"
        and rr = "at_site rr ''decide''" and tag = "''HttpResponseBody''" and key = "''RespBodyAlert''" and d = "SS_decision s"]
    have "ok (screenResponseBody w pa rr resp gs s) (\<lambda>r. (r = None \<longleftrightarrow> ?reading = Waits) \<and> (\<forall>gs' s'. r = Some (gs', s') \<longrightarrow>
        counts_only gs gs' \<and> (\<exists>bp' d'. body_judged bp' \<and> alert_kept (SS_decision s) d' \<and> s' = ?put bp' d')))"
      using jr Some True by (simp add: screenResponseBody_def Let_def body_read_def response_reading_def decideRespBody_def session_cwf_def)
    then show ?thesis by (rule ok_mono) (use Some True assms(2) in \<open>auto simp: screened_def session_judged_def\<close>)
  qed
qed

end
