(* ===== verification/Plugs.thy ===== *)
theory Plugs
  imports Sessions
begin

text \<open>
  \<open>pkg/guard-gate/gate.go\<close>: the plug that a server of requests calls: its configuration, the
  approval of a request and of the response to it, and its shutdown.
\<close>

section \<open>Requests and responses\<close>

text \<open>
  The session of an approved request is handed on with its context; a refused one is cancelled.
  The last component tells whether the message is approved; None is a body that is waited for
  for ever.
\<close>

definition block_request :: "'k gate_env \<Rightarrow> ranger \<Rightarrow> int \<Rightarrow> gateState \<Rightarrow> session \<Rightarrow> (gateState \<times> session \<times> bool) res" where
  "block_request e rr now gs s =
     (if \<not> shouldBlock gs then Inr (gs, s, True)
      else if gate_hasAlert gs then
        bind_res (addStat ''BlockOnPod'' gs) (\<lambda>gs. Inr (gs, session_cancel s, False))
      else if session_hasAlert s then
        bind_res (session_logAlert e rr now gs s) (\<lambda>(gs, s).
        bind_res (addStat ''BlockOnRequest'' gs) (\<lambda>gs. Inr (gs, session_cancel s, False)))
      else Inr (gs, s, True))"

definition ApproveRequest ::
    "'k gate_env \<Rightarrow> parsers \<Rightarrow> ranger \<Rightarrow> int \<Rightarrow> http_request \<Rightarrow> gateState \<Rightarrow> (gateState \<times> session \<times> bool) option res" where
  "ApproveRequest e pa rr now req gs =
     (let ticks = GS_ticks gs in
      bind_res (newSession ticks gs) (\<lambda>(gs, s).
      bind_res (screenEnvelop ticks gs s) (\<lambda>(gs, s).
      let s = screenPod gs s in
      bind_res (screenRequest (GE_world e) (at_site rr ''request'') req gs s) (\<lambda>(gs, s).
      bind_res (screenRequestBody (GE_world e) pa (at_site rr ''body'') req gs s) (\<lambda>screened.
      case screened of
        None \<Rightarrow> Inr None
      | Some (gs, s) \<Rightarrow> bind_res (block_request e (at_site rr ''block'') now gs s) (\<lambda>r. Inr (Some r)))))))"

text \<open>Without the session of its request a response is refused.\<close>

definition ApproveResponse ::
    "'k gate_env \<Rightarrow> parsers \<Rightarrow> ranger \<Rightarrow> http_response \<Rightarrow> gateState \<Rightarrow> session option \<Rightarrow> (gateState \<times> session option \<times> bool) option res" where
  "ApproveResponse e pa rr resp gs ctxSession =
     (case ctxSession of
        None \<Rightarrow> Inr (Some (gs, None, False))
      | Some s \<Rightarrow>
          (let ticks = GS_ticks gs; s = s\<lparr>SS_gotResponse := True\<rparr> in
           bind_res (screenResponse (GE_world e) (at_site rr ''response'') resp ticks gs s) (\<lambda>(gs, s).
           bind_res (screenResponseBody (GE_world e) pa (at_site rr ''body'') resp gs s) (\<lambda>screened.
           case screened of
             None \<Rightarrow> Inr None
           | Some (gs, s) \<Rightarrow>
               bind_res (screenEnvelop ticks gs s) (\<lambda>(gs, s).
               let s = screenPod gs s in
               if shouldBlock gs \<and> (session_hasAlert s \<or> gate_hasAlert gs)
               then bind_res (addStat ''BlockOnResponse'' gs) (\<lambda>gs. Inr (Some (gs, Some (session_cancel s), False)))
               else Inr (Some (gs, Some s, True)))))))"

section \<open>Configuration\<close>

text \<open>The letters, digits and dashes of a host name.\<close>

definition podname_char :: "char \<Rightarrow> bool" where
  "podname_char c \<longleftrightarrow> is_digit c \<or> c = CHR ''-''
     \<or> (65 \<le> (of_char c :: nat) \<and> (of_char c :: nat) \<le> 90) \<or> (97 \<le> (of_char c :: nat) \<and> (of_char c :: nat) \<le> 122)"

definition config_podname :: "(string \<Rightarrow> string option) \<Rightarrow> string gomap \<Rightarrow> string" where
  "config_podname ReadFile c =
     (case map_get c ''podname'' of
        Some v \<Rightarrow> v
      | None \<Rightarrow>
          (case ReadFile ''/etc/hostname'' of None \<Rightarrow> ''unknown'' | Some data \<Rightarrow> filter podname_char data))"

definition interval_secs :: "int \<Rightarrow> string \<Rightarrow> int" where
  "interval_secs dflt v = (case ParseDuration v of Some d \<Rightarrow> whole_seconds d | None \<Rightarrow> dflt)"

text \<open>Without an authority that can be read, the certificate of the service is not verified.\<close>

definition skip_verify :: "(string \<Rightarrow> bool) \<Rightarrow> string \<Rightarrow> bool" where
  "skip_verify AppendCertsFromPEM rootCA =
     (if rootCA \<noteq> '''' then (if AppendCertsFromPEM rootCA then False else True) else True)"

text \<open>
  \<open>preInit\<close>: a configuration that is absent is a nil map. The token file and the parser of
  certificates are the surroundings' (\<open>guard-url\<close> only says where the service is).
\<close>

definition preInit ::
    "(string \<Rightarrow> string option) \<Rightarrow> (string \<Rightarrow> bool) \<Rightarrow> string option \<Rightarrow> int \<Rightarrow> string gomap \<Rightarrow> string \<Rightarrow> string \<Rightarrow> gateState res" where
  "preInit ReadFile pem_ok tokenFile now c sid ns =
     (let value = (\<lambda>key. case map_get c key of Some v \<Rightarrow> v | None \<Rightarrow> '''');
          rootCA = value ''rootca'';
          useCrd = (case map_get c ''use-crd'' of Some v \<Rightarrow> \<not> EqualFold v ''false'' | None \<Rightarrow> True);
          monitorPod = (case map_get c ''monitor-pod'' of Some v \<Rightarrow> EqualFold v ''true'' | None \<Rightarrow> True);
          analyzeBody = True;
          analyzeBody = (case map_get c ''analyze-body'' of Some v \<Rightarrow> if EqualFold v ''true'' then True else analyzeBody | None \<Rightarrow> analyzeBody);
          podname = config_podname ReadFile c
      in if has_prefix sid ''ns.'' then Inl (PanicMsg ''Ileal serviceName - ns.{Namespace} is reserved'')
         else
           (let syncServiceSecs = interval_secs 60 (value ''guardian-sync-interval'');
                podMonitorSecs = interval_secs 5 (value ''pod-monitor-interval'');
                skipVerify = skip_verify pem_ok rootCA
            in Inr ((NewGateState now tokenFile skipVerify syncServiceSecs podMonitorSecs monitorPod podname sid ns (\<not> useCrd))
                 \<lparr>GS_analyzeBody := analyzeBody\<rparr>)))"

definition plug_Init ::
    "'k gate_env \<Rightarrow> (string \<Rightarrow> bool) \<Rightarrow> ranger \<Rightarrow> int \<Rightarrow> string gomap \<Rightarrow> string \<Rightarrow> string \<Rightarrow> gateState res" where
  "plug_Init e pem_ok rr ticks c sid ns =
     bind_res (preInit (w_ReadFile (GE_world e)) pem_ok (GE_TokenFile e) ticks c sid ns) (\<lambda>gs.
     bind_res (gate_sync e (at_site rr ''sync'') True True ticks gs) (\<lambda>gs.
     profileAndDecidePod e (at_site rr ''pod'') ticks ticks gs))"

definition plug_Shutdown :: "'k gate_env \<Rightarrow> ranger \<Rightarrow> gateState \<Rightarrow> gateState res" where
  "plug_Shutdown e rr gs =
     (if SDQ_Count (GC_pile (GS_srv gs)) > 0 \<or> GC_alerts (GS_srv gs) \<noteq> []
      then gate_sync e rr False True (GS_ticks gs) gs else Inr gs)"

section \<open>What becomes of a request\<close>

lemma session_logAlert_ok:
  assumes "fair_ranger rr" and "gate_ok gs" and "env_ok e"
  shows "ok (session_logAlert e rr now gs s) (\<lambda>(gs', s'). gate_keeps gs gs' \<and> session_hasAlert s' = session_hasAlert s
    \<and> SS_profile s' = SS_profile s \<and> SS_canceled s' = SS_canceled s)"
proof (cases "SS_decision s")
  case None
  then show ?thesis using assms(2) by (simp add: session_logAlert_def gate_keeps_refl)
next
  case (Some d)
  obtain g1 where g1: "addStat ''SessionLevelAlert'' gs = Inr g1" "counts_only gs g1"
    using addStat_counts [OF assms(2)] unfolding ok_iff by blast
  obtain g2 d' where g2: "gate_addAlert e rr now d ''Session'' g1 = Inr (g2, d')" "gate_keeps g1 g2"
    using gate_addAlert_ok [OF assms(1) counts_only_ok [OF g1(2)] assms(3), of now d "''Session''"] by (auto simp: ok_iff)
  then show ?thesis
    using Some g1(1) gate_keeps_trans [OF counts_only_keeps [OF g1(2)] g2(2)] by (simp add: session_logAlert_def session_hasAlert_def)
qed

definition refuses :: "gateState \<Rightarrow> session \<Rightarrow> bool" where
  "refuses gs s \<longleftrightarrow> shouldBlock gs \<and> (gate_hasAlert gs \<or> session_hasAlert s)"

lemma block_request_ok:
  assumes "fair_ranger rr" and "gate_ok gs" and "env_ok e"
  shows "ok (block_request e rr now gs s) (\<lambda>(gs', s', approved). gate_keeps gs gs' \<and> session_hasAlert s' = session_hasAlert s
    \<and> SS_profile s' = SS_profile s \<and> (approved \<longleftrightarrow> \<not> refuses gs s) \<and> SS_canceled s' = (SS_canceled s \<or> refuses gs s)
    \<and> (approved \<longrightarrow> gs' = gs \<and> s' = s))"
proof (cases "refuses gs s")
  case False
  then show ?thesis using assms(2) by (auto simp: block_request_def refuses_def gate_keeps_refl)
next
  case True
  show ?thesis
  proof (cases "gate_hasAlert gs")
    case gate: True
    obtain g1 where "addStat ''BlockOnPod'' gs = Inr g1" "counts_only gs g1"
      using addStat_counts [OF assms(2)] unfolding ok_iff by blast
    then show ?thesis using True gate counts_only_keeps
      by (auto simp: block_request_def refuses_def session_cancel_def session_hasAlert_def)
  next
    case False
    obtain g1 s1 where g1: "session_logAlert e rr now gs s = Inr (g1, s1)" "gate_keeps gs g1"
        "session_hasAlert s1 = session_hasAlert s" "SS_profile s1 = SS_profile s"
      using session_logAlert_ok [OF assms, of now s] by (auto simp: ok_iff)
    have "gate_ok g1" using g1(2) by (simp add: gate_keeps_def)
    then obtain g2 where g2: "addStat ''BlockOnRequest'' g1 = Inr g2" "counts_only g1 g2"
      using addStat_counts unfolding ok_iff by blast
    then show ?thesis using True False g1 gate_keeps_trans [OF g1(2) counts_only_keeps [OF g2(2)]]
      by (auto simp: block_request_def refuses_def session_cancel_def session_hasAlert_def)
  qed
qed

text \<open>Before the body is read: what is screened of a request in any case.\<close>

definition screen_head :: "'k gate_env \<Rightarrow> ranger \<Rightarrow> http_request \<Rightarrow> gateState \<Rightarrow> (gateState \<times> session) res" where
  "screen_head e rr req gs =
     (let ticks = GS_ticks gs in
      bind_res (newSession ticks gs) (\<lambda>(gs, s).
      bind_res (screenEnvelop ticks gs s) (\<lambda>(gs, s).
      screenRequest (GE_world e) (at_site rr ''request'') req gs (screenPod gs s))))"

lemma ApproveRequest_head:
  "ApproveRequest e pa rr now req gs =
     bind_res (screen_head e rr req gs) (\<lambda>(gs, s).
     bind_res (screenRequestBody (GE_world e) pa (at_site rr ''body'') req gs s) (\<lambda>screened.
     case screened of
       None \<Rightarrow> Inr None
     | Some (gs, s) \<Rightarrow> bind_res (block_request e (at_site rr ''block'') now gs s) (\<lambda>r. Inr (Some r))))"
  by (simp add: ApproveRequest_def screen_head_def Let_def bind_res_assoc case_prod_unfold)

lemma screen_head_ok:
  assumes "gate_ok gs"
  shows "ok (screen_head e rr req gs) (\<lambda>(gs', s). counts_only gs gs' \<and> session_judged s \<and> \<not> SS_canceled s)"
proof -
  obtain g1 s1 where 1: "newSession (GS_ticks gs) gs = Inr (g1, s1)" "counts_only gs g1" "session_judged s1" "\<not> SS_canceled s1"
    using newSession_ok [OF assms, of "GS_ticks gs"] new_session_judged by (auto simp: ok_iff)
  obtain g2 s2 where 2: "screenEnvelop (GS_ticks gs) g1 s1 = Inr (g2, s2)" "screened g1 s1 (g2, s2)"
    using screenEnvelop_ok [OF counts_only_ok [OF 1(2)]] unfolding ok_iff by (metis surj_pair)
  have g2: "gate_ok g2" using 2(2) by (auto simp: screened_def counts_only_ok)
  then have p: "screened g1 s1 (g2, screenPod g2 s2)" using screened_trans [OF 2(2) screenPod_screened] by blast
  obtain g3 s3 where 3: "screenRequest (GE_world e) (at_site rr ''request'') req g2 (screenPod g2 s2) = Inr (g3, s3)"
      "screened g2 (screenPod g2 s2) (g3, s3)"
    using screenRequest_ok [OF g2] unfolding ok_iff by (metis surj_pair)
  have "screened g1 s1 (g3, s3)" by (rule screened_trans [OF p 3(2)])
  then show ?thesis
    using 1 2(1) 3(1) counts_only_trans [OF 1(2)] by (simp add: screen_head_def Let_def screened_def)
qed

text \<open>When the body of a request panics in the profiler, and when it is waited for in vain.\<close>

definition body_panics :: "'k gate_env \<Rightarrow> parsers \<Rightarrow> http_request \<Rightarrow> gateState \<Rightarrow> bool" where
  "body_panics e pa req gs \<longleftrightarrow>
     (\<exists>src. Hq_Body req = Some src \<and> body_read gs (Rq_ContentLength (Hq_msg req)) \<and> reading_panics (request_reading (GE_world e) pa req src))"

definition body_waits :: "'k gate_env \<Rightarrow> parsers \<Rightarrow> http_request \<Rightarrow> gateState \<Rightarrow> bool" where
  "body_waits e pa req gs \<longleftrightarrow>
     (\<exists>src. Hq_Body req = Some src \<and> body_read gs (Rq_ContentLength (Hq_msg req)) \<and> request_reading (GE_world e) pa req src = Waits)"

lemma body_read_counts: "counts_only gs gs' \<Longrightarrow> body_read gs' len = body_read gs len"
  by (simp add: body_read_def counts_only_same)

lemma screenRequestBody_panics:
  assumes "Hq_Body req = Some src" and "body_read gs (Rq_ContentLength (Hq_msg req))" and "reading_panics (request_reading w pa req src)"
  shows "\<exists>p. screenRequestBody w pa rr req gs s = Inl p"
  using profile_reading_panics [OF assms(3), of "w_hash w" "rr ''ReqBody''" "SDP_ReqBody (SS_profile s)"] assms(1,2)
  by (auto simp: screenRequestBody_def Let_def body_read_def request_reading_def)

lemma ApproveRequest_panics:
  assumes "gate_ok gs" and "body_panics e pa req gs"
  shows "\<exists>p. ApproveRequest e pa rr now req gs = Inl p"
proof -
  obtain g s where h: "screen_head e rr req gs = Inr (g, s)" "counts_only gs g"
    using screen_head_ok [OF assms(1), of e rr req] by (auto simp: ok_iff)
  obtain p where "screenRequestBody (GE_world e) pa (at_site rr ''body'') req g s = Inl p"
    using assms(2) body_read_counts [OF h(2)] screenRequestBody_panics unfolding body_panics_def by meson
  then show ?thesis using h(1) by (simp add: ApproveRequest_head)
qed

lemma ApproveRequest_ok:
  assumes "gate_ok gs" and "fair_ranger rr" and "env_ok e" and "\<not> body_panics e pa req gs"
  shows "ok (ApproveRequest e pa rr now req gs) (\<lambda>r. (r = None \<longleftrightarrow> body_waits e pa req gs)
    \<and> (\<forall>gs' s approved. r = Some (gs', s, approved) \<longrightarrow> gate_keeps gs gs' \<and> (approved \<longleftrightarrow> \<not> refuses gs s) \<and> (SS_canceled s \<longleftrightarrow> \<not> approved)))"
proof -
  obtain g s where h: "screen_head e rr req gs = Inr (g, s)" "counts_only gs g" "session_judged s" "\<not> SS_canceled s"
    using screen_head_ok [OF assms(1), of e rr req] by (auto simp: ok_iff)
  note br = body_read_counts [OF h(2)]
  have "\<forall>src. Hq_Body req = Some src \<longrightarrow> body_read g (Rq_ContentLength (Hq_msg req)) \<longrightarrow> \<not> reading_panics (request_reading (GE_world e) pa req src)"
    using assms(4) br by (simp add: body_panics_def)
  from screenRequestBody_ok [OF counts_only_ok [OF h(2)] h(3) this] obtain r where
    r: "screenRequestBody (GE_world e) pa (at_site rr ''body'') req g s = Inr r" "r = None \<longleftrightarrow> body_waits e pa req gs"
      "\<forall>r'. r = Some r' \<longrightarrow> screened g s r'"
    unfolding ok_iff body_waits_def br by blast
  show ?thesis
  proof (cases r)
    case None
    then show ?thesis using h(1) r(1,2) by (simp add: ApproveRequest_head)
  next
    case (Some x)
    obtain g2 s2 where x: "x = (g2, s2)" by (cases x)
    have sc: "counts_only g g2" "\<not> SS_canceled s2" using r(3) Some x h(4) by (simp_all add: screened_def)
    have c2: "counts_only gs g2" by (rule counts_only_trans [OF h(2) sc(1)])
    obtain g3 s3 approved where b: "block_request e (at_site rr ''block'') now g2 s2 = Inr (g3, s3, approved)" "gate_keeps g2 g3"
        "session_hasAlert s3 = session_hasAlert s2" "approved \<longleftrightarrow> \<not> refuses g2 s2" "SS_canceled s3 = (SS_canceled s2 \<or> refuses g2 s2)"
      using block_request_ok [OF fair_at_site [OF assms(2)] counts_only_ok [OF c2] assms(3)] unfolding ok_iff by fastforce
    have "refuses g2 s2 = refuses gs s3" using b(3) c2 by (simp add: refuses_def counts_only_same)
    then show ?thesis
      using h(1) r(1,2) Some x b gate_keeps_trans [OF counts_only_keeps [OF c2] b(2)] sc(2) by (simp add: ApproveRequest_head)
  qed
qed

section \<open>What becomes of a response\<close>

definition response_panics :: "'k gate_env \<Rightarrow> parsers \<Rightarrow> http_response \<Rightarrow> gateState \<Rightarrow> bool" where
  "response_panics e pa resp gs \<longleftrightarrow>
     (\<exists>src. Hs_Body resp = Some src \<and> body_read gs (Rs_ContentLength (Hs_msg resp)) \<and> reading_panics (response_reading (GE_world e) pa resp src))"

definition response_waits :: "'k gate_env \<Rightarrow> parsers \<Rightarrow> http_response \<Rightarrow> gateState \<Rightarrow> bool" where
  "response_waits e pa resp gs \<longleftrightarrow>
     (\<exists>src. Hs_Body resp = Some src \<and> body_read gs (Rs_ContentLength (Hs_msg resp)) \<and> response_reading (GE_world e) pa resp src = Waits)"

lemma ApproveResponse_ok:
  assumes "gate_ok gs" and "session_judged s" and "\<not> response_panics e pa resp gs"
  shows "ok (ApproveResponse e pa rr resp gs (Some s)) (\<lambda>r. (r = None \<longleftrightarrow> response_waits e pa resp gs)
    \<and> (\<forall>gs' s' approved. r = Some (gs', s', approved) \<longrightarrow> (\<exists>t. s' = Some t \<and> counts_only gs gs' \<and> session_judged t
        \<and> SS_gotResponse t \<and> alert_kept (SS_decision s) (SS_decision t) \<and> (approved \<longleftrightarrow> \<not> refuses gs t)
        \<and> (SS_canceled t \<longleftrightarrow> SS_canceled s \<or> \<not> approved))))"
proof -
  let ?s0 = "s\<lparr>SS_gotResponse := True\<rparr>" and ?ticks = "GS_ticks gs"
  have j0: "session_judged ?s0" using assms(2) by (simp add: session_judged_def)
  obtain g1 s1 where 1: "screenResponse (GE_world e) (at_site rr ''response'') resp ?ticks gs ?s0 = Inr (g1, s1)" "screened gs ?s0 (g1, s1)"
    using screenResponse_ok [OF assms(1)] unfolding ok_iff by (metis surj_pair)
  have c1: "counts_only gs g1" and j1: "session_judged s1" using 1(2) j0 by (simp_all add: screened_def)
  note br = body_read_counts [OF c1]
  have "\<forall>src. Hs_Body resp = Some src \<longrightarrow> body_read g1 (Rs_ContentLength (Hs_msg resp)) \<longrightarrow> \<not> reading_panics (response_reading (GE_world e) pa resp src)"
    using assms(3) br by (simp add: response_panics_def)
  from screenResponseBody_ok [OF counts_only_ok [OF c1] j1 this] obtain r where
    r: "screenResponseBody (GE_world e) pa (at_site rr ''body'') resp g1 s1 = Inr r" "r = None \<longleftrightarrow> response_waits e pa resp gs"
      "\<forall>r'. r = Some r' \<longrightarrow> screened g1 s1 r'"
    unfolding ok_iff response_waits_def br by blast
  show ?thesis
  proof (cases r)
    case None
    then show ?thesis using 1(1) r(1,2) by (simp add: ApproveResponse_def Let_def)
  next
    case (Some x)
    obtain g2 s2 where x: "x = (g2, s2)" by (cases x)
    have sc2: "screened gs ?s0 (g2, s2)" using screened_trans [OF 1(2)] r(3) Some x by blast
    have g2: "gate_ok g2" using sc2 by (auto simp: screened_def counts_only_ok)
    obtain g3 s3 where 3: "screenEnvelop ?ticks g2 s2 = Inr (g3, s3)" "screened g2 s2 (g3, s3)"
      using screenEnvelop_ok [OF g2] unfolding ok_iff by (metis surj_pair)
    have g3: "gate_ok g3" using 3(2) by (auto simp: screened_def counts_only_ok)
    let ?t = "screenPod g3 s3"
    have sct: "screened gs ?s0 (g3, ?t)"
      using screened_trans [OF screened_trans [OF sc2 3(2)] screenPod_screened [OF g3]] by blast
    then have c3: "counts_only gs g3" by (simp add: screened_def)
    have same: "refuses g3 ?t = refuses gs ?t" using counts_only_same [OF c3] by (simp add: refuses_def)
    show ?thesis
    proof (cases "refuses gs ?t")
      case True
      obtain g4 where g4: "addStat ''BlockOnResponse'' g3 = Inr g4" "counts_only g3 g4"
        using addStat_counts [OF g3] unfolding ok_iff by blast
      have "ApproveResponse e pa rr resp gs (Some s) = Inr (Some (g4, Some (session_cancel ?t), False))"
        using 1(1) r(1) Some x 3(1) g4(1) True same by (auto simp: ApproveResponse_def Let_def refuses_def)
      then show ?thesis using r(2) Some sct j0 True counts_only_trans [OF c3 g4(2)]
        by (auto simp: screened_def session_cancel_def session_judged_def refuses_def session_hasAlert_def)
    next
      case False
      have "ApproveResponse e pa rr resp gs (Some s) = Inr (Some (g3, Some ?t, True))"
        using 1(1) r(1) Some x 3(1) False same by (auto simp: ApproveResponse_def Let_def refuses_def)
      then show ?thesis using r(2) Some sct j0 False by (auto simp: screened_def)
    qed
  qed
qed

section \<open>What is decided is what is profiled\<close>

text \<open>A session over the parts of its profile that its criteria accept raises no alert.\<close>

definition profile_accepted :: "gateState \<Rightarrow> session \<Rightarrow> bool" where
  "profile_accepted gs s \<longleftrightarrow> (\<forall>c. active_criteria gs = Some c \<longrightarrow>
     req_accepts (SDC_Req c) (SDP_Req (SS_profile s)) \<and> body_accepts (SDC_ReqBody c) (SDP_ReqBody (SS_profile s))
     \<and> EnvelopConfig_Decide (SDC_Envelop c) (SDP_Envelop (SS_profile s)) = None)"

lemma screenEnvelop_quiet:
  assumes "screenEnvelop ticks gs s = Inr (gs', s')" and "SS_decision s = None"
    and "\<forall>c. active_criteria gs = Some c \<longrightarrow> EnvelopConfig_Decide (SDC_Envelop c) (SDP_Envelop (SS_profile s')) = None"
  shows "SS_decision s' = None"
proof -
  define ep where "ep = EnvelopProfile_Profile (word_of_int (SS_reqTime s))
    (word_of_int (if SS_reqTime s = SS_respTime s then ticks else SS_respTime s)) (word_of_int ticks)"
  obtain d where d: "decideEnvelop ep gs (SS_decision s) = Inr (gs', d)" "s' = s\<lparr>SS_profile := SS_profile s\<lparr>SDP_Envelop := ep\<rparr>, SS_decision := d\<rparr>"
    using assms(1) by (auto simp: screenEnvelop_def Let_def ep_def [symmetric] bind_res_Inr)
  have "\<forall>c. active_criteria gs = Some c \<longrightarrow> Inr (EnvelopConfig_Decide (SDC_Envelop c) ep) = Inr None"
    using assms(3) by (simp add: d(2))
  from decide_part_accepts [OF this, of "''Envelop''" "''EnvelopAlert''"] show ?thesis using d assms(2) by (simp add: decideEnvelop_def)
qed

lemma screenRequest_quiet:
  assumes "screenRequest w rr req gs s = Inr (gs', s')" and "fair_ranger rr" and "SS_decision s = None"
    and "SplitHostPort (Hq_RemoteAddr req) = Inr (host, port)"
    and "\<forall>c. active_criteria gs = Some c \<longrightarrow> req_accepts (SDC_Req c) (SDP_Req (SS_profile s'))"
  shows "SS_decision s' = None \<and> SDP_Envelop (SS_profile s') = SDP_Envelop (SS_profile s)"
proof -
  define rp where "rp = ReqProfile_Profile (w_hash w) (w_ParseIP w) (w_ParseMediaType w) (at_site rr ''profile'')
                (SDP_Req (SS_profile s)) (Hq_msg req) (w_ParseIP w host)"
  obtain d where d: "decideReq (at_site rr ''decide'') rp gs (SS_decision s) = Inr (gs', d)" "s' = s\<lparr>SS_profile := SS_profile s\<lparr>SDP_Req := rp\<rparr>, SS_decision := d\<rparr>"
    using assms(1,4) by (auto simp: screenRequest_def remote_ip_def Let_def rp_def [symmetric] bind_res_Inr)
  have "Inr (ReqConfig_Decide (at_site rr ''decide'') (SDC_Req c) rp) = Inr None" if "active_criteria gs = Some c" for c
  proof -
    have "req_accepts (SDC_Req c) rp" using assms(5) that by (simp add: d(2))
    then show ?thesis using assms(2) accepts_inner [OF req_accepts] by simp
  qed
  then have "decideReq (at_site rr ''decide'') rp gs None = Inr (gs, None)"
    unfolding decideReq_def by (intro decide_part_accepts) blast
  then show ?thesis using d assms(3) by simp
qed

lemma screenRequestBody_quiet:
  assumes "screenRequestBody w pa rr req gs s = Inr (Some (gs', s'))" and "fair_ranger rr" and "SS_decision s = None"
    and "\<forall>c. active_criteria gs = Some c \<longrightarrow> body_accepts (SDC_ReqBody c) (SDP_ReqBody (SS_profile s'))"
  shows "SS_decision s' = None"
proof (cases "\<exists>src. Hq_Body req = Some src \<and> body_read gs (Rq_ContentLength (Hq_msg req))")
  case False
  then show ?thesis using assms(1,3) by (auto simp: screenRequestBody_def Let_def body_read_def split: option.splits if_splits)
next
  case True
  then obtain src where src: "Hq_Body req = Some src" "body_read gs (Rq_ContentLength (Hq_msg req))" by blast
  have eq: "screenRequestBody w pa rr req gs s =
      bind_res (profile_reading (w_hash w) (rr ''ReqBody'') (SDP_ReqBody (SS_profile s)) (request_reading w pa req src)) (\<lambda>profiled.
        case profiled of None \<Rightarrow> Inr None
        | Some bp \<Rightarrow> bind_res (decideReqBody (at_site rr ''decide'') bp gs (SS_decision s)) (\<lambda>(gs, d).
            Inr (Some (gs, s\<lparr>SS_profile := SS_profile s\<lparr>SDP_ReqBody := bp\<rparr>, SS_decision := d\<rparr>))))"
    using src by (simp add: screenRequestBody_def Let_def body_read_def request_reading_def)
  obtain bp d where bp: "decideReqBody (at_site rr ''decide'') bp gs (SS_decision s) = Inr (gs', d)"
      "s' = s\<lparr>SS_profile := SS_profile s\<lparr>SDP_ReqBody := bp\<rparr>, SS_decision := d\<rparr>"
    using assms(1) unfolding eq by (auto simp: bind_res_Inr split: option.splits)
  have "BodyConfig_Decide (at_site rr ''decide'') (SDC_ReqBody c) bp = Inr None" if "active_criteria gs = Some c" for c
    using assms(4) that by (intro accepts_site [OF body_accepts assms(2)]) (simp add: bp(2))
  then have "decideReqBody (at_site rr ''decide'') bp gs None = Inr (gs, None)"
    unfolding decideReqBody_def by (intro decide_part_accepts) blast
  then show ?thesis using bp assms(3) by simp
qed

lemma screenRequestBody_profile:
  assumes "screenRequestBody w pa rr req gs s = Inr (Some (gs', s'))"
  shows "SDP_Req (SS_profile s') = SDP_Req (SS_profile s) \<and> SDP_Envelop (SS_profile s') = SDP_Envelop (SS_profile s)"
  using assms by (auto simp: screenRequestBody_def Let_def bind_res_Inr split: option.splits if_splits)

text \<open>
  C5. A request whose profile the criteria of the gate accept is approved: with no alert of the gate
  and a readable remote address, nothing else can refuse it, and the session has no alert.
\<close>

theorem accepted_request_approved:
  assumes "ApproveRequest e pa rr now req gs = Inr (Some (gs', s, approved))" and "gate_ok gs" and "fair_ranger rr" and "env_ok e"
    and "\<not> gate_hasAlert gs" and "SplitHostPort (Hq_RemoteAddr req) = Inr (host, port)" and "profile_accepted gs s"
  shows "approved \<and> SS_decision s = None"
proof -
  obtain g1 s1 where 1: "newSession (GS_ticks gs) gs = Inr (g1, s1)" "counts_only gs g1" "SS_decision s1 = None"
    using newSession_ok [OF assms(2), of "GS_ticks gs"] by (auto simp: ok_iff)
  obtain g2 s2 where 2: "screenEnvelop (GS_ticks gs) g1 s1 = Inr (g2, s2)" "screened g1 s1 (g2, s2)"
    using screenEnvelop_ok [OF counts_only_ok [OF 1(2)]] unfolding ok_iff by (metis surj_pair)
  have c2: "counts_only gs g2" using 2(2) counts_only_trans [OF 1(2)] by (simp add: screened_def)
  obtain g3 s3 where 3: "screenRequest (GE_world e) (at_site rr ''request'') req g2 (screenPod g2 s2) = Inr (g3, s3)"
      "screened g2 (screenPod g2 s2) (g3, s3)"
    using screenRequest_ok [OF counts_only_ok [OF c2]] unfolding ok_iff by (metis surj_pair)
  have c3: "counts_only gs g3" using 3(2) counts_only_trans [OF c2] by (simp add: screened_def)
  have head: "screen_head e rr req gs = Inr (g3, s3)" using 1(1) 2(1) 3(1) by (simp add: screen_head_def Let_def)
  obtain g4 s4 where 4: "screenRequestBody (GE_world e) pa (at_site rr ''body'') req g3 s3 = Inr (Some (g4, s4))"
      "block_request e (at_site rr ''block'') now g4 s4 = Inr (gs', s, approved)"
    using assms(1) head by (auto simp: ApproveRequest_head bind_res_Inr split: option.splits)
  have "\<not> body_panics e pa req g3"
    using ApproveRequest_panics [OF assms(2), of e pa req rr now] assms(1) by (auto simp: body_panics_def body_read_counts [OF c3])
  then have "counts_only g3 g4"
    using screenRequestBody_ok [OF counts_only_ok [OF c3], of s3 req "GE_world e" pa "at_site rr ''body''"] 4(1) head
      screen_head_ok [OF assms(2), of e rr req] by (auto simp: body_panics_def screened_def)
  then have c: "counts_only gs g4" by (rule counts_only_trans [OF c3])
  have b: "SS_profile s = SS_profile s4" "approved \<longleftrightarrow> \<not> refuses g4 s4" "approved \<longrightarrow> s = s4"
    using block_request_ok [OF fair_at_site [OF assms(3)] counts_only_ok [OF c] assms(4), of "''block''" now s4] 4(2) by auto
  have acc: "req_accepts (SDC_Req k) (SDP_Req (SS_profile s4))" "body_accepts (SDC_ReqBody k) (SDP_ReqBody (SS_profile s4))"
      "EnvelopConfig_Decide (SDC_Envelop k) (SDP_Envelop (SS_profile s4)) = None" if "active_criteria gs = Some k" for k
    using assms(7) that by (simp_all add: profile_accepted_def b(1))
  note p4 = screenRequestBody_profile [OF 4(1)]
  have p3: "SDP_Envelop (SS_profile s3) = SDP_Envelop (SS_profile s2)"
    using 3(1) assms(6) by (auto simp: screenRequest_def remote_ip_def screenPod_def Let_def bind_res_Inr)
  have "SS_decision s2 = None"
    using screenEnvelop_quiet [OF 2(1) 1(3)] acc(3) p3 p4 counts_only_same(3) [OF 1(2)] by simp
  then have "SS_decision (screenPod g2 s2) = None" by (simp add: screenPod_def)
  then have "SS_decision s3 = None"
    using screenRequest_quiet [OF 3(1) fair_at_site [OF assms(3)] _ assms(6)] acc(1) p4 counts_only_same(3) [OF c2] by simp
  then have "SS_decision s4 = None"
    using screenRequestBody_quiet [OF 4(1) fair_at_site [OF assms(3)]] acc(2) counts_only_same(3) [OF c3] by simp
  moreover have "\<not> gate_hasAlert g4" using assms(5) counts_only_same(2) [OF c] by simp
  ultimately show ?thesis using b(2,3) by (simp add: refuses_def session_hasAlert_def)
qed

text \<open>The profile of a request without a body.\<close>

lemma block_request_profile: "block_request e rr now gs s = Inr (gs', s', approved) \<Longrightarrow> SS_profile s' = SS_profile s"
  by (auto simp: block_request_def session_logAlert_def session_cancel_def bind_res_Inr split: if_splits option.splits)

lemma ApproveRequest_profile:
  assumes "ApproveRequest e pa rr now req gs = Inr (Some (gs', s, approved))" and "Hq_Body req = None"
    and "SplitHostPort (Hq_RemoteAddr req) = Inr (host, port)"
  shows "SDP_Req (SS_profile s) = ReqProfile_Profile (w_hash (GE_world e)) (w_ParseIP (GE_world e)) (w_ParseMediaType (GE_world e))
      (at_site (at_site rr ''request'') ''profile'') new_ReqProfile (Hq_msg req) (w_ParseIP (GE_world e) host)"
    and "SDP_ReqBody (SS_profile s) = new_BodyProfile"
    and "SDP_Envelop (SS_profile s) = EnvelopProfile_Profile (word_of_int (GS_ticks gs)) (word_of_int (GS_ticks gs)) (word_of_int (GS_ticks gs))"
  using assms
  by (auto simp: ApproveRequest_def newSession_def screenEnvelop_def screenPod_def screenRequest_def remote_ip_def screenRequestBody_def
      Let_def bind_res_Inr new_SessionDataProfile_def dest!: block_request_profile)

text \<open>A request of whom nothing else is known, for concrete runs.\<close>

definition example_request :: "64 word \<Rightarrow> src_result list option \<Rightarrow> http_request" where
  "example_request len body =
     \<lparr>Hq_msg = \<lparr>Rq_Header = Some [], Rq_Method = ''GET'', Rq_Proto = ''HTTP/1.1'', Rq_Path = ''/'', Rq_RawQuery = '''', Rq_ContentLength = len\<rparr>,
      Hq_RemoteAddr = ''10.0.0.1:80'', Hq_Body = body\<rparr>"

definition no_parsers :: parsers where
  "no_parsers = \<lparr>PA_json = \<lambda>view. Some None, PA_multipart = \<lambda>t view. None\<rparr>"

lemma example_address: "SplitHostPort (Hq_RemoteAddr (example_request len body)) = Inr (''10.0.0.1'', ''80'')"
  using SplitHostPort_plain [of "''10.0.0.1''" "''80''"] by (simp add: example_request_def)

lemma quiet_env_world: "GE_world quiet_env = \<lparr>w_hash = \<lambda>s. 0, w_ParseIP = \<lambda>s. [], w_ParseMediaType = \<lambda>s. None, w_ReadFile = \<lambda>f. None\<rparr>"
  by (simp add: quiet_env_def)

lemma plain_fair [simp]: "fair_ranger (\<lambda>_ ks. ks)"
  by (simp add: fair_rangerI)

lemma example_learned:
  "\<exists>c. session_cwf c \<and> SDC_Active c \<and> session_accepts c (new_SessionDataProfile
     \<lparr>SDP_Req := ReqProfile_Profile (w_hash (GE_world quiet_env)) (w_ParseIP (GE_world quiet_env)) (w_ParseMediaType (GE_world quiet_env))
        (at_site (at_site (\<lambda>_ ks. ks) ''request'') ''profile'') new_ReqProfile (Hq_msg (example_request len body)) [],
      SDP_Envelop := EnvelopProfile_Profile 0 0 0\<rparr>)" (is "\<exists>c. _ \<and> _ \<and> session_accepts c ?v")
proof -
  have "regular_request (\<lambda>s. []) (\<lambda>s. None) (Hq_msg (example_request len body)) []"
    by (simp add: regular_request_def regular_header_def example_request_def url_Query_def query_pair_def)
  then have "session_vwf ?v"
    using session_vwf_new req_vwf_Profile [OF fair_at_site [OF fair_at_site [OF plain_fair]]]
    by (simp add: session_vwf_def quiet_env_world)
  then obtain p where p: "session_pwf p" "session_covers p ?v"
    using SessionDataPile_Add_ok [OF session.pwf_empty] by (auto simp: ok_iff)
  then show ?thesis using SessionDataConfig_Learn_ok [OF plain_fair session_cwf_new p(1)] by (auto simp: ok_iff)
qed

lemma learned_gate_ok: "session_cwf c \<Longrightarrow> gate_ok ((gate_example 60 5)\<lparr>GS_criteria := Some c, GS_ctrl := Some k\<rparr>)"
  using gate_ok_start [OF gate_example_start, of 60 5] by (simp add: gate_ok_def)

theorem accepted_request_approved_witness:
  "\<exists>c gs' s. SDC_Active c \<and> ApproveRequest quiet_env no_parsers (\<lambda>_ ks. ks) 0 (example_request 0 None)
      ((gate_example 60 5)\<lparr>GS_criteria := Some c, GS_ctrl := Some (new_Ctrl\<lparr>Block := True\<rparr>)\<rparr>) = Inr (Some (gs', s, True))"
proof -
  obtain c where c: "session_cwf c" "SDC_Active c" "session_accepts c (new_SessionDataProfile
     \<lparr>SDP_Req := ReqProfile_Profile (w_hash (GE_world quiet_env)) (w_ParseIP (GE_world quiet_env)) (w_ParseMediaType (GE_world quiet_env))
        (at_site (at_site (\<lambda>_ ks. ks) ''request'') ''profile'') new_ReqProfile (Hq_msg (example_request 0 None)) [],
      SDP_Envelop := EnvelopProfile_Profile 0 0 0\<rparr>)"
    using example_learned by blast
  let ?gs = "(gate_example 60 5)\<lparr>GS_criteria := Some c, GS_ctrl := Some (new_Ctrl\<lparr>Block := True\<rparr>)\<rparr>"
  have none: "Hq_Body (example_request 0 None) = None" by (simp add: example_request_def)
  then have quiet: "\<not> body_panics quiet_env no_parsers (example_request 0 None) ?gs" "\<not> body_waits quiet_env no_parsers (example_request 0 None) ?gs"
    by (simp_all add: body_panics_def body_waits_def)
  obtain gs' s approved where a: "ApproveRequest quiet_env no_parsers (\<lambda>_ ks. ks) 0 (example_request 0 None) ?gs = Inr (Some (gs', s, approved))"
    using ApproveRequest_ok [OF learned_gate_ok [OF c(1)] plain_fair quiet_env_ok quiet(1), of 0] quiet(2) by (auto simp: ok_iff)
  have "GS_ticks ?gs = 0" "w_ParseIP (GE_world quiet_env) ''10.0.0.1'' = []" by (simp_all add: gate_example_def NewGateState_def quiet_env_world)
  then have "profile_accepted ?gs s"
    using ApproveRequest_profile [OF a none example_address] c(2,3)
    by (simp add: profile_accepted_def active_criteria_def session_accepts_def new_SessionDataProfile_def)
  moreover have "\<not> gate_hasAlert ?gs" by (simp add: gate_hasAlert_def gate_example_def NewGateState_def)
  ultimately have "approved"
    using accepted_request_approved [OF a learned_gate_ok [OF c(1)] plain_fair quiet_env_ok _ example_address] by blast
  then show ?thesis using a c(2) by auto
qed

text \<open>
  C1. What becomes of any request, exactly: the analysis panics when a body that is read turns out to
  be JSON data the profiler refuses, it waits for ever when the parser of the body needs more
  than the duplicated stream can give, and otherwise the request is refused, and its session
  cancelled, if and only if blocking is on and there is an alert of the gate or of the session.
\<close>

theorem request_outcome:
  assumes "gate_ok gs" and "fair_ranger rr" and "env_ok e"
  shows "if body_panics e pa req gs then \<exists>p. ApproveRequest e pa rr now req gs = Inl p
    else if body_waits e pa req gs then ApproveRequest e pa rr now req gs = Inr None
    else \<exists>gs' s approved. ApproveRequest e pa rr now req gs = Inr (Some (gs', s, approved))
      \<and> (approved \<longleftrightarrow> \<not> (shouldBlock gs \<and> (gate_hasAlert gs \<or> session_hasAlert s))) \<and> (SS_canceled s \<longleftrightarrow> \<not> approved)"
proof (cases "body_panics e pa req gs")
  case True
  then show ?thesis using ApproveRequest_panics [OF assms(1)] by simp
next
  case False
  from ApproveRequest_ok [OF assms False, of now] obtain r where r: "ApproveRequest e pa rr now req gs = Inr r"
      "r = None \<longleftrightarrow> body_waits e pa req gs"
      "\<forall>gs' s approved. r = Some (gs', s, approved) \<longrightarrow> gate_keeps gs gs' \<and> (approved \<longleftrightarrow> \<not> refuses gs s) \<and> (SS_canceled s \<longleftrightarrow> \<not> approved)"
    by (auto simp: ok_iff)
  show ?thesis
  proof (cases r)
    case None
    then show ?thesis using False r(1,2) by simp
  next
    case (Some x)
    obtain gs' s approved where "x = (gs', s, approved)" by (cases x)
    then show ?thesis using False r Some by (simp add: refuses_def)
  qed
qed

text \<open>Surroundings in which everything is taken for JSON.\<close>

definition json_env :: "unit gate_env" where
  "json_env = quiet_env\<lparr>GE_world := (GE_world quiet_env)\<lparr>w_ParseMediaType := \<lambda>s. Some (''application/json'', None)\<rparr>\<rparr>"

lemma json_env_ok: "env_ok json_env"
  using quiet_env_ok by (simp add: json_env_def env_ok_def)

theorem request_outcome_witness:
  "\<exists>p. ApproveRequest json_env \<lparr>PA_json = \<lambda>view. Some (Some (GSlice True [GString ''x''])), PA_multipart = \<lambda>t view. None\<rparr> (\<lambda>_ ks. ks) 0
      (example_request 5 (Some [SrcData ''[1]'' True])) ((gate_example 60 5)\<lparr>GS_analyzeBody := True\<rparr>) = Inl p"
proof -
  let ?pa = "\<lparr>PA_json = \<lambda>view. Some (Some (GSlice True [GString ''x''])), PA_multipart = \<lambda>t view. None\<rparr>"
  let ?req = "example_request 5 (Some [SrcData ''[1]'' True])" and ?gs = "(gate_example 60 5)\<lparr>GS_analyzeBody := True\<rparr>"
  have g: "gate_ok ?gs" using gate_ok_start [OF gate_example_start, of 60 5] by (simp add: gate_ok_def)
  have "body_panics json_env ?pa ?req ?gs"
    by (simp add: body_panics_def body_read_def maxBody_def example_request_def request_reading_def content_type_def json_env_def
        request_body_type_def read_json_def reading_panics_def unprofilable_def) blast
  then show ?thesis using request_outcome [OF g plain_fair json_env_ok, of ?pa ?req 0] by simp
qed

text \<open>
  C34. A body whose length is not declared, or is declared too large, is never judged: whatever it
  holds, the request is approved exactly when the same request without a body is.
\<close>

theorem unsized_body_never_judged:
  assumes "sint (Rq_ContentLength (Hq_msg req)) \<le> 0 \<or> maxBody < sint (Rq_ContentLength (Hq_msg req))"
    and "ApproveRequest e pa rr now (req\<lparr>Hq_Body := None\<rparr>) gs = Inr (Some (gs', s, approved))"
  shows "\<exists>s'. ApproveRequest e pa rr now (req\<lparr>Hq_Body := Some src\<rparr>) gs = Inr (Some (gs', s', approved)) \<and> SS_decision s' = SS_decision s"
proof -
  obtain g0 s0 where h: "screen_head e rr (req\<lparr>Hq_Body := None\<rparr>) gs = Inr (g0, s0)"
      "block_request e (at_site rr ''block'') now g0 s0 = Inr (gs', s, approved)"
    using assms(2) by (auto simp: ApproveRequest_head bind_res_Inr screenRequestBody_def)
  have same: "screen_head e rr (req\<lparr>Hq_Body := b\<rparr>) gs = screen_head e rr req gs" for b
    by (simp add: screen_head_def screenRequest_def remote_ip_def)
  have "\<exists>p. screenRequestBody (GE_world e) pa (at_site rr ''body'') (req\<lparr>Hq_Body := Some src\<rparr>) g0 s0 = Inr (Some (g0, s0\<lparr>SS_profile := p\<rparr>))"
  proof (cases "GS_analyzeBody g0")
    case True
    then show ?thesis using assms(1) by (cases "maxBody < sint (Rq_ContentLength (Hq_msg req))") (auto simp: screenRequestBody_def Let_def)
  next
    case False
    then show ?thesis by (intro exI [of _ "SS_profile s0"]) (simp add: screenRequestBody_def)
  qed
  then obtain p where b: "screenRequestBody (GE_world e) pa (at_site rr ''body'') (req\<lparr>Hq_Body := Some src\<rparr>) g0 s0 = Inr (Some (g0, s0\<lparr>SS_profile := p\<rparr>))" ..
  have "block_request e rr' now g (t\<lparr>SS_profile := p\<rparr>) =
      (case block_request e rr' now g t of Inl q \<Rightarrow> Inl q | Inr (g', t', a) \<Rightarrow> Inr (g', t'\<lparr>SS_profile := p\<rparr>, a))" for rr' g t
    by (auto simp: block_request_def session_logAlert_def session_hasAlert_def session_cancel_def bind_res_def split: sum.split option.split)
  then have "block_request e (at_site rr ''block'') now g0 (s0\<lparr>SS_profile := p\<rparr>) = Inr (gs', s\<lparr>SS_profile := p\<rparr>, approved)"
    using h(2) by simp
  then show ?thesis using h(1) b by (simp add: ApproveRequest_head same)
qed

theorem unsized_body_never_judged_witness:
  "\<exists>gs' s s'. ApproveRequest quiet_env no_parsers (\<lambda>_ ks. ks) 0 (example_request (- 1) None) (gate_example 60 5) = Inr (Some (gs', s, True))
    \<and> ApproveRequest quiet_env no_parsers (\<lambda>_ ks. ks) 0 (example_request (- 1) (Some [SrcData ''attack'' True])) (gate_example 60 5) = Inr (Some (gs', s', True))"
proof -
  let ?gs = "gate_example 60 5"
  have quiet: "\<not> body_panics quiet_env no_parsers (example_request (- 1) None) ?gs" "\<not> body_waits quiet_env no_parsers (example_request (- 1) None) ?gs"
    by (simp_all add: body_panics_def body_waits_def example_request_def)
  have "gate_ok ?gs" using gate_ok_start [OF gate_example_start, of 60 5] by simp
  then obtain gs' s where a: "ApproveRequest quiet_env no_parsers (\<lambda>_ ks. ks) 0 (example_request (- 1) None) ?gs = Inr (Some (gs', s, True))"
    using ApproveRequest_ok [OF _ plain_fair quiet_env_ok quiet(1), of 0] quiet(2)
    by (auto simp: ok_iff refuses_def shouldBlock_def gate_example_def NewGateState_def)
  have "(example_request (- 1) None)\<lparr>Hq_Body := b\<rparr> = example_request (- 1) b" for b by (simp add: example_request_def)
  moreover have "sint (Rq_ContentLength (Hq_msg (example_request (- 1) None))) \<le> 0" by (simp add: example_request_def)
  ultimately show ?thesis using unsized_body_never_judged [of "example_request (- 1) None" quiet_env no_parsers "\<lambda>_ ks. ks" 0 ?gs gs' s True] a by auto
qed

text \<open>
  C11. Once a request has raised an alert, or the gate has one, and blocking is on, its response is
  refused too, whatever it is; without the session of its request any response is refused.
\<close>

theorem alerted_session_refused:
  assumes "gate_ok gs" and "session_judged s" and "\<not> response_panics e pa resp gs" and "\<not> response_waits e pa resp gs"
    and "shouldBlock gs" and "session_hasAlert s \<or> gate_hasAlert gs"
  shows "(\<exists>gs' t. ApproveResponse e pa rr resp gs (Some s) = Inr (Some (gs', Some t, False)) \<and> SS_canceled t)
    \<and> ApproveResponse e pa rr resp gs None = Inr (Some (gs, None, False))"
proof -
  obtain r where r: "ApproveResponse e pa rr resp gs (Some s) = Inr (Some r)"
    using ApproveResponse_ok [OF assms(1-3), of rr] assms(4) by (auto simp: ok_iff)
  obtain gs' s' approved where x: "r = (gs', s', approved)" by (cases r)
  obtain t where "s' = Some t" "alert_kept (SS_decision s) (SS_decision t)" "approved \<longleftrightarrow> \<not> refuses gs t" "SS_canceled t \<longleftrightarrow> SS_canceled s \<or> \<not> approved"
    using ApproveResponse_ok [OF assms(1-3), of rr] r x by auto
  then show ?thesis using r x assms(5,6) by (auto simp: refuses_def alert_kept_def session_hasAlert_def ApproveResponse_def)
qed

theorem alerted_session_refused_witness:
  "\<exists>s gs' t. ApproveResponse quiet_env no_parsers (\<lambda>_ ks. ks) \<lparr>Hs_msg = \<lparr>Rs_Header = None, Rs_ContentLength = 0\<rparr>, Hs_Body = None\<rparr>
      ((gate_example 60 5)\<lparr>GS_ctrl := Some (new_Ctrl\<lparr>Block := True\<rparr>)\<rparr>) (Some s) = Inr (Some (gs', Some t, False))"
proof -
  let ?gs = "(gate_example 60 5)\<lparr>GS_ctrl := Some (new_Ctrl\<lparr>Block := True\<rparr>)\<rparr>"
  let ?resp = "\<lparr>Hs_msg = \<lparr>Rs_Header = None, Rs_ContentLength = 0\<rparr>, Hs_Body = None\<rparr>"
  let ?s = "\<lparr>SS_gotResponse = False, SS_decision = Some finding_ab, SS_reqTime = 0, SS_respTime = 0, SS_canceled = False, SS_profile = new_SessionDataProfile\<rparr>"
  have g: "gate_ok ?gs" using gate_ok_start [OF gate_example_start, of 60 5] by (simp add: gate_ok_def)
  have "shouldBlock ?gs" by (simp add: shouldBlock_def)
  moreover have "session_hasAlert ?s" "session_judged ?s" by (simp_all add: session_hasAlert_def new_session_judged)
  moreover have "\<not> response_panics quiet_env no_parsers ?resp ?gs" "\<not> response_waits quiet_env no_parsers ?resp ?gs"
    by (simp_all add: response_panics_def response_waits_def)
  ultimately show ?thesis using alerted_session_refused [OF g, of ?s quiet_env no_parsers ?resp "\<lambda>_ ks. ks"] by blast
qed

text \<open>
  Learning is inverted: with \<open>Learn\<close> and without \<open>Force\<close> and an alert of the gate, a session is
  offered for learning exactly when it raised an alert, and a session that ends without one leaves
  the pile as it was, however complete it is.
\<close>

theorem complete_learns_only_alerts:
  assumes "GS_ctrl gs = Some c" and "Learn c" and "\<not> Force c" and "GS_alert gs = ''''"
    and "session_complete e rr now ticks gs s = Inr (gs', s')"
  shows "(shouldLearn (session_hasAlert s) gs \<longleftrightarrow> session_hasAlert s)
    \<and> (\<not> session_hasAlert s \<longrightarrow> GC_pile (GS_srv gs') = GC_pile (GS_srv gs))"
proof -
  have l: "shouldLearn (session_hasAlert s) gs \<longleftrightarrow> session_hasAlert s" using assms(1-4) by (simp add: shouldLearn_def)
  have "addStat key g = Inr g' \<Longrightarrow> GS_srv g' = GS_srv g" for key g g' by (auto simp: addStat_def bind_res_Inr)
  then have "GS_srv gs' = GS_srv gs" if "\<not> session_hasAlert s"
    using assms(5) l that by (auto simp: session_complete_def bind_res_Inr split: if_splits)
  then show ?thesis using l by simp
qed

theorem complete_learns_only_alerts_witness:
  "\<exists>gs' s'. session_complete quiet_env (\<lambda>_ ks. ks) 0 9 ((gate_example 60 5)\<lparr>GS_ctrl := Some (new_Ctrl\<lparr>Learn := True\<rparr>)\<rparr>)
      \<lparr>SS_gotResponse = True, SS_decision = None, SS_reqTime = 0, SS_respTime = 1, SS_canceled = False, SS_profile = new_SessionDataProfile\<rparr> = Inr (gs', s')
    \<and> GC_pile (GS_srv gs') = GC_pile (GS_srv (gate_example 60 5))"
proof -
  let ?gs = "(gate_example 60 5)\<lparr>GS_ctrl := Some (new_Ctrl\<lparr>Learn := True\<rparr>)\<rparr>"
  let ?s = "\<lparr>SS_gotResponse = True, SS_decision = None, SS_reqTime = 0, SS_respTime = 1, SS_canceled = False, SS_profile = new_SessionDataProfile\<rparr>"
  have g: "gate_ok ?gs" using gate_ok_start [OF gate_example_start, of 60 5] by (simp add: gate_ok_def)
  obtain gs' where "addStat (complete_stat ?gs ?s) ?gs = Inr gs'" using addStat_counts [OF g] unfolding ok_iff by blast
  then have c: "session_complete quiet_env (\<lambda>_ ks. ks) 0 9 ?gs ?s = Inr (gs', ?s)"
    by (simp add: session_complete_def shouldLearn_def session_hasAlert_def gate_hasAlert_def gate_example_def NewGateState_def new_Ctrl_def)
  have "GS_ctrl ?gs = Some (new_Ctrl\<lparr>Learn := True\<rparr>)" "\<not> Force (new_Ctrl\<lparr>Learn := True\<rparr>)" "GS_alert ?gs = ''''"
    by (simp_all add: new_Ctrl_def gate_example_def NewGateState_def)
  from complete_learns_only_alerts [OF this(1) _ this(2,3) c] show ?thesis using c by (simp add: session_hasAlert_def)
qed

section \<open>Configuration\<close>

lemma preInit_start:
  assumes "preInit ReadFile pem_ok tok now c sid ns = Inr gs"
  shows "gate_ok gs \<and> GS_analyzeBody gs
    \<and> intervals gs = (interval_secs 60 (case map_get c ''guardian-sync-interval'' of Some v \<Rightarrow> v | None \<Rightarrow> ''''),
        interval_secs 5 (case map_get c ''pod-monitor-interval'' of Some v \<Rightarrow> v | None \<Rightarrow> ''''))"
proof -
  obtain skip monitorPod podname useCm where gs: "gs = (NewGateState now tok skip
      (interval_secs 60 (case map_get c ''guardian-sync-interval'' of Some v \<Rightarrow> v | None \<Rightarrow> ''''))
      (interval_secs 5 (case map_get c ''pod-monitor-interval'' of Some v \<Rightarrow> v | None \<Rightarrow> ''''))
      monitorPod podname sid ns useCm)\<lparr>GS_analyzeBody := True\<rparr>"
    using assms by (auto simp: preInit_def Let_def split: if_splits option.splits)
  have "gate_start a b (NewGateState now tok skip a b monitorPod podname sid ns useCm)" for a b
    unfolding gate_start_def by blast
  from gate_ok_start [OF this] show ?thesis by (simp add: gs gate_ok_def intervals_def)
qed

lemma plug_Init_ok:
  assumes "fair_ranger rr" and "env_ok e" and "\<not> has_prefix sid ''ns.''"
  shows "ok (plug_Init e pem_ok rr ticks c sid ns) (\<lambda>gs. gate_ok gs \<and> GS_analyzeBody gs)"
proof -
  obtain g0 where g0: "preInit (w_ReadFile (GE_world e)) pem_ok (GE_TokenFile e) ticks c sid ns = Inr g0"
    using assms(3) by (auto simp: preInit_def Let_def)
  note p = preInit_start [OF g0]
  obtain g1 where g1: "gate_sync e (at_site rr ''sync'') True True ticks g0 = Inr g1" "gate_keeps g0 g1"
    using gate_sync_ok [OF fair_at_site [OF assms(1)] _ assms(2), of g0] p unfolding ok_iff by blast
  then have "gate_ok g1" by (simp add: gate_keeps_def)
  from profileAndDecidePod_ok [OF fair_at_site [OF assms(1)] this assms(2)] obtain g2 where
    "profileAndDecidePod e (at_site rr ''pod'') ticks ticks g1 = Inr g2" "gate_keeps g1 g2" unfolding ok_iff by blast
  then show ?thesis using g0 g1 p by (simp add: plug_Init_def gate_keeps_def)
qed

text \<open>
  An interval below a second is accepted by the configuration and kept as zero seconds: however
  the gate is driven afterwards, the next tick panics.
\<close>

theorem sub_second_interval_panics:
  assumes "map_get c ''pod-monitor-interval'' = Some v" and "ParseDuration v = Some d" and "\<bar>d\<bar> < 1000000000"
    and "preInit ReadFile pem_ok tok now c sid ns = Inr gs0" and "gate_step\<^sup>*\<^sup>* gs0 gs" and "fair_ranger rr" and "env_ok (e :: unit gate_env)"
  shows "setTicks e rr now' ticks gs = Inl DivideByZero"
proof -
  have "d sdiv 1000000000 = 0" using assms(3) by (cases "d < 0") (auto simp: signed_divide_int_def)
  then have z: "GS_podMonitorSecs gs0 = 0" and g0: "gate_ok gs0"
    using preInit_start [OF assms(4)] assms(1,2) by (simp_all add: intervals_def interval_secs_def whole_seconds_def)
  have "gate_keeps gs0 gs" using gate_run.le_run [OF assms(5)] g0 by (simp add: gate_le_def)
  then have "gate_ok gs" "GS_podMonitorSecs gs = 0" using z by (simp_all add: gate_keeps_def intervals_def)
  then show ?thesis using setTicks_zero [OF _ _ assms(6,7)] by blast
qed

theorem sub_second_interval_panics_witness:
  "\<exists>gs. preInit (\<lambda>f. None) (\<lambda>ca. False) None 0 (Some [(''pod-monitor-interval'', ''500ms'')]) ''shop'' ''default'' = Inr gs
    \<and> setTicks quiet_env (\<lambda>_ ks. ks) 7 66 gs = Inl DivideByZero"
proof -
  let ?c = "Some [(''pod-monitor-interval'', ''500ms'')]"
  obtain gs where g: "preInit (\<lambda>f. None) (\<lambda>ca. False) None 0 ?c ''shop'' ''default'' = Inr gs"
    by (simp add: preInit_def Let_def has_prefix_def)
  have "map_get ?c ''pod-monitor-interval'' = Some ''500ms''" by simp
  from sub_second_interval_panics [OF this ParseDuration_examples(3) _ g rtranclp.rtrancl_refl plain_fair quiet_env_ok]
  show ?thesis using g by simp
qed

end
