(* ===== verification/Dselect.thy ===== *)
theory Dselect
  imports Machines "HOL-Library.Multiset"
begin

text \<open>
  \<open>pkg/dselect/dselect.go\<close>: one goroutine that waits for the end of the program, for services to
  be added, for the next second and for the end of each service, and calls back: \<open>setTick\<close> every
  second, \<open>tick\<close> of a service every few seconds and \<open>complete\<close> once when it ends. The callbacks
  act on a state of the client, a service is known by a name.
\<close>

section \<open>State\<close>

record 'i dSelectSrv =
  DS_srv :: 'i
  DS_tickSecs :: int
  DS_lastTick :: int

record ('i, 's) callbacks =
  CB_setTick :: "int \<Rightarrow> 's \<Rightarrow> 's res"
  CB_tick :: "'i \<Rightarrow> int \<Rightarrow> 's \<Rightarrow> 's res"
  CB_complete :: "'i \<Rightarrow> int \<Rightarrow> 's \<Rightarrow> 's res"

text \<open>The variables of the loop; the cases of the select are the three fixed ones and one for each service.\<close>

record 'i select_state =
  SL_services :: "'i dSelectSrv list"
  SL_ticks :: int
  SL_stopped :: bool

definition NewDSelect :: "int \<Rightarrow> 'i select_state" where
  "NewDSelect now = \<lparr>SL_services = [], SL_ticks = now, SL_stopped = False\<rparr>"

text \<open>What the select may choose.\<close>

datatype 'i event = CtxDone | AddSelect 'i int | Second int | SrvDone nat

section \<open>The loop\<close>

definition due :: "int \<Rightarrow> 'i dSelectSrv \<Rightarrow> bool" where
  "due ticks srv \<longleftrightarrow> ticks > DS_lastTick srv + DS_tickSecs srv"

fun tick_services :: "('i, 's) callbacks \<Rightarrow> int \<Rightarrow> 'i dSelectSrv list \<Rightarrow> 's \<Rightarrow> ('i dSelectSrv list \<times> 's) res" where
  "tick_services cb ticks [] s = Inr ([], s)"
| "tick_services cb ticks (srv # rest) s =
     (if due ticks srv
      then bind_res (CB_tick cb (DS_srv srv) ticks s) (\<lambda>s.
           bind_res (tick_services cb ticks rest s) (\<lambda>(rest, s). Inr (srv\<lparr>DS_lastTick := ticks\<rparr> # rest, s)))
      else bind_res (tick_services cb ticks rest s) (\<lambda>(rest, s). Inr (srv # rest, s)))"

definition complete_all :: "('i, 's) callbacks \<Rightarrow> int \<Rightarrow> 'i dSelectSrv list \<Rightarrow> 's \<Rightarrow> 's res" where
  "complete_all cb ticks srvs s = fold_res (\<lambda>srv. CB_complete cb (DS_srv srv) ticks) srvs s"

text \<open>One round; None when the event cannot be chosen, because the loop has returned or there is no such service.\<close>

definition selects :: "('i, 's) callbacks \<Rightarrow> 'i event \<Rightarrow> 'i select_state \<Rightarrow> 's \<Rightarrow> ('i select_state \<times> 's) res option" where
  "selects cb ev sl s =
     (if SL_stopped sl then None
      else case ev of
        CtxDone \<Rightarrow>
          Some (bind_res (complete_all cb (SL_ticks sl) (SL_services sl) s) (\<lambda>s.
                Inr (sl\<lparr>SL_services := [], SL_stopped := True\<rparr>, s)))
      | AddSelect i tickSecs \<Rightarrow>
          Some (Inr (sl\<lparr>SL_services := SL_services sl @ [\<lparr>DS_srv = i, DS_tickSecs = tickSecs, DS_lastTick = 0\<rparr>]\<rparr>, s))
      | Second ticks \<Rightarrow>
          Some (bind_res (CB_setTick cb ticks s) (\<lambda>s.
                bind_res (tick_services cb ticks (SL_services sl) s) (\<lambda>(srvs, s).
                Inr (sl\<lparr>SL_ticks := ticks, SL_services := srvs\<rparr>, s))))
      | SrvDone index \<Rightarrow>
          if index < length (SL_services sl)
          then Some (bind_res (CB_complete cb (DS_srv (SL_services sl ! index)) (SL_ticks sl) s) (\<lambda>s.
                Inr (sl\<lparr>SL_services := take index (SL_services sl) @ drop (index + 1) (SL_services sl)\<rparr>, s)))
          else None)"

section \<open>The contract with a client\<close>

text \<open>A client whose callbacks keep an invariant and never panic under it.\<close>

locale select_client =
  fixes cb :: "('i, 's) callbacks" and inv :: "'s \<Rightarrow> bool"
  assumes setTick_ok: "inv s \<Longrightarrow> ok (CB_setTick cb t s) inv"
    and tick_ok: "inv s \<Longrightarrow> ok (CB_tick cb i t s) inv"
    and complete_ok: "inv s \<Longrightarrow> ok (CB_complete cb i t s) inv"
begin

lemma tick_services_ok: "inv s \<Longrightarrow> ok (tick_services cb t srvs s) (\<lambda>(srvs', s'). inv s' \<and> map DS_srv srvs' = map DS_srv srvs)"
proof (induction srvs arbitrary: s)
  case (Cons srv rest)
  show ?case
  proof (cases "due t srv")
    case True
    obtain s1 where s1: "CB_tick cb (DS_srv srv) t s = Inr s1" "inv s1" using tick_ok [OF Cons.prems] unfolding ok_iff by blast
    then show ?thesis using True Cons.IH [OF s1(2)] by (auto simp: ok_iff)
  next
    case False
    then show ?thesis using Cons.IH [OF Cons.prems] by (auto simp: ok_iff)
  qed
qed simp

lemma complete_all_ok: "inv s \<Longrightarrow> ok (complete_all cb t srvs s) inv"
proof (induction srvs arbitrary: s)
  case (Cons srv rest)
  obtain s1 where s1: "CB_complete cb (DS_srv srv) t s = Inr s1" "inv s1" using complete_ok [OF Cons.prems] unfolding ok_iff by blast
  then show ?case using Cons.IH [OF s1(2)] by (simp add: complete_all_def)
qed (simp add: complete_all_def)

lemma selects_ok:
  assumes "inv s" and "selects cb ev sl s = Some r"
  shows "ok r (\<lambda>(sl', s'). inv s')"
proof (cases ev)
  case CtxDone
  then show ?thesis using assms complete_all_ok [OF assms(1), of "SL_ticks sl" "SL_services sl"] by (auto simp: selects_def ok_iff split: if_splits)
next
  case (AddSelect i secs)
  then show ?thesis using assms by (auto simp: selects_def split: if_splits)
next
  case (Second t)
  obtain s1 where s1: "CB_setTick cb t s = Inr s1" "inv s1" using setTick_ok [OF assms(1)] unfolding ok_iff by blast
  then show ?thesis using assms(2) Second tick_services_ok [OF s1(2), of t "SL_services sl"] by (auto simp: selects_def ok_iff split: if_splits)
next
  case (SrvDone k)
  obtain s1 where s1: "CB_complete cb (DS_srv (SL_services sl ! k)) (SL_ticks sl) s = Inr s1" "inv s1"
    using complete_ok [OF assms(1)] unfolding ok_iff by blast
  then show ?thesis using assms(2) SrvDone by (auto simp: selects_def ok_iff split: if_splits)
qed

end

section \<open>The history of a loop\<close>

datatype 'i call = Added 'i | Ticked 'i int | Completed 'i int

text \<open>What an event has called.\<close>

definition calls :: "'i event \<Rightarrow> 'i select_state \<Rightarrow> 'i call list" where
  "calls ev sl =
     (case ev of
        CtxDone \<Rightarrow> map (\<lambda>srv. Completed (DS_srv srv) (SL_ticks sl)) (SL_services sl)
      | AddSelect i tickSecs \<Rightarrow> [Added i]
      | Second ticks \<Rightarrow> map (\<lambda>srv. Ticked (DS_srv srv) ticks) (filter (due ticks) (SL_services sl))
      | SrvDone index \<Rightarrow> [Completed (DS_srv (SL_services sl ! index)) (SL_ticks sl)])"

inductive select_step :: "('i, 's) callbacks \<Rightarrow> 'i select_state \<times> 's \<times> 'i call list \<Rightarrow> 'i select_state \<times> 's \<times> 'i call list \<Rightarrow> bool" for cb where
  Round: "selects cb ev sl s = Some (Inr (sl', s')) \<Longrightarrow> select_step cb (sl, s, log) (sl', s', log @ calls ev sl)"

inductive_cases select_stepE: "select_step cb st st'"

fun added :: "'i call list \<Rightarrow> 'i multiset" where
  "added [] = {#}"
| "added (Added i # log) = add_mset i (added log)"
| "added (_ # log) = added log"

fun completed :: "'i call list \<Rightarrow> 'i multiset" where
  "completed [] = {#}"
| "completed (Completed i t # log) = add_mset i (completed log)"
| "completed (_ # log) = completed log"

text \<open>Every tick is of a service that has been added and is not completed yet.\<close>

definition ticks_active :: "'i call list \<Rightarrow> bool" where
  "ticks_active log \<longleftrightarrow> (\<forall>pre i t post. log = pre @ Ticked i t # post \<longrightarrow> i \<in># added pre - completed pre)"

lemma added_append [simp]: "added (xs @ ys) = added xs + added ys"
  by (induction xs rule: added.induct) simp_all

lemma completed_append [simp]: "completed (xs @ ys) = completed xs + completed ys"
  by (induction xs rule: completed.induct) simp_all

lemma only_ticks: "\<forall>c \<in> set xs. \<exists>i t. c = Ticked i t \<Longrightarrow> added xs = {#} \<and> completed xs = {#}"
  by (induction xs) auto

lemma only_completes: "added (map (\<lambda>x. Completed (f x) t) xs) = {#}" "completed (map (\<lambda>x. Completed (f x) t) xs) = image_mset f (mset xs)"
  by (induction xs) simp_all

lemma ticks_active_append:
  assumes "ticks_active log" and "\<forall>pre i t post. new = pre @ Ticked i t # post \<longrightarrow> i \<in># added (log @ pre) - completed (log @ pre)"
  shows "ticks_active (log @ new)"
  unfolding ticks_active_def
proof (intro allI impI)
  fix pre i t post assume eq: "log @ new = pre @ Ticked i t # post"
  show "i \<in># added pre - completed pre"
  proof (cases "length pre < length log")
    case True
    then have "log = pre @ Ticked i t # drop (length pre + 1) log"
      using eq by (metis append_eq_append_conv_if append_take_drop_id id_take_nth_drop less_imp_le_nat list.sel(1) nth_append nth_append_length plus_1_eq_Suc add.commute)
    then show ?thesis using assms(1) unfolding ticks_active_def by blast
  next
    case False
    then obtain p where p: "pre = log @ p" using eq by (auto simp: append_eq_append_conv2)
    then show ?thesis using assms(2) eq by simp
  qed
qed

definition history_ok :: "'i select_state \<times> 's \<times> 'i call list \<Rightarrow> bool" where
  "history_ok st \<longleftrightarrow> (case st of (sl, s, log) \<Rightarrow>
     added log = completed log + image_mset DS_srv (mset (SL_services sl)) \<and> ticks_active log
     \<and> (SL_stopped sl \<longrightarrow> SL_services sl = []))"

lemma tick_services_names: "tick_services cb t srvs s = Inr (srvs', s') \<Longrightarrow> map DS_srv srvs' = map DS_srv srvs"
  by (induction srvs arbitrary: s srvs') (auto simp: bind_res_Inr split: if_splits)

lemma mset_remove_nth: "k < length xs \<Longrightarrow> mset xs = add_mset (xs ! k) (mset (take k xs @ drop (k + 1) xs))"
  by (metis Suc_eq_plus1 id_take_nth_drop mset.simps(2) mset_append union_mset_add_mset_right)

interpretation select_history: machine
  "\<lambda>st. \<exists>now s. st = (NewDSelect now, s, [])" "select_step cb" history_ok for cb :: "('i, 's) callbacks"
proof
  fix st :: "'i select_state \<times> 's \<times> 'i call list" assume "\<exists>now s. st = (NewDSelect now, s, [])"
  then show "history_ok st" by (auto simp: history_ok_def NewDSelect_def ticks_active_def)
next
  fix st st' :: "'i select_state \<times> 's \<times> 'i call list" assume h: "history_ok st" and "select_step cb st st'"
  then obtain sl s log ev sl' s' where st: "st = (sl, s, log)" "st' = (sl', s', log @ calls ev sl)"
      and r: "selects cb ev sl s = Some (Inr (sl', s'))" by (elim select_stepE) blast
  have bal: "added log = completed log + image_mset DS_srv (mset (SL_services sl))" and act: "ticks_active log"
    using h by (simp_all add: history_ok_def st(1))
  show "history_ok st'"
  proof (cases ev)
    case CtxDone
    then have "SL_services sl' = []" using r by (auto simp: selects_def bind_res_Inr split: if_splits)
    moreover have "ticks_active (log @ calls ev sl)"
      by (rule ticks_active_append [OF act]) (auto simp: calls_def CtxDone map_eq_append_conv map_eq_Cons_conv)
    ultimately show ?thesis using bal CtxDone by (simp add: history_ok_def st(2) calls_def only_completes)
  next
    case (AddSelect i secs)
    moreover have "ticks_active (log @ calls ev sl)"
      by (rule ticks_active_append [OF act]) (auto simp: calls_def AddSelect append_eq_Cons_conv Cons_eq_append_conv)
    ultimately show ?thesis using bal r by (auto simp: history_ok_def st(2) calls_def selects_def split: if_splits)
  next
    case (Second t)
    let ?new = "map (\<lambda>srv. Ticked (DS_srv srv) t) (filter (due t) (SL_services sl))"
    have none: "added pre = {#} \<and> completed pre = {#}" if "?new = pre @ post" for pre post
    proof (rule only_ticks)
      have "set pre \<subseteq> (\<lambda>srv. Ticked (DS_srv srv) t) ` set (SL_services sl)" using arg_cong [OF that, of set] by auto
      then show "\<forall>c \<in> set pre. \<exists>i t. c = Ticked i t" by blast
    qed
    have "ticks_active (log @ ?new)"
    proof (rule ticks_active_append [OF act], intro allI impI)
      fix pre i u post assume eq: "?new = pre @ Ticked i u # post"
      then have "Ticked i u \<in> set ?new" by (metis in_set_conv_decomp)
      then have "i \<in># image_mset DS_srv (mset (SL_services sl))" by auto
      then show "i \<in># added (log @ pre) - completed (log @ pre)" using none [OF eq] bal by simp
    qed
    moreover have n: "map DS_srv (SL_services sl') = map DS_srv (SL_services sl)" "SL_stopped sl' = SL_stopped sl" "\<not> SL_stopped sl"
      using r Second tick_services_names by (fastforce simp: selects_def bind_res_Inr split: if_splits)+
    moreover have "image_mset DS_srv (mset (SL_services sl')) = image_mset DS_srv (mset (SL_services sl))"
      using arg_cong [OF n(1), of mset] by simp
    ultimately show ?thesis using bal none [of ?new "[]"] by (simp add: history_ok_def st(2) calls_def Second)
  next
    case (SrvDone k)
    then have k: "k < length (SL_services sl)" "SL_services sl' = take k (SL_services sl) @ drop (k + 1) (SL_services sl)" "SL_stopped sl' = SL_stopped sl" "\<not> SL_stopped sl"
      using r by (auto simp: selects_def bind_res_Inr split: if_splits)
    moreover have "ticks_active (log @ calls ev sl)"
      by (rule ticks_active_append [OF act]) (auto simp: calls_def SrvDone append_eq_Cons_conv Cons_eq_append_conv)
    ultimately show ?thesis using bal mset_remove_nth [OF k(1)] by (simp add: history_ok_def st(2) calls_def SrvDone)
  qed
qed


text \<open>Callbacks that do nothing, for concrete runs.\<close>

definition idle_callbacks :: "(nat, unit) callbacks" where
  "idle_callbacks = \<lparr>CB_setTick = \<lambda>t s. Inr s, CB_tick = \<lambda>i t s. Inr s, CB_complete = \<lambda>i t s. Inr s\<rparr>"


end
