(* ===== verification/Gate_Loop.thy ===== *)
theory Gate_Loop
  imports Plugs Dselect
begin

text \<open>
  The goroutine of a gate: the services of \<open>Dselect\<close> are the sessions of the gate, known by a
  number, and the callbacks are \<open>setTicks\<close> of the gate, \<open>tick\<close> and \<open>complete\<close> of a session.
\<close>

section \<open>The callbacks of a gate\<close>

type_synonym gate_sessions = "gateState \<times> (nat \<Rightarrow> session)"

definition gate_callbacks :: "'k gate_env \<Rightarrow> ranger \<Rightarrow> int \<Rightarrow> (nat, gate_sessions) callbacks" where
  "gate_callbacks e rr now =
     \<lparr>CB_setTick = (\<lambda>ticks (gs, ss). bind_res (setTicks e rr now ticks gs) (\<lambda>gs. Inr (gs, ss))),
      CB_tick = (\<lambda>i ticks (gs, ss). bind_res (session_tick ticks gs (ss i)) (\<lambda>(gs, s). Inr (gs, ss(i := s)))),
      CB_complete = (\<lambda>i ticks (gs, ss). bind_res (session_complete e rr now ticks gs (ss i)) (\<lambda>(gs, s). Inr (gs, ss(i := s))))\<rparr>"

text \<open>\<open>Add\<close> asks for a tick every five seconds.\<close>

definition gate_Add :: "nat \<Rightarrow> nat event" where
  "gate_Add i = AddSelect i 5"

section \<open>What a session keeps\<close>

definition sound_session :: "session \<Rightarrow> bool" where
  "sound_session s \<longleftrightarrow> session_vwf (SS_profile s)"

definition loop_inv :: "int \<Rightarrow> int \<Rightarrow> gate_sessions \<Rightarrow> bool" where
  "loop_inv syncSecs podSecs = (\<lambda>(gs, ss). gate_ok gs \<and> intervals gs = (syncSecs, podSecs) \<and> (\<forall>i. sound_session (ss i)))"

lemma gate_keeps_inv: "gate_keeps gs gs' \<Longrightarrow> intervals gs = i \<Longrightarrow> gate_ok gs' \<and> intervals gs' = i"
  by (simp add: gate_keeps_def)

lemma session_tick_ok:
  assumes "gate_ok gs" and "sound_session s"
  shows "ok (session_tick ticks gs s) (\<lambda>(gs', s'). gate_keeps gs gs' \<and> sound_session s')"
proof -
  obtain g1 s1 where 1: "screenEnvelop ticks gs s = Inr (g1, s1)" "screened gs s (g1, s1)"
    using screenEnvelop_ok [OF assms(1)] unfolding ok_iff by (metis surj_pair)
  have k: "gate_keeps gs g1" using 1(2) counts_only_keeps by (simp add: screened_def)
  then have "pod_vwf (GS_pod g1)" by (simp add: gate_keeps_def gate_ok_def)
  moreover have "session_vwf (SS_profile s1)"
    using 1(1) assms(2) by (auto simp: screenEnvelop_def Let_def bind_res_Inr sound_session_def session_vwf_def)
  ultimately have "sound_session (screenPod g1 s1)" by (simp add: sound_session_def screenPod_def session_vwf_def copyPodProfile_def)
  then show ?thesis using 1(1) k by (simp add: session_tick_def Let_def sound_session_def session_cancel_def)
qed

lemma session_complete_ok:
  assumes "fair_ranger rr" and "gate_ok gs" and "env_ok e" and "sound_session s"
  shows "ok (session_complete e rr now ticks gs s) (\<lambda>(gs', s'). gate_keeps gs gs' \<and> sound_session s')"
proof -
  let ?learn = "if shouldLearn (session_hasAlert s) gs \<and> SS_gotResponse s
      then addProfile e (at_site rr ''learn'') (SS_profile s) ticks gs else Inr gs"
  have "ok ?learn (gate_keeps gs)"
    using addProfile_ok [OF fair_at_site [OF assms(1)] assms(2,3)] assms(2,4) by (simp add: sound_session_def gate_keeps_refl)
  then obtain g where g: "?learn = Inr g" "gate_keeps gs g" unfolding ok_iff by blast
  then have gok: "gate_ok g" by (simp add: gate_keeps_def)
  have stat: "ok (bind_res (addStat key g) (\<lambda>gs. Inr (gs, s))) (\<lambda>(gs', s'). gate_keeps gs gs' \<and> sound_session s')" for key
    using addStat_ok [OF gok, of key] assms(4) gate_keeps_trans [OF g(2)] by (auto simp: ok_iff)
  have alert: "ok (session_logAlert e (at_site rr ''alert'') now g s) (\<lambda>(gs', s'). gate_keeps gs gs' \<and> sound_session s')"
    by (rule ok_mono [OF session_logAlert_ok [OF fair_at_site [OF assms(1)] gok assms(3)]])
      (use assms(4) gate_keeps_trans [OF g(2)] in \<open>auto simp: sound_session_def\<close>)
  show ?thesis using g(1) stat alert by (simp add: session_complete_def)
qed

section \<open>The loop is safe\<close>

text \<open>Surroundings in which a gate with positive intervals keeps the contract of the loop.\<close>

definition gate_setting :: "'k gate_env \<Rightarrow> ranger \<Rightarrow> int \<Rightarrow> int \<Rightarrow> bool" where
  "gate_setting e rr syncSecs podSecs \<longleftrightarrow> env_ok e \<and> fair_ranger rr \<and> syncSecs \<noteq> 0 \<and> podSecs \<noteq> 0"

lemma gate_callbacks_ok:
  assumes "gate_setting e rr a b" and "loop_inv a b st"
  shows "ok (CB_setTick (gate_callbacks e rr now) t st) (loop_inv a b)"
    and "ok (CB_tick (gate_callbacks e rr now) i t st) (loop_inv a b)"
    and "ok (CB_complete (gate_callbacks e rr now) i t st) (loop_inv a b)"
proof -
  obtain gs ss where st: "st = (gs, ss)" by (cases st)
  have g: "gate_ok gs" "intervals gs = (a, b)" "\<And>i. sound_session (ss i)" using assms(2) by (simp_all add: st loop_inv_def)
  have e: "env_ok e" "fair_ranger rr" "GS_syncServiceSecs gs \<noteq> 0" "GS_podMonitorSecs gs \<noteq> 0"
    using assms(1) g(2) by (simp_all add: gate_setting_def intervals_def)
  obtain gs' where "setTicks e rr now t gs = Inr gs'" "gate_keeps gs gs'"
    using setTicks_ok [OF e(2) g(1) e(1,3,4)] unfolding ok_iff by blast
  then show "ok (CB_setTick (gate_callbacks e rr now) t st) (loop_inv a b)"
    using gate_keeps_inv [OF _ g(2)] g(3) by (simp add: st gate_callbacks_def loop_inv_def)
  obtain gs' s' where "session_tick t gs (ss i) = Inr (gs', s')" "gate_keeps gs gs'" "sound_session s'"
    using session_tick_ok [OF g(1,3)] unfolding ok_iff by fastforce
  then show "ok (CB_tick (gate_callbacks e rr now) i t st) (loop_inv a b)"
    using gate_keeps_inv [OF _ g(2)] g(3) by (simp add: st gate_callbacks_def loop_inv_def)
  obtain gs' s' where "session_complete e rr now t gs (ss i) = Inr (gs', s')" "gate_keeps gs gs'" "sound_session s'"
    using session_complete_ok [OF e(2) g(1) e(1) g(3)] unfolding ok_iff by fastforce
  then show "ok (CB_complete (gate_callbacks e rr now) i t st) (loop_inv a b)"
    using gate_keeps_inv [OF _ g(2)] g(3) by (simp add: st gate_callbacks_def loop_inv_def)
qed

interpretation gate_loop: select_client "gate_callbacks e rr now" "\<lambda>st. gate_setting e rr syncSecs podSecs \<and> loop_inv syncSecs podSecs st"
  for e :: "'k gate_env" and rr now syncSecs podSecs
  by unfold_locales (auto elim!: ok_mono dest: gate_callbacks_ok)

text \<open>
  The rounds of the loop, and between them what the requests of the other goroutines do to the
  gate and to their sessions.
\<close>

inductive loop_step ::
    "unit gate_env \<Rightarrow> ranger \<Rightarrow> nat select_state \<times> gate_sessions \<Rightarrow> nat select_state \<times> gate_sessions \<Rightarrow> bool" for e rr where
  Round: "selects (gate_callbacks e rr now) ev sl st = Some (Inr (sl', st')) \<Longrightarrow> loop_step e rr (sl, st) (sl', st')"
| OnGate: "gate_step gs gs' \<Longrightarrow> loop_step e rr (sl, gs, ss) (sl, gs', ss)"
| OnSession: "sound_session s \<Longrightarrow> loop_step e rr (sl, gs, ss) (sl, gs, ss(i := s))"

definition loop_start :: "int \<Rightarrow> int \<Rightarrow> nat select_state \<times> gate_sessions \<Rightarrow> bool" where
  "loop_start syncSecs podSecs = (\<lambda>(sl, gs, ss). (\<exists>now. sl = NewDSelect now) \<and> gate_start syncSecs podSecs gs \<and> (\<forall>i. sound_session (ss i)))"

interpretation gate_rounds: machine "loop_start syncSecs podSecs" "loop_step e rr"
    "\<lambda>(sl, st). gate_setting e rr syncSecs podSecs \<longrightarrow> loop_inv syncSecs podSecs st"
  for e rr syncSecs podSecs
proof
  fix x assume "loop_start syncSecs podSecs x"
  then show "case x of (sl, st) \<Rightarrow> gate_setting e rr syncSecs podSecs \<longrightarrow> loop_inv syncSecs podSecs st"
    using gate_ok_start by (auto simp: loop_start_def loop_inv_def)
next
  fix x y assume inv: "case x of (sl, st) \<Rightarrow> gate_setting e rr syncSecs podSecs \<longrightarrow> loop_inv syncSecs podSecs st" and step: "loop_step e rr x y"
  from step inv show "case y of (sl, st) \<Rightarrow> gate_setting e rr syncSecs podSecs \<longrightarrow> loop_inv syncSecs podSecs st"
  proof (cases rule: loop_step.cases)
    case (Round now ev sl st sl' st')
    then show ?thesis using inv gate_loop.selects_ok [of e rr syncSecs podSecs st now ev sl "Inr (sl', st')"] by auto
  next
    case (OnGate gs gs' sl ss)
    then show ?thesis using inv gate_step_keeps [of gs gs'] by (auto simp: loop_inv_def gate_keeps_def)
  qed (use inv in \<open>auto simp: loop_inv_def\<close>)
qed



end
