(* ===== verification/Typed_Sessions.thy ===== *)
theory Typed_Sessions
  imports Gate_Loop
begin

text \<open>
  What the loop of a gate expects of its sessions: that the profiles the screening builds are
  well formed, for regular requests and data, that is, without empty keys.
\<close>

section \<open>Structured data\<close>

definition regular_data :: "godata \<Rightarrow> bool" where
  "regular_data d \<longleftrightarrow> d \<noteq> GNil \<and> (\<forall>kvs. d = GMap kvs \<longrightarrow> '''' \<notin> fst ` set kvs)"

lemma kv_vwf_update: "kv_vwf (Some kvs) \<Longrightarrow> k \<noteq> [] \<Longrightarrow> kv_vwf (Some (AList.update k v kvs))"
  by (auto simp: kv_vwf_def dom_update image_iff dest: set_mp [OF equalityD1 [OF dom_update]])

lemma recursiveKeyVal_vwf:
  "kv_vwf (Some kv) \<Longrightarrow> key \<noteq> [] \<Longrightarrow> kv_vwf (Some (recursiveKeyVal hash ro d key kv))"
proof (induction hash ro d arbitrary: key kv rule: recursiveKeyVal.induct)
  case (2 hash ro kvs)
  have step: "kv_vwf (Some (w (k @ '':'' @ k) kv'))" if kw: "(k, w) \<in> set (range_over ro (map (\<lambda>(k, v). (k, recursiveKeyVal hash ro v)) kvs))"
      and "kv_vwf (Some kv')" for k w kv'
  proof -
    from range_over_subset [OF kw] obtain v where "(k, v) \<in> set kvs" "w = recursiveKeyVal hash ro v" by auto
    then show ?thesis using 2(1) [of "(k, v)" k v kv' "k @ '':'' @ k"] that(2) by simp
  qed
  have "kv_vwf (Some (fold (\<lambda>(k, w) kv. w (k @ '':'' @ k) kv) xs kv'))"
    if "set xs \<subseteq> set (range_over ro (map (\<lambda>(k, v). (k, recursiveKeyVal hash ro v)) kvs))" and "kv_vwf (Some kv')" for xs kv'
    using that by (induction xs arbitrary: kv') (auto intro: step [simplified])
  then show ?case using 2(2) by simp
qed (auto simp: hashIfNeeded_empty intro: kv_vwf_update)

lemma StructuredProfile_vwf:
  assumes "fair ro" and "regular_data d" and "StructuredProfile_Profile hash ro new_StructuredProfile d = Inr s"
  shows "sp_vwf s"
proof (cases d)
  case (GMap kvs)
  have keys: "\<forall>(k, v) \<in> set (range_over ro kvs). k \<noteq> []" using range_over_keys [OF assms(1)] assms(2) GMap by (simp add: regular_data_def)
  have "kv_vwf (Some (fold (\<lambda>(k, v) kv. recursiveKeyVal hash ro v k kv) xs kv))"
    if "\<forall>(k, v) \<in> set xs. k \<noteq> []" and "kv_vwf (Some kv)" for xs kv
    using that by (induction xs arbitrary: kv) (auto intro: recursiveKeyVal_vwf)
  from this [OF keys, of "[]"] show ?thesis using assms(3) GMap by (auto simp: StructuredProfile_Profile_def sp_vwf_def)
qed (use assms in \<open>auto simp: StructuredProfile_Profile_def sp_vwf_def regular_data_def scalar_kind_def bind_res_Inr\<close>)

lemma form_regular: "'''' \<notin> fst ` set form \<Longrightarrow> regular_data (form_data form)"
  by (force simp: form_data_def regular_data_def)

section \<open>Bodies\<close>

definition regular_reading :: "body_reading \<Rightarrow> bool" where
  "regular_reading r \<longleftrightarrow> (\<forall>d. r = BodyData d \<longrightarrow> regular_data d)"

lemma profile_reading_vwf:
  assumes "profile_reading hash ro bp reading = Inr (Some bp')" and "fair ro" and "regular_reading reading" and "body_vwf bp"
  shows "body_vwf bp'"
  using assms StructuredProfile_vwf
  by (cases reading) (auto simp: profile_reading_def body_vwf_def BodyProfile_ProfileFaults_def BodyProfile_ProfileUnstructured_def
      BodyProfile_ProfileStructured_def regular_reading_def bind_res_Inr)

section \<open>Sessions\<close>

lemma screenEnvelop_parts:
  "screenEnvelop ticks gs s = Inr (gs', s') \<Longrightarrow> sound_session s \<Longrightarrow> sound_session s'"
  by (auto simp: screenEnvelop_def Let_def bind_res_Inr sound_session_def session_vwf_def)

lemma screenPod_sound: "pod_vwf (GS_pod gs) \<Longrightarrow> sound_session s \<Longrightarrow> sound_session (screenPod gs s)"
  by (simp add: screenPod_def sound_session_def session_vwf_def copyPodProfile_def)

text \<open>A request and a response without empty keys, from an address that can be read.\<close>

definition regular_message :: "'k gate_env \<Rightarrow> parsers \<Rightarrow> http_request \<Rightarrow> bool" where
  "regular_message e pa req \<longleftrightarrow>
     (\<forall>cip. cip = [] \<or> valid_ip cip \<longrightarrow> regular_request (w_ParseIP (GE_world e)) (w_ParseMediaType (GE_world e)) (Hq_msg req) cip)
   \<and> (\<forall>src. Hq_Body req = Some src \<longrightarrow> regular_reading (request_reading (GE_world e) pa req src))"

definition regular_reply :: "'k gate_env \<Rightarrow> parsers \<Rightarrow> http_response \<Rightarrow> bool" where
  "regular_reply e pa resp \<longleftrightarrow> regular_header (w_ParseMediaType (GE_world e)) (Rs_Header (Hs_msg resp))
   \<and> (\<forall>src. Hs_Body resp = Some src \<longrightarrow> regular_reading (response_reading (GE_world e) pa resp src))"

lemma screenRequest_sound:
  assumes "screenRequest w rr req gs s = Inr (gs', s')" and "fair_ranger rr" and "sound_session s"
    and "\<And>cip. cip = [] \<or> valid_ip cip \<Longrightarrow> regular_request (w_ParseIP w) (w_ParseMediaType w) (Hq_msg req) cip"
  shows "sound_session s'"
proof -
  obtain g1 s1 cip where 1: "remote_ip gs req s = Inr (g1, s1, cip)" "SS_profile s1 = SS_profile s"
      "SS_profile s' = SS_profile s1\<lparr>SDP_Req := ReqProfile_Profile (w_hash w) (w_ParseIP w) (w_ParseMediaType w) (at_site rr ''profile'')
        (SDP_Req (SS_profile s1)) (Hq_msg req) (w_ParseIP w cip)\<rparr>"
    using assms(1) by (auto simp: screenRequest_def remote_ip_def Let_def bind_res_Inr split: sum.splits)
  have "w_ParseIP w cip = [] \<or> valid_ip (w_ParseIP w cip)" using assms(4) [of "[]"] by (simp add: regular_request_def)
  from req_vwf_Profile [OF fair_at_site [OF assms(2)] assms(4) [OF this]] show ?thesis
    using 1(2,3) assms(3) by (simp add: sound_session_def session_vwf_def)
qed

lemma screenRequestBody_sound:
  assumes "screenRequestBody w pa rr req gs s = Inr (Some (gs', s'))" and "fair_ranger rr" and "sound_session s"
    and "\<And>src. Hq_Body req = Some src \<Longrightarrow> regular_reading (request_reading w pa req src)"
  shows "sound_session s'"
proof (cases "Hq_Body req")
  case None
  then show ?thesis using assms(1,3) by (simp add: screenRequestBody_def)
next
  case (Some src)
  have vwf: "body_vwf (SDP_ReqBody (SS_profile s))" using assms(3) by (simp add: sound_session_def session_vwf_def)
  have same: "sound_session (t\<lparr>SS_profile := SS_profile s\<lparr>SDP_ReqBody := bp\<rparr>\<rparr>)" if "body_vwf bp" for t bp
    using assms(3) that by (simp add: sound_session_def session_vwf_def)
  have faults: "body_vwf (BodyProfile_ProfileFaults bp f) = body_vwf bp" for bp f by (simp add: body_vwf_def BodyProfile_ProfileFaults_def)
  consider "s' = s" | bp d where "s' = s\<lparr>SS_profile := SS_profile s\<lparr>SDP_ReqBody := bp\<rparr>, SS_decision := d\<rparr>"
      "profile_reading (w_hash w) (rr ''ReqBody'') (SDP_ReqBody (SS_profile s)) (request_reading w pa req src) = Inr (Some bp)"
    | f where "s' = s\<lparr>SS_profile := SS_profile s\<lparr>SDP_ReqBody := BodyProfile_ProfileFaults (SDP_ReqBody (SS_profile s)) f\<rparr>\<rparr>"
    using assms(1) Some by (auto simp: screenRequestBody_def Let_def bind_res_Inr request_reading_def [symmetric] split: if_splits option.splits)
  then show ?thesis
  proof cases
    case (2 bp d)
    from profile_reading_vwf [OF 2(2) fair_rangerD [OF assms(2)] assms(4) [OF Some] vwf] show ?thesis using same 2(1) by (simp add: sound_session_def)
  qed (use assms(3) same faults vwf in simp_all)
qed

lemma screenResponseBody_sound:
  assumes "screenResponseBody w pa rr resp gs s = Inr (Some (gs', s'))" and "fair_ranger rr" and "sound_session s"
    and "\<And>src. Hs_Body resp = Some src \<Longrightarrow> regular_reading (response_reading w pa resp src)"
  shows "sound_session s'"
proof (cases "Hs_Body resp")
  case None
  then show ?thesis using assms(1,3) by (simp add: screenResponseBody_def)
next
  case (Some src)
  have vwf: "body_vwf (SDP_RespBody (SS_profile s))" using assms(3) by (simp add: sound_session_def session_vwf_def)
  have same: "sound_session (t\<lparr>SS_profile := SS_profile s\<lparr>SDP_RespBody := bp\<rparr>\<rparr>)" if "body_vwf bp" for t bp
    using assms(3) that by (simp add: sound_session_def session_vwf_def)
  have faults: "body_vwf (BodyProfile_ProfileFaults bp f) = body_vwf bp" for bp f by (simp add: body_vwf_def BodyProfile_ProfileFaults_def)
  consider "s' = s" | bp d where "s' = s\<lparr>SS_profile := SS_profile s\<lparr>SDP_RespBody := bp\<rparr>, SS_decision := d\<rparr>"
      "profile_reading (w_hash w) (rr ''RespBody'') (SDP_RespBody (SS_profile s)) (response_reading w pa resp src) = Inr (Some bp)"
    | f where "s' = s\<lparr>SS_profile := SS_profile s\<lparr>SDP_RespBody := BodyProfile_ProfileFaults (SDP_RespBody (SS_profile s)) f\<rparr>\<rparr>"
    using assms(1) Some by (auto simp: screenResponseBody_def Let_def bind_res_Inr response_reading_def [symmetric] split: if_splits option.splits)
  then show ?thesis
  proof cases
    case (2 bp d)
    from profile_reading_vwf [OF 2(2) fair_rangerD [OF assms(2)] assms(4) [OF Some] vwf] show ?thesis using same 2(1) by (simp add: sound_session_def)
  qed (use assms(3) same faults vwf in simp_all)
qed

lemma same_pod:
  "decide_part part tag key gs d = Inr (gs', d') \<Longrightarrow> GS_pod gs' = GS_pod gs"
  "screenEnvelop ticks gs s = Inr (gs', s') \<Longrightarrow> GS_pod gs' = GS_pod gs"
  "screenResponseBody w pa rr resp gs s = Inr (Some (gs', s')) \<Longrightarrow> GS_pod gs' = GS_pod gs"
proof -
  show d: "decide_part part tag key gs d = Inr (gs', d') \<Longrightarrow> GS_pod gs' = GS_pod gs" for part tag key d d'
    by (auto simp: decide_part_def addStat_def Let_def bind_res_Inr split: option.splits if_splits)
  show "screenEnvelop ticks gs s = Inr (gs', s') \<Longrightarrow> GS_pod gs' = GS_pod gs"
    by (auto simp: screenEnvelop_def decideEnvelop_def Let_def bind_res_Inr dest: d)
  show "screenResponseBody w pa rr resp gs s = Inr (Some (gs', s')) \<Longrightarrow> GS_pod gs' = GS_pod gs"
    by (auto simp: screenResponseBody_def decideRespBody_def Let_def bind_res_Inr split: option.splits if_splits dest: d)
qed

text \<open>
  C16. The sessions a plug hands to the loop of its gate are well typed: the screening of a regular
  request builds a well-formed profile, and the screening of a regular response keeps it so.
\<close>

theorem sessions_typed:
  assumes "gate_ok gs" and "fair_ranger rr"
  shows "(regular_message e pa req \<longrightarrow> ApproveRequest e pa rr now req gs = Inr (Some (gs', s, approved)) \<longrightarrow> sound_session s)
    \<and> (regular_reply e pa resp \<longrightarrow> sound_session t \<longrightarrow> ApproveResponse e pa rr resp gs (Some t) = Inr (Some (gs', Some t', approved)) \<longrightarrow> sound_session t')"
proof (intro conjI impI)
  assume r: "regular_message e pa req" and a: "ApproveRequest e pa rr now req gs = Inr (Some (gs', s, approved))"
  obtain g1 s1 g2 s2 g3 s3 g4 s4 where p: "newSession (GS_ticks gs) gs = Inr (g1, s1)" "screenEnvelop (GS_ticks gs) g1 s1 = Inr (g2, s2)"
      "screenRequest (GE_world e) (at_site rr ''request'') req g2 (screenPod g2 s2) = Inr (g3, s3)"
      "screenRequestBody (GE_world e) pa (at_site rr ''body'') req g3 s3 = Inr (Some (g4, s4))"
      "block_request e (at_site rr ''block'') now g4 s4 = Inr (gs', s, approved)"
    using a by (auto simp: ApproveRequest_def Let_def bind_res_Inr split: option.splits)
  have n: "counts_only gs g1" "SS_profile s1 = new_SessionDataProfile" using newSession_ok [OF assms(1), of "GS_ticks gs"] p(1) by auto
  then have "sound_session s1" by (simp add: sound_session_def session_vwf_new)
  then have "sound_session s2" by (rule screenEnvelop_parts [OF p(2)])
  moreover have "pod_vwf (GS_pod g2)" using same_pod(2) [OF p(2)] counts_only_ok [OF n(1)] by (simp add: gate_ok_def)
  ultimately have "sound_session (screenPod g2 s2)" by (simp add: screenPod_sound)
  then have "sound_session s3"
    using screenRequest_sound [OF p(3) fair_at_site [OF assms(2)]] r unfolding regular_message_def by blast
  then have "sound_session s4"
    using screenRequestBody_sound [OF p(4) fair_at_site [OF assms(2)]] r unfolding regular_message_def by blast
  then show "sound_session s" using block_request_profile [OF p(5)] by (simp add: sound_session_def)
next
  assume r: "regular_reply e pa resp" and t: "sound_session t" and a: "ApproveResponse e pa rr resp gs (Some t) = Inr (Some (gs', Some t', approved))"
  obtain g1 s1 g2 s2 g3 s3 where p: "screenResponse (GE_world e) (at_site rr ''response'') resp (GS_ticks gs) gs (t\<lparr>SS_gotResponse := True\<rparr>) = Inr (g1, s1)"
      "screenResponseBody (GE_world e) pa (at_site rr ''body'') resp g1 s1 = Inr (Some (g2, s2))" "screenEnvelop (GS_ticks gs) g2 s2 = Inr (g3, s3)"
      "SS_profile t' = SS_profile (screenPod g3 s3)"
    using a by (auto simp: ApproveResponse_def Let_def bind_res_Inr session_cancel_def split: option.splits if_splits)
  have "screened gs (t\<lparr>SS_gotResponse := True\<rparr>) (g1, s1)"
    using ok_Inr [OF screenResponse_ok [OF assms(1)] p(1)] .
  then have g1: "gate_ok g1" by (simp add: screened_def counts_only_def)
  have "resp_vwf (RespProfile_Profile h (w_ParseMediaType (GE_world e)) (at_site rr' site) v (Hs_msg resp))" if "fair_ranger rr'" for h rr' site v
    using resp_vwf_Profile [OF fair_at_site [OF that]] r by (simp add: regular_reply_def)
  then have "sound_session s1"
    using p(1) t assms(2) by (auto simp: screenResponse_def Let_def bind_res_Inr sound_session_def session_vwf_def)
  then have s2: "sound_session s2"
    using screenResponseBody_sound [OF p(2) fair_at_site [OF assms(2)]] r unfolding regular_reply_def by blast
  have "sound_session s3" by (rule screenEnvelop_parts [OF p(3) s2])
  moreover have "pod_vwf (GS_pod g3)" using same_pod(2) [OF p(3)] same_pod(3) [OF p(2)] g1 by (simp add: gate_ok_def)
  ultimately show "sound_session t'" using p(4) by (simp add: sound_session_def screenPod_def session_vwf_def copyPodProfile_def)
qed

theorem sessions_typed_witness:
  "\<exists>gs' s approved. ApproveRequest quiet_env no_parsers (\<lambda>_ ks. ks) 0 (example_request 0 None) (gate_example 60 5) = Inr (Some (gs', s, approved))
     \<and> sound_session s"
proof -
  let ?req = "example_request 0 None" and ?gs = "gate_example 60 5"
  have none: "Hq_Body ?req = None" by (simp add: example_request_def)
  have "regular_request (w_ParseIP (GE_world quiet_env)) (w_ParseMediaType (GE_world quiet_env)) (Hq_msg ?req) cip" if "cip = [] \<or> valid_ip cip" for cip
    using that by (simp add: regular_request_def regular_header_def quiet_env_world example_request_def url_Query_def query_pair_def)
  then have reg: "regular_message quiet_env no_parsers ?req" using none by (simp add: regular_message_def)
  have g: "gate_ok ?gs" using gate_ok_start [OF gate_example_start, of 60 5] by simp
  have quiet: "\<not> body_panics quiet_env no_parsers ?req ?gs" "\<not> body_waits quiet_env no_parsers ?req ?gs"
    using none by (simp_all add: body_panics_def body_waits_def)
  obtain gs' s approved where a: "ApproveRequest quiet_env no_parsers (\<lambda>_ ks. ks) 0 ?req ?gs = Inr (Some (gs', s, approved))"
    using ApproveRequest_ok [OF g plain_fair quiet_env_ok quiet(1), of 0] quiet(2) by (auto simp: ok_iff)
  show ?thesis using sessions_typed [OF g plain_fair, of quiet_env no_parsers ?req 0 gs' s approved] reg a by blast
qed

end
