(* ===== verification/Certs.thy ===== *)
theory Certs
  imports Prelude
begin

text \<open>
  \<open>pkg/certificates\<close>: making and reading the certificates the parts of the guard talk with. The
  libraries \<open>crypto/rsa\<close>, \<open>crypto/x509\<close> and \<open>encoding/pem\<close> are a parameter, over the type \<open>'b\<close> of byte
  strings, \<open>'k\<close> of private and \<open>'p\<close> of public keys; what they are documented to do is
  \<open>crypto_works\<close>. Times and durations are in nanoseconds.
\<close>

section \<open>Certificates and the libraries\<close>

datatype key_usage = NoKeyUsage | KeyUsageCertSign | KeyUsageDigitalSignature

datatype ext_key_usage = ExtKeyUsageServerAuth | ExtKeyUsageClientAuth

text \<open>What is used of \<open>x509.Certificate\<close>; a template has no public key and no signature.\<close>

record ('b, 'p) certificate =
  CE_SerialNumber :: int
  CE_NotBefore :: int
  CE_NotAfter :: int
  CE_BasicConstraintsValid :: bool
  CE_DNSNames :: "string list"
  CE_IsCA :: bool
  CE_KeyUsage :: key_usage
  CE_ExtKeyUsage :: "ext_key_usage list"
  CE_Organization :: "string list"
  CE_CommonName :: string
  CE_PublicKey :: "'p option"
  CE_Signature :: "'b option"

type_synonym 'b pem_block = "string \<times> 'b"

record ('b, 'k, 'p) crypto =
  pem_encode :: "'b pem_block \<Rightarrow> 'b"
  pem_decode :: "'b \<Rightarrow> 'b pem_block option"
  x509_Create :: "('b, 'p) certificate \<Rightarrow> ('b, 'p) certificate \<Rightarrow> 'p \<Rightarrow> 'k \<Rightarrow> 'b option"
  x509_Parse :: "'b \<Rightarrow> ('b, 'p) certificate option"
  x509_Verifies :: "'p \<Rightarrow> ('b, 'p) certificate \<Rightarrow> bool"
  PublicKey :: "'k \<Rightarrow> 'p"
  pkcs1_Marshal :: "'k \<Rightarrow> 'b"
  pkcs1_Parse :: "'b \<Rightarrow> 'k option"

text \<open>What the source of randomness gives to one call: a key and a serial number, or failures.\<close>

record 'k entropy =
  EN_key :: "'k option"
  EN_serial :: "int option"

datatype cert_error =
  KeyError | SerialError | SignError | NoCertBlock | BadCertType string | BadCert | NoKeyBlock | BadKeyType string | BadKey
| Expiring | MissingCert | MissingKey | MissingCaCert

definition Organization :: string where
  "Organization = ''knative.dev''"

definition LegacyFakeDnsName :: string where
  "LegacyFakeDnsName = ''data-plane.'' @ Organization"

definition CaCertName :: string where
  "CaCertName = ''ca.crt''"

definition CertName :: string where
  "CertName = ''tls.crt''"

definition PrivateKeyName :: string where
  "PrivateKeyName = ''tls.key''"

definition serialNumberLimit :: int where
  "serialNumberLimit = push_bit 128 1"

section \<open>Templates\<close>

text \<open>Both readings of the clock are taken as one.\<close>

definition createCertTemplate :: "int \<Rightarrow> 'k entropy \<Rightarrow> int \<Rightarrow> string list \<Rightarrow> cert_error + ('b, 'p) certificate" where
  "createCertTemplate now en expirationInterval sans =
     (case EN_serial en of
        None \<Rightarrow> Inl SerialError
      | Some serialNumber \<Rightarrow> Inr
          \<lparr>CE_SerialNumber = serialNumber, CE_NotBefore = now, CE_NotAfter = now + expirationInterval,
           CE_BasicConstraintsValid = True, CE_DNSNames = sans, CE_IsCA = False, CE_KeyUsage = NoKeyUsage, CE_ExtKeyUsage = [],
           CE_Organization = [], CE_CommonName = '''', CE_PublicKey = None, CE_Signature = None\<rparr>)"

definition createCACertTemplate :: "int \<Rightarrow> 'k entropy \<Rightarrow> int \<Rightarrow> cert_error + ('b, 'p) certificate" where
  "createCACertTemplate now en expirationInterval =
     (case createCertTemplate now en expirationInterval [] of
        Inl err \<Rightarrow> Inl err
      | Inr rootCert \<Rightarrow> Inr (rootCert\<lparr>CE_IsCA := True, CE_KeyUsage := KeyUsageCertSign, CE_Organization := [Organization], CE_CommonName := ''''\<rparr>))"

definition createTransportCertTemplate :: "int \<Rightarrow> 'k entropy \<Rightarrow> int \<Rightarrow> string list \<Rightarrow> cert_error + ('b, 'p) certificate" where
  "createTransportCertTemplate now en expirationInterval sans =
     (case createCertTemplate now en expirationInterval sans of
        Inl err \<Rightarrow> Inl err
      | Inr cert \<Rightarrow> Inr (cert\<lparr>CE_KeyUsage := KeyUsageDigitalSignature, CE_ExtKeyUsage := [ExtKeyUsageServerAuth, ExtKeyUsageClientAuth],
          CE_Organization := [Organization], CE_CommonName := ''control-protocol-certificate''\<rparr>))"

section \<open>Key pairs\<close>

record 'b KeyPair =
  KP_privateKeyBlock :: "'b pem_block"
  KP_privateKeyPemBytes :: 'b
  KP_certBlock :: "'b pem_block"
  KP_certPemBytes :: 'b

definition NewKeyPair :: "('b, 'k, 'p) crypto \<Rightarrow> 'b pem_block \<Rightarrow> 'b pem_block \<Rightarrow> 'b KeyPair" where
  "NewKeyPair x privateKey cert =
     \<lparr>KP_privateKeyBlock = privateKey, KP_privateKeyPemBytes = pem_encode x privateKey,
      KP_certBlock = cert, KP_certPemBytes = pem_encode x cert\<rparr>"

definition createCert :: "('b, 'k, 'p) crypto \<Rightarrow> ('b, 'p) certificate \<Rightarrow> ('b, 'p) certificate \<Rightarrow> 'p \<Rightarrow> 'k \<Rightarrow> cert_error + 'b pem_block" where
  "createCert x template parent pub parentPriv =
     (case x509_Create x template parent pub parentPriv of
        None \<Rightarrow> Inl SignError
      | Some certDER \<Rightarrow>
          (case x509_Parse x certDER of
             None \<Rightarrow> Inl SignError
           | Some cert \<Rightarrow> Inr (''CERTIFICATE'', certDER)))"

definition CreateCACerts :: "('b, 'k, 'p) crypto \<Rightarrow> int \<Rightarrow> 'k entropy \<Rightarrow> int \<Rightarrow> cert_error + 'b KeyPair" where
  "CreateCACerts x now en expirationInterval =
     (case EN_key en of
        None \<Rightarrow> Inl KeyError
      | Some caKeyPair \<Rightarrow>
          (case createCACertTemplate now en expirationInterval of
             Inl err \<Rightarrow> Inl err
           | Inr rootCertTmpl \<Rightarrow>
               (case createCert x rootCertTmpl rootCertTmpl (PublicKey x caKeyPair) caKeyPair of
                  Inl err \<Rightarrow> Inl err
                | Inr caCertPem \<Rightarrow> Inr (NewKeyPair x (''RSA PRIVATE KEY'', pkcs1_Marshal x caKeyPair) caCertPem))))"

definition CreateCert ::
    "('b, 'k, 'p) crypto \<Rightarrow> int \<Rightarrow> 'k entropy \<Rightarrow> 'k \<Rightarrow> ('b, 'p) certificate \<Rightarrow> int \<Rightarrow> string list \<Rightarrow> cert_error + 'b KeyPair" where
  "CreateCert x now en caKey caCertificate expirationInterval sans =
     (case EN_key en of
        None \<Rightarrow> Inl KeyError
      | Some keyPair \<Rightarrow>
          (case createTransportCertTemplate now en expirationInterval sans of
             Inl err \<Rightarrow> Inl err
           | Inr certTemplate \<Rightarrow>
               (case createCert x certTemplate caCertificate (PublicKey x keyPair) caKey of
                  Inl err \<Rightarrow> Inl err
                | Inr certPEM \<Rightarrow> Inr (NewKeyPair x (''RSA PRIVATE KEY'', pkcs1_Marshal x keyPair) certPEM))))"

text \<open>A private key that cannot be parsed is returned together with the certificate and an error, which every caller looks at.\<close>

definition ParseCert :: "('b, 'k, 'p) crypto \<Rightarrow> 'b \<Rightarrow> 'b \<Rightarrow> cert_error + ('b, 'p) certificate \<times> 'k" where
  "ParseCert x certPemBytes privateKeyPemBytes =
     (case pem_decode x certPemBytes of
        None \<Rightarrow> Inl NoCertBlock
      | Some (cert_type, certDER) \<Rightarrow>
          if cert_type \<noteq> ''CERTIFICATE'' then Inl (BadCertType cert_type)
          else (case x509_Parse x certDER of
              None \<Rightarrow> Inl BadCert
            | Some cert \<Rightarrow>
                (case pem_decode x privateKeyPemBytes of
                   None \<Rightarrow> Inl NoKeyBlock
                 | Some (pk_type, pkDER) \<Rightarrow>
                     if pk_type \<noteq> ''RSA PRIVATE KEY'' then Inl (BadKeyType pk_type)
                     else (case pkcs1_Parse x pkDER of None \<Rightarrow> Inl BadKey | Some pk \<Rightarrow> Inr (cert, pk)))))"

definition KeyPair_Parse :: "('b, 'k, 'p) crypto \<Rightarrow> 'b KeyPair \<Rightarrow> cert_error + ('b, 'p) certificate \<times> 'k" where
  "KeyPair_Parse x kh = ParseCert x (KP_certPemBytes kh) (KP_privateKeyPemBytes kh)"

definition CheckExpiry :: "int \<Rightarrow> ('b, 'p) certificate \<Rightarrow> int \<Rightarrow> cert_error option" where
  "CheckExpiry now cert rotationThreshold =
     (if now + rotationThreshold > CE_NotAfter cert then Some Expiring else None)"

section \<open>What the libraries promise\<close>

text \<open>Times of certificates are kept in whole seconds, and years in four digits.\<close>

definition whole_second :: "int \<Rightarrow> int \<Rightarrow> bool" where
  "whole_second t t' \<longleftrightarrow> t - 1000000000 < t' \<and> t' \<le> t"

definition representable :: "('b, 'p) certificate \<Rightarrow> bool" where
  "representable t \<longleftrightarrow> 0 \<le> CE_SerialNumber t \<and> CE_SerialNumber t < serialNumberLimit
     \<and> 0 \<le> CE_NotBefore t \<and> CE_NotBefore t \<le> CE_NotAfter t \<and> CE_NotAfter t < 253402300800 * 1000000000"

definition issued :: "('b, 'k, 'p) crypto \<Rightarrow> ('b, 'p) certificate \<Rightarrow> 'p \<Rightarrow> 'k \<Rightarrow> ('b, 'p) certificate \<Rightarrow> bool" where
  "issued x t pub parentPriv c \<longleftrightarrow>
     CE_SerialNumber c = CE_SerialNumber t \<and> CE_DNSNames c = CE_DNSNames t \<and> CE_IsCA c = CE_IsCA t \<and> CE_KeyUsage c = CE_KeyUsage t
   \<and> CE_ExtKeyUsage c = CE_ExtKeyUsage t \<and> CE_Organization c = CE_Organization t \<and> CE_CommonName c = CE_CommonName t
   \<and> whole_second (CE_NotBefore t) (CE_NotBefore c) \<and> whole_second (CE_NotAfter t) (CE_NotAfter c)
   \<and> CE_PublicKey c = Some pub \<and> x509_Verifies x (PublicKey x parentPriv) c"

text \<open>
  Blocks and keys are read back as written. A certificate can be created by a parent whose key is the
  one that signs, or by itself, and is read back with what its template says; a parent with
  another key is refused.
\<close>

definition crypto_works :: "('b, 'k, 'p) crypto \<Rightarrow> bool" where
  "crypto_works x \<longleftrightarrow>
     (\<forall>b. pem_decode x (pem_encode x b) = Some b) \<and> (\<forall>k. pkcs1_Parse x (pkcs1_Marshal x k) = Some k)
   \<and> (\<forall>t p pub k. representable t \<longrightarrow>
        (if p = t \<or> CE_PublicKey p = Some (PublicKey x k)
         then \<exists>der c. x509_Create x t p pub k = Some der \<and> x509_Parse x der = Some c \<and> issued x t pub k c
         else CE_PublicKey p \<noteq> None \<longrightarrow> x509_Create x t p pub k = None))"

definition entropy_ok :: "'k entropy \<Rightarrow> bool" where
  "entropy_ok en \<longleftrightarrow> EN_key en \<noteq> None \<and> (\<exists>s. EN_serial en = Some s \<and> 0 \<le> s \<and> s < serialNumberLimit)"

text \<open>A clock between 1970 and 2116, and a duration of at most ten years.\<close>

definition clock_ok :: "int \<Rightarrow> int \<Rightarrow> bool" where
  "clock_ok now d \<longleftrightarrow> 0 \<le> now \<and> now < 2 ^ 62 \<and> 0 \<le> d \<and> d \<le> 315360000000000000"

section \<open>Properties\<close>

lemma ParseCert_pems:
  assumes "crypto_works x"
  shows "ParseCert x (pem_encode x (''CERTIFICATE'', der)) (pem_encode x (''RSA PRIVATE KEY'', pkcs1_Marshal x k))
    = (case x509_Parse x der of None \<Rightarrow> Inl BadCert | Some c \<Rightarrow> Inr (c, k))"
  using assms by (simp add: ParseCert_def crypto_works_def split: option.splits)

lemma crypto_works_Create:
  assumes "crypto_works x" and "representable t"
  shows "if p = t \<or> CE_PublicKey p = Some (PublicKey x k)
    then \<exists>der c. x509_Create x t p pub k = Some der \<and> x509_Parse x der = Some c \<and> issued x t pub k c
    else CE_PublicKey p \<noteq> None \<longrightarrow> x509_Create x t p pub k = None"
  using assms(1)[unfolded crypto_works_def] assms(2) by blast

lemma createCert_ok:
  assumes "crypto_works x" and "representable t" and "p = t \<or> CE_PublicKey p = Some (PublicKey x k)"
  shows "\<exists>der c. createCert x t p pub k = Inr (''CERTIFICATE'', der) \<and> x509_Parse x der = Some c \<and> issued x t pub k c"
proof -
  have "\<exists>der c. x509_Create x t p pub k = Some der \<and> x509_Parse x der = Some c \<and> issued x t pub k c"
    using crypto_works_Create [OF assms(1,2), of p k pub] assms(3) by simp
  then obtain der c where "x509_Create x t p pub k = Some der" "x509_Parse x der = Some c" "issued x t pub k c" by blast
  then show ?thesis by (simp add: createCert_def)
qed

lemma createCert_refused:
  assumes "crypto_works x" and "representable t" and "p \<noteq> t" and "CE_PublicKey p = Some pub'" and "pub' \<noteq> PublicKey x k"
  shows "createCert x t p pub k = Inl SignError"
proof -
  have "x509_Create x t p pub k = None"
    using crypto_works_Create [OF assms(1,2), of p k pub] assms(3-5) by simp
  then show ?thesis by (simp add: createCert_def)
qed

lemma representable_template:
  assumes "createCertTemplate now en d sans = Inr t" and "entropy_ok en" and "clock_ok now d"
  shows "representable t"
  using assms by (auto simp: createCertTemplate_def entropy_ok_def clock_ok_def representable_def)

lemma CreateCACerts_ok:
  fixes x :: "('b, 'k, 'p) crypto"
  assumes "crypto_works x" and "entropy_ok en" and "clock_ok now d" and "EN_key en = Some k"
  shows "\<exists>kp c. CreateCACerts x now en d = Inr kp \<and> KeyPair_Parse x kp = Inr (c, k)
    \<and> CE_PublicKey c = Some (PublicKey x k) \<and> x509_Verifies x (PublicKey x k) c \<and> CE_IsCA c \<and> CE_KeyUsage c = KeyUsageCertSign
    \<and> whole_second now (CE_NotBefore c) \<and> whole_second (now + d) (CE_NotAfter c)"
proof -
  obtain s where s: "EN_serial en = Some s" using assms(2) by (auto simp: entropy_ok_def)
  then obtain t :: "('b, 'p) certificate" where t: "createCACertTemplate now en d = Inr t"
    by (simp add: createCACertTemplate_def createCertTemplate_def)
  then obtain t0 where t0: "createCertTemplate now en d [] = Inr t0"
    and t_eq: "t = t0\<lparr>CE_IsCA := True, CE_KeyUsage := KeyUsageCertSign, CE_Organization := [Organization], CE_CommonName := ''''\<rparr>"
    by (auto simp: createCACertTemplate_def split: sum.splits)
  have "representable t" using representable_template [OF t0 assms(2,3)] by (simp add: t_eq representable_def)
  from createCert_ok [OF assms(1) this, of t k "PublicKey x k"] obtain der c
    where c: "createCert x t t (PublicKey x k) k = Inr (''CERTIFICATE'', der)" "x509_Parse x der = Some c" "issued x t (PublicKey x k) k c"
    by auto
  have "CreateCACerts x now en d = Inr (NewKeyPair x (''RSA PRIVATE KEY'', pkcs1_Marshal x k) (''CERTIFICATE'', der))"
    by (simp add: CreateCACerts_def assms(4) t c(1))
  moreover have "KeyPair_Parse x (NewKeyPair x (''RSA PRIVATE KEY'', pkcs1_Marshal x k) (''CERTIFICATE'', der)) = Inr (c, k)"
    using ParseCert_pems [OF assms(1)] c(2) by (simp add: KeyPair_Parse_def NewKeyPair_def)
  moreover have "CE_NotBefore t = now" "CE_NotAfter t = now + d"
    using t0 s by (auto simp: t_eq createCertTemplate_def)
  ultimately show ?thesis using c(3) by (auto simp: issued_def t_eq)
qed

lemma CreateCert_ok:
  fixes x :: "('b, 'k, 'p) crypto"
  assumes "crypto_works x" and "entropy_ok en" and "clock_ok now d" and "EN_key en = Some k"
    and "CE_PublicKey ca = Some (PublicKey x caKey)"
  shows "\<exists>kp c. CreateCert x now en caKey ca d sans = Inr kp \<and> KeyPair_Parse x kp = Inr (c, k)
    \<and> CE_PublicKey c = Some (PublicKey x k) \<and> x509_Verifies x (PublicKey x caKey) c \<and> \<not> CE_IsCA c
    \<and> set (CE_ExtKeyUsage c) = {ExtKeyUsageServerAuth, ExtKeyUsageClientAuth} \<and> CE_DNSNames c = sans
    \<and> whole_second now (CE_NotBefore c) \<and> whole_second (now + d) (CE_NotAfter c)"
proof -
  obtain s where s: "EN_serial en = Some s" using assms(2) by (auto simp: entropy_ok_def)
  then obtain t :: "('b, 'p) certificate" where t: "createTransportCertTemplate now en d sans = Inr t"
    by (simp add: createTransportCertTemplate_def createCertTemplate_def)
  then obtain t0 where t0: "createCertTemplate now en d sans = Inr t0"
    and t_eq: "t = t0\<lparr>CE_KeyUsage := KeyUsageDigitalSignature, CE_ExtKeyUsage := [ExtKeyUsageServerAuth, ExtKeyUsageClientAuth],
          CE_Organization := [Organization], CE_CommonName := ''control-protocol-certificate''\<rparr>"
    by (auto simp: createTransportCertTemplate_def split: sum.splits)
  have "representable t" using representable_template [OF t0 assms(2,3)] by (simp add: t_eq representable_def)
  from createCert_ok [OF assms(1) this, of ca caKey "PublicKey x k"] assms(5) obtain der c
    where c: "createCert x t ca (PublicKey x k) caKey = Inr (''CERTIFICATE'', der)" "x509_Parse x der = Some c" "issued x t (PublicKey x k) caKey c"
    by auto
  have "CreateCert x now en caKey ca d sans = Inr (NewKeyPair x (''RSA PRIVATE KEY'', pkcs1_Marshal x k) (''CERTIFICATE'', der))"
    by (simp add: CreateCert_def assms(4) t c(1))
  moreover have "KeyPair_Parse x (NewKeyPair x (''RSA PRIVATE KEY'', pkcs1_Marshal x k) (''CERTIFICATE'', der)) = Inr (c, k)"
    using ParseCert_pems [OF assms(1)] c(2) by (simp add: KeyPair_Parse_def NewKeyPair_def)
  moreover have "CE_NotBefore t = now" "CE_NotAfter t = now + d" "CE_DNSNames t = sans" "\<not> CE_IsCA t"
    using t0 s by (auto simp: t_eq createCertTemplate_def)
  ultimately show ?thesis using c(3) by (auto simp: issued_def t_eq)
qed

lemma CreateCert_refused:
  fixes x :: "('b, 'k, 'p) crypto"
  assumes "crypto_works x" and "entropy_ok en" and "clock_ok now d" and "EN_key en = Some k"
    and "CE_PublicKey ca = Some pub" and "pub \<noteq> PublicKey x caKey"
  shows "CreateCert x now en caKey ca d sans = Inl SignError"
proof -
  obtain s where s: "EN_serial en = Some s" using assms(2) by (auto simp: entropy_ok_def)
  then obtain t :: "('b, 'p) certificate" where t: "createTransportCertTemplate now en d sans = Inr t"
    by (simp add: createTransportCertTemplate_def createCertTemplate_def)
  then obtain t0 where t0: "createCertTemplate now en d sans = Inr t0"
    and t_eq: "t = t0\<lparr>CE_KeyUsage := KeyUsageDigitalSignature, CE_ExtKeyUsage := [ExtKeyUsageServerAuth, ExtKeyUsageClientAuth],
          CE_Organization := [Organization], CE_CommonName := ''control-protocol-certificate''\<rparr>"
    by (auto simp: createTransportCertTemplate_def split: sum.splits)
  have "representable t" using representable_template [OF t0 assms(2,3)] by (simp add: t_eq representable_def)
  moreover have "CE_PublicKey t = None" using t0 s by (auto simp: t_eq createCertTemplate_def)
  then have "ca \<noteq> t" using assms(5) by auto
  ultimately have "createCert x t ca (PublicKey x k) caKey = Inl SignError"
    by (rule createCert_refused [OF assms(1) _ _ assms(5,6)])
  then show ?thesis by (simp add: CreateCert_def assms(4) t)
qed

text \<open>
  A key pair made by \<open>CreateCert\<close> is read back by \<open>Parse\<close>: the certificate verifies against the
  authority, carries the names asked for and the public key of the private key read, can be
  used for servers and clients but signs nothing, and is valid from now on for the time asked,
  to the second; an authority with another key is refused.
\<close>

theorem CreateCert_Parse:
  assumes "crypto_works x" and "entropy_ok en" and "clock_ok now d" and "CE_PublicKey ca = Some pub"
  shows "if pub \<noteq> PublicKey x caKey then CreateCert x now en caKey ca d sans = Inl SignError
    else \<exists>kp c k. CreateCert x now en caKey ca d sans = Inr kp \<and> KeyPair_Parse x kp = Inr (c, k)
      \<and> EN_key en = Some k \<and> CE_PublicKey c = Some (PublicKey x k) \<and> x509_Verifies x (PublicKey x caKey) c
      \<and> \<not> CE_IsCA c \<and> set (CE_ExtKeyUsage c) = {ExtKeyUsageServerAuth, ExtKeyUsageClientAuth} \<and> CE_DNSNames c = sans
      \<and> whole_second now (CE_NotBefore c) \<and> whole_second (now + d) (CE_NotAfter c)
      \<and> (\<forall>now' threshold. CheckExpiry now' c threshold = None \<longleftrightarrow> now' + threshold \<le> CE_NotAfter c)"
proof -
  obtain k where k: "EN_key en = Some k" using assms(2) by (auto simp: entropy_ok_def)
  show ?thesis
  proof (cases "pub = PublicKey x caKey")
    case True
    from CreateCert_ok [OF assms(1-3) k, of ca caKey sans] assms(4) k True show ?thesis
      by (fastforce simp: CheckExpiry_def)
  next
    case False
    then show ?thesis using CreateCert_refused [OF assms(1-3) k assms(4)] by simp
  qed
qed

section \<open>Concrete runs\<close>

text \<open>Libraries in memory: a key is a number and signs with itself.\<close>

datatype toy_bytes = ToyPem string toy_bytes | ToyCert "(unit, nat) certificate" nat | ToyKey nat

definition retyped :: "('a, nat) certificate \<Rightarrow> nat option \<Rightarrow> 'b option \<Rightarrow> ('b, nat) certificate" where
  "retyped t pub signature =
     \<lparr>CE_SerialNumber = CE_SerialNumber t, CE_NotBefore = CE_NotBefore t, CE_NotAfter = CE_NotAfter t,
      CE_BasicConstraintsValid = CE_BasicConstraintsValid t, CE_DNSNames = CE_DNSNames t, CE_IsCA = CE_IsCA t, CE_KeyUsage = CE_KeyUsage t,
      CE_ExtKeyUsage = CE_ExtKeyUsage t, CE_Organization = CE_Organization t, CE_CommonName = CE_CommonName t,
      CE_PublicKey = pub, CE_Signature = signature\<rparr>"

definition toy_crypto :: "(toy_bytes, nat, nat) crypto" where
  "toy_crypto =
     \<lparr>pem_encode = (\<lambda>(ty, b). ToyPem ty b), pem_decode = (\<lambda>b. case b of ToyPem ty b \<Rightarrow> Some (ty, b) | _ \<Rightarrow> None),
      x509_Create = (\<lambda>t p pub k. if p = t \<or> CE_PublicKey p = Some k then Some (ToyCert (retyped t (Some pub) None) k) else None),
      x509_Parse = (\<lambda>b. case b of ToyCert c k \<Rightarrow> Some (retyped c (CE_PublicKey c) (Some (ToyKey k))) | _ \<Rightarrow> None),
      x509_Verifies = (\<lambda>pub c. CE_Signature c = Some (ToyKey pub)), PublicKey = id,
      pkcs1_Marshal = ToyKey, pkcs1_Parse = (\<lambda>b. case b of ToyKey k \<Rightarrow> Some k | _ \<Rightarrow> None)\<rparr>"

lemma toy_crypto_works: "crypto_works toy_crypto"
  by (auto simp: crypto_works_def toy_crypto_def issued_def retyped_def whole_second_def)

definition toy_entropy :: "nat \<Rightarrow> nat entropy" where
  "toy_entropy k = \<lparr>EN_key = Some k, EN_serial = Some (int k)\<rparr>"

lemma toy_entropy_ok: "k < 100 \<Longrightarrow> entropy_ok (toy_entropy k)"
  by (simp add: toy_entropy_def entropy_ok_def serialNumberLimit_def push_bit_eq_mult)

theorem CreateCert_Parse_witness:
  "\<exists>ca kp c. KeyPair_Parse toy_crypto ca = Inr (c, 7)
    \<and> CreateCert toy_crypto 1700000000000000000 (toy_entropy 8) 7 c 1000000000 [''guard''] = Inr kp
    \<and> (\<exists>d. KeyPair_Parse toy_crypto kp = Inr (d, 8) \<and> CE_DNSNames d = [''guard''] \<and> x509_Verifies toy_crypto 7 d)"
proof -
  have e: "entropy_ok (toy_entropy 7)" "entropy_ok (toy_entropy 8)" by (simp_all add: toy_entropy_ok)
  have clock: "clock_ok 1700000000000000000 1000000000" by (simp add: clock_ok_def)
  have key: "EN_key (toy_entropy 7) = Some 7" "EN_key (toy_entropy 8) = Some 8" "PublicKey toy_crypto = id"
    by (simp_all add: toy_entropy_def toy_crypto_def)
  from CreateCACerts_ok [OF toy_crypto_works e(1) clock key(1)] obtain ca c
    where ca: "KeyPair_Parse toy_crypto ca = Inr (c, 7)" "CE_PublicKey c = Some (PublicKey toy_crypto 7)" by blast
  from CreateCert_Parse [OF toy_crypto_works e(2) clock ca(2), of 7 "[''guard'']"] ca(1)
  show ?thesis by (auto simp: key)
qed

end
