(* ===== verification/Knative_Secrets.thy ===== *)
theory Knative_Secrets
  imports Certs Kube_Mgr
begin

text \<open>
  \<open>cmd/create-knative-secrets/main.go\<close>: the job that keeps two secrets of the namespace
  \<open>knative-serving\<close>, the certificate authority and the certificate served, creating what is missing,
  unreadable or about to expire. The calls on secrets of that namespace are a parameter.
\<close>

section \<open>Secrets\<close>

record ('c, 'b) secret_api =
  sec_Get :: "'c \<Rightarrow> string \<Rightarrow> api_error + 'b gomap"
  sec_Create :: "'c \<Rightarrow> string \<Rightarrow> 'b gomap \<Rightarrow> 'c \<times> (api_error + 'b gomap)"
  sec_Update :: "'c \<Rightarrow> string \<Rightarrow> 'b gomap \<Rightarrow> 'c \<times> api_error option"

definition caExpirationInterval :: int where
  "caExpirationInterval = 3600 * 1000000000 * 24 * 365 * 10"

definition expirationInterval :: int where
  "expirationInterval = 3600 * 1000000000 * 24 * 30"

definition rotationThreshold :: int where
  "rotationThreshold = 10 * (60 * 1000000000)"

definition caSecretName :: string where
  "caSecretName = ''serving-certs-ctrl-ca''"

definition servedSecretName :: string where
  "servedSecretName = ''knative-serving-certs''"

definition parseAndValidateSecret ::
    "('b, 'k, 'p) crypto \<Rightarrow> int \<Rightarrow> 'b gomap \<Rightarrow> bool \<Rightarrow> cert_error + ('b, 'p) certificate \<times> 'k" where
  "parseAndValidateSecret x now secret shouldContainCaCert =
     (case map_get secret CertName of
        None \<Rightarrow> Inl MissingCert
      | Some certBytes \<Rightarrow>
          (case map_get secret PrivateKeyName of
             None \<Rightarrow> Inl MissingKey
           | Some pkBytes \<Rightarrow>
               if shouldContainCaCert \<and> map_get secret CaCertName = None then Inl MissingCaCert
               else (case ParseCert x certBytes pkBytes of
                   Inl err \<Rightarrow> Inl err
                 | Inr (caCert, caPk) \<Rightarrow>
                     (case CheckExpiry now caCert rotationThreshold of
                        Some err \<Rightarrow> Inl err
                      | None \<Rightarrow> Inr (caCert, caPk)))))"

text \<open>The data of the secret is replaced, also in the caller's copy.\<close>

definition commitUpdatedSecret ::
    "('c, 'b) secret_api \<Rightarrow> string \<Rightarrow> 'b KeyPair \<Rightarrow> 'b option \<Rightarrow> 'c \<Rightarrow> 'c \<times> 'b gomap \<times> api_error option" where
  "commitUpdatedSecret api name keyPair caCert c =
     (let data = Some ([(CertName, KP_certPemBytes keyPair), (PrivateKeyName, KP_privateKeyPemBytes keyPair)]
            @ (case caCert of None \<Rightarrow> [] | Some b \<Rightarrow> [(CaCertName, b)]));
          (c, err) = sec_Update api c name data
      in (c, data, err))"

section \<open>The job\<close>

text \<open>How the job ends; it prints why.\<close>

datatype job_end =
  AccessError string api_error | NotGenerated string cert_error | NotCommitted string api_error | NotValidated string cert_error | Finished

definition open_secret :: "('c, 'b) secret_api \<Rightarrow> string \<Rightarrow> 'c \<Rightarrow> 'c \<times> (api_error + 'b gomap)" where
  "open_secret api name c =
     (case sec_Get api c name of
        Inr secret \<Rightarrow> (c, Inr secret)
      | Inl err \<Rightarrow> if err = NotFound then sec_Create api c name (Some []) else (c, Inl err))"

definition ensure_ca ::
    "('b, 'k, 'p) crypto \<Rightarrow> ('c, 'b) secret_api \<Rightarrow> int \<Rightarrow> 'k entropy \<Rightarrow> 'c \<Rightarrow> 'c \<times> (job_end + ('b, 'p) certificate \<times> 'k \<times> 'b gomap)" where
  "ensure_ca x api now en c =
     (case open_secret api caSecretName c of
        (c, Inl err) \<Rightarrow> (c, Inl (AccessError caSecretName err))
      | (c, Inr caSecret) \<Rightarrow>
          (case parseAndValidateSecret x now caSecret False of
             Inr (caCert, caPk) \<Rightarrow> (c, Inr (caCert, caPk, caSecret))
           | Inl err \<Rightarrow>
               (case CreateCACerts x now en caExpirationInterval of
                  Inl err \<Rightarrow> (c, Inl (NotGenerated caSecretName err))
                | Inr keyPair \<Rightarrow>
                    (case commitUpdatedSecret api caSecretName keyPair None c of
                       (c, caSecret, Some err) \<Rightarrow> (c, Inl (NotCommitted caSecretName err))
                     | (c, caSecret, None) \<Rightarrow>
                         (case parseAndValidateSecret x now caSecret False of
                            Inl err \<Rightarrow> (c, Inl (NotValidated caSecretName err))
                          | Inr (caCert, caPk) \<Rightarrow> (c, Inr (caCert, caPk, caSecret)))))))"

definition ensure_served ::
    "('b, 'k, 'p) crypto \<Rightarrow> ('c, 'b) secret_api \<Rightarrow> int \<Rightarrow> 'k entropy \<Rightarrow> ('b, 'p) certificate \<Rightarrow> 'k \<Rightarrow> 'b gomap \<Rightarrow> 'c \<Rightarrow> 'c \<times> job_end" where
  "ensure_served x api now en caCert caPk caSecret c =
     (case open_secret api servedSecretName c of
        (c, Inl err) \<Rightarrow> (c, AccessError servedSecretName err)
      | (c, Inr secret) \<Rightarrow>
          (case parseAndValidateSecret x now secret True of
             Inr r \<Rightarrow> (c, Finished)
           | Inl err \<Rightarrow>
               (case CreateCert x now en caPk caCert expirationInterval [] of
                  Inl err \<Rightarrow> (c, NotGenerated servedSecretName err)
                | Inr keyPair \<Rightarrow>
                    (case commitUpdatedSecret api servedSecretName keyPair (map_get caSecret CertName) c of
                       (c, secret, Some err) \<Rightarrow> (c, NotCommitted servedSecretName err)
                     | (c, secret, None) \<Rightarrow>
                         (case KeyPair_Parse x keyPair of
                            Inl err \<Rightarrow> (c, NotValidated servedSecretName err)
                          | Inr r \<Rightarrow> (c, Finished))))))"

definition create_knative_secrets ::
    "('b, 'k, 'p) crypto \<Rightarrow> ('c, 'b) secret_api \<Rightarrow> int \<Rightarrow> 'k entropy \<Rightarrow> 'k entropy \<Rightarrow> 'c \<Rightarrow> 'c \<times> job_end" where
  "create_knative_secrets x api now en en' c =
     (case ensure_ca x api now en c of
        (c, Inl reason) \<Rightarrow> (c, reason)
      | (c, Inr (caCert, caPk, caSecret)) \<Rightarrow> ensure_served x api now en' caCert caPk caSecret c)"

section \<open>The cluster\<close>

text \<open>
  Kubernetes as documented, when it does not fail: a secret that is not found can be created, one
  that is there can be updated, it is read back as written, and the other secrets stay.
\<close>

definition secrets_work :: "('c, 'b) secret_api \<Rightarrow> bool" where
  "secrets_work api \<longleftrightarrow> (\<forall>c name.
     (sec_Get api c name \<noteq> Inl OtherError)
   \<and> (sec_Get api c name = Inl NotFound \<longrightarrow> (\<forall>d. case sec_Create api c name d of (c', r) \<Rightarrow> r = Inr d
        \<and> (\<forall>n. sec_Get api c' n = (if n = name then Inr d else sec_Get api c n))))
   \<and> (\<forall>old. sec_Get api c name = Inr old \<longrightarrow> (\<forall>d. case sec_Update api c name d of (c', err) \<Rightarrow> err = None
        \<and> (\<forall>n. sec_Get api c' n = (if n = name then Inr d else sec_Get api c n)))))"

text \<open>The data of a secret, empty if there is none.\<close>

definition secret_data :: "('c, 'b) secret_api \<Rightarrow> 'c \<Rightarrow> string \<Rightarrow> 'b gomap" where
  "secret_data api c name = (case sec_Get api c name of Inl e \<Rightarrow> Some [] | Inr d \<Rightarrow> d)"

text \<open>The two secrets as the job sees them.\<close>

definition ca_of :: "('b, 'k, 'p) crypto \<Rightarrow> ('c, 'b) secret_api \<Rightarrow> int \<Rightarrow> 'c \<Rightarrow> cert_error + ('b, 'p) certificate \<times> 'k" where
  "ca_of x api now c = parseAndValidateSecret x now (secret_data api c caSecretName) False"

definition served_of :: "('b, 'k, 'p) crypto \<Rightarrow> ('c, 'b) secret_api \<Rightarrow> int \<Rightarrow> 'c \<Rightarrow> cert_error + ('b, 'p) certificate \<times> 'k" where
  "served_of x api now c = parseAndValidateSecret x now (secret_data api c servedSecretName) True"

text \<open>
  \<open>VerifyHostname\<close> for a name: one of the DNS names of the certificate matches it, whatever patterns
  are allowed.
\<close>

definition valid_for :: "(string \<Rightarrow> string \<Rightarrow> bool) \<Rightarrow> ('b, 'p) certificate \<Rightarrow> string \<Rightarrow> bool" where
  "valid_for matches cert host \<longleftrightarrow> (\<exists>pattern \<in> set (CE_DNSNames cert). matches pattern host)"

section \<open>Properties\<close>

lemma map_get_entries: "map_get (Some kvs) k = map_of kvs k"
  by (simp add: map_get_def)

lemma CertName_distinct [simp]:
  "CertName \<noteq> PrivateKeyName" "PrivateKeyName \<noteq> CertName" "CertName \<noteq> CaCertName" "CaCertName \<noteq> CertName"
  "PrivateKeyName \<noteq> CaCertName" "CaCertName \<noteq> PrivateKeyName" "caSecretName \<noteq> servedSecretName" "servedSecretName \<noteq> caSecretName"
  by (simp_all add: CertName_def PrivateKeyName_def CaCertName_def caSecretName_def servedSecretName_def)

lemma secrets_workD:
  assumes works: "secrets_work api"
  shows "sec_Get api c name \<noteq> Inl OtherError"
    and "sec_Get api c name = Inl NotFound \<Longrightarrow> sec_Create api c name d = (c', r) \<Longrightarrow> r = Inr d \<and> (\<forall>n. sec_Get api c' n = (if n = name then Inr d else sec_Get api c n))"
    and "sec_Get api c name = Inr old \<Longrightarrow> sec_Update api c name d = (c', err) \<Longrightarrow> err = None \<and> (\<forall>n. sec_Get api c' n = (if n = name then Inr d else sec_Get api c n))"
proof -
  note laws = works [unfolded secrets_work_def, THEN spec [of _ c], THEN spec [of _ name]]
  show "sec_Get api c name \<noteq> Inl OtherError" by (rule laws [THEN conjunct1])
  show "r = Inr d \<and> (\<forall>n. sec_Get api c' n = (if n = name then Inr d else sec_Get api c n))"
    if "sec_Get api c name = Inl NotFound" and "sec_Create api c name d = (c', r)"
  proof -
    have "\<forall>d. case sec_Create api c name d of (c', r) \<Rightarrow> r = Inr d \<and> (\<forall>n. sec_Get api c' n = (if n = name then Inr d else sec_Get api c n))"
      by (rule laws [THEN conjunct2, THEN conjunct1, THEN mp, OF that(1)])
    from this [THEN spec, of d, unfolded that(2) prod.case] show ?thesis .
  qed
  show "err = None \<and> (\<forall>n. sec_Get api c' n = (if n = name then Inr d else sec_Get api c n))"
    if "sec_Get api c name = Inr old" and "sec_Update api c name d = (c', err)"
  proof -
    have "\<forall>d. case sec_Update api c name d of (c', err) \<Rightarrow> err = None \<and> (\<forall>n. sec_Get api c' n = (if n = name then Inr d else sec_Get api c n))"
      by (rule laws [THEN conjunct2, THEN conjunct2, THEN spec, THEN mp, OF that(1)])
    from this [THEN spec, of d, unfolded that(2) prod.case] show ?thesis .
  qed
qed

lemma open_secret_ok:
  assumes "secrets_work api"
  shows "\<exists>c'. open_secret api name c = (c', Inr (secret_data api c name))
    \<and> (\<forall>n. sec_Get api c' n = (if n = name then Inr (secret_data api c name) else sec_Get api c n))"
proof (cases "sec_Get api c name")
  case (Inl e)
  then have e: "e = NotFound" using secrets_workD(1) [OF assms, of c name] by (cases e) auto
  obtain c' r where cr: "sec_Create api c name (Some []) = (c', r)" by fastforce
  then show ?thesis using secrets_workD(2) [OF assms _ cr] Inl e by (auto simp: open_secret_def secret_data_def)
next
  case (Inr d)
  then show ?thesis by (auto simp: open_secret_def secret_data_def)
qed

definition pair_data :: "'b KeyPair \<Rightarrow> 'b option \<Rightarrow> 'b gomap" where
  "pair_data keyPair caCert =
     Some ([(CertName, KP_certPemBytes keyPair), (PrivateKeyName, KP_privateKeyPemBytes keyPair)]
       @ (case caCert of None \<Rightarrow> [] | Some b \<Rightarrow> [(CaCertName, b)]))"

lemma pair_data_get [simp]:
  "map_get (pair_data keyPair caCert) CertName = Some (KP_certPemBytes keyPair)"
  "map_get (pair_data keyPair caCert) PrivateKeyName = Some (KP_privateKeyPemBytes keyPair)"
  "map_get (pair_data keyPair caCert) CaCertName = caCert"
  by (cases caCert; simp add: pair_data_def map_get_entries)+

lemma pair_data_valid:
  assumes "KeyPair_Parse x keyPair = Inr (cert, key)" and "now + rotationThreshold \<le> CE_NotAfter cert" and "needs \<longrightarrow> caCert \<noteq> None"
  shows "parseAndValidateSecret x now (pair_data keyPair caCert) needs = Inr (cert, key)"
  using assms by (auto simp: parseAndValidateSecret_def KeyPair_Parse_def CheckExpiry_def)

lemma commit_ok:
  assumes "secrets_work api" and "sec_Get api c name = Inr old"
  shows "\<exists>c'. commitUpdatedSecret api name keyPair caCert c = (c', pair_data keyPair caCert, None)
    \<and> (\<forall>n. sec_Get api c' n = (if n = name then Inr (pair_data keyPair caCert) else sec_Get api c n))"
proof -
  obtain c' err where u: "sec_Update api c name (pair_data keyPair caCert) = (c', err)" by fastforce
  then show ?thesis using secrets_workD(3) [OF assms(1,2) u] by (auto simp: commitUpdatedSecret_def pair_data_def)
qed

lemma expiry_room:
  assumes "whole_second (now + d) t" and "expirationInterval \<le> d"
  shows "now + rotationThreshold \<le> t"
  using assms by (simp add: whole_second_def rotationThreshold_def expirationInterval_def)

lemma clock_ok_less: "clock_ok now caExpirationInterval \<Longrightarrow> clock_ok now expirationInterval"
  by (simp add: clock_ok_def expirationInterval_def)

text \<open>What the first half leaves: a valid authority, the one that was there if it was valid.\<close>

lemma ensure_ca_ok:
  assumes "crypto_works x" and "secrets_work api" and "entropy_ok en" and "clock_ok now caExpirationInterval"
  shows "\<exists>c' ca key d. ensure_ca x api now en c = (c', Inr (ca, key, d))
    \<and> (\<forall>n. sec_Get api c' n = (if n = caSecretName then Inr d else sec_Get api c n))
    \<and> parseAndValidateSecret x now d False = Inr (ca, key)
    \<and> (case ca_of x api now c of
         Inr r \<Rightarrow> r = (ca, key) \<and> d = secret_data api c caSecretName
       | Inl e \<Rightarrow> EN_key en = Some key \<and> CE_PublicKey ca = Some (PublicKey x key) \<and> x509_Verifies x (PublicKey x key) ca \<and> CE_IsCA ca)"
proof -
  let ?d0 = "secret_data api c caSecretName"
  obtain c1 where c1: "open_secret api caSecretName c = (c1, Inr ?d0)"
      "\<forall>n. sec_Get api c1 n = (if n = caSecretName then Inr ?d0 else sec_Get api c n)"
    using open_secret_ok [OF assms(2)] by blast
  show ?thesis
  proof (cases "ca_of x api now c")
    case (Inr r)
    then obtain ca key where "r = (ca, key)" "parseAndValidateSecret x now ?d0 False = Inr (ca, key)"
      by (cases r) (auto simp: ca_of_def)
    then show ?thesis using c1 Inr by (auto simp: ensure_ca_def)
  next
    case (Inl e)
    obtain key where key: "EN_key en = Some key" using assms(3) by (auto simp: entropy_ok_def)
    from CreateCACerts_ok [OF assms(1,3,4) key] obtain kp ca
      where kp: "CreateCACerts x now en caExpirationInterval = Inr kp" "KeyPair_Parse x kp = Inr (ca, key)"
        "CE_PublicKey ca = Some (PublicKey x key)" "x509_Verifies x (PublicKey x key) ca" "CE_IsCA ca"
        "whole_second (now + caExpirationInterval) (CE_NotAfter ca)"
      by blast
    have "now + rotationThreshold \<le> CE_NotAfter ca"
      by (rule expiry_room [OF kp(6)]) (simp add: expirationInterval_def caExpirationInterval_def)
    then have v: "parseAndValidateSecret x now (pair_data kp None) False = Inr (ca, key)"
      using pair_data_valid [OF kp(2)] by simp
    have "sec_Get api c1 caSecretName = Inr ?d0" using c1(2) by simp
    from commit_ok [OF assms(2) this] obtain c2
      where c2: "commitUpdatedSecret api caSecretName kp None c1 = (c2, pair_data kp None, None)"
        "\<forall>n. sec_Get api c2 n = (if n = caSecretName then Inr (pair_data kp None) else sec_Get api c1 n)"
      by blast
    have "ensure_ca x api now en c = (c2, Inr (ca, key, pair_data kp None))"
      using c1(1) Inl kp(1) c2(1) v by (simp add: ensure_ca_def ca_of_def)
    then show ?thesis using c1(2) c2(2) v key kp(3-5) Inl by auto
  qed
qed

text \<open>What the second half does with a valid authority.\<close>

lemma ensure_served_ok:
  assumes "crypto_works x" and "secrets_work api" and "entropy_ok en" and "clock_ok now expirationInterval"
    and "ensure_served x api now en ca caKey d c = (c', reason)" and "map_get d CertName \<noteq> None"
  shows "(\<forall>n. n \<noteq> servedSecretName \<longrightarrow> sec_Get api c' n = sec_Get api c n)
    \<and> (case served_of x api now c of
         Inr r \<Rightarrow> reason = Finished \<and> secret_data api c' servedSecretName = secret_data api c servedSecretName
       | Inl e \<Rightarrow>
           (CE_PublicKey ca = Some (PublicKey x caKey) \<longrightarrow> reason = Finished
             \<and> (\<exists>cert key. served_of x api now c' = Inr (cert, key) \<and> EN_key en = Some key \<and> CE_PublicKey cert = Some (PublicKey x key)
                  \<and> x509_Verifies x (PublicKey x caKey) cert \<and> CE_DNSNames cert = []
                  \<and> map_get (secret_data api c' servedSecretName) CaCertName = map_get d CertName))
         \<and> (\<forall>pub. CE_PublicKey ca = Some pub \<and> pub \<noteq> PublicKey x caKey \<longrightarrow> reason = NotGenerated servedSecretName SignError))"
proof -
  let ?d0 = "secret_data api c servedSecretName"
  obtain c1 where c1: "open_secret api servedSecretName c = (c1, Inr ?d0)"
      "\<forall>n. sec_Get api c1 n = (if n = servedSecretName then Inr ?d0 else sec_Get api c n)"
    using open_secret_ok [OF assms(2)] by blast
  have d1: "secret_data api c1 servedSecretName = ?d0" using c1(2) by (simp add: secret_data_def)
  obtain key where key: "EN_key en = Some key" using assms(3) by (auto simp: entropy_ok_def)
  show ?thesis
  proof (cases "served_of x api now c")
    case (Inr r)
    then have "c' = c1 \<and> reason = Finished" using assms(5) c1(1) by (simp add: ensure_served_def served_of_def)
    then show ?thesis using c1(2) d1 Inr by simp
  next
    case (Inl e)
    then have s: "ensure_served x api now en ca caKey d c =
        (case CreateCert x now en caKey ca expirationInterval [] of
           Inl err \<Rightarrow> (c1, NotGenerated servedSecretName err)
         | Inr keyPair \<Rightarrow>
             (case commitUpdatedSecret api servedSecretName keyPair (map_get d CertName) c1 of
                (c, secret, Some err) \<Rightarrow> (c, NotCommitted servedSecretName err)
              | (c, secret, None) \<Rightarrow>
                  (case KeyPair_Parse x keyPair of Inl err \<Rightarrow> (c, NotValidated servedSecretName err) | Inr r \<Rightarrow> (c, Finished))))"
      using c1(1) by (simp add: ensure_served_def served_of_def)
    have other: "sec_Get api c1 servedSecretName = Inr ?d0" using c1(2) by simp
    consider (match) "CE_PublicKey ca = Some (PublicKey x caKey)" | (nokey) "CE_PublicKey ca = None"
      | (foreign) pub where "CE_PublicKey ca = Some pub" "pub \<noteq> PublicKey x caKey"
      by (cases "CE_PublicKey ca") auto
    then show ?thesis
    proof cases
      case match
      from CreateCert_ok [OF assms(1,3,4) key match, of "[]"] obtain kp cert
        where kp: "CreateCert x now en caKey ca expirationInterval [] = Inr kp" "KeyPair_Parse x kp = Inr (cert, key)"
          "CE_PublicKey cert = Some (PublicKey x key)" "x509_Verifies x (PublicKey x caKey) cert" "CE_DNSNames cert = []"
          "whole_second (now + expirationInterval) (CE_NotAfter cert)"
        by blast
      from commit_ok [OF assms(2) other] obtain c2
        where c2: "commitUpdatedSecret api servedSecretName kp (map_get d CertName) c1 = (c2, pair_data kp (map_get d CertName), None)"
          "\<forall>n. sec_Get api c2 n = (if n = servedSecretName then Inr (pair_data kp (map_get d CertName)) else sec_Get api c1 n)"
        by blast
      have r: "c' = c2" "reason = Finished" using assms(5) s kp(1,2) c2(1) by simp_all
      have data: "secret_data api c2 servedSecretName = pair_data kp (map_get d CertName)" using c2(2) by (simp add: secret_data_def)
      have "served_of x api now c2 = Inr (cert, key)"
        unfolding served_of_def data by (rule pair_data_valid [OF kp(2) expiry_room [OF kp(6)]]) (simp_all add: assms(6))
      then show ?thesis using r c1(2) c2(2) data kp(3-5) key match Inl by simp
    next
      case nokey
      have "\<forall>n. n \<noteq> servedSecretName \<longrightarrow> sec_Get api c' n = sec_Get api c n"
      proof (cases "CreateCert x now en caKey ca expirationInterval []")
        case (Inr kp)
        from commit_ok [OF assms(2) other] obtain c2
          where "commitUpdatedSecret api servedSecretName kp (map_get d CertName) c1 = (c2, pair_data kp (map_get d CertName), None)"
            "\<forall>n. sec_Get api c2 n = (if n = servedSecretName then Inr (pair_data kp (map_get d CertName)) else sec_Get api c1 n)"
          by blast
        then show ?thesis using assms(5) s Inr c1(2) by (auto split: sum.splits)
      qed (use assms(5) s c1(2) in auto)
      then show ?thesis using nokey Inl by simp
    next
      case foreign
      have "CreateCert x now en caKey ca expirationInterval [] = Inl SignError"
        by (rule CreateCert_refused [OF assms(1,3,4) key foreign])
      then have "c' = c1" "reason = NotGenerated servedSecretName SignError" using assms(5) s by simp_all
      then show ?thesis using c1(2) foreign Inl by simp
    qed
  qed
qed

lemma valid_secret_exists:
  assumes "parseAndValidateSecret x now (secret_data api c name) needs = Inr r"
  shows "sec_Get api c name = Inr (secret_data api c name)"
  using assms by (cases "sec_Get api c name") (simp_all add: secret_data_def parseAndValidateSecret_def map_get_entries)

lemma create_stable:
  assumes "ca_of x api now c = Inr r" and "served_of x api now c = Inr r'"
  shows "create_knative_secrets x api now en en' c = (c, Finished)"
proof -
  note ca = assms(1) [unfolded ca_of_def] and served = assms(2) [unfolded served_of_def]
  obtain cert key where r: "r = (cert, key)" by (cases r)
  show ?thesis
    using valid_secret_exists [OF ca] valid_secret_exists [OF served] ca served
    by (simp add: create_knative_secrets_def ensure_ca_def ensure_served_def open_secret_def r)
qed

lemma valid_has_cert: "parseAndValidateSecret x now d needs = Inr r \<Longrightarrow> map_get d CertName \<noteq> None"
  by (cases "map_get d CertName") (simp_all add: parseAndValidateSecret_def)

lemma nameless: "CE_DNSNames cert = [] \<Longrightarrow> \<not> valid_for matches cert host"
  by (simp add: valid_for_def)

lemma create_ok:
  assumes "crypto_works x" and "secrets_work api" and "entropy_ok en" and "entropy_ok en'" and "clock_ok now caExpirationInterval"
    and "create_knative_secrets x api now en en' c = (c', reason)"
  shows "\<exists>ca caKey. ca_of x api now c' = Inr (ca, caKey)
    \<and> (case ca_of x api now c of
         Inr r \<Rightarrow> r = (ca, caKey)
       | Inl e \<Rightarrow> EN_key en = Some caKey \<and> CE_PublicKey ca = Some (PublicKey x caKey) \<and> x509_Verifies x (PublicKey x caKey) ca)
    \<and> (case served_of x api now c of
         Inr r \<Rightarrow> reason = Finished \<and> served_of x api now c' = Inr r
       | Inl e \<Rightarrow>
           (CE_PublicKey ca = Some (PublicKey x caKey) \<longrightarrow> reason = Finished
             \<and> (\<exists>cert key. served_of x api now c' = Inr (cert, key) \<and> EN_key en' = Some key \<and> CE_PublicKey cert = Some (PublicKey x key)
                  \<and> x509_Verifies x (PublicKey x caKey) cert \<and> CE_DNSNames cert = []
                  \<and> map_get (secret_data api c' servedSecretName) CaCertName = map_get (secret_data api c' caSecretName) CertName))
         \<and> (\<forall>pub. CE_PublicKey ca = Some pub \<and> pub \<noteq> PublicKey x caKey \<longrightarrow> reason = NotGenerated servedSecretName SignError))"
proof -
  from ensure_ca_ok [OF assms(1-3,5), of c] obtain c1 ca caKey d
    where first: "ensure_ca x api now en c = (c1, Inr (ca, caKey, d))"
      "\<forall>n. sec_Get api c1 n = (if n = caSecretName then Inr d else sec_Get api c n)"
      "parseAndValidateSecret x now d False = Inr (ca, caKey)"
      "case ca_of x api now c of
         Inr r \<Rightarrow> r = (ca, caKey) \<and> d = secret_data api c caSecretName
       | Inl e \<Rightarrow> EN_key en = Some caKey \<and> CE_PublicKey ca = Some (PublicKey x caKey) \<and> x509_Verifies x (PublicKey x caKey) ca \<and> CE_IsCA ca"
    by blast
  have "ensure_served x api now en' ca caKey d c1 = (c', reason)"
    using assms(6) first(1) by (simp add: create_knative_secrets_def)
  note second = ensure_served_ok [OF assms(1,2,4) clock_ok_less [OF assms(5)] this valid_has_cert [OF first(3)]]
  have same: "served_of x api now c1 = served_of x api now c" "secret_data api c1 servedSecretName = secret_data api c servedSecretName"
    using first(2) by (simp_all add: served_of_def secret_data_def)
  have ca_data: "secret_data api c' caSecretName = d" using second first(2) by (simp add: secret_data_def)
  then have "ca_of x api now c' = Inr (ca, caKey)" using first(3) by (simp add: ca_of_def)
  moreover have "case ca_of x api now c of Inr r \<Rightarrow> r = (ca, caKey)
      | Inl e \<Rightarrow> EN_key en = Some caKey \<and> CE_PublicKey ca = Some (PublicKey x caKey) \<and> x509_Verifies x (PublicKey x caKey) ca"
    using first(4) by (simp split: sum.splits)
  ultimately show ?thesis
    using second by (intro exI [of _ ca] exI [of _ caKey] conjI) (auto simp: same ca_data served_of_def split: sum.splits)
qed

text \<open>
  C39. With libraries and a cluster that work, the job leaves a valid authority, the old one where it was
  valid, and a valid certificate: the old one where it was valid, otherwise one signed by the authority,
  stored with the certificate of the authority. It fails only on an authority whose key is not
  that of its certificate. Once both secrets are valid, running the job again changes nothing. But the
  certificate it makes has no names, so it is not valid for the name the gates expect of the service.
\<close>

theorem secrets_established:
  assumes "crypto_works x" and "secrets_work api" and "entropy_ok en" and "entropy_ok en'" and "clock_ok now caExpirationInterval"
    and "create_knative_secrets x api now en en' c = (c', reason)"
  shows "\<exists>ca caKey. ca_of x api now c' = Inr (ca, caKey)
    \<and> (case ca_of x api now c of
         Inr r \<Rightarrow> r = (ca, caKey)
       | Inl e \<Rightarrow> EN_key en = Some caKey \<and> CE_PublicKey ca = Some (PublicKey x caKey) \<and> x509_Verifies x (PublicKey x caKey) ca)
    \<and> (case served_of x api now c of
         Inr r \<Rightarrow> reason = Finished \<and> served_of x api now c' = Inr r
       | Inl e \<Rightarrow>
           (CE_PublicKey ca = Some (PublicKey x caKey) \<longrightarrow> reason = Finished
             \<and> (\<exists>cert key. served_of x api now c' = Inr (cert, key) \<and> CE_PublicKey cert = Some (PublicKey x key)
                  \<and> x509_Verifies x (PublicKey x caKey) cert \<and> (\<forall>matches. \<not> valid_for matches cert LegacyFakeDnsName)
                  \<and> map_get (secret_data api c' servedSecretName) CaCertName = map_get (secret_data api c' caSecretName) CertName))
         \<and> (\<forall>pub. CE_PublicKey ca = Some pub \<and> pub \<noteq> PublicKey x caKey \<longrightarrow> reason = NotGenerated servedSecretName SignError))
    \<and> (\<forall>now' e e' r r'. ca_of x api now' c' = Inr r \<longrightarrow> served_of x api now' c' = Inr r' \<longrightarrow>
         create_knative_secrets x api now' e e' c' = (c', Finished))"
proof -
  from create_ok [OF assms] obtain ca caKey where r: "ca_of x api now c' = Inr (ca, caKey)"
      "case ca_of x api now c of
         Inr r \<Rightarrow> r = (ca, caKey)
       | Inl e \<Rightarrow> EN_key en = Some caKey \<and> CE_PublicKey ca = Some (PublicKey x caKey) \<and> x509_Verifies x (PublicKey x caKey) ca"
      "case served_of x api now c of
         Inr r \<Rightarrow> reason = Finished \<and> served_of x api now c' = Inr r
       | Inl e \<Rightarrow>
           (CE_PublicKey ca = Some (PublicKey x caKey) \<longrightarrow> reason = Finished
             \<and> (\<exists>cert key. served_of x api now c' = Inr (cert, key) \<and> EN_key en' = Some key \<and> CE_PublicKey cert = Some (PublicKey x key)
                  \<and> x509_Verifies x (PublicKey x caKey) cert \<and> CE_DNSNames cert = []
                  \<and> map_get (secret_data api c' servedSecretName) CaCertName = map_get (secret_data api c' caSecretName) CertName))
         \<and> (\<forall>pub. CE_PublicKey ca = Some pub \<and> pub \<noteq> PublicKey x caKey \<longrightarrow> reason = NotGenerated servedSecretName SignError)"
    by blast
  then show ?thesis
    by (intro exI [of _ ca] exI [of _ caKey] conjI) (auto intro: create_stable simp: nameless split: sum.splits)
qed

section \<open>Concrete runs\<close>

text \<open>A cluster in memory.\<close>

type_synonym 'b mem_secrets = "string \<Rightarrow> 'b gomap option"

definition mem_secrets_api :: "('b mem_secrets, 'b) secret_api" where
  "mem_secrets_api =
     \<lparr>sec_Get = (\<lambda>c name. case c name of None \<Rightarrow> Inl NotFound | Some d \<Rightarrow> Inr d),
      sec_Create = (\<lambda>c name d. if c name = None then (c(name \<mapsto> d), Inr d) else (c, Inl OtherError)),
      sec_Update = (\<lambda>c name d. if c name = None then (c, Some NotFound) else (c(name \<mapsto> d), None))\<rparr>"

lemma mem_secrets_work: "secrets_work mem_secrets_api"
  by (auto simp: secrets_work_def mem_secrets_api_def split: option.splits)

lemma empty_cluster_invalid:
  "ca_of x mem_secrets_api now (\<lambda>_. None) = Inl MissingCert" "served_of x mem_secrets_api now (\<lambda>_. None) = Inl MissingCert"
  by (simp_all add: ca_of_def served_of_def parseAndValidateSecret_def secret_data_def mem_secrets_api_def map_get_entries)

theorem secrets_established_witness:
  "\<exists>c' ca cert key. create_knative_secrets toy_crypto mem_secrets_api 1700000000000000000 (toy_entropy 7) (toy_entropy 8) (\<lambda>_. None) = (c', Finished)
    \<and> ca_of toy_crypto mem_secrets_api 1700000000000000000 c' = Inr (ca, 7)
    \<and> served_of toy_crypto mem_secrets_api 1700000000000000000 c' = Inr (cert, key)
    \<and> x509_Verifies toy_crypto 7 cert \<and> \<not> valid_for (=) cert LegacyFakeDnsName"
proof -
  let ?now = "1700000000000000000"
  obtain c' reason where run: "create_knative_secrets toy_crypto mem_secrets_api ?now (toy_entropy 7) (toy_entropy 8) (\<lambda>_. None) = (c', reason)"
    by fastforce
  have clock: "clock_ok ?now caExpirationInterval" by (simp add: clock_ok_def caExpirationInterval_def)
  have e: "entropy_ok (toy_entropy 7)" "entropy_ok (toy_entropy 8)" by (simp_all add: toy_entropy_ok)
  have key: "EN_key (toy_entropy 7) = Some 7" "PublicKey toy_crypto = id" by (simp_all add: toy_entropy_def toy_crypto_def)
  from secrets_established [OF toy_crypto_works mem_secrets_work e clock run] run
  show ?thesis by (auto simp: empty_cluster_invalid key)
qed

section \<open>A new authority\<close>

text \<open>
  When the authority is replaced, because it is missing, unreadable or about to expire, a certificate
  that is still valid is kept although the new authority did not sign it, and running the job again
  repairs nothing: until that certificate expires it is served next to an authority it does
  not verify against.
\<close>

theorem rotation_leaves_served:
  assumes "crypto_works x" and "secrets_work api" and "entropy_ok en" and "entropy_ok en'" and "clock_ok now caExpirationInterval"
    and "create_knative_secrets x api now en en' c = (c', reason)"
    and "ca_of x api now c = Inl e" and "served_of x api now c = Inr (cert, key)"
    and "EN_key en = Some caKey" and "\<not> x509_Verifies x (PublicKey x caKey) cert"
  shows "reason = Finished \<and> served_of x api now c' = Inr (cert, key)
    \<and> (\<exists>ca. ca_of x api now c' = Inr (ca, caKey) \<and> CE_PublicKey ca = Some (PublicKey x caKey))
    \<and> (\<forall>now' e e' r. now \<le> now' \<longrightarrow> ca_of x api now' c' = Inr r \<longrightarrow> now' + rotationThreshold \<le> CE_NotAfter cert \<longrightarrow>
         create_knative_secrets x api now' e e' c' = (c', Finished))"
proof -
  from create_ok [OF assms(1-6)] assms(7-9) obtain ca
    where r: "ca_of x api now c' = Inr (ca, caKey)" "CE_PublicKey ca = Some (PublicKey x caKey)" "reason = Finished"
      "served_of x api now c' = Inr (cert, key)"
    by auto
  have "served_of x api now' c' = Inr (cert, key)" if "now' + rotationThreshold \<le> CE_NotAfter cert" for now'
    using r(4) that by (auto simp: served_of_def parseAndValidateSecret_def CheckExpiry_def split: option.splits sum.splits if_splits prod.splits)
  then show ?thesis using r by (auto intro: create_stable)
qed

definition old_served :: "toy_bytes gomap" where
  "old_served = pair_data
     \<lparr>KP_privateKeyBlock = (''RSA PRIVATE KEY'', ToyKey 3), KP_privateKeyPemBytes = ToyPem ''RSA PRIVATE KEY'' (ToyKey 3),
      KP_certBlock = (''CERTIFICATE'', ToyCert \<lparr>CE_SerialNumber = 3, CE_NotBefore = 0, CE_NotAfter = 1800000000000000000,
        CE_BasicConstraintsValid = True, CE_DNSNames = [], CE_IsCA = False, CE_KeyUsage = KeyUsageDigitalSignature, CE_ExtKeyUsage = [],
        CE_Organization = [Organization], CE_CommonName = '''', CE_PublicKey = Some 3, CE_Signature = None\<rparr> 2),
      KP_certPemBytes = ToyPem ''CERTIFICATE'' (ToyCert \<lparr>CE_SerialNumber = 3, CE_NotBefore = 0, CE_NotAfter = 1800000000000000000,
        CE_BasicConstraintsValid = True, CE_DNSNames = [], CE_IsCA = False, CE_KeyUsage = KeyUsageDigitalSignature, CE_ExtKeyUsage = [],
        CE_Organization = [Organization], CE_CommonName = '''', CE_PublicKey = Some 3, CE_Signature = None\<rparr> 2)\<rparr>
     (Some (ToyKey 2))"

lemma old_served_of:
  "\<exists>cert. served_of toy_crypto mem_secrets_api 1700000000000000000 ((\<lambda>_. None)(servedSecretName \<mapsto> old_served)) = Inr (cert, 3)
    \<and> CE_Signature cert = Some (ToyKey 2) \<and> CE_NotAfter cert = 1800000000000000000"
  by (simp add: served_of_def secret_data_def mem_secrets_api_def old_served_def parseAndValidateSecret_def ParseCert_def toy_crypto_def
      CheckExpiry_def rotationThreshold_def retyped_def)

theorem rotation_leaves_served_witness:
  "\<exists>c' ca cert. create_knative_secrets toy_crypto mem_secrets_api 1700000000000000000 (toy_entropy 7) (toy_entropy 8)
        ((\<lambda>_. None)(servedSecretName \<mapsto> old_served)) = (c', Finished)
    \<and> ca_of toy_crypto mem_secrets_api 1700000000000000000 c' = Inr (ca, 7)
    \<and> served_of toy_crypto mem_secrets_api 1700000000000000000 c' = Inr (cert, 3) \<and> \<not> x509_Verifies toy_crypto 7 cert"
proof -
  let ?now = "1700000000000000000" and ?c = "(\<lambda>_. None)(servedSecretName \<mapsto> old_served)"
  obtain c' reason where run: "create_knative_secrets toy_crypto mem_secrets_api ?now (toy_entropy 7) (toy_entropy 8) ?c = (c', reason)"
    by fastforce
  have clock: "clock_ok ?now caExpirationInterval" by (simp add: clock_ok_def caExpirationInterval_def)
  have e: "entropy_ok (toy_entropy 7)" "entropy_ok (toy_entropy 8)" by (simp_all add: toy_entropy_ok)
  obtain cert where cert: "served_of toy_crypto mem_secrets_api ?now ?c = Inr (cert, 3)" "CE_Signature cert = Some (ToyKey 2)"
    using old_served_of by blast
  have ca: "ca_of toy_crypto mem_secrets_api ?now ?c = Inl MissingCert"
    by (simp add: ca_of_def parseAndValidateSecret_def secret_data_def mem_secrets_api_def map_get_entries)
  have other: "\<not> x509_Verifies toy_crypto (PublicKey toy_crypto 7) cert" using cert(2) by (simp add: toy_crypto_def)
  have key: "EN_key (toy_entropy 7) = Some 7" by (simp add: toy_entropy_def)
  from rotation_leaves_served [OF toy_crypto_works mem_secrets_work e clock run ca cert(1) key other] run other
  show ?thesis by (auto simp: toy_crypto_def)
qed

end
