(* ===== verification/Transport_Piles.thy ===== *)
theory Transport_Piles
  imports Session_Data
begin

text \<open>
  How piles travel: a gate sends its pile to the guard-service as JSON. What \<open>encoding/json\<close> makes
  of a value when it is marshalled and read back is written out here for every type of a pile: an
  unexported map is nil, a string has its invalid bytes replaced, an address comes back with
  sixteen bytes, a pointer to a nil map comes back as a nil pointer.
\<close>

section \<open>Strings\<close>

definition encode_rune :: "nat \<Rightarrow> nat list" where
  "encode_rune r =
     (if r < 0x80 then [r]
      else if r < 0x800 then [0xC0 + r div 0x40, 0x80 + r mod 0x40]
      else if r < 0x10000 then [0xE0 + r div 0x1000, 0x80 + r div 0x40 mod 0x40, 0x80 + r mod 0x40]
      else [0xF0 + r div 0x40000, 0x80 + r div 0x1000 mod 0x40, 0x80 + r div 0x40 mod 0x40, 0x80 + r mod 0x40])"

definition json_string :: "string \<Rightarrow> string" where
  "json_string s = map char_of (concat (map encode_rune (runes s)))"

definition valid_utf8 :: "string \<Rightarrow> bool" where
  "valid_utf8 s \<longleftrightarrow> json_string s = s"

definition scalar :: "nat \<Rightarrow> bool" where
  "scalar r \<longleftrightarrow> r < 0x110000 \<and> \<not> (0xD800 \<le> r \<and> r \<le> 0xDFFF)"

text \<open>The digits of a number in base 64, from the last one on.\<close>

lemma digits64:
  fixes r :: nat
  shows "r = (r div 0x1000) * 0x1000 + (r div 0x40 mod 0x40) * 0x40 + r mod 0x40"
    and "r = (r div 0x40000) * 0x40000 + (r div 0x1000 mod 0x40) * 0x1000 + (r div 0x40 mod 0x40) * 0x40 + r mod 0x40"
proof -
  have a: "r = r div 0x40 * 0x40 + r mod 0x40" by simp
  have "r div 0x40 = r div 0x40 div 0x40 * 0x40 + r div 0x40 mod 0x40" by simp
  then have b: "r div 0x40 = r div 0x1000 * 0x40 + r div 0x40 mod 0x40" by (simp only: div_mult2_eq [symmetric]) simp
  have "r div 0x1000 = r div 0x1000 div 0x40 * 0x40 + r div 0x1000 mod 0x40" by simp
  then have c: "r div 0x1000 = r div 0x40000 * 0x40 + r div 0x1000 mod 0x40" by (simp only: div_mult2_eq [symmetric]) simp
  show "r = (r div 0x1000) * 0x1000 + (r div 0x40 mod 0x40) * 0x40 + r mod 0x40" using a b by linarith
  then show "r = (r div 0x40000) * 0x40000 + (r div 0x1000 mod 0x40) * 0x1000 + (r div 0x40 mod 0x40) * 0x40 + r mod 0x40"
    using c by linarith
qed

lemma decode_encoded:
  assumes "scalar r"
  shows "\<exists>b bs. encode_rune r = b # bs \<and> decode_rune b (bs @ rest) = (r, length bs) \<and> (\<forall>x \<in> set (b # bs). x < 0x100)"
proof -
  have "r < 0x80 \<or> 0x80 \<le> r \<and> r < 0x800 \<or> 0x800 \<le> r \<and> r < 0x10000 \<or> 0x10000 \<le> r" by linarith
  moreover have ?thesis if "r < 0x80" using that by (simp add: encode_rune_def decode_rune_def)
  moreover have ?thesis if "0x80 \<le> r" "r < 0x800"
  proof -
    have "2 \<le> r div 0x40" "r div 0x40 < 0x20" using that by linarith+
    then show ?thesis using that by (simp add: encode_rune_def decode_rune_def cont_byte_def)
  qed
  moreover have ?thesis if r: "0x800 \<le> r" "r < 0x10000"
  proof -
    obtain a b c where d: "a = r div 0x1000" "b = r div 0x40 mod 0x40" "c = r mod 0x40" by blast
    then have n: "r = a * 0x1000 + b * 0x40 + c" "b < 0x40" "c < 0x40" using digits64(1) [of r] by simp_all
    then have "a < 0x10" "a = 0 \<longrightarrow> 0x20 \<le> b" "a = 0xD \<longrightarrow> b < 0x20" using r assms by (auto simp: scalar_def)
    moreover have "encode_rune r = [0xE0 + a, 0x80 + b, 0x80 + c]" using r by (simp add: encode_rune_def d)
    ultimately show ?thesis using n(2,3) unfolding n(1) [symmetric] by (auto simp: n(1) decode_rune_def cont_byte_def)
  qed
  moreover have ?thesis if r: "0x10000 \<le> r"
  proof -
    obtain a b c e where d: "a = r div 0x40000" "b = r div 0x1000 mod 0x40" "c = r div 0x40 mod 0x40" "e = r mod 0x40" by blast
    then have n: "r = a * 0x40000 + b * 0x1000 + c * 0x40 + e" "b < 0x40" "c < 0x40" "e < 0x40"
      using digits64(2) [of r] by simp_all
    then have "a < 5" "a = 0 \<longrightarrow> 0x10 \<le> b" "a = 4 \<longrightarrow> b < 0x10" using r assms by (auto simp: scalar_def)
    moreover have "encode_rune r = [0xF0 + a, 0x80 + b, 0x80 + c, 0x80 + e]" using r by (simp add: encode_rune_def d)
    ultimately show ?thesis using n(2-4) unfolding n(1) [symmetric] by (auto simp: n(1) decode_rune_def cont_byte_def)
  qed
  ultimately show ?thesis by blast
qed

lemma decode_runes_encoded:
  "scalar r \<Longrightarrow> decode_runes (encode_rune r @ rest) = r # decode_runes rest"
  using decode_encoded [of r rest] by auto

lemma decode_runes_scalars: "\<forall>r \<in> set rs. scalar r \<Longrightarrow> decode_runes (concat (map encode_rune rs)) = rs"
  by (induction rs) (simp_all add: decode_runes_encoded)

lemma decode_rune_scalar: "b < 0x100 \<Longrightarrow> \<forall>x \<in> set bs. x < 0x100 \<Longrightarrow> scalar (fst (decode_rune b bs))"
proof -
  assume b: "b < 0x100" "\<forall>x \<in> set bs. x < 0x100"
  have three: "scalar ((b - 0xE0) * 0x1000 + (x - 0x80) * 0x40 + (y - 0x80))"
    if "b \<le> 0xEF" "cont_byte x" "cont_byte y" "b = 0xED \<longrightarrow> x \<le> 0x9F" for x y
  proof -
    have "b - 0xE0 < 0xD \<or> b - 0xE0 = 0xD \<and> x - 0x80 < 0x20 \<or> 0xE \<le> b - 0xE0 \<and> b - 0xE0 \<le> 0xF"
      using that by (auto simp: cont_byte_def)
    moreover have "x - 0x80 < 0x40" "y - 0x80 < 0x40" using that by (auto simp: cont_byte_def)
    ultimately show ?thesis unfolding scalar_def by linarith
  qed
  have two: "scalar ((b - 0xC0) * 0x40 + (x - 0x80))" if "b \<le> 0xDF" "cont_byte x" for x
    using that by (auto simp: cont_byte_def scalar_def)
  have four: "scalar ((b - 0xF0) * 0x40000 + (x - 0x80) * 0x1000 + (y - 0x80) * 0x40 + (z - 0x80))"
    if "0xF0 \<le> b" "b \<le> 0xF4" "cont_byte x" "cont_byte y" "cont_byte z" "b = 0xF0 \<longrightarrow> 0x90 \<le> x" "b = 0xF4 \<longrightarrow> x \<le> 0x8F" for x y z
  proof -
    have "b - 0xF0 = 0 \<and> 0x10 \<le> x - 0x80 \<or> 1 \<le> b - 0xF0 \<and> b - 0xF0 \<le> 3 \<or> b - 0xF0 = 4 \<and> x - 0x80 < 0x10"
      using that by (auto simp: cont_byte_def)
    moreover have "x - 0x80 < 0x40" "y - 0x80 < 0x40" "z - 0x80 < 0x40" using that by (auto simp: cont_byte_def)
    ultimately show ?thesis unfolding scalar_def by linarith
  qed
  show ?thesis
    using two three four by (simp add: decode_rune_def) (simp add: scalar_def)
qed

lemma runes_scalar: "r \<in> set (runes s) \<Longrightarrow> scalar r"
proof -
  have "r \<in> set (decode_runes bs) \<Longrightarrow> \<forall>b \<in> set bs. b < 0x100 \<Longrightarrow> scalar r" for bs
  proof (induction bs rule: decode_runes.induct)
    case (2 b bs)
    have "\<forall>x \<in> set (drop (snd (decode_rune b bs)) bs). x < 0x100" using "2.prems"(2) by (auto dest: in_set_dropD)
    then show ?case using 2 decode_rune_scalar [of b bs] by auto
  qed simp
  then show "r \<in> set (runes s) \<Longrightarrow> scalar r" by (fastforce simp: runes_def)
qed

lemma of_char_char_of: "b < 0x100 \<Longrightarrow> of_char (char_of b) = b" for b :: nat
  by (simp add: of_char_of)

text \<open>What has travelled once travels unchanged: the strings that come out of JSON are valid.\<close>

lemma valid_json_string: "valid_utf8 (json_string s)"
proof -
  let ?bs = "concat (map encode_rune (runes s))"
  have "b < 0x100" if "b \<in> set ?bs" for b
    using that runes_scalar decode_encoded [where rest = "[]"] by fastforce
  then have "map (\<lambda>b. of_char (char_of b :: char)) ?bs = ?bs" by (intro map_idI of_char_char_of)
  then have "map of_char (map char_of ?bs :: string) = ?bs" by (simp only: map_map comp_def)
  then have "runes (json_string s) = runes s"
    using decode_runes_scalars [of "runes s"] runes_scalar by (simp add: runes_def json_string_def)
  then show ?thesis by (simp add: valid_utf8_def json_string_def)
qed

lemma valid_ascii: "\<forall>c \<in> set s. of_char c < (0x80 :: nat) \<Longrightarrow> valid_utf8 s"
proof -
  assume a: "\<forall>c \<in> set s. of_char c < (0x80 :: nat)"
  have "concat (map encode_rune bs) = bs" if "\<forall>b \<in> set bs. b < 0x80" for bs
    using that by (induction bs) (simp_all add: encode_rune_def)
  then have "concat (map encode_rune (runes s)) = map of_char s"
  proof -
    have "\<forall>b \<in> set (map of_char s). b < (0x80 :: nat)" using a by simp
    with \<open>\<And>bs. \<forall>b \<in> set bs. b < 0x80 \<Longrightarrow> concat (map encode_rune bs) = bs\<close> [OF this] show ?thesis
      unfolding runes_def by (simp only: decode_runes_ascii)
  qed
  then show ?thesis by (simp add: valid_utf8_def json_string_def map_idI)
qed

section \<open>Maps\<close>

text \<open>
  A map is written with its keys sorted; two keys that became the same are one when it is read,
  with the value of the last.
\<close>

definition json_entries :: "('v \<Rightarrow> 'w) \<Rightarrow> 'v entries \<Rightarrow> 'w entries" where
  "json_entries f kvs = fold (\<lambda>(k, v) m. AList.update (json_string k) (f v) m) (sort_key fst kvs) []"

definition json_map :: "('v \<Rightarrow> 'w) \<Rightarrow> 'v gomap \<Rightarrow> 'w gomap" where
  "json_map f m = map_option (json_entries f) m"

definition utf8_keys :: "'v gomap \<Rightarrow> bool" where
  "utf8_keys m \<longleftrightarrow> (\<forall>k \<in> fst ` set (entries m). valid_utf8 k)"

lemma fold_update_keys:
  "kvs_ok m \<Longrightarrow> (\<forall>(k, w) \<in> set m. valid_utf8 k \<and> P w) \<Longrightarrow> \<forall>(k, v) \<in> set kvs. P (f v) \<Longrightarrow>
     kvs_ok (fold (\<lambda>(k, v) m. AList.update (json_string k) (f v) m) kvs m)
     \<and> (\<forall>(k, w) \<in> set (fold (\<lambda>(k, v) m. AList.update (json_string k) (f v) m) kvs m). valid_utf8 k \<and> P w)"
proof (induction kvs arbitrary: m)
  case (Cons kv kvs)
  obtain k v where kv: "kv = (k, v)" by (cases kv)
  have up: "kvs_ok (AList.update (json_string k) (f v) m)" using Cons.prems(1) by simp
  have "\<forall>(k', w) \<in> set (AList.update (json_string k) (f v) m). valid_utf8 k' \<and> P w"
  proof (clarify, goal_cases)
    case (1 k' w)
    then have "map_of (AList.update (json_string k) (f v) m) k' = Some w"
      using kvs_ok_map_of [OF up] by blast
    then show ?case
      using Cons.prems by (auto simp: kv valid_json_string kvs_ok_map_of split: if_splits)
  qed
  from Cons.IH [OF up this] Cons.prems(3) show ?case by (simp add: kv)
qed simp

lemma json_entries_ok:
  assumes "\<forall>(k, v) \<in> set kvs. P (f v)"
  shows "kvs_ok (json_entries f kvs) \<and> (\<forall>(k, w) \<in> set (json_entries f kvs). valid_utf8 k \<and> P w)"
  unfolding json_entries_def by (rule fold_update_keys) (use assms in simp_all)

lemma map_of_fold_update:
  "kvs_ok kvs \<Longrightarrow> \<forall>k \<in> fst ` set kvs. valid_utf8 k \<Longrightarrow>
     map_of (fold (\<lambda>(k, v) m. AList.update (json_string k) (f v) m) kvs m) k
       = (case map_of kvs k of Some v \<Rightarrow> Some (f v) | None \<Rightarrow> map_of m k)"
proof (induction kvs arbitrary: m)
  case (Cons kv kvs)
  obtain k' v where kv: "kv = (k', v)" by (cases kv)
  then have k': "json_string k' = k'" "k' \<notin> fst ` set kvs" using Cons.prems by (simp_all add: valid_utf8_def)
  then have "map_of kvs k' = None" by (simp add: map_of_eq_None_iff)
  with k'(1) show ?case
    using Cons.IH [of "AList.update k' (f v) m"] Cons.prems by (simp add: kv split: option.splits)
qed simp

lemma map_of_json_entries:
  assumes "kvs_ok kvs" and "\<forall>k \<in> fst ` set kvs. valid_utf8 k"
  shows "map_of (json_entries f kvs) k = map_option f (map_of kvs k)"
proof -
  have "mset (map fst (sort_key fst kvs)) = mset (map fst kvs)" by simp
  then have sorted: "kvs_ok (sort_key fst kvs)" using assms(1) mset_eq_imp_distinct_iff unfolding kvs_ok_def by blast
  have "map_of (sort_key fst kvs) k = Some v \<longleftrightarrow> map_of kvs k = Some v" for v
    using kvs_ok_map_of [OF sorted] kvs_ok_map_of [OF assms(1)] by simp
  then have "map_of (sort_key fst kvs) k = map_of kvs k" by (cases "map_of kvs k") force+
  then show ?thesis
    using map_of_fold_update [OF sorted, where f = f and m = "[]" and k = k] assms(2)
    by (simp add: json_entries_def split: option.splits)
qed

lemma map_get_json_map:
  "kvs_ok (entries m) \<Longrightarrow> utf8_keys m \<Longrightarrow> map_get (json_map f m) k = map_option f (map_get m k)"
  by (cases m) (simp_all add: json_map_def utf8_keys_def map_of_json_entries)

lemma json_map_ok:
  assumes "\<forall>(k, v) \<in> set (entries m). P (f v)"
  shows "kvs_ok (entries (json_map f m))" and "\<forall>(k, w) \<in> set (entries (json_map f m)). P w" and "utf8_keys (json_map f m)"
  using json_entries_ok [of "entries m" P f] assms by (cases m; fastforce simp: json_map_def utf8_keys_def)+

section \<open>Sets of tokens and of addresses\<close>

definition json_SetPile :: "SetPile \<Rightarrow> SetPile" where
  "json_SetPile pile = \<lparr>SetPile_List = map json_string (SetPile_List pile), SetPile_m = None\<rparr>"

text \<open>An address is written as text, which \<open>ParseIP\<close> reads into sixteen bytes.\<close>

definition json_ip :: "ip \<Rightarrow> ip" where
  "json_ip i = (if length i = 4 then v4InV6Prefix @ i else i)"

definition json_IpSetPile :: "IpSetPile \<Rightarrow> IpSetPile" where
  "json_IpSetPile pile = \<lparr>IpSetPile_List = map json_ip (IpSetPile_List pile), IpSetPile_m = None\<rparr>"

definition set_utf8 :: "SetPile \<Rightarrow> bool" where
  "set_utf8 p \<longleftrightarrow> (\<forall>s \<in> set (SetPile_List p). valid_utf8 s)"

definition ips_wide :: "IpSetPile \<Rightarrow> bool" where
  "ips_wide p \<longleftrightarrow> (\<forall>i \<in> set (IpSetPile_List p). length i = 16)"

lemma json_set_kept:
  assumes "set_pwf p" and "set_utf8 p"
  shows "set_pwf (json_SetPile p)" and "set_covers p v \<Longrightarrow> set_covers (json_SetPile p) v"
proof -
  have "map json_string (SetPile_List p) = SetPile_List p"
    using assms(2) by (intro map_idI) (simp add: set_utf8_def valid_utf8_def)
  then show "set_pwf (json_SetPile p)" "set_covers p v \<Longrightarrow> set_covers (json_SetPile p) v"
    using assms(1) by (simp_all add: json_SetPile_def set_pwf_def set_covers_def)
qed

lemma json_set_utf8: "set_utf8 (json_SetPile p)"
  by (simp add: set_utf8_def json_SetPile_def valid_json_string)

lemma json_ip_wide: "valid_ip i \<Longrightarrow> length (json_ip i) = 16"
  by (auto simp: valid_ip_def json_ip_def v4InV6Prefix_def)

lemma json_ip_norm4: "norm4 (json_ip i) = norm4 i"
proof (cases "length i = 4")
  case True
  moreover have "length v4InV6Prefix = 12" by (simp add: v4InV6Prefix_def)
  ultimately show ?thesis by (simp add: json_ip_def norm4_def To4_def)
qed (simp add: json_ip_def)

lemma json_ips_kept:
  assumes "ips_pwf p"
  shows "ips_pwf (json_IpSetPile p)" and "ips_wide (json_IpSetPile p)" and "ips_covers p v \<Longrightarrow> ips_covers (json_IpSetPile p) v"
proof -
  have "\<forall>i \<in> set (IpSetPile_List p). length (json_ip i) = 16" using assms json_ip_wide by (auto simp: ips_pwf_def)
  then show "ips_pwf (json_IpSetPile p)" "ips_wide (json_IpSetPile p)"
    by (auto simp: ips_pwf_def ips_wide_def json_IpSetPile_def valid_ip_def)
  have "norm4 ` json_ip ` A = norm4 ` A" for A by (simp add: image_image json_ip_norm4)
  then show "ips_covers p v \<Longrightarrow> ips_covers (json_IpSetPile p) v"
    by (simp add: ips_covers_def json_IpSetPile_def)
qed

section \<open>Maps of values\<close>

definition json_KeyValPile :: "KeyValPile \<Rightarrow> KeyValPile" where
  "json_KeyValPile pile = json_map (\<lambda>svp. svp) pile"

text \<open>A pointer to a pile: nil and a pointer to nil are both null.\<close>

definition json_kv_pointer :: "KeyValPile option \<Rightarrow> KeyValPile option" where
  "json_kv_pointer p = (case p of Some (Some kvs) \<Rightarrow> Some (json_KeyValPile (Some kvs)) | _ \<Rightarrow> None)"

lemma json_kv_kept:
  assumes "kv_pwf p"
  shows "kv_pwf (json_KeyValPile p)" and "utf8_keys (json_KeyValPile p)"
    and "utf8_keys p \<Longrightarrow> kv_covers p v \<Longrightarrow> kv_covers (json_KeyValPile p) v"
proof -
  have "\<forall>(k, q) \<in> set (entries p). q \<noteq> None" using assms by (simp add: kv_pwf_def)
  note ok = json_map_ok [where f = "\<lambda>svp. svp" and P = "\<lambda>q. q \<noteq> None" and m = p, OF this]
  show "kv_pwf (json_KeyValPile p)" "utf8_keys (json_KeyValPile p)"
    using ok by (simp_all add: kv_pwf_def json_KeyValPile_def)
  assume u: "utf8_keys p" and c: "kv_covers p v"
  have "kvs_ok (entries p)" using assms by (simp add: kv_pwf_def)
  from map_get_json_map [OF this u, where f = "\<lambda>svp. svp"]
  have "map_get (json_KeyValPile p) k = map_get p k" for k by (simp add: json_KeyValPile_def option.map_ident)
  with c show "kv_covers (json_KeyValPile p) v" unfolding kv_covers_def by presburger
qed

lemma json_kv_pointer_deref: "or_new None (json_kv_pointer p) = json_KeyValPile (or_new None p)"
  by (simp add: json_kv_pointer_def or_new_def json_KeyValPile_def json_map_def split: option.split)

section \<open>Requests and responses\<close>

definition json_HeadersPile :: "HeadersPile \<Rightarrow> HeadersPile" where
  "json_HeadersPile pile = \<lparr>HQ_Kv = json_kv_pointer (HQ_Kv pile)\<rparr>"

definition json_QueryPile :: "QueryPile \<Rightarrow> QueryPile" where
  "json_QueryPile pile = \<lparr>QQ_Kv = json_kv_pointer (QQ_Kv pile)\<rparr>"

definition json_MediaTypePile :: "MediaTypePile \<Rightarrow> MediaTypePile" where
  "json_MediaTypePile pile =
     \<lparr>MQ_TypeTokens = json_SetPile (MQ_TypeTokens pile), MQ_Params = json_KeyValPile (MQ_Params pile)\<rparr>"

definition json_ReqPile :: "ReqPile \<Rightarrow> ReqPile" where
  "json_ReqPile pile = pile\<lparr>RQ_ClientIp := json_IpSetPile (RQ_ClientIp pile), RQ_HopIp := json_IpSetPile (RQ_HopIp pile),
     RQ_Method := json_SetPile (RQ_Method pile), RQ_Proto := json_SetPile (RQ_Proto pile),
     RQ_MediaType := json_MediaTypePile (RQ_MediaType pile), RQ_Qs := json_QueryPile (RQ_Qs pile),
     RQ_Headers := json_HeadersPile (RQ_Headers pile)\<rparr>"

definition json_RespPile :: "RespPile \<Rightarrow> RespPile" where
  "json_RespPile pile = pile\<lparr>RespQ_Headers := json_HeadersPile (RespQ_Headers pile),
     RespQ_MediaType := json_MediaTypePile (RespQ_MediaType pile)\<rparr>"

definition headers_utf8 :: "HeadersPile \<Rightarrow> bool" where
  "headers_utf8 p = utf8_keys (or_new None (HQ_Kv p))"

definition query_utf8 :: "QueryPile \<Rightarrow> bool" where
  "query_utf8 p = utf8_keys (or_new None (QQ_Kv p))"

definition media_utf8 :: "MediaTypePile \<Rightarrow> bool" where
  "media_utf8 p \<longleftrightarrow> set_utf8 (MQ_TypeTokens p) \<and> utf8_keys (MQ_Params p)"

definition req_utf8 :: "ReqPile \<Rightarrow> bool" where
  "req_utf8 p \<longleftrightarrow> set_utf8 (RQ_Method p) \<and> set_utf8 (RQ_Proto p) \<and> media_utf8 (RQ_MediaType p) \<and> query_utf8 (RQ_Qs p)
     \<and> headers_utf8 (RQ_Headers p)"

definition req_wide :: "ReqPile \<Rightarrow> bool" where
  "req_wide p \<longleftrightarrow> ips_wide (RQ_ClientIp p) \<and> ips_wide (RQ_HopIp p)"

definition resp_utf8 :: "RespPile \<Rightarrow> bool" where
  "resp_utf8 p \<longleftrightarrow> headers_utf8 (RespQ_Headers p) \<and> media_utf8 (RespQ_MediaType p)"

lemmas utf8_defs = headers_utf8_def query_utf8_def media_utf8_def req_utf8_def resp_utf8_def
lemmas json_http_defs = json_HeadersPile_def json_QueryPile_def json_MediaTypePile_def json_ReqPile_def json_RespPile_def

lemma json_req_kept:
  assumes "req_pwf p" and "req_utf8 p"
  shows "req_pwf (json_ReqPile p)" and "req_covers p v \<Longrightarrow> req_covers (json_ReqPile p) v"
  using assms
  by (simp_all add: req_pwf_def req_covers_def utf8_defs json_http_defs headers_defs query_defs media_defs
      json_kv_pointer_deref json_set_kept json_ips_kept json_kv_kept)

lemma json_req_travelled: "req_pwf p \<Longrightarrow> req_utf8 (json_ReqPile p) \<and> req_wide (json_ReqPile p)"
  by (simp add: req_pwf_def req_wide_def utf8_defs json_http_defs headers_defs query_defs media_defs
      json_kv_pointer_deref json_set_utf8 json_ips_kept json_kv_kept)

lemma json_resp_kept:
  assumes "resp_pwf p" and "resp_utf8 p"
  shows "resp_pwf (json_RespPile p)" and "resp_covers p v \<Longrightarrow> resp_covers (json_RespPile p) v"
  using assms
  by (simp_all add: resp_pwf_def resp_covers_def utf8_defs json_http_defs headers_defs media_defs
      json_kv_pointer_deref json_set_kept json_kv_kept)

lemma json_resp_travelled: "resp_pwf p \<Longrightarrow> resp_utf8 (json_RespPile p)"
  by (simp add: resp_pwf_def utf8_defs json_http_defs headers_defs media_defs json_kv_pointer_deref json_set_utf8 json_kv_kept)

section \<open>Bodies, peers and sessions\<close>

definition json_StructuredPile :: "StructuredPile \<Rightarrow> StructuredPile" where
  "json_StructuredPile pile = pile\<lparr>SQ_Kind := json_string (SQ_Kind pile), SQ_Kv := json_KeyValPile (SQ_Kv pile)\<rparr>"

definition json_BodyPile :: "BodyPile \<Rightarrow> BodyPile" where
  "json_BodyPile pile = pile\<lparr>BQ_Faults := json_SetPile (BQ_Faults pile),
     BQ_Structured := map_option json_StructuredPile (BQ_Structured pile)\<rparr>"

definition json_PodPile :: "PodPile \<Rightarrow> PodPile" where
  "json_PodPile pile =
     \<lparr>PQ_Tcp4Peers = json_IpSetPile (PQ_Tcp4Peers pile), PQ_Udp4Peers = json_IpSetPile (PQ_Udp4Peers pile),
      PQ_Udplite4Peers = json_IpSetPile (PQ_Udplite4Peers pile), PQ_Tcp6Peers = json_IpSetPile (PQ_Tcp6Peers pile),
      PQ_Udp6Peers = json_IpSetPile (PQ_Udp6Peers pile), PQ_Udplite6Peers = json_IpSetPile (PQ_Udplite6Peers pile)\<rparr>"

definition json_SessionDataPile :: "SessionDataPile \<Rightarrow> SessionDataPile" where
  "json_SessionDataPile pile = pile\<lparr>SDQ_Req := json_ReqPile (SDQ_Req pile), SDQ_Resp := json_RespPile (SDQ_Resp pile),
     SDQ_ReqBody := json_BodyPile (SDQ_ReqBody pile), SDQ_RespBody := json_BodyPile (SDQ_RespBody pile),
     SDQ_Pod := json_PodPile (SDQ_Pod pile)\<rparr>"

definition body_utf8 :: "BodyPile \<Rightarrow> bool" where
  "body_utf8 p \<longleftrightarrow> set_utf8 (BQ_Faults p) \<and> (\<forall>s. BQ_Structured p = Some s \<longrightarrow> utf8_keys (SQ_Kv s))"

definition pod_wide :: "PodPile \<Rightarrow> bool" where
  "pod_wide p \<longleftrightarrow> ips_wide (PQ_Tcp4Peers p) \<and> ips_wide (PQ_Udp4Peers p) \<and> ips_wide (PQ_Udplite4Peers p)
     \<and> ips_wide (PQ_Tcp6Peers p) \<and> ips_wide (PQ_Udp6Peers p) \<and> ips_wide (PQ_Udplite6Peers p)"

text \<open>A pile whose strings are valid, and one that has travelled: its addresses are in the long form.\<close>

definition session_utf8 :: "SessionDataPile \<Rightarrow> bool" where
  "session_utf8 p \<longleftrightarrow> req_utf8 (SDQ_Req p) \<and> resp_utf8 (SDQ_Resp p) \<and> body_utf8 (SDQ_ReqBody p) \<and> body_utf8 (SDQ_RespBody p)"

definition session_travelled :: "SessionDataPile \<Rightarrow> bool" where
  "session_travelled p \<longleftrightarrow> session_utf8 p \<and> req_wide (SDQ_Req p) \<and> pod_wide (SDQ_Pod p)"

lemma kind_utf8: "k \<in> kinds \<Longrightarrow> json_string k = k"
proof -
  have "list_all (\<lambda>k. json_string k = k) [KindEmpty, KindObject, KindArray, KindBoolean, KindNumber, KindString, KindMulti]"
    by code_simp
  then show "k \<in> kinds \<Longrightarrow> json_string k = k" by (auto simp: kinds_def)
qed

lemma json_structured_kept:
  assumes "sq_pwf p"
  shows "sq_pwf (json_StructuredPile p)" and "utf8_keys (SQ_Kv (json_StructuredPile p))"
    and "utf8_keys (SQ_Kv p) \<Longrightarrow> sq_covers p v \<Longrightarrow> sq_covers (json_StructuredPile p) v"
  using assms kind_utf8 [of "SQ_Kind p"]
  by (auto simp: sq_pwf_def sq_covers_def json_StructuredPile_def json_kv_kept split: if_splits)

lemma json_body_kept:
  assumes "body_pwf p" and "body_utf8 p"
  shows "body_pwf (json_BodyPile p)" and "body_covers p v \<Longrightarrow> body_covers (json_BodyPile p) v"
  using assms by (auto simp: body_pwf_def body_utf8_def body_covers_def json_BodyPile_def json_set_kept json_structured_kept)

lemma json_body_travelled: "body_pwf p \<Longrightarrow> body_utf8 (json_BodyPile p)"
  by (auto simp: body_pwf_def body_utf8_def json_BodyPile_def json_set_utf8 json_structured_kept)

lemma json_pod_kept:
  assumes "pod_pwf p"
  shows "pod_pwf (json_PodPile p)" and "pod_wide (json_PodPile p)" and "pod_covers p v \<Longrightarrow> pod_covers (json_PodPile p) v"
  using assms by (simp_all add: pod_pwf_def pod_wide_def pod_covers_def json_PodPile_def json_ips_kept)

lemma json_session_Count [simp]: "SDQ_Count (json_SessionDataPile p) = SDQ_Count p"
  by (simp add: json_SessionDataPile_def)

lemma json_session_kept:
  assumes "session_pwf p" and "session_utf8 p"
  shows "session_pwf (json_SessionDataPile p)" and "session_covers p v \<Longrightarrow> session_covers (json_SessionDataPile p) v"
  using assms
  by (simp_all add: session_pwf_def session_utf8_def session_covers_def json_SessionDataPile_def
      json_req_kept json_resp_kept json_body_kept json_pod_kept)

lemma json_session_travelled: "session_pwf p \<Longrightarrow> session_travelled (json_SessionDataPile p)"
  by (simp add: session_pwf_def session_travelled_def session_utf8_def json_SessionDataPile_def
      json_req_travelled json_resp_travelled json_body_travelled json_pod_kept)

section \<open>Merging what has travelled\<close>

lemma set_utf8_Merge: "set_pwf p \<Longrightarrow> set_utf8 p \<Longrightarrow> set_utf8 q \<Longrightarrow> set_utf8 (SetPile_Merge p q)"
  using SetPile_Merge_ok [of p q] by (auto simp: set_utf8_def)

lemma ips_wide_Merge:
  assumes "ips_wide p" and "ips_wide q"
  shows "ips_wide (IpSetPile_Merge p q)"
proof -
  have "insert_ips vs (xs, m) = (xs', m') \<Longrightarrow> set xs' \<subseteq> set xs \<union> set vs" for vs xs m xs' m'
    by (induction vs arbitrary: xs m) (fastforce simp: Let_def split: if_splits)+
  moreover obtain xs m where i: "insert_ips (IpSetPile_List q) (IpSetPile_List p, IpSetPile_index p) = (xs, m)" by fastforce
  ultimately have "set xs \<subseteq> set (IpSetPile_List p) \<union> set (IpSetPile_List q)" by blast
  then show ?thesis using assms i unfolding ips_wide_def IpSetPile_Merge_def by auto
qed

lemma update_keys: "fst ` set (AList.update k v m) \<subseteq> insert k (fst ` set m)"
  by (induction m) auto

lemma AList_delete_keys: "fst ` set (AList.delete k m) \<subseteq> fst ` set m"
  by (induction m) auto

lemma merge_key_keys:
  assumes "merge_key (k, v) m = Inr m'"
  shows "fst ` set m' \<subseteq> insert k (fst ` set m)"
proof -
  obtain w where "m' = AList.update k w m" using assms by (auto simp: merge_key_def Let_def bind_res_Inr)
  then show ?thesis by (simp add: update_keys)
qed

lemma merge_keys: "fold_res merge_key kvs m = Inr m' \<Longrightarrow> fst ` set m' \<subseteq> fst ` set kvs \<union> fst ` set m"
proof (induction kvs arbitrary: m)
  case (Cons kv kvs)
  obtain k v where kv: "kv = (k, v)" by (cases kv)
  then obtain m1 where m1: "merge_key (k, v) m = Inr m1" "fold_res merge_key kvs m1 = Inr m'"
    using Cons.prems by (auto simp: bind_res_Inr)
  from Cons.IH [OF m1(2)] merge_key_keys [OF m1(1)] show ?case unfolding kv by auto
qed simp

lemma kv_utf8_Merge:
  assumes "utf8_keys p" and "utf8_keys q" and "KeyValPile_Merge p q = Inr r"
  shows "utf8_keys r"
proof (cases p)
  case None
  then show ?thesis using assms by (simp add: KeyValPile_Merge_def)
next
  case (Some kvs)
  then obtain m where m: "fold_res merge_key (entries q) kvs = Inr m" "r = Some m"
    using assms(3) by (auto simp: KeyValPile_Merge_def bind_res_Inr)
  have "fst ` set (entries r) \<subseteq> fst ` set (entries q) \<union> fst ` set (entries p)" using merge_keys [OF m(1)] m(2) Some by simp
  then show ?thesis using assms(1,2) unfolding utf8_keys_def by blast
qed

lemma utf8_keys_nil [simp]: "utf8_keys None" "utf8_keys (Some [])"
  by (simp_all add: utf8_keys_def)

lemma headers_utf8_Merge: "headers_utf8 p \<Longrightarrow> headers_utf8 q \<Longrightarrow> HeadersPile_Merge p q = Inr r \<Longrightarrow> headers_utf8 r"
  by (cases "HQ_Kv q") (auto simp: headers_utf8_def HeadersPile_Merge_def bind_res_Inr Let_def dest: kv_utf8_Merge)

lemma query_utf8_Merge: "query_utf8 p \<Longrightarrow> query_utf8 q \<Longrightarrow> QueryPile_Merge p q = Inr r \<Longrightarrow> query_utf8 r"
  by (cases "QQ_Kv q") (auto simp: query_utf8_def QueryPile_Merge_def bind_res_Inr Let_def dest: kv_utf8_Merge)

lemma media_utf8_Merge:
  "media_pwf p \<Longrightarrow> media_utf8 p \<Longrightarrow> media_utf8 q \<Longrightarrow> MediaTypePile_Merge p q = Inr r \<Longrightarrow> media_utf8 r"
  by (auto simp: media_utf8_def media_pwf_def MediaTypePile_Merge_def bind_res_Inr Let_def set_utf8_Merge dest: kv_utf8_Merge)

lemma req_travelled_Merge:
  assumes "req_pwf p" and "req_utf8 p" and "req_wide p" and "req_utf8 q" and "req_wide q" and "ReqPile_Merge p q = Inr r"
  shows "req_utf8 r \<and> req_wide r"
proof -
  obtain mt qs hs where m: "MediaTypePile_Merge (RQ_MediaType p) (RQ_MediaType q) = Inr mt"
      "QueryPile_Merge (RQ_Qs p) (RQ_Qs q) = Inr qs" "HeadersPile_Merge (RQ_Headers p) (RQ_Headers q) = Inr hs"
    and r: "RQ_MediaType r = mt" "RQ_Qs r = qs" "RQ_Headers r = hs" "RQ_HopIp r = RQ_HopIp p"
      "RQ_ClientIp r = IpSetPile_Merge (RQ_ClientIp p) (RQ_ClientIp q)"
      "RQ_Method r = SetPile_Merge (RQ_Method p) (RQ_Method q)" "RQ_Proto r = SetPile_Merge (RQ_Proto p) (RQ_Proto q)"
    using assms(6) by (auto simp: ReqPile_Merge_def bind_res_Inr Let_def)
  show ?thesis
    using assms(1-5) media_utf8_Merge [OF _ _ _ m(1)] query_utf8_Merge [OF _ _ m(2)] headers_utf8_Merge [OF _ _ m(3)]
    by (simp add: req_utf8_def req_wide_def req_pwf_def r set_utf8_Merge ips_wide_Merge)
qed

lemma resp_utf8_Merge:
  "resp_pwf p \<Longrightarrow> resp_utf8 p \<Longrightarrow> resp_utf8 q \<Longrightarrow> RespPile_Merge p q = Inr r \<Longrightarrow> resp_utf8 r"
  by (auto simp: resp_utf8_def resp_pwf_def RespPile_Merge_def bind_res_Inr dest: headers_utf8_Merge media_utf8_Merge)

lemma structured_utf8_Merge:
  assumes "utf8_keys (SQ_Kv p)" and "utf8_keys (SQ_Kv q)" and "StructuredPile_Merge p q = Inr r"
  shows "utf8_keys (SQ_Kv r)"
proof -
  have "utf8_keys (made_map (SQ_Kv p))" using assms(1) by (cases "SQ_Kv p") (simp_all add: made_map_def)
  from kv_utf8_Merge [OF this assms(2)] show ?thesis
    using assms(1,3) by (auto simp: StructuredPile_Merge_def Let_def bind_res_Inr split: if_splits)
qed

lemma body_utf8_Merge:
  assumes "body_pwf p" and "body_utf8 p" and "body_utf8 q" and "BodyPile_Merge p q = Inr r"
  shows "body_utf8 r"
proof -
  have f: "set_utf8 (SetPile_Merge (BQ_Faults p) (BQ_Faults q))"
    using assms(1-3) by (simp add: body_pwf_def body_utf8_def set_utf8_Merge)
  have n: "utf8_keys (SQ_Kv (or_new new_StructuredPile (BQ_Structured p)))"
    using assms(2) by (cases "BQ_Structured p") (simp_all add: body_utf8_def new_StructuredPile_def)
  have r: "BQ_Faults r = SetPile_Merge (BQ_Faults p) (BQ_Faults q)"
    "BQ_Structured q = None \<and> BQ_Structured r = BQ_Structured p \<or>
       (\<exists>s t. BQ_Structured q = Some s \<and> StructuredPile_Merge (or_new new_StructuredPile (BQ_Structured p)) s = Inr t
          \<and> BQ_Structured r = Some t)"
    using assms(4) by (auto simp: BodyPile_Merge_def Let_def bind_res_Inr split: option.splits)
  then show ?thesis
    using f assms(2,3) structured_utf8_Merge [OF n] unfolding body_utf8_def by auto
qed

lemma pod_wide_Merge: "pod_wide p \<Longrightarrow> pod_wide q \<Longrightarrow> pod_wide (PodPile_Merge p q)"
  by (simp add: pod_wide_def PodPile_Merge_def ips_wide_Merge)

lemma session_travelled_Merge:
  assumes "session_pwf p" and "session_travelled p" and "session_travelled q" and "SessionDataPile_Merge p q = Inr r"
  shows "session_travelled r"
proof -
  obtain rq rs qb rb where m: "ReqPile_Merge (SDQ_Req p) (SDQ_Req q) = Inr rq" "RespPile_Merge (SDQ_Resp p) (SDQ_Resp q) = Inr rs"
      "BodyPile_Merge (SDQ_ReqBody p) (SDQ_ReqBody q) = Inr qb" "BodyPile_Merge (SDQ_RespBody p) (SDQ_RespBody q) = Inr rb"
    and r: "SDQ_Req r = rq" "SDQ_Resp r = rs" "SDQ_ReqBody r = qb" "SDQ_RespBody r = rb" "SDQ_Pod r = PodPile_Merge (SDQ_Pod p) (SDQ_Pod q)"
    using assms(4) by (auto simp: SessionDataPile_Merge_def bind_res_Inr Let_def)
  show ?thesis
    using assms(1-3) req_travelled_Merge [OF _ _ _ _ _ m(1)] resp_utf8_Merge [OF _ _ _ m(2)]
      body_utf8_Merge [OF _ _ _ m(3)] body_utf8_Merge [OF _ _ _ m(4)]
    by (simp add: session_travelled_def session_utf8_def session_pwf_def r pod_wide_Merge)
qed

lemma session_travelled_Clear: "session_travelled p \<Longrightarrow> session_travelled (SessionDataPile_Clear p)"
  by (simp add: session_travelled_def session_utf8_def SessionDataPile_Clear_eq empty_SessionDataPile_def empty_ReqPile_def
      empty_RespPile_def new_BodyPile_def empty_PodPile_def empty_SetPile_def empty_IpSetPile_def empty_MediaTypePile_def
      utf8_defs body_utf8_def req_wide_def pod_wide_def set_utf8_def ips_wide_def)

lemma session_travelled_empty: "session_travelled empty_SessionDataPile"
  by (simp add: session_travelled_def session_utf8_def empty_SessionDataPile_def empty_ReqPile_def
      empty_RespPile_def new_BodyPile_def empty_PodPile_def empty_SetPile_def empty_IpSetPile_def empty_MediaTypePile_def
      utf8_defs body_utf8_def req_wide_def pod_wide_def set_utf8_def ips_wide_def)

section \<open>Profiles whose strings are valid\<close>

definition media_vutf8 :: "MediaTypeProfile \<Rightarrow> bool" where
  "media_vutf8 v \<longleftrightarrow> (\<forall>s \<in> set (tokens (MP_TypeTokens v)). valid_utf8 s) \<and> utf8_keys (MP_Params v)"

definition req_vutf8 :: "ReqProfile \<Rightarrow> bool" where
  "req_vutf8 v \<longleftrightarrow> (\<forall>s \<in> set (tokens (RP_Method v)) \<union> set (tokens (RP_Proto v)). valid_utf8 s) \<and> media_vutf8 (RP_MediaType v)
     \<and> utf8_keys (QP_Kv (RP_Qs v)) \<and> utf8_keys (HP_Kv (RP_Headers v))"

definition resp_vutf8 :: "RespProfile \<Rightarrow> bool" where
  "resp_vutf8 v \<longleftrightarrow> utf8_keys (HP_Kv (RespP_Headers v)) \<and> media_vutf8 (RespP_MediaType v)"

definition body_vutf8 :: "BodyProfile \<Rightarrow> bool" where
  "body_vutf8 v \<longleftrightarrow> (\<forall>s \<in> set (tokens (BP_Faults v)). valid_utf8 s) \<and> (\<forall>s. BP_Structured v = Some s \<longrightarrow> utf8_keys (SP_Kv s))"

definition session_vutf8 :: "SessionDataProfile \<Rightarrow> bool" where
  "session_vutf8 v \<longleftrightarrow> req_vutf8 (SDP_Req v) \<and> resp_vutf8 (SDP_Resp v) \<and> body_vutf8 (SDP_ReqBody v) \<and> body_vutf8 (SDP_RespBody v)"

lemma set_utf8_Add: "set_pwf p \<Longrightarrow> set_utf8 p \<Longrightarrow> \<forall>s \<in> set (tokens v). valid_utf8 s \<Longrightarrow> set_utf8 (SetPile_Add p v)"
  using SetPile_Add_ok [of p v] by (auto simp: set_utf8_def)

lemma add_key_keys:
  assumes "add_key (k, v) m = Inr m'"
  shows "fst ` set m' \<subseteq> insert k (fst ` set m)"
proof -
  obtain w where "m' = AList.update k w m" using assms by (auto simp: add_key_def Let_def bind_res_Inr)
  then show ?thesis by (simp add: update_keys)
qed

lemma kv_utf8_Add:
  assumes "utf8_keys p" and "utf8_keys v" and "KeyValPile_Add p v = Inr r"
  shows "utf8_keys r"
proof -
  have fold: "fold_res add_key kvs m = Inr m' \<Longrightarrow> fst ` set m' \<subseteq> fst ` set kvs \<union> fst ` set m" for kvs m m'
  proof (induction kvs arbitrary: m)
    case (Cons kv kvs)
    obtain k v where kv: "kv = (k, v)" by (cases kv)
    then obtain m1 where m1: "add_key (k, v) m = Inr m1" "fold_res add_key kvs m1 = Inr m'"
      using Cons.prems by (auto simp: bind_res_Inr)
    from Cons.IH [OF m1(2)] add_key_keys [OF m1(1)] show ?case unfolding kv by auto
  qed simp
  obtain m where m: "fold_res add_key (entries v) (entries p) = Inr m" "r = Some m"
    using assms(3) by (auto simp: KeyValPile_Add_def bind_res_Inr)
  have "fst ` set (entries r) \<subseteq> fst ` set (entries v) \<union> fst ` set (entries p)" using fold [OF m(1)] m(2) by simp
  then show ?thesis using assms(1,2) unfolding utf8_keys_def by blast
qed

lemma headers_utf8_Add: "headers_utf8 p \<Longrightarrow> utf8_keys (HP_Kv v) \<Longrightarrow> HeadersPile_Add p v = Inr r \<Longrightarrow> headers_utf8 r"
  by (auto simp: headers_utf8_def HeadersPile_Add_def bind_res_Inr dest: kv_utf8_Add)

lemma query_utf8_Add: "query_utf8 p \<Longrightarrow> utf8_keys (QP_Kv v) \<Longrightarrow> QueryPile_Add p v = Inr r \<Longrightarrow> query_utf8 r"
  by (auto simp: query_utf8_def QueryPile_Add_def bind_res_Inr dest: kv_utf8_Add)

lemma media_utf8_Add: "media_pwf p \<Longrightarrow> media_utf8 p \<Longrightarrow> media_vutf8 v \<Longrightarrow> MediaTypePile_Add p v = Inr r \<Longrightarrow> media_utf8 r"
  by (auto simp: media_utf8_def media_vutf8_def media_pwf_def MediaTypePile_Add_def bind_res_Inr Let_def set_utf8_Add dest: kv_utf8_Add)

lemma req_utf8_Add:
  assumes "req_pwf p" and "req_utf8 p" and "req_vutf8 v" and "ReqPile_Add p v = Inr r"
  shows "req_utf8 r"
proof -
  obtain mt qs hs where m: "MediaTypePile_Add (RQ_MediaType p) (RP_MediaType v) = Inr mt"
      "QueryPile_Add (RQ_Qs p) (RP_Qs v) = Inr qs" "HeadersPile_Add (RQ_Headers p) (RP_Headers v) = Inr hs"
    and r: "RQ_MediaType r = mt" "RQ_Qs r = qs" "RQ_Headers r = hs"
      "RQ_Method r = SetPile_Add (RQ_Method p) (RP_Method v)" "RQ_Proto r = SetPile_Add (RQ_Proto p) (RP_Proto v)"
    using assms(4) by (auto simp: ReqPile_Add_def bind_res_Inr Let_def)
  show ?thesis
    using assms(1-3) media_utf8_Add [OF _ _ _ m(1)] query_utf8_Add [OF _ _ m(2)] headers_utf8_Add [OF _ _ m(3)]
    by (simp add: req_utf8_def req_vutf8_def req_pwf_def r set_utf8_Add)
qed

lemma resp_utf8_Add:
  "resp_pwf p \<Longrightarrow> resp_utf8 p \<Longrightarrow> resp_vutf8 v \<Longrightarrow> RespPile_Add p v = Inr r \<Longrightarrow> resp_utf8 r"
  by (auto simp: resp_utf8_def resp_vutf8_def resp_pwf_def RespPile_Add_def bind_res_Inr dest: headers_utf8_Add media_utf8_Add)

lemma add_vals_keep_kv: "fold_res add_val vs q = Inr r \<Longrightarrow> SQ_Kv r = SQ_Kv q"
  by (induction vs arbitrary: q) (auto simp: bind_res_Inr add_val_def)

lemma structured_utf8_Add:
  assumes "utf8_keys (SQ_Kv p)" and "utf8_keys (SP_Kv v)" and "StructuredPile_Add p v = Inr r"
  shows "utf8_keys (SQ_Kv r)"
proof -
  have same: "utf8_keys (SQ_Kv r)" if a: "add_same_kind q v = Inr r" "SQ_Kv q = SQ_Kv p" for q
  proof -
    have "utf8_keys (made_map (SQ_Kv q))" using assms(1) a(2) by (cases "SQ_Kv p") (simp_all add: made_map_def)
    from kv_utf8_Add [OF this assms(2)] show ?thesis
      using a assms(1) by (auto simp: add_same_kind_def add_val_def bind_res_Inr dest: add_vals_keep_kv split: if_splits)
  qed
  then show ?thesis using assms(1,3) by (auto simp: StructuredPile_Add_def split: if_splits)
qed

lemma body_utf8_Add:
  assumes "body_pwf p" and "body_utf8 p" and "body_vutf8 v" and "BodyPile_Add p v = Inr r"
  shows "body_utf8 r"
proof -
  have f: "set_utf8 (SetPile_Add (BQ_Faults p) (BP_Faults v))"
    using assms(1-3) by (simp add: body_pwf_def body_utf8_def body_vutf8_def set_utf8_Add)
  have n: "utf8_keys (SQ_Kv (or_new new_StructuredPile (BQ_Structured p)))"
    using assms(2) by (cases "BQ_Structured p") (simp_all add: body_utf8_def new_StructuredPile_def)
  have "BQ_Faults r = SetPile_Add (BQ_Faults p) (BP_Faults v)"
    "BP_Structured v = None \<and> BQ_Structured r = BQ_Structured p \<or>
       (\<exists>s t. BP_Structured v = Some s \<and> StructuredPile_Add (or_new new_StructuredPile (BQ_Structured p)) s = Inr t
          \<and> BQ_Structured r = Some t)"
    using assms(4) by (auto simp: BodyPile_Add_def Let_def bind_res_Inr split: option.splits)
  then show ?thesis
    using f assms(2,3) structured_utf8_Add [OF n] unfolding body_utf8_def body_vutf8_def by auto
qed

text \<open>A pile of profiles with valid strings has valid strings.\<close>

lemma session_utf8_Add:
  assumes "session_pwf p" and "session_utf8 p" and "session_vutf8 v" and "SessionDataPile_Add p v = Inr r"
  shows "session_utf8 r"
proof -
  obtain rq rs qb rb where m: "ReqPile_Add (SDQ_Req p) (SDP_Req v) = Inr rq" "RespPile_Add (SDQ_Resp p) (SDP_Resp v) = Inr rs"
      "BodyPile_Add (SDQ_ReqBody p) (SDP_ReqBody v) = Inr qb" "BodyPile_Add (SDQ_RespBody p) (SDP_RespBody v) = Inr rb"
    and r: "SDQ_Req r = rq" "SDQ_Resp r = rs" "SDQ_ReqBody r = qb" "SDQ_RespBody r = rb"
    using assms(4) by (auto simp: SessionDataPile_Add_def bind_res_Inr Let_def)
  show ?thesis
    using assms(1-3) req_utf8_Add [OF _ _ _ m(1)] resp_utf8_Add [OF _ _ _ m(2)]
      body_utf8_Add [OF _ _ _ m(3)] body_utf8_Add [OF _ _ _ m(4)]
    by (simp add: session_utf8_def session_vutf8_def session_pwf_def r)
qed

lemma session_vutf8_new: "session_vutf8 new_SessionDataProfile"
  by (simp add: session_vutf8_def new_SessionDataProfile_def req_vutf8_def new_ReqProfile_def media_vutf8_def
      resp_vutf8_def new_RespProfile_def body_vutf8_def new_BodyProfile_def)

end
