(* ===== verification/Transport_Criteria.thy ===== *)
theory Transport_Criteria
  imports Transport_Piles
begin

text \<open>
  How criteria travel: the guard-service answers a gate with its guardian, and both the service and
  the gates read guardians from the cluster. Reading one back loses the indexes of the token sets,
  the scores and the table of scores; \<open>Prepare\<close> is what restores them.
\<close>

section \<open>What is read back\<close>

definition json_SetConfig :: "SetConfig \<Rightarrow> SetConfig" where
  "json_SetConfig c = \<lparr>SetConfig_List = map json_string (SetConfig_List c), SetConfig_m = None\<rparr>"

definition json_CIDR :: "CIDR \<Rightarrow> CIDR" where
  "json_CIDR c = c\<lparr>IP := json_ip (IP c)\<rparr>"

definition json_SimpleValConfig :: "SimpleValConfig \<Rightarrow> SimpleValConfig" where
  "json_SimpleValConfig c = c\<lparr>VC_score := 0\<rparr>"

definition json_KeyValConfig :: "KeyValConfig \<Rightarrow> KeyValConfig" where
  "json_KeyValConfig c =
     \<lparr>KC_Vals = json_map (map_option json_SimpleValConfig) (KC_Vals c),
      KC_OtherVals = map_option json_SimpleValConfig (KC_OtherVals c),
      KC_OtherKeynames = map_option json_SimpleValConfig (KC_OtherKeynames c),
      KC_valScores = KC_valScores new_KeyValConfig\<rparr>"

definition json_HeadersConfig :: "HeadersConfig \<Rightarrow> HeadersConfig" where
  "json_HeadersConfig c = \<lparr>HC_Kv = json_KeyValConfig (HC_Kv c)\<rparr>"

definition json_QueryConfig :: "QueryConfig \<Rightarrow> QueryConfig" where
  "json_QueryConfig c = \<lparr>QC_Kv = json_KeyValConfig (QC_Kv c)\<rparr>"

definition json_MediaTypeConfig :: "MediaTypeConfig \<Rightarrow> MediaTypeConfig" where
  "json_MediaTypeConfig c = \<lparr>MC_TypeTokens = json_SetConfig (MC_TypeTokens c), MC_Params = json_KeyValConfig (MC_Params c)\<rparr>"

definition json_UrlConfig :: "UrlConfig \<Rightarrow> UrlConfig" where
  "json_UrlConfig c = c\<lparr>UC_Val := json_SimpleValConfig (UC_Val c)\<rparr>"

definition json_ReqConfig :: "ReqConfig \<Rightarrow> ReqConfig" where
  "json_ReqConfig c = c\<lparr>RC_ClientIp := map json_CIDR (RC_ClientIp c), RC_HopIp := map json_CIDR (RC_HopIp c),
     RC_Method := json_SetConfig (RC_Method c), RC_Proto := json_SetConfig (RC_Proto c),
     RC_MediaType := json_MediaTypeConfig (RC_MediaType c), RC_Url := json_UrlConfig (RC_Url c),
     RC_Qs := json_QueryConfig (RC_Qs c), RC_Headers := json_HeadersConfig (RC_Headers c)\<rparr>"

definition json_RespConfig :: "RespConfig \<Rightarrow> RespConfig" where
  "json_RespConfig c = c\<lparr>RespC_Headers := json_HeadersConfig (RespC_Headers c),
     RespC_MediaType := json_MediaTypeConfig (RespC_MediaType c)\<rparr>"

definition json_StructuredConfig :: "StructuredConfig \<Rightarrow> StructuredConfig" where
  "json_StructuredConfig c = \<lparr>SC_Kind = json_string (SC_Kind c), SC_Val = map_option json_SimpleValConfig (SC_Val c),
     SC_Kv = json_KeyValConfig (SC_Kv c)\<rparr>"

definition json_BodyConfig :: "BodyConfig \<Rightarrow> BodyConfig" where
  "json_BodyConfig c = \<lparr>BC_Faults = json_SetConfig (BC_Faults c),
     BC_Unstructured = map_option json_SimpleValConfig (BC_Unstructured c),
     BC_Structured = map_option json_StructuredConfig (BC_Structured c)\<rparr>"

definition json_PodConfig :: "PodConfig \<Rightarrow> PodConfig" where
  "json_PodConfig c =
     \<lparr>PC_Tcp4Peers = map json_CIDR (PC_Tcp4Peers c), PC_Udp4Peers = map json_CIDR (PC_Udp4Peers c),
      PC_Udplite4Peers = map json_CIDR (PC_Udplite4Peers c), PC_Tcp6Peers = map json_CIDR (PC_Tcp6Peers c),
      PC_Udp6Peers = map json_CIDR (PC_Udp6Peers c), PC_Udplite6Peers = map json_CIDR (PC_Udplite6Peers c)\<rparr>"

definition json_SessionDataConfig :: "SessionDataConfig \<Rightarrow> SessionDataConfig" where
  "json_SessionDataConfig c = c\<lparr>SDC_Req := json_ReqConfig (SDC_Req c), SDC_Resp := json_RespConfig (SDC_Resp c),
     SDC_ReqBody := json_BodyConfig (SDC_ReqBody c), SDC_RespBody := json_BodyConfig (SDC_RespBody c),
     SDC_Pod := json_PodConfig (SDC_Pod c)\<rparr>"

definition json_GuardianSpec :: "GuardianSpec \<Rightarrow> GuardianSpec" where
  "json_GuardianSpec g = g\<lparr>Configured := map_option json_SessionDataConfig (Configured g),
     Learned := map_option json_SessionDataConfig (Learned g)\<rparr>"

section \<open>Criteria that can travel\<close>

text \<open>
  Every token indexed is in the list, every string is valid, every network is in the long form:
  what criteria learned from piles that have travelled satisfy.
\<close>

definition set_portable :: "SetConfig \<Rightarrow> bool" where
  "set_portable c \<longleftrightarrow> (\<forall>s. seen (SetConfig_m c) s \<longrightarrow> s \<in> set (SetConfig_List c)) \<and> (\<forall>s \<in> set (SetConfig_List c). valid_utf8 s)"

definition nets_portable :: "IpSetConfig \<Rightarrow> bool" where
  "nets_portable cs \<longleftrightarrow> (\<forall>c \<in> set cs. length (IP c) = 16)"

definition kv_portable :: "KeyValConfig \<Rightarrow> bool" where
  "kv_portable c \<longleftrightarrow> utf8_keys (KC_Vals c)"

definition media_portable :: "MediaTypeConfig \<Rightarrow> bool" where
  "media_portable c \<longleftrightarrow> set_portable (MC_TypeTokens c) \<and> kv_portable (MC_Params c)"

definition req_portable :: "ReqConfig \<Rightarrow> bool" where
  "req_portable c \<longleftrightarrow> nets_portable (RC_ClientIp c) \<and> nets_portable (RC_HopIp c) \<and> set_portable (RC_Method c)
     \<and> set_portable (RC_Proto c) \<and> media_portable (RC_MediaType c) \<and> kv_portable (QC_Kv (RC_Qs c))
     \<and> kv_portable (HC_Kv (RC_Headers c))"

definition resp_portable :: "RespConfig \<Rightarrow> bool" where
  "resp_portable c \<longleftrightarrow> kv_portable (HC_Kv (RespC_Headers c)) \<and> media_portable (RespC_MediaType c)"

definition body_portable :: "BodyConfig \<Rightarrow> bool" where
  "body_portable c \<longleftrightarrow> set_portable (BC_Faults c) \<and> (\<forall>s. BC_Structured c = Some s \<longrightarrow> kv_portable (SC_Kv s))"

definition pod_portable :: "PodConfig \<Rightarrow> bool" where
  "pod_portable c \<longleftrightarrow> nets_portable (PC_Tcp4Peers c) \<and> nets_portable (PC_Udp4Peers c) \<and> nets_portable (PC_Udplite4Peers c)
     \<and> nets_portable (PC_Tcp6Peers c) \<and> nets_portable (PC_Udp6Peers c) \<and> nets_portable (PC_Udplite6Peers c)"

definition session_portable :: "SessionDataConfig \<Rightarrow> bool" where
  "session_portable c \<longleftrightarrow> req_portable (SDC_Req c) \<and> resp_portable (SDC_Resp c) \<and> body_portable (SDC_ReqBody c)
     \<and> body_portable (SDC_RespBody c) \<and> pod_portable (SDC_Pod c)"

section \<open>Read back and prepared\<close>

lemma json_set_decides:
  assumes "set_portable c" and "SetConfig_Decide c v = None"
  shows "SetConfig_Decide (SetConfig_Prepare (json_SetConfig c)) v = None"
proof -
  have "map json_string (SetConfig_List c) = SetConfig_List c"
    using assms(1) by (intro map_idI) (simp add: set_portable_def valid_utf8_def)
  then show ?thesis
    using assms by (auto simp: SetConfig_Decide_None SetConfig_Prepare_def json_SetConfig_def set_portable_def)
qed

lemma json_nets_portable: "nets_portable cs \<Longrightarrow> map json_CIDR cs = cs"
  by (intro map_idI) (simp add: nets_portable_def json_CIDR_def json_ip_def)

lemma json_simple_decides [simp]: "SimpleValConfig_Decide (json_SimpleValConfig c) = SimpleValConfig_Decide c"
  by (rule ext) (simp add: SimpleValConfig_Decide_def json_SimpleValConfig_def Let_def)

lemma json_kv_known:
  assumes "kv_cwf c" and "kv_portable c"
  shows "known (json_KeyValConfig c) k = map_option json_SimpleValConfig (known c k)"
proof -
  have "kvs_ok (entries (KC_Vals c))" "utf8_keys (KC_Vals c)" using assms by (simp_all add: kv_cwf_def kv_portable_def)
  from map_get_json_map [OF this, where f = "map_option json_SimpleValConfig"]
  show ?thesis by (simp add: known_def json_KeyValConfig_def option.map_comp split: option.split)
qed

lemma json_kv_accepts:
  assumes "kv_cwf c" and "kv_portable c"
  shows "key_accepts (json_KeyValConfig c) k v = key_accepts c k v"
proof -
  have "others_accept (json_KeyValConfig c) k v = others_accept c k v"
    by (auto simp: others_accept_def json_KeyValConfig_def)
  then show ?thesis by (simp add: key_accepts_def json_kv_known [OF assms] split: option.split)
qed

lemma kv_sent:
  assumes "fair_ranger rr" and "kv_cwf c" and "kv_portable c"
  shows "ok (KeyValConfig_Prepare rr (json_KeyValConfig c)) (\<lambda>d. kv_cwf d \<and>
    (\<forall>rr' v. KeyValConfig_Decide rr' d v = None \<longleftrightarrow> KeyValConfig_Decide rr' c v = None))"
proof -
  have "kvs_ok (entries (KC_Vals (json_KeyValConfig c)))"
    using json_map_ok(1) [where P = "\<lambda>_. True" and m = "KC_Vals c" and f = "map_option json_SimpleValConfig"]
    by (simp add: json_KeyValConfig_def)
  from KeyValConfig_Prepare_ok [OF assms(1) this]
  have "ok (KeyValConfig_Prepare rr (json_KeyValConfig c)) (\<lambda>d. kv_cwf d \<and> (\<forall>k v. key_accepts d k v = key_accepts (json_KeyValConfig c) k v))"
    by (simp add: json_KeyValConfig_def)
  then show ?thesis
    by (rule ok_mono) (simp add: KeyValConfig_Decide_def decide_keys_None json_kv_accepts [OF assms(2,3)])
qed

lemma headers_sent:
  assumes "fair_ranger rr" and "headers_cwf c" and "kv_portable (HC_Kv c)"
  shows "ok (HeadersConfig_Prepare rr (json_HeadersConfig c)) (\<lambda>d. headers_cwf d \<and>
    (\<forall>v. accepts (\<lambda>rr c v. Inr (HeadersConfig_Decide rr c v)) c v \<longrightarrow> accepts (\<lambda>rr c v. Inr (HeadersConfig_Decide rr c v)) d v))"
proof -
  have "kv_cwf (HC_Kv c)" "kv_portable (HC_Kv c)" using assms(2,3) by (simp_all add: headers_cwf_def)
  from kv_sent [OF _ this, of "at_site rr ''Kv''"] assms(1) obtain d
    where "KeyValConfig_Prepare (at_site rr ''Kv'') (json_KeyValConfig (HC_Kv c)) = Inr d" "kv_cwf d"
      "\<forall>rr' v. KeyValConfig_Decide rr' d v = None \<longleftrightarrow> KeyValConfig_Decide rr' (HC_Kv c) v = None"
    by (auto simp: ok_iff)
  then show ?thesis
    using assms(3) by (simp add: HeadersConfig_Prepare_def json_HeadersConfig_def headers_cwf_def accepts_def HeadersConfig_Decide_def Let_def)
qed

lemma query_sent:
  assumes "fair_ranger rr" and "query_cwf c" and "kv_portable (QC_Kv c)"
  shows "ok (QueryConfig_Prepare rr (json_QueryConfig c)) (\<lambda>d. query_cwf d \<and>
    (\<forall>v. accepts (\<lambda>rr c v. Inr (QueryConfig_Decide rr c v)) c v \<longrightarrow> accepts (\<lambda>rr c v. Inr (QueryConfig_Decide rr c v)) d v))"
proof -
  have "kv_cwf (QC_Kv c)" "kv_portable (QC_Kv c)" using assms(2,3) by (simp_all add: query_cwf_def)
  from kv_sent [OF _ this, of "at_site rr ''Kv''"] assms(1) obtain d
    where "KeyValConfig_Prepare (at_site rr ''Kv'') (json_KeyValConfig (QC_Kv c)) = Inr d" "kv_cwf d"
      "\<forall>rr' v. KeyValConfig_Decide rr' d v = None \<longleftrightarrow> KeyValConfig_Decide rr' (QC_Kv c) v = None"
    by (auto simp: ok_iff)
  then show ?thesis
    using assms(3) by (simp add: QueryConfig_Prepare_def json_QueryConfig_def query_cwf_def accepts_def QueryConfig_Decide_def Let_def)
qed

lemma media_sent:
  assumes "fair_ranger rr" and "media_cwf c" and "media_portable c"
  shows "ok (MediaTypeConfig_Prepare rr (json_MediaTypeConfig c)) (\<lambda>d. media_cwf d \<and>
    (\<forall>v. accepts (\<lambda>rr c v. Inr (MediaTypeConfig_Decide rr c v)) c v \<longrightarrow> accepts (\<lambda>rr c v. Inr (MediaTypeConfig_Decide rr c v)) d v))"
proof -
  have "kv_cwf (MC_Params c)" "kv_portable (MC_Params c)" using assms(2,3) by (simp_all add: media_cwf_def media_portable_def)
  from kv_sent [OF _ this, of "at_site rr ''Params''"] assms(1) obtain d
    where "KeyValConfig_Prepare (at_site rr ''Params'') (json_KeyValConfig (MC_Params c)) = Inr d" "kv_cwf d"
      "\<forall>rr' v. KeyValConfig_Decide rr' d v = None \<longleftrightarrow> KeyValConfig_Decide rr' (MC_Params c) v = None"
    by (auto simp: ok_iff)
  then show ?thesis
    using assms(3) by (simp add: MediaTypeConfig_Prepare_def json_MediaTypeConfig_def media_cwf_def accepts_def MediaTypeConfig_Decide_def Let_def media_portable_def json_set_decides)
qed

lemma url_sent: "UrlConfig_Decide (UrlConfig_Prepare (json_UrlConfig c)) = UrlConfig_Decide c"
  by (rule ext) (simp add: UrlConfig_Decide_def UrlConfig_Prepare_def json_UrlConfig_def CountConfig_Prepare_def)

lemma req_sent:
  assumes "fair_ranger rr" and "req_cwf c" and "req_portable c"
  shows "ok (ReqConfig_Prepare rr (json_ReqConfig c)) (\<lambda>d. req_cwf d \<and> (\<forall>v. req_accepts c v \<longrightarrow> req_accepts d v))"
proof -
  have u: "url_cwf (UrlConfig_Prepare (json_UrlConfig (RC_Url c)))"
    using assms(2) by (simp add: req_cwf_def url_cwf_def UrlConfig_Prepare_def json_UrlConfig_def CountConfig_Prepare_def)
  have fr: "fair_ranger (at_site rr s)" for s using assms(1) by simp
  obtain mt where mt: "MediaTypeConfig_Prepare (at_site rr ''MediaType'') (json_MediaTypeConfig (RC_MediaType c)) = Inr mt" "media_cwf mt"
      "\<forall>v. accepts (\<lambda>rr c v. Inr (MediaTypeConfig_Decide rr c v)) (RC_MediaType c) v \<longrightarrow> accepts (\<lambda>rr c v. Inr (MediaTypeConfig_Decide rr c v)) mt v"
    using media_sent [OF fr, of "RC_MediaType c"] assms(2,3) by (auto simp: req_cwf_def req_portable_def ok_iff)
  obtain hs where hs: "HeadersConfig_Prepare (at_site rr ''Headers'') (json_HeadersConfig (RC_Headers c)) = Inr hs" "headers_cwf hs"
      "\<forall>v. accepts (\<lambda>rr c v. Inr (HeadersConfig_Decide rr c v)) (RC_Headers c) v \<longrightarrow> accepts (\<lambda>rr c v. Inr (HeadersConfig_Decide rr c v)) hs v"
    using headers_sent [OF fr, of "RC_Headers c"] assms(2,3) by (auto simp: req_cwf_def req_portable_def ok_iff)
  obtain qs where qs: "QueryConfig_Prepare (at_site rr ''Qs'') (json_QueryConfig (RC_Qs c)) = Inr qs" "query_cwf qs"
      "\<forall>v. accepts (\<lambda>rr c v. Inr (QueryConfig_Decide rr c v)) (RC_Qs c) v \<longrightarrow> accepts (\<lambda>rr c v. Inr (QueryConfig_Decide rr c v)) qs v"
    using query_sent [OF fr, of "RC_Qs c"] assms(2,3) by (auto simp: req_cwf_def req_portable_def ok_iff)
  have "nets_portable (RC_ClientIp c)" "nets_portable (RC_HopIp c)" using assms(3) by (simp_all add: req_portable_def)
  with mt hs qs u assms(2,3) show ?thesis
    by (simp add: ReqConfig_Prepare_def json_ReqConfig_def Let_def req_cwf_def req_portable_def req_accepts_def json_nets_portable
        IpSetConfig_Prepare_def CountConfig_Prepare_def url_sent json_set_decides)
qed

lemma resp_sent:
  assumes "fair_ranger rr" and "resp_cwf c" and "resp_portable c"
  shows "ok (RespConfig_Prepare rr (json_RespConfig c)) (\<lambda>d. resp_cwf d \<and> (\<forall>v. resp_accepts c v \<longrightarrow> resp_accepts d v))"
  using assms unfolding RespConfig_Prepare_def resp_cwf_def resp_portable_def resp_accepts_def json_RespConfig_def CountConfig_Prepare_def
  by (simp del: ok_bind) (intro ok_bindI [OF headers_sent] ok_bindI [OF media_sent]; simp)

lemma json_kv_cwf: "kv_cwf (json_KeyValConfig c)"
  using kv_cwf_new json_map_ok(1) [where P = "\<lambda>_. True" and m = "KC_Vals c" and f = "map_option json_SimpleValConfig"]
  by (simp add: kv_cwf_def json_KeyValConfig_def new_KeyValConfig_def table_keys_def)

lemma structured_decides_cong:
  assumes "SC_Kind d = SC_Kind c"
    and "SC_Kind c = KindObject \<Longrightarrow> (\<forall>rr v. KeyValConfig_Decide rr (SC_Kv d) v = None \<longleftrightarrow> KeyValConfig_Decide rr (SC_Kv c) v = None)"
    and "map_option SimpleValConfig_Decide (SC_Val d) = map_option SimpleValConfig_Decide (SC_Val c)"
    and "StructuredConfig_Decide rr c v = Inr None"
  shows "StructuredConfig_Decide rr d v = Inr None"
proof -
  have "decide_val (SC_Val d) = decide_val (SC_Val c)"
    using assms(3) by (cases "SC_Val c"; cases "SC_Val d") (auto simp: decide_val_def fun_eq_iff)
  moreover have "bind_res (deref (SC_Val d)) (\<lambda>val. Inr (DecideChild None (SimpleValConfig_Decide val x) t))
      = bind_res (deref (SC_Val c)) (\<lambda>val. Inr (DecideChild None (SimpleValConfig_Decide val x) t))" for x t
    using assms(3) by (cases "SC_Val c"; cases "SC_Val d") auto
  ultimately show ?thesis
    using assms(1,2,4) by (auto simp: StructuredConfig_Decide_def split: if_splits)
qed

lemma structured_sent:
  assumes "fair_ranger rr" and "sc_cwf c" and "kv_portable (SC_Kv c)"
  shows "ok (StructuredConfig_Prepare rr (json_StructuredConfig c)) (\<lambda>d. sc_cwf d
    \<and> (\<forall>v. accepts StructuredConfig_Decide c v \<longrightarrow> accepts StructuredConfig_Decide d v))"
proof -
  let ?j = "json_StructuredConfig c"
  have kind: "SC_Kind ?j = SC_Kind c" "SC_Kind c \<in> kinds"
    using assms(2) kind_utf8 by (simp_all add: json_StructuredConfig_def sc_cwf_def)
  have kv: "kv_cwf (SC_Kv c)" using assms(2) by (simp add: sc_cwf_def)
  have val: "map_option SimpleValConfig_Decide (SC_Val ?j) = map_option SimpleValConfig_Decide (SC_Val c)"
    by (cases "SC_Val c") (simp_all add: json_StructuredConfig_def)
  have acc: "accepts StructuredConfig_Decide d v" if "SC_Kind d = SC_Kind c"
    "SC_Kind c = KindObject \<Longrightarrow> (\<forall>rr v. KeyValConfig_Decide rr (SC_Kv d) v = None \<longleftrightarrow> KeyValConfig_Decide rr (SC_Kv c) v = None)"
    "map_option SimpleValConfig_Decide (SC_Val d) = map_option SimpleValConfig_Decide (SC_Val c)"
    "accepts StructuredConfig_Decide c v" for d v
    using that(4) structured_decides_cong [OF that(1-3)] by (auto simp: accepts_def)
  consider (obj) "SC_Kind c = KindObject" | (val) "SC_Kind c = KindArray \<or> scalar_kind (SC_Kind c)" | (other) "SC_Kind c \<noteq> KindObject"
    "\<not> (SC_Kind c = KindArray \<or> scalar_kind (SC_Kind c))" by blast
  then show ?thesis
  proof cases
    case obj
    from kv_sent [OF _ kv assms(3), of "at_site rr ''Kv''"] assms(1) obtain d
      where d: "KeyValConfig_Prepare (at_site rr ''Kv'') (json_KeyValConfig (SC_Kv c)) = Inr d" "kv_cwf d"
        "\<forall>rr' v. KeyValConfig_Decide rr' d v = None \<longleftrightarrow> KeyValConfig_Decide rr' (SC_Kv c) v = None"
      by (auto simp: ok_iff)
    then have "StructuredConfig_Prepare rr ?j = Inr (?j\<lparr>SC_Kv := d\<rparr>)"
      using obj kind by (simp add: StructuredConfig_Prepare_def) (simp add: json_StructuredConfig_def)
    moreover have "sc_cwf (?j\<lparr>SC_Kv := d\<rparr>)" using d(2) kind obj by (simp add: sc_cwf_def)
    ultimately show ?thesis using acc [of "?j\<lparr>SC_Kv := d\<rparr>"] kind(1) val d(3) by simp
  next
    case v: val
    then have n: "SC_Kind c \<noteq> KindObject" by auto
    obtain q where q: "SC_Val c = Some q" using assms(2) v by (auto simp: sc_cwf_def)
    let ?d = "?j\<lparr>SC_Val := Some (SimpleValConfig_Prepare (json_SimpleValConfig q))\<rparr>"
    have "StructuredConfig_Prepare rr ?j = Inr ?d"
      using v n kind q by (simp add: StructuredConfig_Prepare_def) (simp add: json_StructuredConfig_def)
    moreover have "sc_cwf ?d"
      using kind json_kv_cwf [of "SC_Kv c"] by (simp add: sc_cwf_def) (simp add: json_StructuredConfig_def)
    ultimately show ?thesis using acc [of ?d] kind(1) n q by simp
  next
    case other
    then have "StructuredConfig_Prepare rr ?j = Inr ?j" using kind by (simp add: StructuredConfig_Prepare_def)
    moreover have "sc_cwf ?j"
      using other kind json_kv_cwf [of "SC_Kv c"] by (simp add: sc_cwf_def) (simp add: json_StructuredConfig_def)
    ultimately show ?thesis using acc [of ?j] kind(1) val other(1) by simp
  qed
qed

lemma body_sent:
  assumes "fair_ranger rr" and "body_cwf c" and "body_portable c"
  shows "ok (BodyConfig_Prepare rr (json_BodyConfig c)) (\<lambda>d. body_cwf d \<and> (\<forall>v. body_accepts c v \<longrightarrow> body_accepts d v))"
proof (cases "BC_Structured c")
  case None
  then show ?thesis
    using assms(3)
    by (auto simp: BodyConfig_Prepare_def json_BodyConfig_def body_cwf_def body_accepts_def body_portable_def json_set_decides
        option.map_comp)
next
  case (Some s)
  have "sc_cwf s" "kv_portable (SC_Kv s)" using assms(2,3) Some by (simp_all add: body_cwf_def body_portable_def)
  from structured_sent [OF _ this, of "at_site rr ''Structured''"] assms(1) obtain d
    where "StructuredConfig_Prepare (at_site rr ''Structured'') (json_StructuredConfig s) = Inr d" "sc_cwf d"
      "\<forall>v. accepts StructuredConfig_Decide s v \<longrightarrow> accepts StructuredConfig_Decide d v"
    by (auto simp: ok_iff)
  then show ?thesis
    using assms(3) Some
    by (auto simp: BodyConfig_Prepare_def json_BodyConfig_def body_cwf_def body_accepts_def body_portable_def json_set_decides
        option.map_comp)
qed

lemma pod_sent: "pod_portable c \<Longrightarrow> PodConfig_Prepare (json_PodConfig c) = c"
  by (simp add: PodConfig_Prepare_def json_PodConfig_def pod_portable_def json_nets_portable IpSetConfig_Prepare_def)

text \<open>Criteria that are well formed and portable, read back and prepared, are well formed and accept whatever they accepted.\<close>

lemma session_sent:
  assumes "fair_ranger rr" and "session_cwf c" and "session_portable c"
  shows "ok (SessionDataConfig_Prepare rr (json_SessionDataConfig c)) (\<lambda>d. session_cwf d \<and> (\<forall>v. session_accepts c v \<longrightarrow> session_accepts d v))"
proof -
  have fr: "fair_ranger (at_site rr s)" for s using assms(1) by simp
  obtain rq where rq: "ReqConfig_Prepare (at_site rr ''Req'') (json_ReqConfig (SDC_Req c)) = Inr rq" "req_cwf rq"
      "\<forall>v. req_accepts (SDC_Req c) v \<longrightarrow> req_accepts rq v"
    using req_sent [OF fr, of "SDC_Req c"] assms(2,3) by (auto simp: session_cwf_def session_portable_def ok_iff)
  obtain rs where rs: "RespConfig_Prepare (at_site rr ''Resp'') (json_RespConfig (SDC_Resp c)) = Inr rs" "resp_cwf rs"
      "\<forall>v. resp_accepts (SDC_Resp c) v \<longrightarrow> resp_accepts rs v"
    using resp_sent [OF fr, of "SDC_Resp c"] assms(2,3) by (auto simp: session_cwf_def session_portable_def ok_iff)
  obtain qb where qb: "BodyConfig_Prepare (at_site rr ''ReqBody'') (json_BodyConfig (SDC_ReqBody c)) = Inr qb" "body_cwf qb"
      "\<forall>v. body_accepts (SDC_ReqBody c) v \<longrightarrow> body_accepts qb v"
    using body_sent [OF fr, of "SDC_ReqBody c"] assms(2,3) by (auto simp: session_cwf_def session_portable_def ok_iff)
  obtain rb where rb: "BodyConfig_Prepare (at_site rr ''RespBody'') (json_BodyConfig (SDC_RespBody c)) = Inr rb" "body_cwf rb"
      "\<forall>v. body_accepts (SDC_RespBody c) v \<longrightarrow> body_accepts rb v"
    using body_sent [OF fr, of "SDC_RespBody c"] assms(2,3) by (auto simp: session_cwf_def session_portable_def ok_iff)
  have env: "EnvelopConfig_Prepare e = e" for e by (simp add: EnvelopConfig_Prepare_def LimitConfig_Prepare_def)
  show ?thesis
    using rq rs qb rb assms(2,3)
    by (simp add: SessionDataConfig_Prepare_def json_SessionDataConfig_def session_cwf_def session_accepts_def session_portable_def
        pod_sent env)
qed

section \<open>Learning keeps criteria portable\<close>

lemma insert_new_portable:
  "insert_new vs (xs, kvs) = (xs', kvs') \<Longrightarrow> \<forall>s. seen (Some kvs) s \<longrightarrow> s \<in> set xs \<Longrightarrow>
     set xs \<union> set vs \<subseteq> set xs \<union> set vs \<and> (\<forall>s. seen (Some kvs') s \<longrightarrow> s \<in> set xs') \<and> set xs' \<subseteq> set xs \<union> set vs"
proof (induction vs arbitrary: xs kvs)
  case (Cons v vs)
  show ?case
  proof (cases "seen (Some kvs) v")
    case True
    with Cons.IH [of xs kvs] Cons.prems show ?thesis by auto
  next
    case False
    with Cons.IH [of "xs @ [v]" "AList.update v True kvs"] Cons.prems show ?thesis by auto
  qed
qed simp

lemma set_portable_Learn:
  assumes "set_portable c" and "set_utf8 p"
  shows "set_portable (SetConfig_Learn c p)"
proof -
  obtain xs kvs where i: "insert_new (SetPile_List p) (SetConfig_List c, case SetConfig_m c of None \<Rightarrow> [] | Some kvs \<Rightarrow> kvs) = (xs, kvs)"
    by fastforce
  have "\<forall>s. seen (Some (case SetConfig_m c of None \<Rightarrow> [] | Some kvs \<Rightarrow> kvs)) s \<longrightarrow> s \<in> set (SetConfig_List c)"
    using assms(1) by (cases "SetConfig_m c") (simp_all add: set_portable_def)
  from insert_new_portable [OF i this] have "set_portable \<lparr>SetConfig_List = xs, SetConfig_m = Some kvs\<rparr>"
    using assms by (auto simp: set_portable_def set_utf8_def)
  then show ?thesis using assms(1) i by (simp add: SetConfig_Learn_def Let_def)
qed

lemma InflateBy_inflate_first:
  "inflate_first i cs = Inr (cs', done) \<Longrightarrow> map IP cs' = map IP cs"
proof (induction cs arbitrary: cs' "done")
  case (Cons c cs)
  then show ?case by (fastforce simp: bind_res_Inr Let_def split: if_splits)
qed simp

lemma nets_portable_Learn:
  assumes "nets_portable cs" and "ips_wide p" and "IpSetConfig_Learn cs p = Inr cs'"
  shows "nets_portable cs'"
proof -
  have one: "nets_portable ds'" if l: "learn_ip i ds = Inr ds'" "nets_portable ds" "length i = 16" for i ds ds'
  proof -
    obtain es d where e: "inflate_first i ds = Inr (es, d)" "ds' = (if d then es else es @ [\<lparr>IP = i, Mask = CIDRMask 128 128\<rparr>])"
      using l(1,3) by (auto simp: learn_ip_def bind_res_Inr split: if_splits)
    have "IP ` set es = IP ` set ds" using InflateBy_inflate_first [OF e(1)] by (metis list.set_map)
    then have "nets_portable es" using l(2) unfolding nets_portable_def by (metis imageE image_eqI)
    then show ?thesis using e(2) l(3) by (auto simp: nets_portable_def)
  qed
  have "fold_res learn_ip is ds = Inr ds' \<Longrightarrow> nets_portable ds \<Longrightarrow> \<forall>i \<in> set is. length i = 16 \<Longrightarrow> nets_portable ds'" for "is" ds ds'
  proof (induction "is" arbitrary: ds)
    case (Cons i "is")
    then obtain ds1 where d: "learn_ip i ds = Inr ds1" "fold_res learn_ip is ds1 = Inr ds'" by (auto simp: bind_res_Inr)
    from Cons.IH [OF d(2) one [OF d(1)]] Cons.prems show ?case by simp
  qed simp
  then show ?thesis using assms by (simp add: IpSetConfig_Learn_def ips_wide_def)
qed

abbreviation vals_keys :: "KeyValConfig \<Rightarrow> string set" where
  "vals_keys c \<equiv> fst ` set (entries (KC_Vals c))"

lemma put_val_keys: "put_val k svc d = Inr d' \<Longrightarrow> vals_keys d' \<subseteq> insert k (vals_keys d)"
proof (cases "KC_Vals d")
  case (Some kvs)
  assume "put_val k svc d = Inr d'"
  with Some have "entries (KC_Vals d') = AList.update k (Some svc) kvs" by (auto simp: put_val_def)
  with Some update_keys show ?thesis by (simp only: entries_simps)
qed (simp add: put_val_def)

lemma evicted_keys:
  assumes "KeyValConfig_addSvcToOtherVals (if b then d\<lparr>KC_Vals := map_del (KC_Vals d) k\<rparr> else d) svc = Inr e"
  shows "vals_keys (KeyValConfig_addKeyToOtherKeynames e k) \<subseteq> vals_keys d"
proof -
  have "KC_Vals e = (if b then map_del (KC_Vals d) k else KC_Vals d)"
    using assms by (auto simp: KeyValConfig_addSvcToOtherVals_def bind_res_Inr split: option.splits if_splits)
  then have "vals_keys e \<subseteq> vals_keys d" by (cases "KC_Vals d") (simp_all add: AList_delete_keys)
  then show ?thesis by (simp add: KeyValConfig_addKeyToOtherKeynames_def Let_def)
qed

lemma learn_key_keys:
  assumes "learn_key (k, q) c = Inr c'"
  shows "vals_keys c' \<subseteq> insert k (vals_keys c)"
proof (cases "known c k")
  case (Some svc)
  obtain p where "put_val k (SimpleValConfig_Learn svc p) c = Inr c'"
    using assms Some by (auto simp: learn_key_def bind_res_Inr)
  then show ?thesis by (rule put_val_keys)
next
  case None
  obtain p where p: "q = Some p" using assms by (cases q) (simp_all add: learn_key_def)
  obtain s svc where s: "SimpleValConfig_Score (SimpleValConfig_Learn new_SimpleValConfig p) = (s, svc)" by fastforce
  let ?rest = "\<lambda>lk lsvc d. if lk = '''' then Inr d
     else let config = if k \<noteq> lk then d\<lparr>KC_Vals := map_del (KC_Vals d) lk\<rparr> else d
       in bind_res (KeyValConfig_addSvcToOtherVals config lsvc) (\<lambda>e. Inr (KeyValConfig_addKeyToOtherKeynames e lk))"
  have rest: "vals_keys c' \<subseteq> vals_keys d" if r: "?rest lk lsvc d = Inr c'" for lk lsvc d
  proof (cases "lk = ''''")
    case False
    then obtain e where "KeyValConfig_addSvcToOtherVals (if k \<noteq> lk then d\<lparr>KC_Vals := map_del (KC_Vals d) lk\<rparr> else d) lsvc = Inr e"
        "c' = KeyValConfig_addKeyToOtherKeynames e lk"
      using r by (simp only: if_False bind_res_Inr Let_def) blast
    then show ?thesis using evicted_keys by blast
  qed (use r in simp)
  show ?thesis
  proof (cases "KeyValConfig_findScoreIndex c s \<ge> 0")
    case True
    let ?d = "KeyValConfig_setScore c s k (nat (KeyValConfig_findScoreIndex c s))"
    obtain d where d: "put_val k svc ?d = Inr d" "?rest (svc_key (KC_valScores c ! 0)) (known c (svc_key (KC_valScores c ! 0))) d = Inr c'"
    proof -
      have "bind_res (put_val k svc ?d) (\<lambda>d. ?rest (svc_key (KC_valScores c ! 0)) (known c (svc_key (KC_valScores c ! 0))) d) = Inr c'"
        using assms None p s True by (simp add: learn_key_def bind_res_assoc Let_def)
      with that show ?thesis unfolding bind_res_Inr by blast
    qed
    have "vals_keys ?d = vals_keys c" by (simp add: KeyValConfig_setScore_def Let_def)
    with put_val_keys [OF d(1)] have "vals_keys d \<subseteq> insert k (vals_keys c)" by (simp only:)
    with rest [OF d(2)] show ?thesis by (rule order_trans)
  next
    case False
    then have "?rest k (Some svc) c = Inr c'" using assms None p s by (simp add: learn_key_def Let_def)
    from rest [OF this] show ?thesis by (rule subset_insertI2)
  qed
qed

lemma kv_portable_Learn:
  assumes "kv_portable c" and "utf8_keys p" and "KeyValConfig_Learn rr c p = Inr c'"
  shows "kv_portable c'"
proof (cases "entries p = []")
  case True
  then show ?thesis using assms by (simp add: KeyValConfig_Learn_def)
next
  case False
  let ?c = "if KC_Vals c = None then c\<lparr>KC_Vals := Some []\<rparr> else c"
  have fold: "fold_res learn_key kvs d = Inr d' \<Longrightarrow> vals_keys d' \<subseteq> fst ` set kvs \<union> vals_keys d" for kvs d d'
  proof (induction kvs arbitrary: d)
    case (Cons kq kvs)
    obtain k q where kq: "kq = (k, q)" by (cases kq)
    then obtain d1 where d1: "learn_key (k, q) d = Inr d1" "fold_res learn_key kvs d1 = Inr d'"
      using Cons.prems by (auto simp: bind_res_Inr)
    from Cons.IH [OF d1(2)] learn_key_keys [OF d1(1)] show ?case unfolding kq by auto
  qed simp
  have "fold_res learn_key (range_over (rr ''Learn'') (entries p)) ?c = Inr c'"
    using assms(3) False by (simp add: KeyValConfig_Learn_def Let_def)
  from fold [OF this] have "vals_keys c' \<subseteq> fst ` set (range_over (rr ''Learn'') (entries p)) \<union> vals_keys ?c" .
  moreover have "fst ` set (range_over (rr ''Learn'') (entries p)) \<subseteq> fst ` set (entries p)"
    using range_over_subset by fastforce
  moreover have "vals_keys ?c \<subseteq> vals_keys c" by simp
  ultimately have "vals_keys c' \<subseteq> fst ` set (entries p) \<union> vals_keys c" by blast
  then show ?thesis using assms(1,2) unfolding kv_portable_def utf8_keys_def by blast
qed

lemma media_portable_Learn:
  "media_portable c \<Longrightarrow> media_utf8 p \<Longrightarrow> MediaTypeConfig_Learn rr c p = Inr c' \<Longrightarrow> media_portable c'"
  by (auto simp: media_portable_def media_utf8_def MediaTypeConfig_Learn_def Let_def bind_res_Inr set_portable_Learn
      intro: kv_portable_Learn)

lemma headers_portable_Learn:
  "kv_portable (HC_Kv c) \<Longrightarrow> headers_utf8 p \<Longrightarrow> HeadersConfig_Learn rr c p = Inr c' \<Longrightarrow> kv_portable (HC_Kv c')"
  by (auto simp: headers_utf8_def HeadersConfig_Learn_def bind_res_Inr intro: kv_portable_Learn)

lemma query_portable_Learn:
  "kv_portable (QC_Kv c) \<Longrightarrow> query_utf8 p \<Longrightarrow> QueryConfig_Learn rr c p = Inr c' \<Longrightarrow> kv_portable (QC_Kv c')"
  by (auto simp: query_utf8_def QueryConfig_Learn_def bind_res_Inr intro: kv_portable_Learn)

lemma req_portable_Learn:
  assumes "req_portable c" and "req_utf8 p" and "req_wide p" and "ReqConfig_Learn rr c p = Inr c'"
  shows "req_portable c'"
proof -
  obtain ci hi mt hs qs where l: "IpSetConfig_Learn (RC_ClientIp c) (RQ_ClientIp p) = Inr ci"
      "IpSetConfig_Learn (RC_HopIp c) (RQ_HopIp p) = Inr hi"
      "MediaTypeConfig_Learn (at_site rr ''MediaType'') (RC_MediaType c) (RQ_MediaType p) = Inr mt"
      "HeadersConfig_Learn (at_site rr ''Headers'') (RC_Headers c) (RQ_Headers p) = Inr hs"
      "QueryConfig_Learn (at_site rr ''Qs'') (RC_Qs c) (RQ_Qs p) = Inr qs"
    and c': "RC_ClientIp c' = ci" "RC_HopIp c' = hi" "RC_MediaType c' = mt" "RC_Headers c' = hs" "RC_Qs c' = qs"
      "RC_Method c' = SetConfig_Learn (RC_Method c) (RQ_Method p)" "RC_Proto c' = SetConfig_Learn (RC_Proto c) (RQ_Proto p)"
    using assms(4) by (auto simp: ReqConfig_Learn_def bind_res_Inr Let_def)
  show ?thesis
    using assms(1-3) nets_portable_Learn [OF _ _ l(1)] nets_portable_Learn [OF _ _ l(2)] media_portable_Learn [OF _ _ l(3)]
      headers_portable_Learn [OF _ _ l(4)] query_portable_Learn [OF _ _ l(5)]
    by (simp add: req_portable_def req_utf8_def req_wide_def c' set_portable_Learn)
qed

lemma resp_portable_Learn:
  "resp_portable c \<Longrightarrow> resp_utf8 p \<Longrightarrow> RespConfig_Learn rr c p = Inr c' \<Longrightarrow> resp_portable c'"
  by (auto simp: resp_portable_def resp_utf8_def RespConfig_Learn_def bind_res_Inr dest: headers_portable_Learn media_portable_Learn)

lemma structured_portable_Learn:
  assumes "kv_portable (SC_Kv c)" and "utf8_keys (SQ_Kv p)" and "StructuredConfig_Learn rr c p = Inr c'"
  shows "kv_portable (SC_Kv c')"
  using assms kv_portable_Learn [OF assms(1,2)]
  by (auto simp: StructuredConfig_Learn_def Let_def bind_res_Inr split: if_splits)

lemma kv_portable_new [simp]: "kv_portable new_KeyValConfig"
  by (simp add: kv_portable_def new_KeyValConfig_def)

lemma body_portable_Learn:
  assumes "body_portable c" and "body_utf8 p" and "BodyConfig_Learn rr c p = Inr c'"
  shows "body_portable c'"
proof -
  have f: "set_portable (SetConfig_Learn (BC_Faults c) (BQ_Faults p))"
    using assms(1,2) by (simp add: body_portable_def body_utf8_def set_portable_Learn)
  have n: "kv_portable (SC_Kv (or_new new_StructuredConfig (BC_Structured c)))"
    using assms(1) by (cases "BC_Structured c") (simp_all add: body_portable_def new_StructuredConfig_def)
  have "BC_Faults c' = SetConfig_Learn (BC_Faults c) (BQ_Faults p)"
    "BQ_Structured p = None \<and> BC_Structured c' = BC_Structured c \<or>
       (\<exists>s t. BQ_Structured p = Some s \<and> BC_Structured c' = Some t
          \<and> StructuredConfig_Learn (at_site rr ''Structured'') (or_new new_StructuredConfig (BC_Structured c)) s = Inr t)"
    using assms(3) by (auto simp: BodyConfig_Learn_def Let_def bind_res_Inr split: option.splits)
  then show ?thesis
    using f assms(1,2) structured_portable_Learn [OF n] unfolding body_portable_def body_utf8_def by auto
qed

lemma pod_portable_Learn:
  assumes "pod_portable c" and "pod_wide p" and "PodConfig_Learn c p = Inr c'"
  shows "pod_portable c'"
  using assms unfolding PodConfig_Learn_def pod_portable_def pod_wide_def
  by (auto simp: bind_res_Inr dest: nets_portable_Learn)

lemma session_portable_Learn:
  assumes "session_portable c" and "session_travelled p" and "SessionDataConfig_Learn rr c p = Inr c'"
  shows "session_portable c'"
proof -
  obtain rq rs qb rb pd where l: "ReqConfig_Learn (at_site rr ''Req'') (SDC_Req c) (SDQ_Req p) = Inr rq"
      "RespConfig_Learn (at_site rr ''Resp'') (SDC_Resp c) (SDQ_Resp p) = Inr rs"
      "BodyConfig_Learn (at_site rr ''ReqBody'') (SDC_ReqBody c) (SDQ_ReqBody p) = Inr qb"
      "BodyConfig_Learn (at_site rr ''RespBody'') (SDC_RespBody c) (SDQ_RespBody p) = Inr rb"
      "PodConfig_Learn (SDC_Pod c) (SDQ_Pod p) = Inr pd"
    and c': "SDC_Req c' = rq" "SDC_Resp c' = rs" "SDC_ReqBody c' = qb" "SDC_RespBody c' = rb" "SDC_Pod c' = pd"
    using assms(3) by (auto simp: SessionDataConfig_Learn_def bind_res_Inr Let_def)
  show ?thesis
    using assms(1,2) req_portable_Learn [OF _ _ _ l(1)] resp_portable_Learn [OF _ _ l(2)] body_portable_Learn [OF _ _ l(3)]
      body_portable_Learn [OF _ _ l(4)] pod_portable_Learn [OF _ _ l(5)]
    by (simp add: session_portable_def session_travelled_def session_utf8_def c')
qed

lemma session_portable_new: "session_portable new_SessionDataConfig"
  by (simp add: session_portable_def new_SessionDataConfig_def new_ReqConfig_def new_BodyConfig_def new_SetConfig_def
      req_portable_def resp_portable_def body_portable_def pod_portable_def media_portable_def set_portable_def nets_portable_def)

section \<open>The round trip\<close>

text \<open>
  What a rule that travels promises on top of a rule that is learned: a pile whose strings are valid
  arrives with all it covers, merging keeps what has travelled, learning from it keeps criteria
  portable, and portable criteria, read back and prepared, accept what they accepted.
\<close>

locale sent_rules = value_rules +
  fixes json_pile :: "'a \<Rightarrow> 'a"
    and utf8 :: "'a \<Rightarrow> bool"
    and travelled :: "'a \<Rightarrow> bool"
    and json_conf :: "'c \<Rightarrow> 'c"
    and prep :: "ranger \<Rightarrow> 'c \<Rightarrow> 'c res"
    and portable :: "'c \<Rightarrow> bool"
    and accepted :: "'c \<Rightarrow> 'b \<Rightarrow> bool"
  assumes sent_pile: "pwf q \<Longrightarrow> utf8 q \<Longrightarrow> pwf (json_pile q) \<and> travelled (json_pile q) \<and> (\<forall>u. covers q u \<longrightarrow> covers (json_pile q) u)"
    and travelled_merge: "pwf p \<Longrightarrow> travelled p \<Longrightarrow> travelled q \<Longrightarrow> merge p q = Inr r \<Longrightarrow> travelled r"
    and portable_learn: "portable c \<Longrightarrow> travelled p \<Longrightarrow> learn rr c p = Inr c' \<Longrightarrow> portable c'"
    and learned_accepts: "fair_ranger rr \<Longrightarrow> cwf c \<Longrightarrow> pwf p \<Longrightarrow> ok (learn rr c p) (\<lambda>c'. cwf c' \<and> (\<forall>u. covers p u \<longrightarrow> accepted c' u))"
    and sent_conf: "fair_ranger rr \<Longrightarrow> cwf c \<Longrightarrow> portable c \<Longrightarrow>
      ok (prep rr (json_conf c)) (\<lambda>d. cwf d \<and> (\<forall>u. accepted c u \<longrightarrow> accepted d u))"
    and accepted_decides: "accepted c u \<Longrightarrow> accepts decide c u"
begin

lemma answered:
  assumes "fair_ranger rr" and "cwf c" and "portable c" and "\<forall>u \<in> U. accepted c u"
  shows "ok (prep rr (json_conf c)) (\<lambda>d. cwf d \<and> (\<forall>u \<in> U. accepts decide d u))"
  using sent_conf [OF assms(1-3)] by (rule ok_mono) (use assms(4) accepted_decides in blast)

lemma round_trip:
  assumes "fair_ranger rr" and "fair_ranger rr'" and "cwf c" and "portable c" and "pwf p" and "travelled p"
    and "pwf q" and "utf8 q"
  shows "ok (bind_res (merge p (json_pile q)) (learn rr c)) (\<lambda>c'. portable c' \<and>
    ok (prep rr' (json_conf c')) (\<lambda>d. cwf d \<and> (\<forall>u. covers p u \<or> covers q u \<and> merged u \<longrightarrow> accepts decide d u)))"
proof -
  have q: "pwf (json_pile q)" "travelled (json_pile q)" "\<forall>u. covers q u \<longrightarrow> covers (json_pile q) u"
    using sent_pile [OF assms(7,8)] by simp_all
  obtain r where r: "merge p (json_pile q) = Inr r" "pwf r" "\<forall>u. covers p u \<longrightarrow> covers r u"
      "\<forall>u. covers (json_pile q) u \<longrightarrow> merged u \<longrightarrow> covers r u"
    using merge_ok [OF assms(5) q(1)] by (auto simp: ok_iff)
  obtain c' where c': "learn rr c r = Inr c'" "cwf c'" "\<forall>u. covers r u \<longrightarrow> accepted c' u"
    using learned_accepts [OF assms(1,3) r(2)] by (auto simp: ok_iff)
  have port: "portable c'" by (rule portable_learn [OF assms(4) travelled_merge [OF assms(5,6) q(2) r(1)] c'(1)])
  have "ok (prep rr' (json_conf c')) (\<lambda>d. cwf d \<and> (\<forall>u \<in> {u. covers r u}. accepts decide d u))"
    by (rule answered [OF assms(2) c'(2) port]) (use c'(3) in simp)
  then have "ok (prep rr' (json_conf c')) (\<lambda>d. cwf d \<and> (\<forall>u. covers p u \<or> covers q u \<and> merged u \<longrightarrow> accepts decide d u))"
    by (rule ok_mono) (use r(3,4) q(3) in blast)
  then show ?thesis using r(1) c'(1) port by simp
qed

end

interpretation sent: sent_rules
  SessionDataPile_Add SessionDataPile_Merge empty_SessionDataPile session_pwf session_vwf session_covers
  "\<lambda>v. RP_HopIp (SDP_Req v) = []" SessionDataConfig_Learn SessionDataConfig_Decide session_cwf
  json_SessionDataPile session_utf8 session_travelled json_SessionDataConfig SessionDataConfig_Prepare session_portable session_accepts
proof (unfold_locales, goal_cases)
  case (1 q)
  then show ?case by (simp add: json_session_kept json_session_travelled)
next
  case (2 p q r)
  then show ?case by (rule session_travelled_Merge)
next
  case (3 c p rr c')
  then show ?case by (rule session_portable_Learn)
next
  case (4 rr c p)
  then show ?case by (rule ok_mono [OF SessionDataConfig_Learn_ok]) blast
next
  case (5 rr c)
  then show ?case by (rule session_sent)
next
  case (6 c u)
  then show ?case by (rule session_accepts)
qed

section \<open>Properties\<close>



text \<open>
  A key that is not valid UTF-8, which the query string of a request may hold, is never learned: it
  reaches the service under another name, so criteria that travel never know it, and a criteria
  that has no aggregate of other keys raises an alert on it however often it was piled.
\<close>

theorem invalid_key_never_known:
  assumes "kv_portable c" and "KeyValConfig_Learn rr c (json_KeyValPile p) = Inr c'" and "kv_pwf p" and "\<not> valid_utf8 k"
  shows "known c' k = None \<and> (KC_OtherVals c' = None \<longrightarrow> \<not> key_accepts c' k v)"
proof -
  have "kv_portable c'" by (rule kv_portable_Learn [OF assms(1) json_kv_kept(2) [OF assms(3)] assms(2)])
  then have "k \<notin> fst ` set (entries (KC_Vals c'))" using assms(4) by (auto simp: kv_portable_def utf8_keys_def)
  then have "map_of (entries (KC_Vals c')) k = None" by (simp only: map_of_eq_None_iff not_False_eq_True)
  then have "known c' k = None" by (simp add: known_def map_get_def)
  then show ?thesis by (simp add: key_accepts_def others_accept_def)
qed

definition byte_pile :: KeyValPile where
  "byte_pile = Some [([CHR 0xFF], Some (SimpleValPile_Add new_SimpleValPile (name_profile ''1'')))]"

theorem invalid_key_never_known_witness:
  "\<exists>c' d. KeyValConfig_Learn (\<lambda>_. rev) new_KeyValConfig (json_KeyValPile byte_pile) = Inr c'
    \<and> (known c' [CHR 0xFF] = None \<and> (KC_OtherVals c' = None \<longrightarrow> \<not> key_accepts c' [CHR 0xFF] (name_profile ''1'')))
    \<and> KeyValConfig_Learn (\<lambda>_. rev) new_KeyValConfig byte_pile = Inr d \<and> key_accepts d [CHR 0xFF] (name_profile ''1'')"
proof -
  have pwf: "kv_pwf byte_pile" by (simp add: kv_pwf_def byte_pile_def)
  have fr: "fair_ranger (\<lambda>_. rev)" by (auto simp: fair_def)
  obtain c' where c': "KeyValConfig_Learn (\<lambda>_. rev) new_KeyValConfig (json_KeyValPile byte_pile) = Inr c'"
    using KeyValConfig_Learn_ok [OF fr kv_cwf_new json_kv_kept(1) [OF pwf]] by (auto simp: ok_iff)
  obtain d where d: "KeyValConfig_Learn (\<lambda>_. rev) new_KeyValConfig byte_pile = Inr d"
      "\<forall>k q v. (k, Some q) \<in> set (entries byte_pile) \<longrightarrow> k \<noteq> '''' \<longrightarrow> simple_covers q v \<longrightarrow> key_accepts d k v"
    using KeyValConfig_Learn_ok [OF fr kv_cwf_new pwf] by (auto simp: ok_iff)
  have "key_accepts d [CHR 0xFF] (name_profile ''1'')"
    using d(2) SimpleValPile_Add_covers [of new_SimpleValPile "name_profile ''1''"] by (simp add: byte_pile_def)
  moreover have "length (json_string [CHR 0xFF]) = 3"
    by (simp add: json_string_def runes_def decode_rune_def encode_rune_def)
  then have "\<not> valid_utf8 [CHR 0xFF]" by (auto simp: valid_utf8_def)
  note invalid_key_never_known [OF kv_portable_new c' pwf this, of "name_profile ''1''"]
  ultimately show ?thesis using c' d(1) by metis
qed

end
