(* ===== verification/Gate_Service.thy ===== *)
theory Gate_Service
  imports Gates Transport_Criteria
begin

text \<open>
  A gate and the guard-service together: the request that \<open>syncWithService\<close> sends is the one that
  \<open>processSync\<close> handles, its answer is the one the gate loads. What lies between them is HTTP, which
  carries a body or fails, and \<open>encoding/json\<close>, which \<open>Transport_Piles\<close> and \<open>Transport_Criteria\<close>
  describe.
\<close>

section \<open>Between the two programs\<close>

text \<open>
  What the gate sees of a call of the handler: when it panics the server closes the connection; the
  text of an error is not represented.
\<close>

definition service_answer :: "('k \<times> learner \<times> http_reply) res \<Rightarrow> http_answer" where
  "service_answer out =
     (case out of
        Inl e \<Rightarrow> DoError
      | Inr (k, l, HttpError status) \<Rightarrow> Answer status (BodyBytes '''')
      | Inr (k, l, HttpOk buf) \<Rightarrow> Answer 200 (BodyBytes buf))"

text \<open>
  The codec on both sides: whatever one side manages to marshal, the other reads, and it gets what
  JSON makes of the pile and of the guardian. A decision that is sent is never null.
\<close>

definition linked :: "'k gate_env \<Rightarrow> sync_codec \<Rightarrow> bool" where
  "linked e codec \<longleftrightarrow>
     (\<forall>m b. GE_marshal e m = Some b \<longrightarrow> b \<noteq> '''' \<and>
       (\<exists>alerts. decode_req codec b False = Some \<lparr>SMR_Pile = Some (json_SessionDataPile (CS_Pile m)), SMR_Alerts = alerts,
            SMR_IamCompromised = CS_IamCompromised m\<rparr>
          \<and> (\<forall>as. alerts = Some as \<longrightarrow> (\<forall>a \<in> set as. SA_Decision a \<noteq> None))))
     \<and> (\<forall>r b. marshal_resp codec r = Some b \<longrightarrow> b \<noteq> '''' \<and>
       GE_unmarshal e b = Some (map_option json_GuardianSpec (SMS_Guardian r)))"

lemma linked_request:
  assumes "linked e codec" and "GE_marshal e m = Some b"
  shows "b \<noteq> ''''" and "\<exists>alerts. decode_req codec b False = Some \<lparr>SMR_Pile = Some (json_SessionDataPile (CS_Pile m)), SMR_Alerts = alerts,
      SMR_IamCompromised = CS_IamCompromised m\<rparr> \<and> (\<forall>as. alerts = Some as \<longrightarrow> (\<forall>a \<in> set as. SA_Decision a \<noteq> None))"
  using assms unfolding linked_def by metis+

lemma linked_answer:
  assumes "linked e codec" and "marshal_resp codec r = Some b"
  shows "b \<noteq> ''''" and "GE_unmarshal e b = Some (map_option json_GuardianSpec (SMS_Guardian r))"
  using assms unfolding linked_def by metis+

section \<open>Records that can travel\<close>

definition record_portable :: "serviceRecord \<Rightarrow> bool" where
  "record_portable r \<longleftrightarrow> session_travelled (SR_pile r) \<and> (\<forall>c. Learned (SR_guardianSpec r) = Some c \<longrightarrow> session_portable c)"

lemma record_portable_new: "record_portable (new_serviceRecord ns sid cm)"
  by (simp add: record_portable_def new_serviceRecord_def new_GuardianSpec_def session_travelled_Clear session_travelled_empty)

lemma learn_pile_portable:
  assumes "record_portable r" and "session_portable c" and "learn_pile rr now r c = Inr r'"
  shows "record_portable r'" and "Control (SR_guardianSpec r') = Control (SR_guardianSpec r)"
proof -
  obtain c' where c': "SessionDataConfig_Learn rr c (SR_pile r) = Inr c'" "Learned (SR_guardianSpec r') = Some c'"
      "SR_pile r' = SessionDataPile_Clear (SR_pile r)" "Control (SR_guardianSpec r') = Control (SR_guardianSpec r)"
    using assms(3) by (auto simp: learn_pile_def bind_res_Inr Let_def)
  then show "record_portable r'" "Control (SR_guardianSpec r') = Control (SR_guardianSpec r)"
    using assms(1) session_portable_Learn [OF assms(2) _ c'(1)] by (simp_all add: record_portable_def session_travelled_Clear)
qed

lemma learnAndPersist_portable:
  assumes "record_portable r" and "learnAndPersistGuardian rr now r = Inr (r', persist, result)"
  shows "record_portable r' \<and> Control (SR_guardianSpec r') = Control (SR_guardianSpec r)"
proof -
  let ?c = "or_new new_SessionDataConfig (Learned (SR_guardianSpec r))"
  let ?r = "r\<lparr>SR_guardianSpec := (SR_guardianSpec r)\<lparr>Learned := Some ?c\<rparr>\<rparr>"
  have c: "session_portable ?c"
    using assms(1) session_portable_new by (cases "Learned (SR_guardianSpec r)") (simp_all add: record_portable_def)
  then have r: "record_portable ?r" using assms(1) by (simp add: record_portable_def)
  obtain t where t: "(if snd (should now r) \<and> SDQ_Count (SR_pile ?r) > 0 then learn_pile rr now ?r ?c else Inr ?r) = Inr t"
      "SR_guardianSpec r' = SR_guardianSpec t" "SR_pile r' = SR_pile t"
    using assms(2) by (auto simp: learnAndPersistGuardian_def Let_def bind_res_Inr split: prod.splits if_splits)
  then have "record_portable t \<and> Control (SR_guardianSpec t) = Control (SR_guardianSpec r)"
    using r learn_pile_portable [OF r c] by (auto split: if_splits)
  then show ?thesis using t(2,3) by (simp add: record_portable_def)
qed

lemma mergeAndLearn_portable:
  assumes "services_ok s" and "a < length (SV_heap s)" and "record_portable (record_at s a)"
    and "session_travelled q" and "mergeAndLearnAndPersistGuardian rr now a (Some q) s = Inr s'"
  shows "record_portable (record_at s' a) \<and> Control (SR_guardianSpec (record_at s' a)) = Control (SR_guardianSpec (record_at s a))"
proof -
  let ?r = "record_at s a"
  have learn: "record_portable (record_at s' a) \<and> Control (SR_guardianSpec (record_at s' a)) = Control (SR_guardianSpec (record_at t a))"
    if l: "learn_at rr now a t = Inr (s', b)" "record_portable (record_at t a)" "a < length (SV_heap t)" for t b
  proof -
    obtain r p where "learnAndPersistGuardian rr now (record_at t a) = Inr (r, p, b)" "record_at s' a = r"
      using l(1,3) by (auto simp: learn_at_def bind_res_Inr Let_def split: if_splits)
    with learnAndPersist_portable [OF l(2)] show ?thesis by simp
  qed
  show ?thesis
  proof (cases "SDQ_Count q > 0")
    case True
    obtain p b where p: "SessionDataPile_Merge (SR_pile ?r) q = Inr p"
      "learn_at rr now a (put_record a (?r\<lparr>SR_pile := p, SR_pileMergeCounter := SR_pileMergeCounter ?r + 1\<rparr>) s) = Inr (s', b)"
      using assms(5) True by (auto simp: mergeAndLearnAndPersistGuardian_def bind_res_Inr Let_def)
    have "session_pwf (SR_pile ?r)" using services_ok_record [OF assms(1,2)] by (simp add: record_ok_def)
    from session_travelled_Merge [OF this _ assms(4) p(1)] assms(3) have "session_travelled p" by (simp add: record_portable_def)
    let ?r' = "?r\<lparr>SR_pile := p, SR_pileMergeCounter := SR_pileMergeCounter ?r + 1\<rparr>"
    have at: "record_at (put_record a ?r' s) a = ?r'" "a < length (SV_heap (put_record a ?r' s))" using assms(2) by simp_all
    have "record_portable ?r'" using \<open>session_travelled p\<close> assms(3) by (simp add: record_portable_def)
    from learn [OF p(2), unfolded at(1), OF this at(2)] show ?thesis
      unfolding serviceRecord.select_convs serviceRecord.update_convs by (cases ?r) simp
  next
    case False
    then obtain b where "learn_at rr now a s = Inr (s', b)"
      using assms(5) by (auto simp: mergeAndLearnAndPersistGuardian_def bind_res_Inr)
    from learn [OF this assms(3,2)] show ?thesis .
  qed
qed

section \<open>The service's half\<close>

lemma processSync_takes_in:
  assumes "fair_ranger rr" and base: "baseHandler api rr now req k l = Inr (l1, Inr (a, pod))"
    and http: "HR_Method req = ''POST''" "HR_Path req = ''/sync''" "HR_ContentLength req \<noteq> 0" "HR_Body req = Some body"
    and body: "length body \<le> MAX_SYNC_BODY"
      "decode_req codec body False = Some \<lparr>SMR_Pile = Some q, SMR_Alerts = alerts, SMR_IamCompromised = flag\<rparr>"
      "\<And>as. alerts = Some as \<Longrightarrow> \<forall>x \<in> set as. SA_Decision x \<noteq> None"
    and s: "services_ok (LR_services l1)" "a < length (SV_heap (LR_services l1))" "record_portable (record_at (LR_services l1) a)"
    and q: "session_pwf q" "session_travelled q"
  shows "\<exists>k' l'. processSync api codec rr now req k l = Inr (k', l',
      case marshal_resp codec \<lparr>SMS_Guardian = Some (SR_guardianSpec (record_at (LR_services l') a))\<rparr> of
        None \<Rightarrow> HttpError 500 | Some buf \<Rightarrow> HttpOk buf)
    \<and> services_ok (LR_services l') \<and> length (SV_heap (LR_services l')) = length (SV_heap (LR_services l1))
    \<and> record_portable (record_at (LR_services l') a) \<and> Learned (SR_guardianSpec (record_at (LR_services l') a)) \<noteq> None
    \<and> Control (SR_guardianSpec (record_at (LR_services l') a)) = Control (SR_guardianSpec (record_at (LR_services l1) a))
    \<and> (\<forall>u. SDQ_Count q > 0 \<longrightarrow> session_covers q u \<longrightarrow> RP_HopIp (SDP_Req u) = [] \<longrightarrow> taken_in (record_at (LR_services l') a) u)"
proof -
  let ?s = "LR_services l1"
  obtain s' where s': "mergeAndLearnAndPersistGuardian rr now a (Some q) ?s = Inr s'" "services_ok s'" "touches a ?s s'"
      "Learned (SR_guardianSpec (record_at s' a)) \<noteq> None"
      "\<forall>u. SDQ_Count q > 0 \<longrightarrow> session_covers q u \<longrightarrow> RP_HopIp (SDP_Req u) = [] \<longrightarrow> taken_in (record_at s' a) u"
    using mergeAndLearn_ok [OF assms(1) s(1,2), of "Some q" now] q(1) by (auto simp: ok_iff)
  have port: "record_portable (record_at s' a)" "Control (SR_guardianSpec (record_at s' a)) = Control (SR_guardianSpec (record_at ?s a))"
    using mergeAndLearn_portable [OF s q(2) s'(1)] by simp_all
  have len: "length (SV_heap s') = length (SV_heap ?s)" using s'(3) by (simp add: touches_def)
  obtain n where n: "add_alerts alerts (record_at s' a) = Inr (record_at s' a\<lparr>SR_alerts := n\<rparr>)"
    using add_alerts_ok [of alerts "record_at s' a"] body(3) by (auto simp: ok_iff)
  let ?r = "record_at s' a\<lparr>SR_alerts := n\<rparr>"
  let ?l = "l1\<lparr>LR_services := put_record a ?r s'\<rparr>"
  have at: "record_at (LR_services ?l) a = ?r" using s(2) len by simp
  have a': "a < length (SV_heap s')" using s(2) len by simp
  have "record_ok ?r" using services_ok_record [OF s'(2) a'] by (simp add: record_ok_def)
  then have ok': "services_ok (put_record a ?r s')" by (rule put_record_ok [OF s'(2) a']) (simp add: same_service_def)
  let ?k = "if flag then deletePod api (record_at ?s a) pod k else k"
  have eq: "processSync api codec rr now req k l = Inr (?k, ?l,
      case marshal_resp codec \<lparr>SMS_Guardian = Some (SR_guardianSpec ?r)\<rparr> of None \<Rightarrow> HttpError 500 | Some buf \<Rightarrow> HttpOk buf)"
    using base http body(1,2) s'(1) n a'
    by (simp add: processSync_def Let_def split: option.split)
  have "record_portable ?r" "Learned (SR_guardianSpec ?r) \<noteq> None"
      "Control (SR_guardianSpec ?r) = Control (SR_guardianSpec (record_at ?s a))"
    using port s'(4) by (simp_all add: record_portable_def)
  moreover have "\<forall>u. SDQ_Count q > 0 \<longrightarrow> session_covers q u \<longrightarrow> RP_HopIp (SDP_Req u) = [] \<longrightarrow> taken_in ?r u"
    using s'(5) by (simp add: taken_in_def)
  moreover have "services_ok (LR_services ?l)" "length (SV_heap (LR_services ?l)) = length (SV_heap ?s)" using ok' len by simp_all
  ultimately show ?thesis
    using eq by (intro exI [of _ ?k] exI [of _ ?l], unfold at) blast
qed

section \<open>The gate's half\<close>

lemma sync_request_sent:
  assumes "sync_request e ticks srv = (srv1, Some req)" and "GE_UrlPath e = Some path"
  shows "GC_pile srv1 = GC_pile srv"
    and "\<exists>body. GE_marshal e \<lparr>CS_Pile = GC_pile srv, CS_Alerts = GC_alerts srv, CS_IamCompromised = GC_IamCompromised srv\<rparr> = Some body
      \<and> HR_Method req = ''POST'' \<and> HR_Path req = path \<and> HR_ContentLength req = int (length body) \<and> HR_Body req = Some body"
proof -
  show "GC_pile srv1 = GC_pile srv" using sync_request_keeps [OF assms(1)] by simp
  define srv0 where "srv0 = (if GC_tokenRefreshTime srv \<le> ticks
    then srv\<lparr>GC_tokenRefreshTime := ticks + 300, GC_httpClient := fst (ReadToken (GE_TokenFile e) (GC_httpClient srv))\<rparr> else srv)"
  have same: "GC_pile srv0 = GC_pile srv" "GC_alerts srv0 = GC_alerts srv" "GC_IamCompromised srv0 = GC_IamCompromised srv"
    by (simp_all add: srv0_def)
  obtain body where "GE_marshal e \<lparr>CS_Pile = GC_pile srv0, CS_Alerts = GC_alerts srv0, CS_IamCompromised = GC_IamCompromised srv0\<rparr> = Some body"
      "req = sync_http srv0 path body"
    using assms unfolding sync_request_def Let_def srv0_def [symmetric] by (auto split: option.splits)
  then show "\<exists>body. GE_marshal e \<lparr>CS_Pile = GC_pile srv, CS_Alerts = GC_alerts srv, CS_IamCompromised = GC_IamCompromised srv\<rparr> = Some body
      \<and> HR_Method req = ''POST'' \<and> HR_Path req = path \<and> HR_ContentLength req = int (length body) \<and> HR_Body req = Some body"
    by (simp add: same sync_http_def Let_def)
qed

text \<open>Loading a guardian that works automatically: the criteria learned is prepared.\<close>

lemma load_automatic:
  assumes "fair_ranger rr" and "session_cwf c" and "session_portable c" and "Learned g = Some c"
    and "Control g = Some ct" and "Auto ct"
  shows "\<exists>d. load_guardian rr (json_GuardianSpec g) gs = Inr (gs\<lparr>GS_numSamples := NumSamples g, GS_ctrl := Some ct, GS_criteria := Some d\<rparr>)
    \<and> session_cwf d \<and> (\<forall>u. session_accepts c u \<longrightarrow> session_accepts d u)"
  using session_sent [OF assms(1-3)] assms(4-6)
  by (auto simp: load_guardian_def json_GuardianSpec_def ok_iff Let_def)

lemma answered_gate_loads:
  assumes "sync_request e ticks (GS_srv gs) = (srv1, Some req)" and "GE_Do e req = Answer 200 (BodyBytes buf)" and "buf \<noteq> ''''"
    and "GE_unmarshal e buf = Some (Some g)" and "force \<or> MIN_TIME_BETWEEN_SYNCS \<le> ticks - GS_lastSync gs"
  shows "gate_sync e rr True force ticks gs
    = load_guardian rr g (gs\<lparr>GS_skippedSyncs := 0, GS_srv := srv1\<lparr>GC_alerts := [], GC_pile := SessionDataPile_Clear (GC_pile srv1)\<rparr>\<rparr>)"
  using assms by (auto simp: gate_sync_def syncWithServiceAndKubeApi_def syncWithService_def sync_reply_def Let_def)

section \<open>Properties\<close>


text \<open>
  An instance: a gate that does not authenticate and has piled one session, a service that has just
  started, and a codec that knows the two messages of the round, the second of which is \<open>answer\<close>.
\<close>

definition demo_codec :: "SessionDataPile \<Rightarrow> SyncMessageResp option \<Rightarrow> sync_codec" where
  "demo_codec q answer =
     \<lparr>decode_req = \<lambda>b cut. if b = ''m'' then Some \<lparr>SMR_Pile = Some (json_SessionDataPile q), SMR_Alerts = None,
        SMR_IamCompromised = False\<rparr> else None,
      marshal_resp = \<lambda>r. if Some r = answer then Some ''g'' else None\<rparr>"

definition demo_learner :: learner where
  "demo_learner = \<lparr>LR_services = newServices, LR_pileLearnTicker = NewTicker 1, LR_chacheTokenTicker = NewTicker 1,
     LR_env = \<lparr>GuardServiceAuth = ''false'', GuardServiceLabels = []\<rparr>, LR_tokens = [], LR_serving = True\<rparr>"

definition demo_env :: "SessionDataPile \<Rightarrow> SyncMessageResp option \<Rightarrow> unit gate_env" where
  "demo_env q answer = quiet_env\<lparr>GE_UrlPath := Some ''/sync'',
     GE_Do := \<lambda>req. service_answer (processSync empty_cluster (demo_codec q answer) (\<lambda>_. rev) 5 req () demo_learner),
     GE_marshal := \<lambda>m. if m = \<lparr>CS_Pile = q, CS_Alerts = [], CS_IamCompromised = False\<rparr> then Some ''m'' else None,
     GE_unmarshal := \<lambda>b. if b = ''g'' then map_option (\<lambda>r. map_option json_GuardianSpec (SMS_Guardian r)) answer else None\<rparr>"

definition demo_gate :: "SessionDataPile \<Rightarrow> gateState" where
  "demo_gate q = (let gs = NewGateState 0 None False 60 5 False ''pod'' ''shop'' ''default'' True
     in gs\<lparr>GS_srv := (GS_srv gs)\<lparr>GC_pile := q\<rparr>\<rparr>)"

lemma demo_env_fields:
  "GE_UrlPath (demo_env q answer) = Some ''/sync''"
  "GE_Do (demo_env q answer) req = service_answer (processSync empty_cluster (demo_codec q answer) (\<lambda>_. rev) 5 req () demo_learner)"
  by (simp_all add: demo_env_def)

lemma demo_linked: "linked (demo_env q answer) (demo_codec q answer)"
  by (auto simp: linked_def demo_env_def demo_codec_def)

definition demo_req :: "SessionDataPile \<Rightarrow> http_req" where
  "demo_req q = sync_http (fst (sync_request (demo_env q None) 600 (GS_srv (demo_gate q)))) ''/sync'' ''m''"

lemma demo_request:
  shows "HR_Method (demo_req q) = ''POST''" and "HR_Path (demo_req q) = ''/sync''" and "HR_ContentLength (demo_req q) = 1"
    and "HR_Body (demo_req q) = Some ''m''"
    and "HR_Query (demo_req q) = Some [(''sid'', [''shop'']), (''ns'', [''default'']), (''pod'', [''pod'']), (''cm'', [''true''])]"
    and "sync_request (demo_env q answer) 600 (GS_srv (demo_gate q)) = (fst (sync_request (demo_env q None) 600 (GS_srv (demo_gate q))), Some (demo_req q))"
  by (simp_all add: demo_req_def add: sync_request_def demo_env_def demo_gate_def quiet_env_def NewGateState_def initHttpClient_def NewGateClient_def
      ReadToken_def sync_http_def Let_def)

lemma demo_client: "client_ok srv \<Longrightarrow> session_pwf q \<Longrightarrow> SDQ_Count q = 1 \<Longrightarrow> client_ok (initHttpClient f skip srv\<lparr>GC_pile := q\<rparr>)"
  using initHttpClient_ok [of srv f skip] by (simp add: client_ok_def PILE_LIMIT_def word_le_nat_alt)

lemma demo_query:
  "queryDataNoAuth (Some [(''sid'', [''shop'']), (''ns'', [''default'']), (''pod'', [''pod'']), (''cm'', [''true''])])
    = Inr (True, ''pod'', ''shop'', ''default'')"
  by code_simp

lemma demo_guardian: "GetGuardian empty_cluster () ''default'' ''shop'' True True = SetToMaximalAutomation new_GuardianSpec"
  by (simp add: GetGuardian_def Read_def readCm_def empty_cluster_def or_nil_def)

lemma demo_handler:
  assumes "HR_Query req = Some [(''sid'', [''shop'']), (''ns'', [''default'']), (''pod'', [''pod'']), (''cm'', [''true''])]"
  shows "\<exists>l1 ct. baseHandler empty_cluster (\<lambda>_. rev) 5 req () demo_learner = Inr (l1, Inr (0, ''pod''))
    \<and> services_ok (LR_services l1) \<and> 0 < length (SV_heap (LR_services l1)) \<and> record_portable (record_at (LR_services l1) 0)
    \<and> Control (SR_guardianSpec (record_at (LR_services l1) 0)) = Some ct \<and> Auto ct"
proof -
  let ?s = "newServices\<lparr>SV_namespaces := [(''default'', True)], SV_watching := [(''default'', True)]\<rparr>"
  let ?g = "SetToMaximalAutomation new_GuardianSpec"
  have "Learned ?g = None" by (simp add: SetToMaximalAutomation_def new_GuardianSpec_def Let_def)
  then have prep: "prepared (\<lambda>_. rev) ?g = Inr ?g" by (simp add: prepared_def)
  let ?r = "(new_serviceRecord ''default'' ''shop'' True)\<lparr>SR_guardianSpec := ?g\<rparr>"
  let ?t = "?s\<lparr>SV_heap := [?r], SV_cache := [(serviceKey ''default'' ''shop'' True, 0)]\<rparr>"
  have get: "get_service empty_cluster () (\<lambda>_. rev) ''default'' ''shop'' True newServices = Inr (?t, 0)"
    by (simp add: get_service_def newServices_def Let_def demo_guardian set_service_def prep put_record_def)
  have base: "baseHandler empty_cluster (\<lambda>_. rev) 5 req () demo_learner = Inr (demo_learner\<lparr>LR_services := ?t\<rparr>, Inr (0, ''pod''))"
    using get by (simp add: baseHandler_def demo_learner_def assms demo_query Let_def)
  have fr: "fair_ranger (\<lambda>_. rev)" by (auto simp: fair_def)
  have "services_ok (LR_services demo_learner)" by (simp add: demo_learner_def services_ok_new)
  from ok_Inr [OF baseHandler_ok [OF fr this empty_cluster_ok] base] have "services_ok ?t" by simp
  moreover have "record_portable ?r"
    using record_portable_new [of "''default''" "''shop''" True] \<open>Learned ?g = None\<close> by (simp add: record_portable_def)
  moreover have "Control ?g = Some (new_Ctrl\<lparr>Auto := True, Learn := True, Force := True, Alert := True\<rparr>)"
    by (simp add: SetToMaximalAutomation_def new_GuardianSpec_def or_new_def Let_def)
  ultimately show ?thesis using base
    by (intro exI [of _ "demo_learner\<lparr>LR_services := ?t\<rparr>"]
        exI [of _ "new_Ctrl\<lparr>Auto := True, Learn := True, Force := True, Alert := True\<rparr>"]) (simp add: demo_learner_def)
qed

text \<open>What the handler does to the service does not depend on how its answer is marshalled.\<close>

lemma processSync_served:
  assumes "baseHandler api rr now req k l = Inr (l1, Inr (a, pod))" and "HR_Method req = ''POST''" and "HR_Path req = ''/sync''"
    and "HR_ContentLength req \<noteq> 0" and "HR_Body req = Some body" and "length body \<le> MAX_SYNC_BODY"
    and "decode_req codec body False = Some d"
  shows "processSync api codec rr now req k l =
    bind_res (mergeAndLearnAndPersistGuardian rr now a (SMR_Pile d) (LR_services l1)) (\<lambda>s.
    bind_res (add_alerts (SMR_Alerts d) (record_at s a)) (\<lambda>r.
    Inr (if SMR_IamCompromised d then deletePod api (record_at (LR_services l1) a) pod k else k, l1\<lparr>LR_services := put_record a r s\<rparr>,
      case marshal_resp codec \<lparr>SMS_Guardian = Some (SR_guardianSpec (record_at (put_record a r s) a))\<rparr> of
        None \<Rightarrow> HttpError 500 | Some buf \<Rightarrow> HttpOk buf)))"
proof -
  have reply: "(case m of None \<Rightarrow> Inr (k, l, HttpError 500) | Some buf \<Rightarrow> Inr (k, l, HttpOk buf))
      = Inr (k, l, case m of None \<Rightarrow> HttpError 500 | Some buf \<Rightarrow> HttpOk buf)" for m :: "string option" and k l
    by (simp split: option.split)
  show ?thesis using assms by (simp add: processSync_def Let_def reply)
qed


end
