(* ===== verification/Json_Patch.thy ===== *)
theory Json_Patch
  imports Prelude
begin

text \<open>
  \<open>cmd/guard-webhook/jsonPatch.go\<close>: the bytes of a JSON patch, built by hand. What they mean is
  told by a reader of JSON, restricted to what can occur: objects, arrays and strings without
  escapes or white space. The effect of a patch is that of RFC 6902 on objects.
\<close>

section \<open>Building\<close>

datatype jval = JString string | JMap "jval entries" | JOther

record jOp =
  JO_op :: string
  JO_path :: string
  JO_val :: jval

record jPatch =
  JP_jOps :: "jOp list"
  JP_bytes :: string
  JP_empty :: bool

definition quoted :: "string \<Rightarrow> string" where
  "quoted s = CHR 0x22 # s @ [CHR 0x22]"

text \<open>The loops append a comma before every element but the first.\<close>

fun separated :: "bool \<Rightarrow> string list \<Rightarrow> string" where
  "separated first [] = []"
| "separated first (x # xs) = (if first then '''' else '','') @ x @ separated False xs"

lemma entry_smaller: "(k, v) \<in> set kvs \<Longrightarrow> size v < size (JMap kvs)"
  by (induction kvs) auto

text \<open>What \<open>buildVal\<close> appends; a value of any other type is only logged.\<close>

function buildVal :: "ranger \<Rightarrow> jval \<Rightarrow> string" where
  "buildVal rr (JString s) = quoted s"
| "buildVal rr (JMap kvs) =
     separated True (map (\<lambda>(k, v). ''{'' @ quoted k @ '':'' @ buildVal (at_site rr k) v @ ''}'') (range_over (rr ''val'') kvs))"
| "buildVal rr JOther = ''''"
  by pat_completeness auto
termination
  by (relation "measure (\<lambda>(rr, v). size v)") (use range_over_subset entry_smaller in fastforce)+

definition build_op :: "ranger \<Rightarrow> jOp \<Rightarrow> string" where
  "build_op rr jop =
     ''{'' @ quoted ''op'' @ '':'' @ quoted (JO_op jop) @ '','' @ quoted ''path'' @ '':'' @ quoted (JO_path jop) @ '',''
       @ quoted ''value'' @ '':'' @ buildVal rr (JO_val jop) @ ''}''"

definition build :: "ranger \<Rightarrow> jPatch \<Rightarrow> jPatch" where
  "build rr jp = jp\<lparr>JP_empty := (JP_jOps jp = []), JP_bytes := ''['' @ separated True (map (build_op rr) (JP_jOps jp)) @ '']''\<rparr>"

section \<open>JSON\<close>

datatype json = JStr string | JObj "json entries" | JArr "json list"

definition take_string :: "string \<Rightarrow> (string \<times> string) option" where
  "take_string cs =
     (case dropWhile (\<lambda>c. c \<noteq> CHR 0x22 \<and> c \<noteq> CHR 0x5C) cs of
        c # rest \<Rightarrow> if c = CHR 0x22 then Some (takeWhile (\<lambda>c. c \<noteq> CHR 0x22 \<and> c \<noteq> CHR 0x5C) cs, rest) else None
      | [] \<Rightarrow> None)"

text \<open>The number bounds the depth of the calls, the length of the text is enough.\<close>

fun parse_value :: "nat \<Rightarrow> string \<Rightarrow> (json \<times> string) option"
  and parse_members :: "nat \<Rightarrow> string \<Rightarrow> (json entries \<times> string) option"
  and parse_elements :: "nat \<Rightarrow> string \<Rightarrow> (json list \<times> string) option" where
  "parse_value 0 cs = None"
| "parse_value (Suc n) cs =
     (case cs of
        [] \<Rightarrow> None
      | c # r \<Rightarrow>
          if c = CHR 0x22 then map_option (\<lambda>(s, r). (JStr s, r)) (take_string r)
          else if c = CHR ''{'' then
            (if take 1 r = ''}'' then Some (JObj [], drop 1 r) else map_option (\<lambda>(m, r). (JObj m, r)) (parse_members n r))
          else if c = CHR ''['' then
            (if take 1 r = '']'' then Some (JArr [], drop 1 r) else map_option (\<lambda>(m, r). (JArr m, r)) (parse_elements n r))
          else None)"
| "parse_members 0 cs = None"
| "parse_members (Suc n) cs =
     (case cs of
        [] \<Rightarrow> None
      | c # r \<Rightarrow>
          if c \<noteq> CHR 0x22 then None
          else (case take_string r of
              None \<Rightarrow> None
            | Some (k, r) \<Rightarrow>
                if take 1 r \<noteq> '':'' then None
                else (case parse_value n (drop 1 r) of
                    None \<Rightarrow> None
                  | Some (v, r) \<Rightarrow>
                      if take 1 r = '','' then map_option (\<lambda>(m, r). ((k, v) # m, r)) (parse_members n (drop 1 r))
                      else if take 1 r = ''}'' then Some ([(k, v)], drop 1 r)
                      else None)))"
| "parse_elements 0 cs = None"
| "parse_elements (Suc n) cs =
     (case parse_value n cs of
        None \<Rightarrow> None
      | Some (v, r) \<Rightarrow>
          if take 1 r = '','' then map_option (\<lambda>(m, r). (v # m, r)) (parse_elements n (drop 1 r))
          else if take 1 r = '']'' then Some ([v], drop 1 r)
          else None)"

definition parse_json :: "string \<Rightarrow> json option" where
  "parse_json cs = (case parse_value (Suc (length cs)) cs of Some (j, []) \<Rightarrow> Some j | _ \<Rightarrow> None)"

section \<open>Which patches are JSON\<close>

definition plain :: "string \<Rightarrow> bool" where
  "plain s \<longleftrightarrow> CHR 0x22 \<notin> set s \<and> CHR 0x5C \<notin> set s"

fun plain_val :: "jval \<Rightarrow> bool" where
  "plain_val (JString s) = plain s"
| "plain_val (JMap kvs) = (kvs_ok kvs \<and> (\<forall>kv \<in> set kvs. plain (fst kv) \<and> plain_val (snd kv)))"
| "plain_val JOther = True"

text \<open>Every map has exactly one entry, and there is nothing else but strings.\<close>

fun single :: "jval \<Rightarrow> bool" where
  "single (JString s) = True"
| "single (JMap kvs) = (length kvs = 1 \<and> (\<forall>kv \<in> set kvs. single (snd kv)))"
| "single JOther = False"

fun json_of :: "jval \<Rightarrow> json" where
  "json_of (JString s) = JStr s"
| "json_of (JMap kvs) = JObj (map (\<lambda>kv. (fst kv, json_of (snd kv))) kvs)"
| "json_of JOther = JObj []"

definition op_json :: "jOp \<Rightarrow> json" where
  "op_json jop = JObj [(''op'', JStr (JO_op jop)), (''path'', JStr (JO_path jop)), (''value'', json_of (JO_val jop))]"

definition plain_op :: "jOp \<Rightarrow> bool" where
  "plain_op jop \<longleftrightarrow> plain (JO_op jop) \<and> plain (JO_path jop) \<and> plain_val (JO_val jop)"

lemma take_string_plain: "plain s \<Longrightarrow> take_string (s @ CHR 0x22 # rest) = Some (s, rest)"
proof -
  assume "plain s"
  then have "\<And>c. c \<in> set s \<Longrightarrow> c \<noteq> CHR 0x22 \<and> c \<noteq> CHR 0x5C" by (auto simp: plain_def)
  then show ?thesis by (simp add: take_string_def dropWhile_append2 takeWhile_append2 dropWhile_append3 takeWhile_append)
qed

lemma parse_quoted: "plain s \<Longrightarrow> parse_value (Suc n) (quoted s @ rest) = Some (JStr s, rest)"
  by (simp add: quoted_def take_string_plain)

text \<open>A member with a plain key: what follows depends on its value.\<close>

lemma parse_member:
  "plain k \<Longrightarrow> parse_members (Suc n) (quoted k @ '':'' @ tex) =
     (case parse_value n tex of
        None \<Rightarrow> None
      | Some (v, r) \<Rightarrow>
          if take 1 r = '','' then map_option (\<lambda>(m, r). ((k, v) # m, r)) (parse_members n (drop 1 r))
          else if take 1 r = ''}'' then Some ([(k, v)], drop 1 r)
          else None)"
  by (simp add: quoted_def take_string_plain)

lemma parse_object:
  "parse_value (Suc m) (''{'' @ quoted k @ r) = map_option (\<lambda>(m, r). (JObj m, r)) (parse_members m (quoted k @ r))"
  by (simp add: quoted_def)

lemma parse_brace: "parse_value n (CHR ''}'' # r) = None" "parse_members n (CHR ''{'' # r) = None"
  by (cases n; simp)+

declare parse_value.simps(2) [simp del] parse_members.simps(2) [simp del] parse_elements.simps(2) [simp del]

fun depth :: "jval \<Rightarrow> nat" where
  "depth (JMap (kv # kvs)) = 2 + depth (snd kv)"
| "depth _ = 0"

lemma range_over_single: "fair ro \<Longrightarrow> range_over ro [(k, v)] = [(k, v)]"
proof -
  assume "fair ro"
  then have "mset (ro [k]) = {#k#}" by (simp add: fair_def)
  then have "ro [k] = [k]" by (cases "ro [k]") simp_all
  then show ?thesis by (simp add: range_over_def)
qed

text \<open>A value whose maps have one entry is read back, if the calls may be deep enough.\<close>

lemma parse_single:
  assumes "fair_ranger rr" and "plain_val v" and "single v"
  shows "parse_value n (buildVal rr v @ rest) = (if depth v < n then Some (json_of v, rest) else None)"
  using assms
proof (induction v arbitrary: rr n rest)
  case (JString s)
  show ?case
  proof (cases n)
    case (Suc m)
    then show ?thesis using JString parse_quoted [of s m rest] by (simp del: parse_value.simps)
  qed simp
next
  case (JMap kvs)
  then obtain k v where kvs: "kvs = [(k, v)]" by (cases kvs) auto
  have IH: "parse_value m (buildVal (at_site rr k) v @ r) = (if depth v < m then Some (json_of v, r) else None)" for m r
    using JMap kvs by simp
  have tex: "buildVal rr (JMap kvs) = ''{'' @ quoted k @ '':'' @ buildVal (at_site rr k) v @ ''}''"
    using JMap.prems(1) by (simp add: kvs range_over_single)
  have k: "plain k" using JMap.prems(2) kvs by simp
  have head: "parse_value (Suc m) (buildVal rr (JMap kvs) @ rest) =
      map_option (\<lambda>(m, r). (JObj m, r)) (parse_members m (quoted k @ '':'' @ buildVal (at_site rr k) v @ ''}'' @ rest))" for m
    unfolding tex append_assoc parse_object by simp
  consider "n = 0" | "n = Suc 0" | m where "n = Suc (Suc m)" by (metis not0_implies_Suc)
  then show ?case
  proof cases
    case (3 m)
    then show ?thesis unfolding 3 head parse_member [OF k] IH by (simp add: kvs)
  next
    case 2
    then show ?thesis unfolding 2 head by (simp add: kvs)
  qed simp
qed simp

text \<open>Any other value is not read as one value.\<close>

lemma parse_not_single:
  assumes "fair_ranger rr" and "plain_val v" and "\<not> single v"
  shows "parse_value n (buildVal rr v @ ''}'' @ rest) = None \<or> (\<exists>j r. parse_value n (buildVal rr v @ ''}'' @ rest) = Some (j, '',{'' @ r))"
  using assms
proof (induction v arbitrary: rr n rest)
  case (JMap kvs)
  let ?xs = "range_over (rr ''val'') kvs"
  have ok: "kvs_ok kvs" using JMap.prems(2) by simp
  have len: "length ?xs = length kvs"
    using arg_cong [OF map_fst_range_over [OF fair_rangerD [OF JMap.prems(1), of "''val''"], of kvs], of length] JMap.prems(1)
    by (simp add: fair_length)
  have sub: "plain k \<and> plain_val v" if "(k, v) \<in> set ?xs" for k v
    using range_over_subset [OF that] JMap.prems(2) by fastforce
  show ?case
  proof (cases ?xs)
    case Nil
    then show ?thesis by (simp add: parse_brace)
  next
    case (Cons kv ys)
    obtain k v where kv: "kv = (k, v)" by (cases kv)
    have in_kvs: "(k, v) \<in> set kvs" using range_over_subset [of k v "rr ''val''" kvs] Cons kv by simp
    define tl where "tl = separated False (map (\<lambda>(k, v). ''{'' @ quoted k @ '':'' @ buildVal (at_site rr k) v @ ''}'') ys) @ ''}'' @ rest"
    have tex: "buildVal rr (JMap kvs) @ ''}'' @ rest = ''{'' @ quoted k @ '':'' @ buildVal (at_site rr k) v @ ''}'' @ tl"
      by (simp add: Cons kv tl_def)
    have k: "plain k" "plain_val v" using sub [of k v] Cons kv by simp_all
    have fair: "fair_ranger (at_site rr k)" using JMap.prems(1) by simp
    define nested where "nested m = parse_value m (buildVal (at_site rr k) v @ ''}'' @ tl)" for m
    have head: "parse_value (Suc m) (buildVal rr (JMap kvs) @ ''}'' @ rest) =
        map_option (\<lambda>(m, r). (JObj m, r)) (parse_members m (quoted k @ '':'' @ buildVal (at_site rr k) v @ ''}'' @ tl))" for m
      unfolding tex parse_object ..
    have step: "parse_value n (buildVal rr (JMap kvs) @ ''}'' @ rest) = None
      \<or> (\<exists>m w r. nested m = Some (w, r) \<and> parse_value n (buildVal rr (JMap kvs) @ ''}'' @ rest) =
            (if take 1 r = '','' then map_option (\<lambda>(ms, r). (JObj ((k, w) # ms), r)) (parse_members m (drop 1 r))
             else if take 1 r = ''}'' then Some (JObj [(k, w)], drop 1 r) else None))"
    proof -
      consider "n = 0" | "n = Suc 0" | m where "n = Suc (Suc m)" by (metis not0_implies_Suc)
      then show ?thesis
      proof cases
        case (3 m)
        show ?thesis
        proof (cases "nested m")
          case None
          then show ?thesis unfolding 3 head parse_member [OF k(1)] nested_def by simp
        next
          case (Some wr)
          obtain w r where wr: "wr = (w, r)" by (cases wr)
          have "parse_value n (buildVal rr (JMap kvs) @ ''}'' @ rest) =
            (if take 1 r = '','' then map_option (\<lambda>(ms, r). (JObj ((k, w) # ms), r)) (parse_members m (drop 1 r))
             else if take 1 r = ''}'' then Some (JObj [(k, w)], drop 1 r) else None)"
            using Some wr unfolding 3 head parse_member [OF k(1)] nested_def
            by (cases "parse_members m (drop 1 r)") auto
          then show ?thesis using Some wr by blast
        qed
      next
        case 2
        then show ?thesis unfolding 2 head by simp
      qed simp
    qed
    show ?thesis
    proof (cases "single v")
      case False
      then have bad: "nested m = None \<or> (\<exists>j r. nested m = Some (j, '',{'' @ r))" for m
        unfolding nested_def using JMap.IH [OF in_kvs _ fair] k(2) by simp
      show ?thesis
      proof -
        from step show ?thesis
        proof (elim disjE exE conjE)
          fix m w r assume m: "nested m = Some (w, r)"
            and eq: "parse_value n (buildVal rr (JMap kvs) @ ''}'' @ rest) =
              (if take 1 r = '','' then map_option (\<lambda>(ms, r). (JObj ((k, w) # ms), r)) (parse_members m (drop 1 r))
               else if take 1 r = ''}'' then Some (JObj [(k, w)], drop 1 r) else None)"
          obtain r' where "r = '',{'' @ r'" using bad [of m] m by auto
          then show ?thesis unfolding eq by (simp add: parse_brace)
        qed simp
      qed
    next
      case True
      then have "length kvs \<noteq> 1" using JMap.prems(3) in_kvs by (auto simp: length_Suc_conv)
      then obtain kv2 zs where ys: "ys = kv2 # zs" using len Cons by (cases ys) auto
      then obtain r where tl: "tl = '',{'' @ r" by (cases kv2) (simp add: tl_def)
      show ?thesis
        using step unfolding nested_def parse_single [OF fair k(2) True] tl by (auto split: if_splits)
    qed
  qed
qed (simp_all add: parse_brace)

text \<open>One operation, then all of them.\<close>

lemma plain_names: "plain ''op''" "plain ''path''" "plain ''value''"
  by (simp_all add: plain_def)

lemma parse_value_quoted: "plain s \<Longrightarrow> 0 < n \<Longrightarrow> parse_value n (quoted s @ rest) = Some (JStr s, rest)"
  using parse_quoted by (cases n) auto

lemma depth_length: "fair_ranger rr \<Longrightarrow> single v \<Longrightarrow> depth v \<le> length (buildVal rr v)"
proof (induction v arbitrary: rr)
  case (JMap kvs)
  then obtain k v where kvs: "kvs = [(k, v)]" by (cases kvs) auto
  then have "depth v \<le> length (buildVal (at_site rr k) v)" using JMap by simp
  then show ?case using JMap.prems(1) by (simp add: kvs range_over_single)
qed simp_all

lemma parse_string_member:
  "plain k \<Longrightarrow> plain s \<Longrightarrow> parse_members (Suc (Suc n)) (quoted k @ '':'' @ quoted s @ '','' @ r) =
     map_option (\<lambda>(m, r). ((k, JStr s) # m, r)) (parse_members (Suc n) r)"
  unfolding parse_member parse_value_quoted [of s "Suc n", OF _ zero_less_Suc] by simp

lemma parse_last_member:
  assumes "fair_ranger rr" and "plain k" and "plain_val v" and "single v \<Longrightarrow> depth v < n"
  shows "parse_members (Suc n) (quoted k @ '':'' @ buildVal rr v @ ''}'' @ rest) =
    (if single v then Some ([(k, json_of v)], rest) else None)"
proof (cases "single v")
  case True
  then show ?thesis unfolding parse_member [OF assms(2)] parse_single [OF assms(1,3) True] using assms(4) by simp
next
  case False
  from parse_not_single [OF assms(1,3) False, of n rest]
  consider "parse_value n (buildVal rr v @ ''}'' @ rest) = None"
    | j r where "parse_value n (buildVal rr v @ ''}'' @ rest) = Some (j, '',{'' @ r)" by (elim disjE exE)
  then show ?thesis unfolding parse_member [OF assms(2)] using False by cases (simp_all add: parse_brace)
qed

lemma parse_op:
  assumes "fair_ranger rr" and "plain_op jop" and "length (build_op rr jop) \<le> n"
  shows "parse_value n (build_op rr jop @ rest) = (if single (JO_val jop) then Some (op_json jop, rest) else None)"
proof -
  have "5 \<le> n" using assms(3) by (simp add: build_op_def quoted_def)
  then obtain m where n: "n = Suc (Suc (Suc (Suc m)))" by (auto dest!: le_Suc_ex)
  have d: "depth (JO_val jop) < m" if "single (JO_val jop)"
    using assms(3) depth_length [OF assms(1) that] by (simp add: build_op_def quoted_def n)
  have p: "plain (JO_op jop)" "plain (JO_path jop)" "plain_val (JO_val jop)" using assms(2) by (simp_all add: plain_op_def)
  note q = plain_names
  have "parse_value n (build_op rr jop @ rest) = map_option (\<lambda>(m, r). (JObj m, r)) (map_option (\<lambda>(m, r). ((''op'', JStr (JO_op jop)) # m, r))
      (map_option (\<lambda>(m, r). ((''path'', JStr (JO_path jop)) # m, r)) (parse_members (Suc m) (quoted ''value'' @ '':'' @ buildVal rr (JO_val jop) @ ''}'' @ rest))))"
    unfolding n build_op_def append_assoc parse_object parse_string_member [OF q(1) p(1)] parse_string_member [OF q(2) p(2)] ..
  moreover have "parse_members (Suc m) (quoted ''value'' @ '':'' @ buildVal rr (JO_val jop) @ ''}'' @ rest) =
      (if single (JO_val jop) then Some ([(''value'', json_of (JO_val jop))], rest) else None)"
    by (rule parse_last_member [OF assms(1) q(3) p(3) d])
  ultimately show ?thesis by (simp only: op_json_def) (simp split: if_splits)
qed

lemma parse_ops:
  assumes "fair_ranger rr" and "\<forall>jop \<in> set (jop # ops). plain_op jop"
    and "length (build_op rr jop @ separated False (map (build_op rr) ops)) < n"
  shows "parse_elements n (build_op rr jop @ separated False (map (build_op rr) ops) @ '']'' @ rest) =
    (if \<forall>jop \<in> set (jop # ops). single (JO_val jop) then Some (map op_json (jop # ops), rest) else None)"
  using assms(2,3)
proof (induction ops arbitrary: n jop)
  case Nil
  then obtain m where n: "n = Suc m" "length (build_op rr jop) \<le> m" by (cases n) auto
  then show ?case using parse_op [OF assms(1) _ n(2)] Nil by (simp add: parse_elements.simps(2))
next
  case (Cons op2 ops)
  have "0 < length (build_op rr jop)" by (simp add: build_op_def)
  then obtain m where n: "n = Suc m" "length (build_op rr jop) \<le> m" "length (build_op rr op2 @ separated False (map (build_op rr) ops)) < m"
    using Cons.prems(2) by (cases n) auto
  have p: "plain_op jop" using Cons.prems(1) by simp
  have IH: "parse_elements m (build_op rr op2 @ separated False (map (build_op rr) ops) @ '']'' @ rest) =
      (if \<forall>jop \<in> set (op2 # ops). single (JO_val jop) then Some (map op_json (op2 # ops), rest) else None)"
    by (rule Cons.IH) (use Cons.prems(1) n(3) in auto)
  have "parse_elements n (build_op rr jop @ separated False (map (build_op rr) (op2 # ops)) @ '']'' @ rest) =
      (if single (JO_val jop) then map_option (\<lambda>(m, r). (op_json jop # m, r))
        (parse_elements m (build_op rr op2 @ separated False (map (build_op rr) ops) @ '']'' @ rest)) else None)"
    unfolding n(1) parse_elements.simps(2) using parse_op [OF assms(1) p n(2)] by simp
  then show ?case unfolding IH by simp
qed

lemma parse_build:
  assumes "fair_ranger rr" and "\<forall>jop \<in> set (JP_jOps jp). plain_op jop"
  shows "parse_json (JP_bytes (build rr jp)) =
    (if \<forall>jop \<in> set (JP_jOps jp). single (JO_val jop) then Some (JArr (map op_json (JP_jOps jp))) else None)"
proof (cases "JP_jOps jp")
  case Nil
  then show ?thesis by (simp add: build_def parse_json_def parse_value.simps(2))
next
  case (Cons jop ops)
  let ?tex = "build_op rr jop @ separated False (map (build_op rr) ops)"
  have bytes: "JP_bytes (build rr jp) = ''['' @ ?tex @ '']''" by (simp add: build_def Cons)
  have first: "take 1 (?tex @ '']'') = ''{''" by (simp add: build_op_def)
  have "parse_elements (length (''['' @ ?tex @ '']'')) (build_op rr jop @ separated False (map (build_op rr) ops) @ '']'' @ []) =
      (if \<forall>jop \<in> set (jop # ops). single (JO_val jop) then Some (map op_json (jop # ops), []) else None)"
    by (rule parse_ops [OF assms(1)]) (use assms(2) Cons in auto)
  then show ?thesis
    unfolding parse_json_def bytes using first Cons by (simp add: parse_value.simps(2))
qed

text \<open>
  C13. The bytes of a patch are JSON, and read back as the operations they were built from, exactly
  when every map in a value has a single entry: maps of several entries and empty maps give a
  text no JSON reader accepts.
\<close>

theorem patch_readable:
  assumes "fair_ranger rr" and "\<forall>jop \<in> set (JP_jOps jp). plain_op jop"
  shows "parse_json (JP_bytes (build rr jp)) =
    (if \<forall>jop \<in> set (JP_jOps jp). single (JO_val jop) then Some (JArr (map op_json (JP_jOps jp))) else None)"
  using assms by (rule parse_build)

theorem patch_readable_witness:
  "parse_json (JP_bytes (build (\<lambda>_ ks. ks) \<lparr>JP_jOps = [\<lparr>JO_op = ''add'', JO_path = ''/metadata'', JO_val = JMap [(''name'', JString ''a'')]\<rparr>], JP_bytes = [], JP_empty = True\<rparr>))
     = Some (JArr [JObj [(''op'', JStr ''add''), (''path'', JStr ''/metadata''), (''value'', JObj [(''name'', JStr ''a'')])]])
   \<and> parse_json (JP_bytes (build (\<lambda>_ ks. ks) \<lparr>JP_jOps = [\<lparr>JO_op = ''add'', JO_path = ''/metadata'', JO_val = JMap [(''name'', JString ''a''), (''uid'', JString ''b'')]\<rparr>], JP_bytes = [], JP_empty = True\<rparr>))
     = None"
  using patch_readable [of "\<lambda>_ ks. ks" "\<lparr>JP_jOps = [\<lparr>JO_op = ''add'', JO_path = ''/metadata'', JO_val = JMap [(''name'', JString ''a'')]\<rparr>], JP_bytes = [], JP_empty = True\<rparr>"]
    patch_readable [of "\<lambda>_ ks. ks" "\<lparr>JP_jOps = [\<lparr>JO_op = ''add'', JO_path = ''/metadata'', JO_val = JMap [(''name'', JString ''a''), (''uid'', JString ''b'')]\<rparr>], JP_bytes = [], JP_empty = True\<rparr>"]
  by (simp add: fair_rangerI plain_op_def plain_def op_json_def kvs_ok_def)

section \<open>Applying a patch\<close>

text \<open>RFC 6902 on objects: \<open>add\<close> puts a member, in the place of one of that name, \<open>replace\<close> wants it to be there.\<close>

fun json_put :: "bool \<Rightarrow> string list \<Rightarrow> json \<Rightarrow> json \<Rightarrow> json option" where
  "json_put replace [] v doc = Some v"
| "json_put replace [k] v (JObj kvs) = (if replace \<and> map_of kvs k = None then None else Some (JObj (AList.update k v kvs)))"
| "json_put replace (k # ks) v (JObj kvs) =
     (case map_of kvs k of
        None \<Rightarrow> None
      | Some child \<Rightarrow> map_option (\<lambda>child. JObj (AList.update k child kvs)) (json_put replace ks v child))"
| "json_put replace ks v doc = None"

text \<open>The names of a path, without the escapes.\<close>

fun path_names :: "string \<Rightarrow> string list" where
  "path_names [] = []"
| "path_names (c # cs) = (if c = CHR ''/'' then takeWhile (\<lambda>c. c \<noteq> CHR ''/'') cs # path_names cs else path_names cs)"

fun json_member :: "string list \<Rightarrow> json \<Rightarrow> json option" where
  "json_member [] doc = Some doc"
| "json_member (k # ks) (JObj kvs) = Option.bind (map_of kvs k) (json_member ks)"
| "json_member _ _ = None"

definition apply_op :: "jOp \<Rightarrow> json \<Rightarrow> json option" where
  "apply_op jop doc = json_put (JO_op jop = ''replace'') (path_names (JO_path jop)) (json_of (JO_val jop)) doc"

fun apply_ops :: "jOp list \<Rightarrow> json \<Rightarrow> json option" where
  "apply_ops [] doc = Some doc"
| "apply_ops (jop # ops) doc = Option.bind (apply_op jop doc) (apply_ops ops)"

end
