(* ===== verification/Webhook.thy ===== *)
theory Webhook
  imports Json_Patch "HOL-Library.Sublist"
begin

text \<open>
  \<open>cmd/guard-webhook/main.go\<close>: the admission webhook, which adds the guard and a service account
  to the services of Knative. The decoder of Kubernetes objects is a parameter.
\<close>

section \<open>Configuration\<close>

record conf =
  GuardEnable :: bool
  GuardForce :: bool
  ServiceAccountEnable :: bool
  ServiceAccountForce :: bool

text \<open>
  \<open>strings.ToLower\<close>: the letters of an ASCII string one by one; what the tables of Unicode make of any
  other string is the argument.
\<close>

definition lower_byte :: "char \<Rightarrow> char" where
  "lower_byte c = (if CHR ''A'' \<le> c \<and> c \<le> CHR ''Z'' then char_of (of_char c + 32 :: nat) else c)"

definition ToLower :: "(string \<Rightarrow> string) \<Rightarrow> string \<Rightarrow> string" where
  "ToLower unicode s = (if \<forall>c \<in> set s. of_char c < (128 :: nat) then map lower_byte s else unicode s)"

text \<open>The data of the ConfigMap; None when there is none.\<close>

definition updateCm :: "(string \<Rightarrow> string) \<Rightarrow> string gomap option \<Rightarrow> conf \<Rightarrow> conf" where
  "updateCm unicode cm c =
     (let c = c\<lparr>GuardEnable := True, GuardForce := False, ServiceAccountEnable := True, ServiceAccountForce := True\<rparr> in
      case cm of
        None \<Rightarrow> c
      | Some data \<Rightarrow>
          (let c = (case map_get data ''ServiceAccount'' of
                 None \<Rightarrow> c
               | Some val \<Rightarrow>
                   (let val = ToLower unicode val;
                        c = (if val = ''force'' then c\<lparr>ServiceAccountForce := True\<rparr> else c)
                    in if val = ''disable'' then c\<lparr>ServiceAccountEnable := False\<rparr> else c))
           in case map_get data ''Guard'' of
                None \<Rightarrow> c
              | Some val \<Rightarrow>
                  (let val = ToLower unicode val;
                       c = (if val = ''force'' then c\<lparr>GuardForce := True\<rparr> else c)
                   in if val = ''disable'' then c\<lparr>GuardEnable := False\<rparr> else c)))"

section \<open>Answering a review\<close>

text \<open>Of a service: the account and the annotations of its template.\<close>

record kservice =
  KS_ServiceAccountName :: string
  KS_Annotations :: "string gomap"

record admission_request =
  AR_UID :: string
  AR_Raw :: string

datatype runtime_object = ServingService kservice | AdmissionReview "admission_request option" | OtherObject

text \<open>The kind and the object, or an error.\<close>

type_synonym decoder = "string \<Rightarrow> string + (string \<times> runtime_object)"

record admission_response =
  AS_Allowed :: bool
  AS_Patch :: "string option"

definition account_path :: string where
  "account_path = ''/spec/template/spec/serviceaccountname''"

definition annotations_path :: string where
  "annotations_path = ''/spec/template/metadata/annotations''"

definition guard_key :: string where
  "guard_key = ''qpoption.knative.dev/guard-activate''"

definition account_ops :: "conf \<Rightarrow> kservice \<Rightarrow> jOp list" where
  "account_ops c service =
     (if \<not> ServiceAccountEnable c then []
      else if KS_ServiceAccountName service = ''''
      then [\<lparr>JO_op = ''add'', JO_path = account_path, JO_val = JString ''guardian-reader''\<rparr>]
      else if ServiceAccountForce c
      then [\<lparr>JO_op = ''replace'', JO_path = account_path, JO_val = JString ''guardian-reader''\<rparr>]
      else [])"

definition guard_ops :: "conf \<Rightarrow> kservice \<Rightarrow> jOp list" where
  "guard_ops c service =
     (if \<not> GuardEnable c then []
      else if map_get (KS_Annotations service) guard_key \<noteq> None
      then (if GuardForce c
            then [\<lparr>JO_op = ''replace'', JO_path = annotations_path, JO_val = JMap [(guard_key, JString ''enable'')]\<rparr>] else [])
      else [\<lparr>JO_op = ''add'', JO_path = annotations_path, JO_val = JMap [(guard_key, JString ''enable'')]\<rparr>])"

definition service_ops :: "conf \<Rightarrow> kservice \<Rightarrow> jOp list" where
  "service_ops c service = account_ops c service @ guard_ops c service"

text \<open>The body of \<open>respond\<close>, then what its deferred function makes of a panic.\<close>

definition mutate :: "decoder \<Rightarrow> ranger \<Rightarrow> conf \<Rightarrow> admission_request option \<Rightarrow> admission_response res" where
  "mutate Decode rr c request =
     bind_res (deref request) (\<lambda>request.
     case Decode (AR_Raw request) of
       Inl err \<Rightarrow> Inl (PanicMsg (''Failed deserialize'' @ err))
     | Inr (kind, obj) \<Rightarrow>
         if kind \<noteq> ''Service'' then Inl (PanicMsg ''Unexpected resource'')
         else case obj of
             ServingService service \<Rightarrow>
               (let jpatch = build rr \<lparr>JP_jOps = service_ops c service, JP_bytes = [], JP_empty = True\<rparr> in
                if JP_empty jpatch then Inr \<lparr>AS_Allowed = True, AS_Patch = None\<rparr>
                else Inr \<lparr>AS_Allowed = True, AS_Patch = Some (JP_bytes jpatch)\<rparr>)
           | _ \<Rightarrow> Inl (PanicMsg ''interface conversion''))"

definition respond :: "decoder \<Rightarrow> ranger \<Rightarrow> conf \<Rightarrow> admission_request option \<Rightarrow> admission_response" where
  "respond Decode rr c request =
     (case mutate Decode rr c request of Inl e \<Rightarrow> \<lparr>AS_Allowed = True, AS_Patch = None\<rparr> | Inr response \<Rightarrow> response)"

section \<open>Serving\<close>

definition MAX_MUTATE_BODY :: nat where
  "MAX_MUTATE_BODY = 1000000"

datatype mutate_reply = NoBody | BadRequest string | InternalError | ReviewReply string admission_response

text \<open>
  The body of a request is what can be read of it, None when reading fails; a longer one than the
  limit is not read. The last argument tells whether the answer can be encoded.
\<close>

definition serveMutate ::
    "decoder \<Rightarrow> ranger \<Rightarrow> conf \<Rightarrow> string option \<Rightarrow> string \<Rightarrow> (string \<Rightarrow> admission_response \<Rightarrow> bool) \<Rightarrow> mutate_reply res" where
  "serveMutate Decode rr c body contentType marshals =
     (let body = (case body of None \<Rightarrow> '''' | Some data \<Rightarrow> if length data \<le> MAX_MUTATE_BODY then data else '''') in
      if contentType \<noteq> ''application/json'' then Inr NoBody
      else case Decode body of
          Inl err \<Rightarrow> Inr (BadRequest (''Request could not be decoded: '' @ err))
        | Inr (kind, AdmissionReview request) \<Rightarrow>
            (let response = respond Decode rr c request in
             bind_res (deref request) (\<lambda>request.
             if marshals (AR_UID request) response then Inr (ReviewReply (AR_UID request) response) else Inr InternalError))
        | Inr (kind, obj) \<Rightarrow> Inr NoBody)"

section \<open>The configuration and its meaning\<close>

text \<open>A setting of the ConfigMap, in any case of its letters.\<close>

definition setting :: "(string \<Rightarrow> string) \<Rightarrow> string gomap option \<Rightarrow> string \<Rightarrow> string option" where
  "setting unicode cm key = Option.bind cm (\<lambda>data. map_option (ToLower unicode) (map_get data key))"

text \<open>
  The configuration is a function of the ConfigMap alone, and the account is replaced by force
  whatever the ConfigMap says: the value \<open>force\<close> of \<open>ServiceAccount\<close> makes no difference.
\<close>

theorem updateCm_spec:
  "updateCm unicode cm c = \<lparr>GuardEnable = (setting unicode cm ''Guard'' \<noteq> Some ''disable''),
     GuardForce = (setting unicode cm ''Guard'' = Some ''force''),
     ServiceAccountEnable = (setting unicode cm ''ServiceAccount'' \<noteq> Some ''disable''), ServiceAccountForce = True\<rparr>"
  by (auto simp: updateCm_def setting_def Let_def split: option.splits)

section \<open>What a patch does to a service\<close>

text \<open>The service of a document.\<close>

definition service_of :: "json \<Rightarrow> kservice" where
  "service_of doc =
     \<lparr>KS_ServiceAccountName = (case json_member [''spec'', ''template'', ''spec'', ''serviceAccountName''] doc of Some (JStr s) \<Rightarrow> s | _ \<Rightarrow> ''''),
      KS_Annotations = (case json_member [''spec'', ''template'', ''metadata'', ''annotations''] doc of
          Some (JObj kvs) \<Rightarrow> Some (map (\<lambda>kv. (fst kv, case snd kv of JStr s \<Rightarrow> s | _ \<Rightarrow> '''')) kvs) | _ \<Rightarrow> None)\<rparr>"

lemma json_put_member: "json_put r ks v doc = Some doc' \<Longrightarrow> json_member ks doc' = Some v"
  by (induction r ks v doc arbitrary: doc' rule: json_put.induct)
    (auto simp: update_conv' split: if_splits option.splits)

lemma json_member_append: "json_member (xs @ ys) doc = Option.bind (json_member xs doc) (json_member ys)"
  by (induction xs doc rule: json_member.induct) (auto split: bind_splits)

lemma json_put_parallel:
  "json_put r ks v doc = Some doc' \<Longrightarrow> ks \<parallel> ks' \<Longrightarrow> json_member ks' doc' = json_member ks' doc"
proof (induction r ks v doc arbitrary: doc' ks' rule: json_put.induct)
  case (2 r k v kvs)
  then show ?case by (cases ks') (auto simp: update_conv' split: if_splits)
next
  case (3 r k k2 ks v kvs)
  then show ?case by (cases ks') (auto simp: update_conv' parallel_def split: option.splits)
qed auto

lemma json_put_fails:
  "json_member (butlast ks) doc = Some (JObj kvs) \<Longrightarrow> ks \<noteq> [] \<Longrightarrow>
     json_put r ks v doc = None \<longleftrightarrow> r \<and> map_of kvs (last ks) = None"
  by (induction r ks v doc arbitrary: kvs rule: json_put.induct) (auto simp: bind_eq_Some_conv split: option.splits)

lemma apply_ops_append: "apply_ops (xs @ ys) doc = Option.bind (apply_ops xs doc) (apply_ops ys)"
  by (induction xs arbitrary: doc) (auto split: bind_splits)

lemma apply_ops_last: "Option.bind m (apply_ops []) = m"
  by (cases m) simp_all

lemma paths:
  "path_names account_path = [''spec'', ''template'', ''spec'', ''serviceaccountname'']"
  "path_names annotations_path = [''spec'', ''template'', ''metadata'', ''annotations'']"
  by (simp_all add: account_path_def annotations_path_def)

lemma paths_apart:
  "[''spec'', ''template'', ''spec'', ''serviceaccountname''] \<parallel> [''spec'', ''template'', ''metadata'']"
  "[''spec'', ''template'', ''spec'', ''serviceaccountname''] \<parallel> [''spec'', ''template'', ''metadata'', ''annotations'']"
  "[''spec'', ''template'', ''spec'', ''serviceaccountname''] \<parallel> [''spec'', ''template'', ''spec'', ''serviceAccountName'']"
  "[''spec'', ''template'', ''metadata'', ''annotations''] \<parallel> [''spec'', ''template'', ''spec'', ''serviceAccountName'']"
  by (simp_all add: parallel_def)

lemma account_applies:
  assumes "json_member [''spec'', ''template'', ''spec''] doc = Some (JObj podspec)" and "map_of podspec ''serviceaccountname'' = None"
  shows "if ServiceAccountEnable c \<and> ServiceAccountForce c \<and> KS_ServiceAccountName s \<noteq> '''' then apply_ops (account_ops c s) doc = None
    else \<exists>doc'. apply_ops (account_ops c s) doc = Some doc'
      \<and> (\<forall>ks. [''spec'', ''template'', ''spec'', ''serviceaccountname''] \<parallel> ks \<longrightarrow> json_member ks doc' = json_member ks doc)"
proof -
  let ?ks = "[''spec'', ''template'', ''spec'', ''serviceaccountname'']" and ?v = "JStr ''guardian-reader''"
  have put: "json_put r ?ks ?v doc = None \<longleftrightarrow> r" for r
    using json_put_fails [of ?ks doc podspec r ?v] assms by simp
  obtain doc' where doc': "json_put False ?ks ?v doc = Some doc'" using put [of False] by auto
  have "json_member ks doc' = json_member ks doc" if "?ks \<parallel> ks" for ks using json_put_parallel [OF doc' that] .
  then show ?thesis using put [of True] doc' by (auto simp: account_ops_def apply_op_def paths)
qed

lemma guard_applies:
  assumes "json_member [''spec'', ''template'', ''metadata''] doc = Some (JObj metadata)"
    and "map_get (KS_Annotations s) guard_key \<noteq> None \<Longrightarrow> map_of metadata ''annotations'' \<noteq> None"
  shows "\<exists>doc'. apply_ops (guard_ops c s) doc = Some doc'
    \<and> json_member [''spec'', ''template'', ''spec'', ''serviceAccountName''] doc' = json_member [''spec'', ''template'', ''spec'', ''serviceAccountName''] doc
    \<and> (guard_ops c s \<noteq> [] \<longrightarrow> json_member [''spec'', ''template'', ''metadata'', ''annotations''] doc' = Some (JObj [(guard_key, JStr ''enable'')]))"
proof (cases "guard_ops c s")
  case (Cons jop ops)
  let ?ks = "[''spec'', ''template'', ''metadata'', ''annotations'']" and ?v = "JObj [(guard_key, JStr ''enable'')]"
  define r where "r \<longleftrightarrow> map_get (KS_Annotations s) guard_key \<noteq> None"
  have r: "r \<longrightarrow> map_of metadata ''annotations'' \<noteq> None" using assms(2) by (simp add: r_def)
  have ops: "apply_ops (guard_ops c s) doc = json_put r ?ks ?v doc"
    using Cons by (auto simp: guard_ops_def apply_op_def paths apply_ops_last r_def split: if_splits)
  have "json_put r ?ks ?v doc \<noteq> None" using json_put_fails [of ?ks doc metadata r ?v] assms(1) r by simp
  then obtain doc' where doc': "json_put r ?ks ?v doc = Some doc'" by blast
  show ?thesis using ops doc' json_put_member [OF doc'] json_put_parallel [OF doc' paths_apart(4)] by simp
qed simp

text \<open>
  C14. What the answer does to a service: the patch is JSON, and by RFC 6902 it cannot be applied when
  the service names an account of its own and accounts are managed; when it is applied the account
  of the service is unchanged, because the path names no field of a service, and with
  the guard switched on by it the annotations are that of the guard alone, all others lost.
\<close>

theorem respond_effect:
  assumes "fair_ranger rr" and "Decode raw = Inr (''Service'', ServingService (service_of doc))"
    and "json_member [''spec'', ''template'', ''metadata''] doc = Some (JObj metadata)"
    and "json_member [''spec'', ''template'', ''spec''] doc = Some (JObj podspec)" and "map_of podspec ''serviceaccountname'' = None"
    and "respond Decode rr c (Some \<lparr>AR_UID = uid, AR_Raw = raw\<rparr>) = \<lparr>AS_Allowed = allowed, AS_Patch = Some patch\<rparr>"
  shows "\<exists>ops. parse_json patch = Some (JArr (map op_json ops)) \<and> ops \<noteq> []
    \<and> (apply_ops ops doc = None \<longleftrightarrow> ServiceAccountEnable c \<and> ServiceAccountForce c \<and> KS_ServiceAccountName (service_of doc) \<noteq> '''')
    \<and> (\<forall>doc'. apply_ops ops doc = Some doc' \<longrightarrow> KS_ServiceAccountName (service_of doc') = KS_ServiceAccountName (service_of doc)
         \<and> (guard_ops c (service_of doc) \<noteq> [] \<longrightarrow> KS_Annotations (service_of doc') = Some [(guard_key, ''enable'')]))"
proof -
  let ?s = "service_of doc"
  let ?ops = "service_ops c ?s"
  have patch: "?ops \<noteq> []" "patch = JP_bytes (build rr \<lparr>JP_jOps = ?ops, JP_bytes = [], JP_empty = True\<rparr>)"
    using assms(6) by (auto simp: respond_def mutate_def assms(2) build_def Let_def split: if_splits)
  have "\<forall>jop \<in> set ?ops. plain_op jop \<and> single (JO_val jop)"
    by (auto simp: service_ops_def account_ops_def guard_ops_def plain_op_def plain_def kvs_ok_def account_path_def annotations_path_def guard_key_def
        split: if_splits)
  then have read: "parse_json patch = Some (JArr (map op_json ?ops))" using parse_build [OF assms(1)] patch(2) by simp
  have app: "apply_ops ?ops doc = Option.bind (apply_ops (account_ops c ?s) doc) (apply_ops (guard_ops c ?s))"
    unfolding service_ops_def apply_ops_append ..
  have ann: "map_of metadata ''annotations'' \<noteq> None" if "map_get (KS_Annotations ?s) guard_key \<noteq> None"
    using that json_member_append [of "[''spec'', ''template'', ''metadata'']" "[''annotations'']" doc] assms(3)
    by (auto simp: service_of_def bind_eq_Some_conv split: option.splits)
  show ?thesis
  proof (cases "ServiceAccountEnable c \<and> ServiceAccountForce c \<and> KS_ServiceAccountName ?s \<noteq> ''''")
    case True
    then have "apply_ops ?ops doc = None" using account_applies [OF assms(4,5), of c ?s] app by simp
    then show ?thesis using read patch(1) True by auto
  next
    case False
    then obtain doc1 where doc1: "apply_ops (account_ops c ?s) doc = Some doc1"
        "\<forall>ks. [''spec'', ''template'', ''spec'', ''serviceaccountname''] \<parallel> ks \<longrightarrow> json_member ks doc1 = json_member ks doc"
      using account_applies [OF assms(4,5), of c ?s] by auto
    note same = doc1(2) [rule_format, OF paths_apart(1)] doc1(2) [rule_format, OF paths_apart(3)]
    obtain doc2 where doc2: "apply_ops (guard_ops c ?s) doc1 = Some doc2"
        "json_member [''spec'', ''template'', ''spec'', ''serviceAccountName''] doc2 = json_member [''spec'', ''template'', ''spec'', ''serviceAccountName''] doc1"
        "guard_ops c ?s \<noteq> [] \<longrightarrow> json_member [''spec'', ''template'', ''metadata'', ''annotations''] doc2 = Some (JObj [(guard_key, JStr ''enable'')])"
      using guard_applies [of doc1 metadata ?s c] same(1) assms(3) ann by auto
    have "KS_ServiceAccountName (service_of doc2) = KS_ServiceAccountName ?s"
      by (simp add: service_of_def doc2(2) same(2) del: json_member.simps)
    moreover have "guard_ops c ?s \<noteq> [] \<longrightarrow> KS_Annotations (service_of doc2) = Some [(guard_key, ''enable'')]"
      using doc2(3) by (simp add: service_of_def del: json_member.simps)
    ultimately show ?thesis using read patch(1) False app doc1(1) doc2(1) by (intro exI [of _ ?ops]) auto
  qed
qed

text \<open>A service with an annotation of its own and without an account.\<close>

definition annotated_service :: json where
  "annotated_service = JObj [(''spec'', JObj [(''template'', JObj
     [(''metadata'', JObj [(''annotations'', JObj [(''team'', JStr ''shop'')])]), (''spec'', JObj [])])])]"

theorem respond_effect_witness:
  "\<exists>patch ops doc'. respond (\<lambda>raw. Inr (''Service'', ServingService (service_of annotated_service))) (\<lambda>_ ks. ks) (updateCm id None \<lparr>GuardEnable = False, GuardForce = False, ServiceAccountEnable = False, ServiceAccountForce = False\<rparr>)
        (Some \<lparr>AR_UID = ''1'', AR_Raw = ''doc''\<rparr>) = \<lparr>AS_Allowed = True, AS_Patch = Some patch\<rparr>
    \<and> parse_json patch = Some (JArr (map op_json ops)) \<and> apply_ops ops annotated_service = Some doc'
    \<and> KS_Annotations (service_of annotated_service) = Some [(''team'', ''shop'')]
    \<and> KS_Annotations (service_of doc') = Some [(guard_key, ''enable'')]"
proof -
  let ?doc = annotated_service and ?D = "\<lambda>raw :: string. Inr (''Service'', ServingService (service_of annotated_service)) :: string + _"
  let ?c = "updateCm id None \<lparr>GuardEnable = False, GuardForce = False, ServiceAccountEnable = False, ServiceAccountForce = False\<rparr>"
  have s: "KS_ServiceAccountName (service_of ?doc) = ''''" "KS_Annotations (service_of ?doc) = Some [(''team'', ''shop'')]"
    by (simp_all add: service_of_def annotated_service_def)
  have c: "GuardEnable ?c" "ServiceAccountEnable ?c" by (simp_all add: updateCm_def)
  have g: "guard_ops ?c (service_of ?doc) \<noteq> []" using c(1) s(2) by (simp add: guard_ops_def guard_key_def)
  then have "service_ops ?c (service_of ?doc) \<noteq> []" by (simp add: service_ops_def)
  then obtain patch where r: "respond ?D (\<lambda>_ ks. ks) ?c (Some \<lparr>AR_UID = ''1'', AR_Raw = ''doc''\<rparr>) = \<lparr>AS_Allowed = True, AS_Patch = Some patch\<rparr>"
    by (simp add: respond_def mutate_def Let_def build_def)
  have m: "json_member [''spec'', ''template'', ''metadata''] ?doc = Some (JObj [(''annotations'', JObj [(''team'', JStr ''shop'')])])"
      "json_member [''spec'', ''template'', ''spec''] ?doc = Some (JObj [])"
    by (simp_all add: annotated_service_def)
  obtain ops where ops: "parse_json patch = Some (JArr (map op_json ops))" "apply_ops ops ?doc \<noteq> None"
      "\<forall>doc'. apply_ops ops ?doc = Some doc' \<longrightarrow> KS_Annotations (service_of doc') = Some [(guard_key, ''enable'')]"
    using respond_effect [OF _ _ m _ r] fair_rangerI [of "\<lambda>_ ks. ks"] s(1) g by auto
  then obtain doc' where "apply_ops ops ?doc = Some doc'" by blast
  then show ?thesis using r ops s(2) by blast
qed

text \<open>
  The webhook never denies: every review that is answered is allowed, also when the object cannot
  be decoded or is of another kind, and then without a patch. The handler panics only for a
  review that carries no request.
\<close>

theorem webhook_fails_open:
  "(serveMutate Decode rr c body contentType marshals = Inr (ReviewReply uid response) \<longrightarrow> AS_Allowed response)
   \<and> ((\<exists>p. serveMutate Decode rr c body contentType marshals = Inl p) \<longleftrightarrow> contentType = ''application/json''
       \<and> (\<exists>kind. Decode (case body of None \<Rightarrow> '''' | Some data \<Rightarrow> if length data \<le> MAX_MUTATE_BODY then data else '''') = Inr (kind, AdmissionReview None)))
   \<and> (\<forall>raw err. Decode raw = Inl err \<longrightarrow> respond Decode rr c (Some \<lparr>AR_UID = uid, AR_Raw = raw\<rparr>) = \<lparr>AS_Allowed = True, AS_Patch = None\<rparr>)"
proof -
  have allowed: "AS_Allowed (respond Decode rr c r)" for r
    by (auto simp: respond_def mutate_def Let_def deref_def bind_res_def split: sum.split option.split runtime_object.split)
  then show ?thesis
    by (auto simp: serveMutate_def Let_def deref_def respond_def mutate_def split: sum.splits option.splits runtime_object.splits if_splits)
qed

theorem webhook_fails_open_witness:
  "respond (\<lambda>raw. Inl ''bad'') (\<lambda>_ ks. ks) (updateCm id None \<lparr>GuardEnable = False, GuardForce = False, ServiceAccountEnable = False, ServiceAccountForce = False\<rparr>)
     (Some \<lparr>AR_UID = ''1'', AR_Raw = ''x''\<rparr>) = \<lparr>AS_Allowed = True, AS_Patch = None\<rparr>
   \<and> (\<exists>p. serveMutate (\<lambda>raw. Inr (''AdmissionReview'', AdmissionReview None)) (\<lambda>_ ks. ks) (updateCm id None \<lparr>GuardEnable = False, GuardForce = False, ServiceAccountEnable = False, ServiceAccountForce = False\<rparr>)
        None ''application/json'' (\<lambda>u r. True) = Inl p)"
  using webhook_fails_open [of "\<lambda>raw. Inl ''bad''"] webhook_fails_open [of "\<lambda>raw. Inr (''AdmissionReview'', AdmissionReview None)"] by simp

end
