(* ===== verification/Proxies.thy ===== *)
theory Proxies
  imports Plugs Webhook
begin

text \<open>
  The two programs that run the gate: the option of the queue proxy (\<open>pkg/qpoption/qpoption.go\<close>), switched
  on by the annotations of a pod, and the stand-alone proxy (\<open>cmd/guard-rproxy/main.go\<close>), configured
  by its environment. Both wrap the plug around the transport of a reverse proxy.
\<close>

section \<open>A round trip\<close>

datatype round_trip = RequestRefused | ResponseRefused | NextFailed | Answered http_response | Panicked | Waiting

text \<open>
  The next round tripper answers or fails. Between request and response other goroutines act
  on the gate and on the session: \<open>meanwhile\<close> is what they make of them. The first component
  of the result tells whether the protected service has been asked. A panic is recovered.
\<close>

definition RoundTrip ::
    "'k gate_env \<Rightarrow> parsers \<Rightarrow> ranger \<Rightarrow> int \<Rightarrow> (http_request \<Rightarrow> http_response option)
      \<Rightarrow> (gateState \<times> session \<Rightarrow> gateState \<times> session) \<Rightarrow> http_request \<Rightarrow> gateState \<Rightarrow> bool \<times> round_trip" where
  "RoundTrip e pa rr now transport meanwhile req gs =
     (case ApproveRequest e pa (at_site rr ''request'') now req gs of
        Inl panic \<Rightarrow> (False, Panicked)
      | Inr None \<Rightarrow> (False, Waiting)
      | Inr (Some (gs, s, approved)) \<Rightarrow>
          if approved then
            (case transport req of
               None \<Rightarrow> (True, NextFailed)
             | Some resp \<Rightarrow>
                 (let (gs, s) = meanwhile (gs, s) in
                  case ApproveResponse e pa (at_site rr ''response'') resp gs (Some s) of
                    Inl panic \<Rightarrow> (True, Panicked)
                  | Inr None \<Rightarrow> (True, Waiting)
                  | Inr (Some (gs, s, approved)) \<Rightarrow> if approved then (True, Answered resp) else (True, ResponseRefused)))
          else (False, RequestRefused))"

definition qp_RoundTrip ::
    "'k gate_env \<Rightarrow> parsers \<Rightarrow> ranger \<Rightarrow> int \<Rightarrow> (http_request \<Rightarrow> http_response option)
      \<Rightarrow> (gateState \<times> session \<Rightarrow> gateState \<times> session) \<Rightarrow> http_request \<Rightarrow> gateState \<Rightarrow> bool \<times> round_trip" where
  "qp_RoundTrip e pa rr now transport meanwhile req gs =
     (case ApproveRequest e pa (at_site rr ''request'') now req gs of
        Inl panic \<Rightarrow> (False, Panicked)
      | Inr None \<Rightarrow> (False, Waiting)
      | Inr (Some (gs, s, approved)) \<Rightarrow>
          if \<not> approved then (False, RequestRefused)
          else (case transport req of
              Some resp \<Rightarrow>
                (let (gs, s) = meanwhile (gs, s) in
                 case ApproveResponse e pa (at_site rr ''response'') resp gs (Some s) of
                   Inl panic \<Rightarrow> (True, Panicked)
                 | Inr None \<Rightarrow> (True, Waiting)
                 | Inr (Some (gs, s, approved)) \<Rightarrow> (True, if approved then Answered resp else ResponseRefused))
            | None \<Rightarrow> (True, NextFailed)))"

section \<open>The option of the queue proxy\<close>

definition qpOptionPrefix :: string where
  "qpOptionPrefix = ''qpoption.knative.dev/''"

text \<open>The longest line a scanner with a buffer of a megabyte returns has one byte less.\<close>

definition scan_limit :: nat where
  "scan_limit = 1024 * 1024"

definition drop_cr :: "string \<Rightarrow> string" where
  "drop_cr line = (if line \<noteq> [] \<and> last line = CHR 0x0D then butlast line else line)"

text \<open>The lines of a file, and whether all have been scanned.\<close>

function scan_lines :: "string \<Rightarrow> string list \<times> bool" where
  "scan_lines s =
     (if s = [] then ([], True)
      else let line = takeWhile (\<lambda>c. c \<noteq> CHR 0x0A) s in
        if length line \<ge> scan_limit then ([], False)
        else (let (rest, fine) = scan_lines (drop (length line + 1) s) in (drop_cr line # rest, fine)))"
  by pat_completeness auto
termination
  by (relation "measure length") (auto simp: Let_def)

declare scan_lines.simps [simp del]

record 'g plug =
  PG_name :: string
  PG_Init :: "string gomap \<Rightarrow> string \<Rightarrow> string \<Rightarrow> 'g res"

text \<open>The gate is there once it has been installed as the transport.\<close>

record 'g GateQPOption =
  QP_config :: "string gomap"
  QP_activated :: bool
  QP_gate :: "'g option"

definition NewGateQPOption :: "'g GateQPOption" where
  "NewGateQPOption = \<lparr>QP_config = None, QP_activated = False, QP_gate = None\<rparr>"

definition trim_quotes :: "string \<Rightarrow> string" where
  "trim_quotes v =
     (let v = (if take 1 v = [CHR 0x22] then drop 1 v else v)
      in if v \<noteq> [] \<and> last v = CHR 0x22 then butlast v else v)"

definition annotation_line :: "(string \<Rightarrow> string) \<Rightarrow> string \<Rightarrow> string \<Rightarrow> bool \<times> string gomap \<Rightarrow> (bool \<times> string gomap) res" where
  "annotation_line unicode plugName line = (\<lambda>(activated, config).
     case split_on (CHR ''='') (ToLower unicode line) of
       k # v # _ \<Rightarrow>
         if has_prefix k qpOptionPrefix \<and> length k > length qpOptionPrefix then
           (case split_on (CHR ''-'') (drop (length qpOptionPrefix) k) of
              extension # action # words \<Rightarrow>
                if EqualFold extension plugName then
                  (let v = trim_quotes v in
                   if action = ''activate'' then Inr (activated \<or> EqualFold v ''enable'', config)
                   else if action = ''config'' \<and> words \<noteq> [] then
                     bind_res (map_put config (join ''-'' words) v) (\<lambda>config. Inr (activated, config))
                   else Inr (activated, config))
                else Inr (activated, config)
            | _ \<Rightarrow> Inr (activated, config))
         else Inr (activated, config)
     | _ \<Rightarrow> Inl IndexOutOfRange)"

text \<open>The file of annotations, the file of the certificate and the variable \<open>ROOT_CA\<close> are arguments.\<close>

definition add_rootca :: "string option \<Rightarrow> string \<Rightarrow> string gomap \<Rightarrow> string gomap res" where
  "add_rootca cert rootEnv config =
     (case cert of
        Some buf \<Rightarrow> map_put config ''rootca'' buf
      | None \<Rightarrow> if rootEnv \<noteq> '''' then map_put config ''rootca'' rootEnv else Inr config)"

definition ProcessAnnotations ::
    "(string \<Rightarrow> string) \<Rightarrow> string \<Rightarrow> string option \<Rightarrow> string option \<Rightarrow> string \<Rightarrow> 'g GateQPOption \<Rightarrow> ('g GateQPOption \<times> bool) res" where
  "ProcessAnnotations unicode plugName file cert rootEnv p =
     (case file of
        None \<Rightarrow> Inr (p, False)
      | Some content \<Rightarrow>
          (let (lines, fine) = scan_lines content in
           bind_res (fold_res (annotation_line unicode plugName) lines (QP_activated p, Some [])) (\<lambda>(activated, config).
           let p = p\<lparr>QP_activated := activated, QP_config := config\<rparr> in
           if \<not> fine then Inr (p, False)
           else bind_res (add_rootca cert rootEnv config) (\<lambda>config. Inr (p\<lparr>QP_config := config\<rparr>, True)))))"

text \<open>
  \<open>Setup\<close>: the environment gives the namespace, the service and its configuration. A panic is recovered
  and leaves the option switched off; what it had set of the configuration is not used.
\<close>

definition Setup ::
    "(string \<Rightarrow> string) \<Rightarrow> 'g plug option \<Rightarrow> string option \<Rightarrow> string option \<Rightarrow> string \<Rightarrow> string \<Rightarrow> string \<Rightarrow> string \<Rightarrow> 'g GateQPOption \<Rightarrow> 'g GateQPOption" where
  "Setup unicode plug file cert rootEnv namespace service configuration p =
     (case plug of
        None \<Rightarrow> p
      | Some plug \<Rightarrow>
          (let serviceName = (if service = '''' then configuration else service);
               done = bind_res (ProcessAnnotations unicode (PG_name plug) file cert rootEnv p) (\<lambda>(p, found).
                 if \<not> found \<or> \<not> QP_activated p then Inr p
                 else bind_res (PG_Init plug (QP_config p) serviceName namespace) (\<lambda>g. Inr (p\<lparr>QP_gate := Some g\<rparr>)))
           in case done of Inl panic \<Rightarrow> p\<lparr>QP_activated := False\<rparr> | Inr p \<Rightarrow> p))"

text \<open>A panic of the shutdown is recovered.\<close>

definition qp_Shutdown :: "('g \<Rightarrow> 'g res) \<Rightarrow> 'g GateQPOption \<Rightarrow> 'g GateQPOption" where
  "qp_Shutdown stop p =
     (if QP_activated p
      then (case QP_gate p of
          None \<Rightarrow> p
        | Some g \<Rightarrow> (case stop g of Inl panic \<Rightarrow> p | Inr g \<Rightarrow> p\<lparr>QP_gate := Some g\<rparr>))
      else p)"

section \<open>The stand-alone proxy\<close>

record rproxy_config =
  EC_ServiceName :: string
  EC_Namespace :: string
  EC_ProtectedService :: string
  EC_GuardServiceUrl :: string
  EC_Port :: string
  EC_UseCrd :: string
  EC_MonitorPod :: string
  EC_AnalyzeBody :: string
  EC_PodMonitorInterval :: string
  EC_GuardianSyncInterval :: string

text \<open>What \<open>Sscanf\<close> takes for space, and the number it reads after a colon: an int of 64 bits.\<close>

definition space_rune :: "nat \<Rightarrow> bool" where
  "space_rune r \<longleftrightarrow> (9 \<le> r \<and> r \<le> 13) \<or> r \<in> {0x20, 0x85, 0xA0, 0x1680, 0x2028, 0x2029, 0x202F, 0x205F, 0x3000} \<or> (0x2000 \<le> r \<and> r \<le> 0x200A)"

fun skip_space :: "nat list \<Rightarrow> nat list option" where
  "skip_space [] = Some []"
| "skip_space (r # rs) = (if r = 10 then None else if space_rune r then skip_space rs else Some (r # rs))"

definition scan_int :: "nat list \<Rightarrow> int option" where
  "scan_int rs =
     (let negative = (take 1 rs = [45]);
          rs = (if take 1 rs = [43] \<or> negative then drop 1 rs else rs);
          digits = takeWhile (\<lambda>r. 48 \<le> r \<and> r \<le> 57) rs;
          n = foldl (\<lambda>a d. 10 * a + int (d - 48)) 0 digits;
          n = (if negative then - n else n)
      in if digits = [] \<or> n < - (2 ^ 63) \<or> 2 ^ 63 \<le> n then None else Some n)"

definition scan_port :: "string \<Rightarrow> int option" where
  "scan_port s =
     (case runes s of
        r # rs \<Rightarrow> if r = 58 then Option.bind (skip_space rs) scan_int else None
      | [] \<Rightarrow> None)"

definition protected_url :: "string \<Rightarrow> string" where
  "protected_url service =
     (if service = '''' then ''http://127.0.0.1:8080''
      else case scan_port service of
          Some n \<Rightarrow> if 0 < n \<and> n < 0x10000 then ''http://127.0.0.1:'' @ fmt_d (nat n) else service
        | None \<Rightarrow> service)"

definition plug_config :: "string option \<Rightarrow> rproxy_config \<Rightarrow> string entries" where
  "plug_config cert env =
     (case cert of Some buf \<Rightarrow> [(''rootca'', buf)] | None \<Rightarrow> [])
     @ (if EC_GuardServiceUrl env \<noteq> '''' then [(''guard-url'', EC_GuardServiceUrl env)] else [])
     @ [(''monitor-pod'', if EC_MonitorPod env = ''false'' then ''false'' else ''true''),
        (''analyze-body'', if EC_AnalyzeBody env = ''false'' then ''false'' else ''true''),
        (''use-crd'', if EC_UseCrd env = ''false'' then ''false'' else ''true''),
        (''guardian-sync-interval'', EC_GuardianSyncInterval env),
        (''pod-monitor-interval'', EC_PodMonitorInterval env)]"

text \<open>The scheme of a url, None when it cannot be parsed, is an argument. The result has the url and the address served.\<close>

definition preMain :: "(string \<Rightarrow> string option) \<Rightarrow> string option \<Rightarrow> rproxy_config \<Rightarrow> string entries \<times> string \<times> string \<times> (string \<times> string) option" where
  "preMain url_scheme cert env =
     (let plugConfig = plug_config cert env; sid = EC_ServiceName env; ns = EC_Namespace env in
      (plugConfig, sid, ns,
       if ns = '''' \<or> sid = '''' \<or> sid = ''ns-'' @ ns then None
       else let url = protected_url (EC_ProtectedService env) in
         if url_scheme url \<noteq> Some ''http'' then None
         else Some (url, if EC_Port env \<noteq> '''' then '':'' @ EC_Port env else '':22000'')))"

section \<open>Properties\<close>

lemma split_on_two: "(\<exists>k v rest. split_on c s = k # v # rest) \<longleftrightarrow> c \<in> set s"
proof (induction s)
  case (Cons x xs)
  have "split_on c xs \<noteq> []" by simp
  then obtain y ys where "split_on c xs = y # ys" by (cases "split_on c xs") auto
  then show ?case using Cons by (cases ys) auto
qed simp

lemma approved_response:
  "ApproveResponse e pa rr resp gs (Some s) = Inr (Some (gs', s', True)) \<Longrightarrow> \<exists>t. s' = Some t \<and> \<not> refuses gs' t"
  by (auto simp: ApproveResponse_def Let_def bind_res_Inr refuses_def split: option.splits if_splits)



section \<open>When the option is switched on\<close>

text \<open>A line that switches the plug on.\<close>

definition activates :: "(string \<Rightarrow> string) \<Rightarrow> string \<Rightarrow> string \<Rightarrow> bool" where
  "activates unicode plugName line =
     (case split_on (CHR ''='') (ToLower unicode line) of
        k # v # _ \<Rightarrow>
          has_prefix k qpOptionPrefix \<and> length k > length qpOptionPrefix
          \<and> (case split_on (CHR ''-'') (drop (length qpOptionPrefix) k) of
               extension # action # words \<Rightarrow> EqualFold extension plugName \<and> action = ''activate'' \<and> EqualFold (trim_quotes v) ''enable''
             | _ \<Rightarrow> False)
      | _ \<Rightarrow> False)"

lemma annotation_line_result:
  "if CHR ''='' \<in> set (ToLower unicode line)
   then \<exists>config'. annotation_line unicode plugName line (activated, Some config) = Inr (activated \<or> activates unicode plugName line, Some config')
   else annotation_line unicode plugName line (activated, Some config) = Inl IndexOutOfRange"
proof (cases "CHR ''='' \<in> set (ToLower unicode line)")
  case True
  then obtain k v rest where kv: "split_on (CHR ''='') (ToLower unicode line) = k # v # rest" using split_on_two by blast
  obtain extension tl where et: "split_on (CHR ''-'') (drop (length qpOptionPrefix) k) = extension # tl"
    by (cases "split_on (CHR ''-'') (drop (length qpOptionPrefix) k)") auto
  have "(case tl of [] \<Rightarrow> True | action # words \<Rightarrow> action = ''activate'' \<longrightarrow> action \<noteq> ''config'')" by (cases tl) auto
  then show ?thesis using True kv et
    by (cases tl) (auto simp: annotation_line_def activates_def Let_def map_put_def)
next
  case False
  then have "\<nexists>k v rest. split_on (CHR ''='') (ToLower unicode line) = k # v # rest" using split_on_two by metis
  then show ?thesis using False
    by (cases "split_on (CHR ''='') (ToLower unicode line)" rule: remdups_adj.cases) (auto simp: annotation_line_def)
qed

lemma annotation_lines_result:
  "if \<forall>line \<in> set lines. CHR ''='' \<in> set (ToLower unicode line)
   then \<exists>config'. fold_res (annotation_line unicode plugName) lines (activated, Some config)
       = Inr (activated \<or> (\<exists>line \<in> set lines. activates unicode plugName line), Some config')
   else fold_res (annotation_line unicode plugName) lines (activated, Some config) = Inl IndexOutOfRange"
proof (induction lines arbitrary: activated config)
  case (Cons line lines)
  show ?case
  proof (cases "CHR ''='' \<in> set (ToLower unicode line)")
    case True
    then obtain config' where c: "annotation_line unicode plugName line (activated, Some config) = Inr (activated \<or> activates unicode plugName line, Some config')"
      using annotation_line_result [of unicode line plugName activated config] by auto
    show ?thesis
      using Cons.IH [of "activated \<or> activates unicode plugName line" config'] c True by (auto split: if_splits)
  next
    case False
    then show ?thesis using annotation_line_result [of unicode line plugName activated config] by simp
  qed
qed simp

lemma add_rootca_Some: "\<exists>config'. add_rootca cert rootEnv (Some config) = Inr (Some config')"
  by (simp add: add_rootca_def map_put_def split: option.split)


text \<open>The plug of this repository, in surroundings where nothing can be reached.\<close>

definition guard_plug :: "'k gate_env \<Rightarrow> (string \<Rightarrow> bool) \<Rightarrow> ranger \<Rightarrow> int \<Rightarrow> gateState plug" where
  "guard_plug e pem_ok rr ticks = \<lparr>PG_name = ''guard'', PG_Init = \<lambda>config sid ns. plug_Init e pem_ok rr ticks config sid ns\<rparr>"

definition enabling_line :: string where
  "enabling_line = ''qpoption.knative.dev/guard-activate='' @ [CHR 0x22] @ ''enable'' @ [CHR 0x22]"


section \<open>What the stand-alone proxy starts with\<close>

lemma digits_in_bytes: "c \<in> set (digits_in 10 n) \<Longrightarrow> 48 \<le> (of_char c :: nat) \<and> (of_char c :: nat) \<le> 57"
proof (induction "10 :: nat" n rule: digits_in.induct)
  case (1 n)
  have d: "48 \<le> (of_char (digit_char k) :: nat) \<and> (of_char (digit_char k) :: nat) \<le> 57" if "k < 10" for k
    using that by (simp add: digit_char_def)
  show ?case
  proof (cases "n < 10")
    case True
    then have "digits_in 10 n = [digit_char n]" by (subst digits_in.simps) simp
    then show ?thesis using 1 d [OF True] by simp
  next
    case False
    then have "digits_in 10 n = digits_in 10 (n div 10) @ [digit_char (n mod 10)]" by (subst digits_in.simps) simp
    then show ?thesis using 1 False d [of "n mod 10"] by auto
  qed
qed

lemma digits_in_value:
  "foldl (\<lambda>a d. 10 * a + int (d - 48)) 0 (map of_char (digits_in 10 n)) = int n"
proof (induction "10 :: nat" n rule: digits_in.induct)
  case (1 n)
  have d: "int ((of_char (digit_char k) :: nat) - 48) = int k" if "k < 10" for k using that by (simp add: digit_char_def)
  show ?case
  proof (cases "n < 10")
    case True
    then show ?thesis using d [of n] by (subst digits_in.simps) simp
  next
    case False
    then have "digits_in 10 n = digits_in 10 (n div 10) @ [digit_char (n mod 10)]" by (subst digits_in.simps) simp
    moreover have "int n = 10 * int (n div 10) + int (n mod 10)" by (metis mult_div_mod_eq of_nat_add of_nat_mult of_nat_numeral)
    ultimately show ?thesis using 1 False d [of "n mod 10"] by simp
  qed
qed

lemma scan_port_digits: "n < 2 ^ 63 \<Longrightarrow> scan_port ('':'' @ fmt_d n) = Some (int n)"
proof -
  assume n: "n < 2 ^ 63"
  define ds :: "nat list" where "ds = map of_char (digits_in 10 n)"
  have ds: "d \<in> set ds \<Longrightarrow> 48 \<le> d \<and> d \<le> 57" for d using digits_in_bytes unfolding ds_def by fastforce
  have "ds \<noteq> []" unfolding ds_def by (subst digits_in.simps) simp
  then obtain d tl where dtl: "ds = d # tl" by (cases ds) auto
  have all: "takeWhile (\<lambda>r. 48 \<le> r \<and> r \<le> 57) ds = ds" using ds by (simp add: takeWhile_eq_all_conv)
  have "runes ('':'' @ fmt_d n) = decode_runes (58 # ds)" by (simp add: runes_def fmt_d_def ds_def)
  also have "\<dots> = 58 # ds" by (rule decode_runes_ascii) (use ds in fastforce)
  finally have ascii: "runes ('':'' @ fmt_d n) = 58 # ds" .
  have d1: "48 \<le> d \<and> d \<le> 57" using ds dtl by (metis list.set_intros(1))
  then have sp: "skip_space ds = Some ds" "take 1 ds \<noteq> [43]" "take 1 ds \<noteq> [45]"
    unfolding dtl by (auto simp: space_rune_def)
  have v: "foldl (\<lambda>a d. 10 * a + int (d - 48)) 0 ds = int n" unfolding ds_def by (rule digits_in_value)
  have unsigned: "(if take 1 ds = [43] \<or> take 1 ds = [45] then drop 1 ds else ds) = ds" using sp(2,3) by simp
  have "scan_int ds = Some (int n)" unfolding scan_int_def Let_def unsigned all v using sp(3) n \<open>ds \<noteq> []\<close> by simp
  then show ?thesis unfolding scan_port_def ascii using sp(1) by simp
qed

text \<open>
  A protected service given as a colon and a number is the service of that port of the host, for
  every port there is; a larger number is taken for a url as it is.
\<close>

theorem protected_port:
  "(0 < n \<and> n < 65536 \<longrightarrow> protected_url ('':'' @ fmt_d n) = ''http://127.0.0.1:'' @ fmt_d n)
   \<and> (65536 \<le> n \<and> n < 2 ^ 63 \<longrightarrow> protected_url ('':'' @ fmt_d n) = '':'' @ fmt_d n)"
  using scan_port_digits [of n] by (auto simp: protected_url_def)

theorem protected_port_witness:
  "protected_url '':8080'' = ''http://127.0.0.1:8080''"
proof -
  have "char_of (56 :: nat) = CHR ''8''" "char_of (48 :: nat) = CHR ''0''" by code_simp+
  then have "fmt_d 8080 = ''8080''" by (simp add: fmt_d_def digits_in.simps digit_char_def)
  then show ?thesis using protected_port [of 8080] by simp
qed

lemma plug_Init_intervals:
  assumes "plug_Init e pem_ok rr ticks c sid ns = Inr gs" and "fair_ranger rr" and "env_ok e"
  shows "intervals gs = (interval_secs 60 (case map_get c ''guardian-sync-interval'' of Some v \<Rightarrow> v | None \<Rightarrow> ''''),
    interval_secs 5 (case map_get c ''pod-monitor-interval'' of Some v \<Rightarrow> v | None \<Rightarrow> ''''))"
proof -
  obtain g0 g1 where g: "preInit (w_ReadFile (GE_world e)) pem_ok (GE_TokenFile e) ticks c sid ns = Inr g0"
      "gate_sync e (at_site rr ''sync'') True True ticks g0 = Inr g1" "profileAndDecidePod e (at_site rr ''pod'') ticks ticks g1 = Inr gs"
    using assms(1) unfolding plug_Init_def bind_res_Inr by blast
  note p = preInit_start [OF g(1)]
  have k1: "gate_keeps g0 g1" using ok_Inr [OF gate_sync_ok [OF fair_at_site [OF assms(2)] _ assms(3)] g(2)] p by blast
  then have "gate_ok g1" by (simp add: gate_keeps_def)
  then have "gate_keeps g1 gs" using ok_Inr [OF profileAndDecidePod_ok [OF fair_at_site [OF assms(2)] _ assms(3)] g(3)] by blast
  then show ?thesis using k1 p by (simp add: gate_keeps_def)
qed

text \<open>
  A proxy that \<open>preMain\<close> accepts gets a gate, unless the name of its service starts with \<open>ns.\<close>: the
  gate is well formed, bodies are analysed whatever \<open>AnalyzeBody\<close> says, and intervals that cannot be
  read are those of the defaults. A proxy that is refused lacks a name, has the
  reserved name of its namespace or does not protect an \<open>http\<close> url.
\<close>

theorem rproxy_gate:
  assumes "preMain url_scheme cert env = (c, sid, ns, Some (url, target))" and "\<not> has_prefix sid ''ns.''"
    and "fair_ranger rr" and "env_ok e"
  shows "sid \<noteq> '''' \<and> ns \<noteq> '''' \<and> sid \<noteq> ''ns-'' @ ns \<and> url_scheme url = Some ''http''
    \<and> (\<exists>gs. plug_Init e pem_ok rr ticks (Some c) sid ns = Inr gs \<and> gate_ok gs \<and> GS_analyzeBody gs
         \<and> intervals gs = (interval_secs 60 (EC_GuardianSyncInterval env), interval_secs 5 (EC_PodMonitorInterval env)))"
proof -
  have c: "c = plug_config cert env" "sid = EC_ServiceName env" "ns = EC_Namespace env"
      "sid \<noteq> ''''" "ns \<noteq> ''''" "sid \<noteq> ''ns-'' @ ns" "url_scheme url = Some ''http''"
    using assms(1) by (auto simp: preMain_def Let_def split: if_splits)
  obtain gs where gs: "plug_Init e pem_ok rr ticks (Some c) sid ns = Inr gs" "gate_ok gs" "GS_analyzeBody gs"
    using plug_Init_ok [OF assms(3,4,2)] unfolding ok_iff by blast
  have "map_get (Some c) ''guardian-sync-interval'' = Some (EC_GuardianSyncInterval env)"
      "map_get (Some c) ''pod-monitor-interval'' = Some (EC_PodMonitorInterval env)"
    by (auto simp: c(1) plug_config_def split: option.split)
  then show ?thesis using c gs plug_Init_intervals [OF gs(1) assms(3,4)] by auto
qed

theorem rproxy_gate_witness:
  "\<exists>c url target gs. preMain (\<lambda>url. Some ''http'') None \<lparr>EC_ServiceName = ''shop'', EC_Namespace = ''default'', EC_ProtectedService = '''', EC_GuardServiceUrl = '''',
        EC_Port = '''', EC_UseCrd = '''', EC_MonitorPod = '''', EC_AnalyzeBody = ''false'', EC_PodMonitorInterval = '''', EC_GuardianSyncInterval = ''''\<rparr>
      = (c, ''shop'', ''default'', Some (url, target))
    \<and> map_of c ''analyze-body'' = Some ''false'' \<and> plug_Init quiet_env (\<lambda>ca. False) (\<lambda>_ ks. ks) 7 (Some c) ''shop'' ''default'' = Inr gs \<and> GS_analyzeBody gs"
proof -
  let ?env = "\<lparr>EC_ServiceName = ''shop'', EC_Namespace = ''default'', EC_ProtectedService = '''', EC_GuardServiceUrl = '''',
        EC_Port = '''', EC_UseCrd = '''', EC_MonitorPod = '''', EC_AnalyzeBody = ''false'', EC_PodMonitorInterval = '''', EC_GuardianSyncInterval = ''''\<rparr>"
  have p: "preMain (\<lambda>url. Some ''http'') None ?env = (plug_config None ?env, ''shop'', ''default'', Some (''http://127.0.0.1:8080'', '':22000''))"
    by (simp add: preMain_def protected_url_def)
  have ns: "\<not> has_prefix ''shop'' ''ns.''" by (simp add: has_prefix_def)
  obtain gs where "plug_Init quiet_env (\<lambda>ca. False) (\<lambda>_ ks. ks) 7 (Some (plug_config None ?env)) ''shop'' ''default'' = Inr gs" "GS_analyzeBody gs"
    using rproxy_gate [OF p ns plain_fair quiet_env_ok] by blast
  moreover have "map_of (plug_config None ?env) ''analyze-body'' = Some ''false''" by (simp add: plug_config_def)
  ultimately show ?thesis using p by blast
qed

end
