(* ===== verification/Cluster_Config.thy ===== *)
theory Cluster_Config
  imports Prelude
begin

text \<open>
  How the programs get at the cluster: \<open>getConfigs\<close> and \<open>InitConfigs\<close> of the two managers
  (\<open>pkg/guard-kubemgr/guard-kubemgr.go\<close>, \<open>cmd/guard-webhook/kubeMgr.go\<close>) and the same steps of the job
  \<open>cmd/create-knative-secrets/main.go\<close>. The configuration of a pod, the home directory, the arguments of the
  program, the reader of kubeconfig files and the constructors of clients are the surroundings'.
\<close>

section \<open>Paths\<close>

text \<open>\<open>filepath.Clean\<close>: the elements so far and the next one.\<close>

definition clean_step :: "bool \<Rightarrow> string list \<Rightarrow> string \<Rightarrow> string list" where
  "clean_step rooted out x =
     (if x = '''' \<or> x = ''.'' then out
      else if x = ''..'' then
        (if out \<noteq> [] \<and> last out \<noteq> ''..'' then butlast out else if rooted then out else out @ [''..''])
      else out @ [x])"

definition filepath_Clean :: "string \<Rightarrow> string" where
  "filepath_Clean path =
     (if path = '''' then ''.''
      else
        (let rooted = (hd path = CHR ''/'');
             out = join ''/'' (fold (\<lambda>x out. clean_step rooted out x) (split_on (CHR ''/'') path) [])
         in if rooted then ''/'' @ out else if out = '''' then ''.'' else out))"

text \<open>\<open>filepath.Join\<close> starts at the first element that is not empty.\<close>

definition filepath_Join :: "string list \<Rightarrow> string" where
  "filepath_Join elem =
     (case dropWhile (\<lambda>e. e = '''') elem of [] \<Rightarrow> '''' | elems \<Rightarrow> filepath_Clean (join ''/'' elems))"

section \<open>The configuration\<close>

text \<open>
  \<open>AE_Parse dflt\<close> is the value of the flag \<open>kubeconfig\<close> after \<open>flag.Parse\<close>, which ends the program when
  the arguments are wrong; \<open>AE_Build\<close> reads a file. The last three say which clients can be made.
\<close>

record 'c access_env =
  AE_InCluster :: "'c option"
  AE_HomeDir :: string
  AE_Parse :: "string \<Rightarrow> string option"
  AE_Build :: "string \<Rightarrow> 'c option"
  AE_Clientset :: "'c \<Rightarrow> bool"
  AE_Guardians :: "'c \<Rightarrow> bool"
  AE_Serving :: "'c \<Rightarrow> bool"

text \<open>
  Outside a cluster a flag is defined, which package flag allows once in a process: \<open>flags\<close> are those
  that are defined. None is a program that has ended.
\<close>

definition dev_kubeconfig :: "'c access_env \<Rightarrow> string list \<Rightarrow> (string list \<times> string option) res" where
  "dev_kubeconfig e flags =
     (let home = AE_HomeDir e;
          dflt = (if home \<noteq> '''' then filepath_Join [home, ''.kube'', ''config''] else '''')
      in if ''kubeconfig'' \<in> set flags then Inl (PanicMsg ''flag redefined: kubeconfig'')
         else Inr (''kubeconfig'' # flags, AE_Parse e dflt))"

definition getConfigs :: "'c access_env \<Rightarrow> string list \<Rightarrow> (string list \<times> 'c option) res" where
  "getConfigs e flags =
     (case AE_InCluster e of
        Some kubeCfg \<Rightarrow> Inr (flags, Some kubeCfg)
      | None \<Rightarrow>
          bind_res (dev_kubeconfig e flags) (\<lambda>(flags, devKubeConfigStr).
          case devKubeConfigStr of
            None \<Rightarrow> Inr (flags, None)
          | Some path \<Rightarrow>
              (case AE_Build e path of
                 None \<Rightarrow> Inl (PanicMsg ''No Config found!'')
               | Some kubeCfg \<Rightarrow> Inr (flags, Some kubeCfg))))"

text \<open>A client is known by the configuration it was made from; a manager that is new has none.\<close>

record 'c kube_clients =
  KB_cmClient :: "'c option"
  KB_crdClient :: "'c option"

definition NewKubeMgr :: "'c kube_clients" where
  "NewKubeMgr = \<lparr>KB_cmClient = None, KB_crdClient = None\<rparr>"

definition InitConfigs :: "'c access_env \<Rightarrow> string list \<Rightarrow> 'c kube_clients \<Rightarrow> (string list \<times> 'c kube_clients option) res" where
  "InitConfigs e flags k =
     bind_res (getConfigs e flags) (\<lambda>(flags, cfg).
     case cfg of
       None \<Rightarrow> Inr (flags, None)
     | Some kubeCfg \<Rightarrow>
         if \<not> AE_Clientset e kubeCfg then Inl (PanicMsg ''NewForConfig'')
         else (let k = k\<lparr>KB_cmClient := Some kubeCfg\<rparr> in
               if \<not> AE_Guardians e kubeCfg then Inl (PanicMsg ''NewForConfig'')
               else Inr (flags, Some (k\<lparr>KB_crdClient := Some kubeCfg\<rparr>))))"

section \<open>The manager of the webhook\<close>

definition webhook_getConfigs :: "'c access_env \<Rightarrow> string list \<Rightarrow> (string list \<times> 'c option) res" where
  "webhook_getConfigs e flags =
     (case AE_InCluster e of
        Some kubeCfg \<Rightarrow> Inr (flags, Some kubeCfg)
      | None \<Rightarrow>
          bind_res (dev_kubeconfig e flags) (\<lambda>(flags, devKubeConfigStr).
          case devKubeConfigStr of
            None \<Rightarrow> Inr (flags, None)
          | Some path \<Rightarrow>
              (case AE_Build e path of
                 None \<Rightarrow> Inl (PanicMsg ''No Config found!'')
               | Some kubeCfg \<Rightarrow> Inr (flags, Some kubeCfg))))"

record 'c webhook_clients =
  WC_client :: "'c option"
  WC_kServClient :: "'c option"

definition webhook_InitConfigs :: "'c access_env \<Rightarrow> string list \<Rightarrow> 'c webhook_clients \<Rightarrow> (string list \<times> 'c webhook_clients option) res" where
  "webhook_InitConfigs e flags k =
     bind_res (webhook_getConfigs e flags) (\<lambda>(flags, cfg).
     case cfg of
       None \<Rightarrow> Inr (flags, None)
     | Some kubeCfg \<Rightarrow>
         if \<not> AE_Clientset e kubeCfg then Inl (PanicMsg ''NewForConfig'')
         else (let k = k\<lparr>WC_client := Some kubeCfg\<rparr> in
               if \<not> AE_Serving e kubeCfg then Inl (PanicMsg ''NewForConfig'')
               else Inr (flags, Some (k\<lparr>WC_kServClient := Some kubeCfg\<rparr>))))"

section \<open>The job that makes secrets\<close>

datatype 'c job_access = NoConfigFound | NoClientset | ArgumentsRefused | JobClient 'c

definition job_client :: "'c access_env \<Rightarrow> string list \<Rightarrow> (string list \<times> 'c job_access) res" where
  "job_client e flags =
     bind_res
       (case AE_InCluster e of
          Some kubeCfg \<Rightarrow> Inr (flags, JobClient kubeCfg)
        | None \<Rightarrow>
            bind_res (dev_kubeconfig e flags) (\<lambda>(flags, devKubeConfigStr).
            case devKubeConfigStr of
              None \<Rightarrow> Inr (flags, ArgumentsRefused)
            | Some path \<Rightarrow>
                (case AE_Build e path of
                   None \<Rightarrow> Inr (flags, NoConfigFound)
                 | Some kubeCfg \<Rightarrow> Inr (flags, JobClient kubeCfg))))
       (\<lambda>(flags, found).
        case found of
          JobClient kubeCfg \<Rightarrow> if AE_Clientset e kubeCfg then Inr (flags, JobClient kubeCfg) else Inr (flags, NoClientset)
        | _ \<Rightarrow> Inr (flags, found))"

section \<open>What is found\<close>

definition plain_name :: "string \<Rightarrow> bool" where
  "plain_name x \<longleftrightarrow> x \<noteq> '''' \<and> x \<noteq> ''.'' \<and> x \<noteq> ''..'' \<and> CHR ''/'' \<notin> set x"

lemma split_on_plain: "c \<notin> set x \<Longrightarrow> split_on c (x @ rest) = (case split_on c rest of [] \<Rightarrow> [x] | y # ys \<Rightarrow> (x @ y) # ys)"
  by (induction x) (auto split: list.splits)

lemma split_join_names: "xs \<noteq> [] \<Longrightarrow> \<forall>x \<in> set xs. c \<notin> set x \<Longrightarrow> split_on c (join [c] xs) = xs"
proof (induction xs)
  case (Cons x xs)
  then show ?case using split_on_plain [of c x "[]"] by (cases xs) (simp_all add: split_on_plain)
qed simp

lemma clean_plain: "\<forall>x \<in> set xs. plain_name x \<Longrightarrow> fold (\<lambda>x out. clean_step rooted out x) xs out = out @ xs"
  by (induction xs arbitrary: out) (auto simp: clean_step_def plain_name_def)

lemma join_append: "xs \<noteq> [] \<Longrightarrow> ys \<noteq> [] \<Longrightarrow> join sep (xs @ ys) = join sep xs @ sep @ join sep ys"
proof (induction xs)
  case (Cons x xs)
  then show ?case by (cases xs; cases ys) simp_all
qed simp

text \<open>The default kubeconfig file of a home directory with a plain path.\<close>

lemma home_kubeconfig:
  assumes "xs \<noteq> []" and "\<forall>x \<in> set xs. plain_name x"
  shows "filepath_Join [''/'' @ join ''/'' xs, ''.kube'', ''config''] = ''/'' @ join ''/'' xs @ ''/.kube/config''"
proof -
  let ?p = "xs @ [''.kube'', ''config'']"
  have p: "\<forall>x \<in> set ?p. plain_name x" using assms(2) by (auto simp: plain_name_def)
  have j: "join ''/'' ?p = join ''/'' xs @ ''/.kube/config''" using assms(1) by (simp add: join_append)
  have "split_on (CHR ''/'') (''/'' @ join ''/'' ?p) = [] # ?p"
    using split_join_names [of ?p "CHR ''/''"] p assms(1) by (auto simp: plain_name_def)
  then have "fold (\<lambda>x out. clean_step True out x) (split_on (CHR ''/'') (''/'' @ join ''/'' ?p)) [] = ?p"
    using clean_plain [OF p, of True "[]"] by (simp add: clean_step_def)
  then have "filepath_Clean (''/'' @ join ''/'' ?p) = ''/'' @ join ''/'' ?p" by (simp add: filepath_Clean_def Let_def)
  then show ?thesis by (simp add: filepath_Join_def j)
qed

definition found_config :: "'c access_env \<Rightarrow> string list \<Rightarrow> string list \<Rightarrow> 'c \<Rightarrow> bool" where
  "found_config e flags flags' cfg \<longleftrightarrow>
     (case AE_InCluster e of
        Some c \<Rightarrow> flags' = flags \<and> cfg = c
      | None \<Rightarrow> ''kubeconfig'' \<notin> set flags \<and> flags' = ''kubeconfig'' # flags
          \<and> (\<exists>path. AE_Parse e (if AE_HomeDir e \<noteq> '''' then filepath_Join [AE_HomeDir e, ''.kube'', ''config''] else '''') = Some path
              \<and> AE_Build e path = Some cfg))"

lemma getConfigs_found: "getConfigs e flags = Inr (flags', Some cfg) \<longleftrightarrow> found_config e flags flags' cfg"
  by (auto simp: getConfigs_def found_config_def dev_kubeconfig_def bind_res_Inr Let_def split: option.splits)

lemma webhook_getConfigs_same: "webhook_getConfigs = getConfigs"
  by (intro ext) (simp add: webhook_getConfigs_def getConfigs_def)

text \<open>
  A manager is initialised, with both its clients, exactly when a configuration is found, in the cluster
  or in the file, and both clients can be made from it.
\<close>

lemma InitConfigs_iff:
  "InitConfigs e flags k = Inr (flags', Some k') \<longleftrightarrow>
     (\<exists>cfg. found_config e flags flags' cfg \<and> AE_Clientset e cfg \<and> AE_Guardians e cfg
        \<and> k' = k\<lparr>KB_cmClient := Some cfg, KB_crdClient := Some cfg\<rparr>)"
  by (auto simp: InitConfigs_def bind_res_Inr Let_def getConfigs_found [symmetric] split: option.splits if_splits)

text \<open>
  Outside a cluster this works once in a process: the second manager panics, as the flag is defined.
\<close>

theorem second_manager_panics:
  assumes "InitConfigs e flags k = Inr (flags', Some k')" and "AE_InCluster e = None"
  shows "InitConfigs e flags' k'' = Inl (PanicMsg ''flag redefined: kubeconfig'')
    \<and> webhook_InitConfigs e flags' w = Inl (PanicMsg ''flag redefined: kubeconfig'')"
proof -
  have "''kubeconfig'' \<in> set flags'" using assms by (auto simp: InitConfigs_iff found_config_def)
  then show ?thesis
    using assms(2) by (simp add: InitConfigs_def webhook_InitConfigs_def webhook_getConfigs_same getConfigs_def dev_kubeconfig_def Let_def)
qed

text \<open>The job ends in one of its ways; it does not panic.\<close>

lemma job_client_total:
  "\<exists>flags' r. job_client e [] = Inr (flags', r)
    \<and> (\<forall>cfg. r = JobClient cfg \<longleftrightarrow> found_config e [] flags' cfg \<and> AE_Clientset e cfg)"
  by (auto simp: job_client_def found_config_def dev_kubeconfig_def Let_def split: option.split)

definition laptop :: "string access_env" where
  "laptop = \<lparr>AE_InCluster = None, AE_HomeDir = ''/home/dev'', AE_Parse = Some,
     AE_Build = \<lambda>path. if path = ''/home/dev/.kube/config'' then Some ''dev'' else None,
     AE_Clientset = \<lambda>c. True, AE_Guardians = \<lambda>c. True, AE_Serving = \<lambda>c. True\<rparr>"

lemma laptop_access: "InitConfigs laptop [] NewKubeMgr = Inr ([''kubeconfig''], Some \<lparr>KB_cmClient = Some ''dev'', KB_crdClient = Some ''dev''\<rparr>)"
  by code_simp

theorem second_manager_panics_witness:
  "InitConfigs laptop [''kubeconfig''] NewKubeMgr = Inl (PanicMsg ''flag redefined: kubeconfig'')"
  using second_manager_panics [OF laptop_access] by (simp add: laptop_def)

end
