(* ===== verification/Gate_Start.thy ===== *)
theory Gate_Start
  imports Proxies Cluster_Config
begin

text \<open>
  The start of a gate, with the access to the cluster that \<open>Init\<close> of the plug begins with
  (\<open>gateState.start\<close>, \<open>initKubeMgr\<close>), and the life of the stand-alone proxy from its environment to
  its last synchronisation (\<open>main\<close> of \<open>cmd/guard-rproxy/main.go\<close>).
\<close>

section \<open>Starting a gate\<close>

definition initKubeMgr :: "'c access_env \<Rightarrow> string list \<Rightarrow> 'c kube_clients \<Rightarrow> (string list \<times> 'c kube_clients option) res" where
  "initKubeMgr ae defs k = InitConfigs ae defs k"

text \<open>Without a namespace the manager stays without clients.\<close>

definition gateState_start :: "'c access_env \<Rightarrow> string list \<Rightarrow> gateState \<Rightarrow> 'c kube_clients \<Rightarrow> (string list \<times> 'c kube_clients option) res" where
  "gateState_start ae defs gs k =
     (if length (GC_ns (GS_srv gs)) > 0 then initKubeMgr ae defs k else Inr (defs, Some k))"

text \<open>
  A guardian is read through the client of its kind, unless its name is the reserved one of the
  namespace. Reading through a client that is nil panics.
\<close>

definition missing_client :: "'c kube_clients \<Rightarrow> gateClient \<Rightarrow> bool" where
  "missing_client k srv \<longleftrightarrow> \<not> EqualFold (GC_sid srv) (''ns-'' @ GC_ns srv)
     \<and> (if GC_useCm srv then KB_cmClient k = None else KB_crdClient k = None)"

definition first_sync :: "'c kube_clients \<Rightarrow> 'k gate_env \<Rightarrow> ranger \<Rightarrow> int \<Rightarrow> gateState \<Rightarrow> gateState res" where
  "first_sync k e rr ticks gs =
     (if snd (syncWithService e ticks (GS_srv gs)) = None \<and> missing_client k (GS_srv gs) then Inl NilDeref
      else gate_sync e rr True True ticks gs)"

text \<open>\<open>Init\<close> with its access to the cluster; None is a program that refuses its arguments.\<close>

definition plug_start ::
    "'c access_env \<Rightarrow> 'k gate_env \<Rightarrow> (string \<Rightarrow> bool) \<Rightarrow> string list \<Rightarrow> ranger \<Rightarrow> int \<Rightarrow> string gomap \<Rightarrow> string \<Rightarrow> string
      \<Rightarrow> (string list \<times> gateState option) res" where
  "plug_start ae e pem_ok defs rr ticks c sid ns =
     bind_res (preInit (w_ReadFile (GE_world e)) pem_ok (GE_TokenFile e) ticks c sid ns) (\<lambda>gs.
     bind_res (gateState_start ae defs gs NewKubeMgr) (\<lambda>(defs, started).
     case started of
       None \<Rightarrow> Inr (defs, None)
     | Some k \<Rightarrow>
         bind_res (first_sync k e (at_site rr ''sync'') ticks gs) (\<lambda>gs.
         bind_res (profileAndDecidePod e (at_site rr ''pod'') ticks ticks gs) (\<lambda>gs.
         Inr (defs, Some gs)))))"

lemma preInit_names:
  assumes "preInit ReadFile pem_ok tok now c sid ns = Inr gs"
  shows "GC_sid (GS_srv gs) = sid" and "GC_ns (GS_srv gs) = ns"
  using assms
  by (auto simp: preInit_def NewGateState_def initHttpClient_def NewGateClient_def Let_def split: if_splits prod.splits)


text \<open>The name that every other part reserves, \<open>ns-\<close> and the namespace, is not the one \<open>preInit\<close> refuses.\<close>

lemma reserved_name_accepted: "\<exists>gs. preInit ReadFile pem_ok tok now c (''ns-'' @ ns) ns = Inr gs"
  by (auto simp: preInit_def has_prefix_def Let_def)

section \<open>An interval of a second\<close>

lemma gate_sync_frame:
  "gate_sync e rr load force ticks gs = Inr gs' \<Longrightarrow> GS_pod gs' = GS_pod gs \<and> GS_decision gs' = GS_decision gs
     \<and> GS_podMonitorSecs gs' = GS_podMonitorSecs gs"
  by (auto simp: gate_sync_def load_guardian_def bind_res_Inr Let_def split: if_splits prod.splits)

text \<open>
  The pod is profiled at the ticks that leave the remainder one: with an interval of one second
  there are none, so the profile of the pod and the decision about it stay what they were.
\<close>

theorem second_interval_never_profiles:
  assumes "\<bar>GS_podMonitorSecs gs\<bar> = 1" and "setTicks e rr now ticks gs = Inr gs'"
  shows "GS_pod gs' = GS_pod gs \<and> GS_decision gs' = GS_decision gs"
proof -
  have one: "GS_podMonitorSecs gs = 1 \<or> GS_podMonitorSecs gs = - 1" using assms(1) by linarith
  then have "ticks smod GS_podMonitorSecs gs = 0" by (auto simp: signed_modulo_int_def)
  then show ?thesis
    using assms(2) one
    by (auto simp: setTicks_def Let_def bind_res_Inr remainder_def split: if_splits dest: gate_sync_frame)
qed

theorem second_interval_never_profiles_witness:
  "\<exists>gs'. setTicks quiet_env (\<lambda>_ ks. ks) 7 61 (gate_example 60 1) = Inr gs' \<and> GS_pod gs' = GS_pod (gate_example 60 1)"
proof -
  have "ok (setTicks quiet_env (\<lambda>_ ks. ks) 7 61 (gate_example 60 1)) (gate_keeps (gate_example 60 1))"
    using gate_ok_start [OF gate_example_start, of 60 1]
    by (intro setTicks_ok plain_fair quiet_env_ok) (simp_all add: intervals_def)
  then obtain gs' where s: "setTicks quiet_env (\<lambda>_ ks. ks) 7 61 (gate_example 60 1) = Inr gs'" by (auto simp: ok_iff)
  have "\<bar>GS_podMonitorSecs (gate_example 60 1)\<bar> = 1" by (simp add: gate_example_def NewGateState_def)
  from second_interval_never_profiles [OF this s] s show ?thesis by blast
qed

section \<open>The stand-alone proxy\<close>

text \<open>A transport that is not given is that of the library.\<close>

definition Transport :: "'t \<Rightarrow> 't option \<Rightarrow> 't" where
  "Transport DefaultTransport t = (case t of None \<Rightarrow> DefaultTransport | Some t \<Rightarrow> t)"

datatype rproxy_end = NotServed | ArgumentsWrong | Crashed panic | Stopped gateState

text \<open>
  \<open>served\<close> is what requests and the passing time make of the gate until the signal; the server is
  that of \<open>net/http\<close>.
\<close>

definition rproxy_main ::
    "'c access_env \<Rightarrow> 'k gate_env \<Rightarrow> (string \<Rightarrow> bool) \<Rightarrow> (string \<Rightarrow> string option) \<Rightarrow> string option \<Rightarrow> ranger \<Rightarrow> int
      \<Rightarrow> (gateState \<Rightarrow> gateState) \<Rightarrow> rproxy_config option \<Rightarrow> rproxy_end" where
  "rproxy_main ae e pem_ok url_scheme cert rr now served env =
     (case env of
        None \<Rightarrow> NotServed
      | Some env \<Rightarrow>
          (case preMain url_scheme cert env of
             (plugConfig, sid, ns, None) \<Rightarrow> NotServed
           | (plugConfig, sid, ns, Some (url, target)) \<Rightarrow>
               (case plug_start ae e pem_ok [] (at_site rr ''Init'') now (Some plugConfig) sid ns of
                  Inl panic \<Rightarrow> Crashed panic
                | Inr (defs, None) \<Rightarrow> ArgumentsWrong
                | Inr (defs, Some gs) \<Rightarrow>
                    (case plug_Shutdown e (at_site rr ''Shutdown'') (served gs) of
                       Inl panic \<Rightarrow> Crashed panic
                     | Inr gs \<Rightarrow> Stopped gs))))"

text \<open>A service that answers every request with something that can be read.\<close>

definition service_answers :: "'k gate_env \<Rightarrow> bool" where
  "service_answers e \<longleftrightarrow> (\<forall>m. GE_marshal e m \<noteq> None) \<and> GE_UrlPath e \<noteq> None
     \<and> (\<forall>req. \<exists>buf g. GE_Do e req = Answer 200 (BodyBytes buf) \<and> buf \<noteq> '''' \<and> GE_unmarshal e buf = Some g)"

lemma answered_sync:
  assumes "service_answers e"
  shows "SDQ_Count (GC_pile (fst (syncWithService e ticks srv))) = 0 \<and> GC_alerts (fst (syncWithService e ticks srv)) = []"
proof -
  obtain srv1 r where s: "sync_request e ticks srv = (srv1, r)" by fastforce
  then obtain req where r: "sync_request e ticks srv = (srv1, Some req)"
    using assms by (cases r) (auto simp: service_answers_def sync_request_def Let_def split: option.splits, metis option.distinct(1))
  obtain buf g where "GE_Do e req = Answer 200 (BodyBytes buf)" "buf \<noteq> ''''" "GE_unmarshal e buf = Some g"
    using assms unfolding service_answers_def by blast
  then show ?thesis using r by (simp add: syncWithService_def sync_reply_def SessionDataPile_Clear_Count)
qed

lemma last_sync:
  "gate_sync e rr False True ticks gs = Inr (gs\<lparr>GS_skippedSyncs := 0, GS_srv := fst (syncWithService e ticks (GS_srv gs))\<rparr>)"
  by (simp add: gate_sync_def syncWithServiceAndKubeApi_def Let_def split: prod.split)


section \<open>Instances\<close>


definition answering_env :: "unit gate_env" where
  "answering_env = quiet_env\<lparr>GE_UrlPath := Some ''/sync'', GE_Do := \<lambda>req. Answer 200 (BodyBytes ''{}''),
     GE_marshal := \<lambda>m. Some ''{}'', GE_unmarshal := \<lambda>b. Some None\<rparr>"

lemma answering_env_ok: "env_ok answering_env" "service_answers answering_env"
  using quiet_env_ok by (simp_all add: env_ok_def answering_env_def service_answers_def)

definition shop_config :: rproxy_config where
  "shop_config = \<lparr>EC_ServiceName = ''shop'', EC_Namespace = ''default'', EC_ProtectedService = '''', EC_GuardServiceUrl = '''',
     EC_Port = '''', EC_UseCrd = '''', EC_MonitorPod = '''', EC_AnalyzeBody = '''', EC_PodMonitorInterval = '''', EC_GuardianSyncInterval = ''''\<rparr>"


end
