(* ===== verification/Service_Start.thy ===== *)
theory Service_Start
  imports Service_Main Cluster_Config
begin

text \<open>
  The guard-service from its environment to its end, \<open>main\<close> of \<open>cmd/guard-service/main.go\<close>: the access to the
  cluster, the listener, what requests, ticks, goroutines and the watch do in any order, and the
  draining after the server has stopped.
\<close>

section \<open>The listener\<close>

datatype stat_result = FilePresent | FileAbsent | StatFails

datatype listener = PlainHttp | WithTls string string

text \<open>None: the error of \<open>os.Stat\<close> is reported as that of the server, and nothing is served.\<close>

definition choose_listener :: "string \<Rightarrow> (string \<Rightarrow> stat_result) \<Rightarrow> listener option" where
  "choose_listener tls stat =
     (if tls \<noteq> ''false'' then
        (case stat ''/secrets/public-cert.pem'' of
           FilePresent \<Rightarrow> Some (WithTls ''/secrets/public-cert.pem'' ''/secrets/private-key.pem'')
         | FileAbsent \<Rightarrow> Some (WithTls ''/secrets/tls.crt'' ''/secrets/tls.key'')
         | StatFails \<Rightarrow> None)
      else Some PlainHttp)"

section \<open>Running\<close>

definition services_start :: "'c access_env \<Rightarrow> string list \<Rightarrow> 'c kube_clients \<Rightarrow> (string list \<times> 'c kube_clients option) res" where
  "services_start ae defs k = InitConfigs ae defs k"

text \<open>
  Until the server has stopped: a request is handled, the loop receives an event, a goroutine stores
  the guardian of a record, the watch reports a change. Each step has its orders of map ranges.
\<close>

datatype main_step = Request int http_req | Event int main_event | Stored nat | Changed watch_update

definition main_step :: "'k kube_api \<Rightarrow> sync_codec \<Rightarrow> ranger \<Rightarrow> main_step \<Rightarrow> 'k \<times> learner \<Rightarrow> ('k \<times> learner) res" where
  "main_step api codec rr st = (\<lambda>(k, l).
     case st of
       Request now req \<Rightarrow> bind_res (processSync api codec rr now req k l) (\<lambda>(k, l, reply). Inr (k, l))
     | Event now ev \<Rightarrow> bind_res (mainEventProcessing rr now ev l) (\<lambda>(l, alive). Inr (k, l))
     | Stored a \<Rightarrow>
         if a \<in> set (SV_persisting (LR_services l)) then
           bind_res (persistGuardian api (record_at (LR_services l) a) k) (\<lambda>k.
           Inr (k, l\<lparr>LR_services := (LR_services l)\<lparr>SV_persisting := remove1 a (SV_persisting (LR_services l))\<rparr>\<rparr>))
         else Inr (k, l)
     | Changed u \<Rightarrow> bind_res (update_service rr u (LR_services l)) (\<lambda>s. Inr (k, l\<lparr>LR_services := s\<rparr>)))"

definition run_service :: "'k kube_api \<Rightarrow> sync_codec \<Rightarrow> (ranger \<times> main_step) list \<Rightarrow> 'k \<times> learner \<Rightarrow> ('k \<times> learner) res" where
  "run_service api codec = fold_res (\<lambda>(rr, st). main_step api codec rr st)"

definition is_request :: "ranger \<times> main_step \<Rightarrow> bool" where
  "is_request st \<longleftrightarrow> (case snd st of Request now req \<Rightarrow> True | _ \<Rightarrow> False)"

datatype 'k service_end = ExitStatus nat | ServiceCrashed panic | Drained 'k learner

text \<open>
  \<open>steps\<close> are those before \<open>quit\<close>, which \<open>main\<close> sends when the server has stopped for whatever reason;
  without a listener there are no requests among them. A program that ends by an error of its
  environment or of its arguments has a status.
\<close>

definition service_main ::
    "'c access_env \<Rightarrow> 'k kube_api \<Rightarrow> sync_codec \<Rightarrow> ranger \<Rightarrow> string \<Rightarrow> (string \<Rightarrow> stat_result) \<Rightarrow> (ranger \<times> main_step) list
      \<Rightarrow> (nat \<Rightarrow> int) \<Rightarrow> sync_env option \<Rightarrow> 'k \<Rightarrow> 'k service_end" where
  "service_main ae api codec rr tls stat steps clock env k =
     (case env of
        None \<Rightarrow> ExitStatus 1
      | Some env \<Rightarrow>
          (case init_learner env of
             Inl panic \<Rightarrow> ServiceCrashed panic
           | Inr l \<Rightarrow>
               (case services_start ae [] NewKubeMgr of
                  Inl panic \<Rightarrow> ServiceCrashed panic
                | Inr (defs, None) \<Rightarrow> ExitStatus 2
                | Inr (defs, Some mgr) \<Rightarrow>
                    (let steps = (case choose_listener tls stat of None \<Rightarrow> filter (\<lambda>st. \<not> is_request st) steps | Some how \<Rightarrow> steps) in
                     case run_service api codec steps (k, l) of
                       Inl panic \<Rightarrow> ServiceCrashed panic
                     | Inr (k, l) \<Rightarrow>
                         (case shutdown rr clock l of
                            Inl panic \<Rightarrow> ServiceCrashed panic
                          | Inr l \<Rightarrow> Drained k l)))))"

section \<open>No step fails\<close>

lemma setCm_total: "setCm api k ns sid g \<noteq> Inl e"
  by (auto simp: setCm_def map_get_def map_put_def Let_def split: sum.splits api_error.splits option.splits prod.splits)

lemma persistGuardian_total: "\<exists>k'. persistGuardian api r k = Inr k'"
proof -
  have "Set api k (SR_ns r) (SR_sid r) (SR_cmFlag r) (SR_guardianSpec r) \<noteq> Inl e" for e by (simp add: Set_def setCm_total)
  then obtain x where "Set api k (SR_ns r) (SR_sid r) (SR_cmFlag r) (SR_guardianSpec r) = Inr x"
    by (cases "Set api k (SR_ns r) (SR_sid r) (SR_cmFlag r) (SR_guardianSpec r)") auto
  then show ?thesis by (cases x) (simp add: persistGuardian_def)
qed

definition step_ok :: "ranger \<times> main_step \<Rightarrow> bool" where
  "step_ok = (\<lambda>(rr, st). fair_ranger rr \<and>
     (case st of Event now ev \<Rightarrow> ev \<noteq> Quit | Changed (ns, sid, cm, Some g) \<Rightarrow> guardian_ok g | _ \<Rightarrow> True))"

lemma main_step_ok:
  assumes "cluster_ok api" and "codec_ok codec" and "step_ok (rr, st)" and "services_ok (LR_services l)"
  shows "ok (main_step api codec rr st (k, l)) (\<lambda>(k', l'). services_ok (LR_services l'))"
proof -
  have rr: "fair_ranger rr" using assms(3) by (simp add: step_ok_def)
  show ?thesis
  proof (cases st)
    case (Request now req)
    show ?thesis
      unfolding Request main_step_def
      using processSync_ok [OF rr assms(4,1,2), of now req k] by (auto simp: ok_iff)
  next
    case (Event now ev)
    then show ?thesis
      using tick_ok [OF rr assms(4), of now] assms(4)
      by (cases ev) (auto simp: main_step_def mainEventProcessing_def chacheOutTokens_def Let_def ok_iff)
  next
    case (Stored a)
    obtain k' where "persistGuardian api (record_at (LR_services l) a) k = Inr k'"
      using persistGuardian_total [of api "record_at (LR_services l) a" k] by blast
    then show ?thesis using assms(4) services_ok_persisted [OF assms(4)] by (simp add: main_step_def Stored)
  next
    case (Changed u)
    have "guardian_ok g" if "u = (ns, sid, cm, Some g)" for ns sid cm g
      using assms(3) by (simp add: step_ok_def Changed that)
    then obtain s' where "update_service rr u (LR_services l) = Inr s'" "services_ok s'"
      using update_service_ok [OF rr assms(4), of u] by (auto simp: ok_iff)
    then show ?thesis by (simp add: main_step_def Changed)
  qed
qed

lemma run_service_ok:
  assumes "cluster_ok api" and "codec_ok codec" and "\<forall>st \<in> set steps. step_ok st" and "services_ok (LR_services l)"
  shows "\<exists>k' l'. run_service api codec steps (k, l) = Inr (k', l') \<and> services_ok (LR_services l')"
proof -
  have "ok (fold_res (\<lambda>(rr, st). main_step api codec rr st) steps (k, l)) (\<lambda>(k', l'). services_ok (LR_services l'))"
    by (rule fold_res_inv [where I = "\<lambda>_ (k', l'). services_ok (LR_services l')"])
      (use main_step_ok [OF assms(1,2)] assms(3,4) in auto)
  then show ?thesis by (auto simp: ok_iff run_service_def)
qed



end
