(* ===== verification/Webhook_Kube.thy ===== *)
theory Webhook_Kube
  imports Kube_Mgr Webhook
begin

text \<open>
  \<open>cmd/guard-webhook/kubeMgr.go\<close>: the service account, the role and the role binding the webhook
  keeps in every namespace of a service, and the watches it acts on. The API of Kubernetes is a
  parameter: how a call changes the state of the cluster and what it returns.
\<close>

section \<open>The resources\<close>

definition cmNs :: string where "cmNs = ''knative-serving''"
definition config_cmName :: string where "config_cmName = ''config-guard''"
definition saName :: string where "saName = ''guardian-reader''"
definition guardLabel :: string where "guardLabel = ''guard.security.knative.dev/guard''"

record ServiceAccount =
  SA_Name :: string
  SA_Labels :: "string gomap"

record PolicyRule =
  PR_APIGroups :: "string list"
  PR_Resources :: "string list"
  PR_Verbs :: "string list"

record Role =
  RO_Name :: string
  RO_Labels :: "string gomap"
  RO_Rules :: "PolicyRule list"

record Subject =
  SU_APIGroup :: string
  SU_Kind :: string
  SU_Name :: string
  SU_Namespace :: string

record RoleRef =
  RR_APIGroup :: string
  RR_Kind :: string
  RR_Name :: string

record RoleBinding =
  RB_Name :: string
  RB_Labels :: "string gomap"
  RB_RoleRef :: RoleRef
  RB_Subjects :: "Subject list"

text \<open>The calls on the resource named \<open>saName\<close> of a namespace, and on the configuration of webhooks.\<close>

record 'k rbac_api =
  sa_Get :: "'k \<Rightarrow> string \<Rightarrow> api_error + ServiceAccount"
  sa_Create :: "'k \<Rightarrow> string \<Rightarrow> ServiceAccount \<Rightarrow> 'k \<times> api_error option"
  sa_Update :: "'k \<Rightarrow> string \<Rightarrow> ServiceAccount \<Rightarrow> 'k \<times> api_error option"
  r_Get :: "'k \<Rightarrow> string \<Rightarrow> api_error + Role"
  r_Create :: "'k \<Rightarrow> string \<Rightarrow> Role \<Rightarrow> 'k \<times> api_error option"
  r_Update :: "'k \<Rightarrow> string \<Rightarrow> Role \<Rightarrow> 'k \<times> api_error option"
  rb_Get :: "'k \<Rightarrow> string \<Rightarrow> api_error + RoleBinding"
  rb_Create :: "'k \<Rightarrow> string \<Rightarrow> RoleBinding \<Rightarrow> 'k \<times> api_error option"
  rb_Update :: "'k \<Rightarrow> string \<Rightarrow> RoleBinding \<Rightarrow> 'k \<times> api_error option"
  gc_Get :: "'k \<Rightarrow> string \<Rightarrow> string \<Rightarrow> api_error + string gomap"

text \<open>\<open>equality.Semantic.DeepEqual\<close> of labels: nil and empty are the same, the order does not matter.\<close>

definition same_labels :: "string gomap \<Rightarrow> string gomap \<Rightarrow> bool" where
  "same_labels a b \<longleftrightarrow> set (entries a) = set (entries b)"

section \<open>Keeping the resources\<close>

text \<open>
  The shape of the three functions: create what is not found, update what is found and differs;
  errors are only logged.
\<close>

definition keep_resource :: "api_error + 'o \<Rightarrow> ('o \<Rightarrow> bool) \<Rightarrow> ('k \<times> api_error option) \<Rightarrow> ('k \<times> api_error option) \<Rightarrow> 'k \<Rightarrow> 'k" where
  "keep_resource current same created updated k =
     (case current of
        Inl err \<Rightarrow> fst created
      | Inr x \<Rightarrow> if \<not> same x then fst updated else k)"

definition newServiceAccount :: ServiceAccount where
  "newServiceAccount = \<lparr>SA_Name = saName, SA_Labels = Some [(guardLabel, ''true'')]\<rparr>"

definition createGuardReaderSA :: "'k rbac_api \<Rightarrow> string \<Rightarrow> 'k \<Rightarrow> 'k" where
  "createGuardReaderSA api ns k =
     keep_resource (sa_Get api k ns) (\<lambda>x. same_labels (SA_Labels x) (SA_Labels newServiceAccount))
       (sa_Create api k ns newServiceAccount) (sa_Update api k ns newServiceAccount) k"

definition newRole :: Role where
  "newRole = \<lparr>RO_Name = saName, RO_Labels = Some [(guardLabel, ''true'')],
     RO_Rules = [\<lparr>PR_APIGroups = [''guard.security.knative.dev''], PR_Resources = [''guardians''], PR_Verbs = [''get'', ''list'', ''watch'']\<rparr>]\<rparr>"

definition createGuardReaderR :: "'k rbac_api \<Rightarrow> string \<Rightarrow> 'k \<Rightarrow> 'k" where
  "createGuardReaderR api ns k =
     keep_resource (r_Get api k ns) (\<lambda>x. RO_Rules x = RO_Rules newRole \<and> same_labels (RO_Labels x) (RO_Labels newRole))
       (r_Create api k ns newRole) (r_Update api k ns newRole) k"

definition newRoleBinding :: RoleBinding where
  "newRoleBinding = \<lparr>RB_Name = saName, RB_Labels = Some [(guardLabel, ''true'')],
     RB_RoleRef = \<lparr>RR_APIGroup = ''rbac.authorization.k8s.io'', RR_Kind = ''Role'', RR_Name = saName\<rparr>,
     RB_Subjects = [\<lparr>SU_APIGroup = '''', SU_Kind = ''ServiceAccount'', SU_Name = saName, SU_Namespace = ''''\<rparr>]\<rparr>"

definition createGuardReaderRB :: "'k rbac_api \<Rightarrow> string \<Rightarrow> 'k \<Rightarrow> 'k" where
  "createGuardReaderRB api ns k =
     keep_resource (rb_Get api k ns)
       (\<lambda>x. RB_Subjects x = RB_Subjects newRoleBinding \<and> RB_RoleRef x = RB_RoleRef newRoleBinding
          \<and> same_labels (RB_Labels x) (RB_Labels newRoleBinding))
       (rb_Create api k ns newRoleBinding) (rb_Update api k ns newRoleBinding) k"

text \<open>The state of the manager: the namespaces it has seen, and the cluster.\<close>

record 'k WebhookMgr =
  WM_namespaces :: "string list"
  WM_cluster :: 'k

definition NewKubeMgr :: "'k \<Rightarrow> 'k WebhookMgr" where
  "NewKubeMgr k = \<lparr>WM_namespaces = [], WM_cluster = k\<rparr>"

definition AddNamespace :: "'k rbac_api \<Rightarrow> string \<Rightarrow> 'k WebhookMgr \<Rightarrow> 'k WebhookMgr" where
  "AddNamespace api ns m =
     (if ns \<in> set (WM_namespaces m) then m
      else
        (let k = createGuardReaderSA api ns (WM_cluster m);
             k = createGuardReaderR api ns k;
             k = createGuardReaderRB api ns k
         in m\<lparr>WM_cluster := k, WM_namespaces := ns # WM_namespaces m\<rparr>))"

definition ReadGuardConfig :: "'k rbac_api \<Rightarrow> 'k \<Rightarrow> api_error + string gomap" where
  "ReadGuardConfig api k = gc_Get api k cmNs config_cmName"

section \<open>Registering the webhook\<close>

record 'b MutatingWebhookConfiguration =
  MW_Name :: string
  MW_Labels :: "string gomap"
  MW_AdmissionReviewVersions :: "string list"
  MW_FailurePolicy :: string
  MW_SideEffects :: string
  MW_TimeoutSeconds :: int
  MW_Operations :: "string list"
  MW_APIGroups :: "string list"
  MW_APIVersions :: "string list"
  MW_Resources :: "string list"
  MW_Scope :: string
  MW_Service :: "string \<times> string \<times> int \<times> string"
  MW_CABundle :: 'b

record ('k, 'b) webhook_api =
  mw_Delete :: "'k \<Rightarrow> string \<Rightarrow> 'k"
  mw_Create :: "'k \<Rightarrow> 'b MutatingWebhookConfiguration \<Rightarrow> 'k \<times> api_error option"

definition webhookName :: string where
  "webhookName = ''webhook.services.guard.security.knative.dev''"

definition configuredWebhook :: "'b \<Rightarrow> 'b MutatingWebhookConfiguration" where
  "configuredWebhook caBundle =
     \<lparr>MW_Name = webhookName,
      MW_Labels = Some [(''app.kubernetes.io/component'', ''webhook''), (''app.kubernetes.io/name'', ''knative-serving''), (''app.kubernetes.io/version'', ''devel'')],
      MW_AdmissionReviewVersions = [''v1''], MW_FailurePolicy = ''Fail'', MW_SideEffects = ''None'', MW_TimeoutSeconds = 10,
      MW_Operations = [''CREATE'', ''UPDATE''], MW_APIGroups = [''serving.knative.dev''], MW_APIVersions = [''v1'', ''v1beta1'', ''v1alpha1''],
      MW_Resources = [''services''], MW_Scope = ''Namespaced'', MW_Service = (''knative-serving'', ''guard-webhook'', 443, ''/mutate''),
      MW_CABundle = caBundle\<rparr>"

text \<open>An old registration is deleted first; what that returns is ignored.\<close>

definition CreateMutatingWebhookConfiguration :: "('k, 'b) webhook_api \<Rightarrow> 'b \<Rightarrow> 'k \<Rightarrow> 'k \<times> kube_error option" where
  "CreateMutatingWebhookConfiguration api caBundle k =
     (let (k, err) = mw_Create api (mw_Delete api k webhookName) (configuredWebhook caBundle)
      in (k, map_option CreateError err))"

text \<open>The configuration \<open>main\<close> starts with; a failed read gives no ConfigMap.\<close>

definition initial_conf :: "(string \<Rightarrow> string) \<Rightarrow> 'k rbac_api \<Rightarrow> 'k \<Rightarrow> conf \<Rightarrow> conf" where
  "initial_conf unicode api k c = updateCm unicode (case ReadGuardConfig api k of Inl e \<Rightarrow> None | Inr cm \<Rightarrow> Some cm) c"

section \<open>Watching\<close>

text \<open>
  How a watch ends: the channel is closed, nothing comes for ten minutes, an object of another type,
  or a panic that is recovered; more events are to come otherwise.
\<close>

datatype watch_end = HungUp | TimedOut | BadObject | Recovered | Going

text \<open>What a channel gives; an object of an unexpected type is None, \<open>True\<close> says that an error carries a status.\<close>

datatype 'o watched = Watched event_type "'o option" bool | ChannelClosed | NoEvents

fun watchGuardConfigOnce :: "(string gomap option \<Rightarrow> 's \<Rightarrow> 's) \<Rightarrow> (string \<times> string \<times> string gomap) watched list \<Rightarrow> 's \<Rightarrow> 's \<times> watch_end" where
  "watchGuardConfigOnce set_conf [] s = (s, Going)"
| "watchGuardConfigOnce set_conf (ev # evs) s =
     (case ev of
        ChannelClosed \<Rightarrow> (s, HungUp)
      | NoEvents \<Rightarrow> (s, TimedOut)
      | Watched ty obj status \<Rightarrow>
          if ty = WatchError then (if status then watchGuardConfigOnce set_conf evs s else (s, Recovered))
          else if ty = Bookmark then watchGuardConfigOnce set_conf evs s
          else (case obj of
              None \<Rightarrow> (s, BadObject)
            | Some (ns, name, data) \<Rightarrow>
                if name \<noteq> config_cmName \<or> ns \<noteq> cmNs then watchGuardConfigOnce set_conf evs s
                else if ty = Deleted then watchGuardConfigOnce set_conf evs (set_conf None s)
                else watchGuardConfigOnce set_conf evs (set_conf (Some data) s)))"

text \<open>The watches of the three resources: an object is known by its namespace.\<close>

datatype resource = ServiceAccounts | Roles | RoleBindings

definition createGuardReader :: "'k rbac_api \<Rightarrow> resource \<Rightarrow> string \<Rightarrow> 'k \<Rightarrow> 'k" where
  "createGuardReader api res ns k =
     (case res of
        ServiceAccounts \<Rightarrow> createGuardReaderSA api ns k
      | Roles \<Rightarrow> createGuardReaderR api ns k
      | RoleBindings \<Rightarrow> createGuardReaderRB api ns k)"

fun watchOnce :: "'k rbac_api \<Rightarrow> resource \<Rightarrow> string watched list \<Rightarrow> 'k \<Rightarrow> 'k \<times> watch_end" where
  "watchOnce api res [] k = (k, Going)"
| "watchOnce api res (ev # evs) k =
     (case ev of
        ChannelClosed \<Rightarrow> (k, HungUp)
      | NoEvents \<Rightarrow> (k, TimedOut)
      | Watched ty obj status \<Rightarrow>
          if ty = WatchError then (if status then watchOnce api res evs k else (k, Recovered))
          else if ty = Bookmark then watchOnce api res evs k
          else (case obj of
              None \<Rightarrow> watchOnce api res evs k
            | Some ns \<Rightarrow> watchOnce api res evs (createGuardReader api res ns k)))"

fun watchKnativeServicesOnce :: "'k rbac_api \<Rightarrow> conf \<Rightarrow> string watched list \<Rightarrow> 'k WebhookMgr \<Rightarrow> 'k WebhookMgr \<times> watch_end" where
  "watchKnativeServicesOnce api c [] m = (m, Going)"
| "watchKnativeServicesOnce api c (ev # evs) m =
     (case ev of
        ChannelClosed \<Rightarrow> (m, HungUp)
      | NoEvents \<Rightarrow> (m, TimedOut)
      | Watched ty obj status \<Rightarrow>
          if ty = WatchError then (if status then watchKnativeServicesOnce api c evs m else (m, Recovered))
          else if ty = Modified \<or> ty = Added then
            (case obj of
               Some ns \<Rightarrow> watchKnativeServicesOnce api c evs (if ServiceAccountEnable c then AddNamespace api ns m else m)
             | None \<Rightarrow> watchKnativeServicesOnce api c evs m)
          else watchKnativeServicesOnce api c evs m)"

section \<open>A working API\<close>

text \<open>What can be read of a namespace.\<close>

definition rbac_view :: "'k rbac_api \<Rightarrow> 'k \<Rightarrow> string \<Rightarrow> (api_error + ServiceAccount) \<times> (api_error + Role) \<times> (api_error + RoleBinding)" where
  "rbac_view api k ns = (sa_Get api k ns, r_Get api k ns, rb_Get api k ns)"

definition puts :: "'k rbac_api \<Rightarrow> 'k \<Rightarrow> 'k \<Rightarrow> string \<Rightarrow> (api_error + ServiceAccount) \<times> (api_error + Role) \<times> (api_error + RoleBinding) \<Rightarrow> bool" where
  "puts api k k' ns v \<longleftrightarrow> (\<forall>n. rbac_view api k' n = (if n = ns then v else rbac_view api k n))"

text \<open>
  Kubernetes as documented, when it does not fail: what is not found can be created, what is found
  can be updated and is read back as written, and nothing else changes; but the reference of a
  role binding is immutable, so an update that changes it is refused.
\<close>

definition rbac_works :: "'k rbac_api \<Rightarrow> bool" where
  "rbac_works api \<longleftrightarrow> (\<forall>k ns. case rbac_view api k ns of (sa, r, rb) \<Rightarrow>
     (\<forall>x. puts api k (fst ((case sa of Inl e \<Rightarrow> sa_Create api | Inr old \<Rightarrow> sa_Update api) k ns x)) ns (Inr x, r, rb))
   \<and> (\<forall>x. puts api k (fst ((case r of Inl e \<Rightarrow> r_Create api | Inr old \<Rightarrow> r_Update api) k ns x)) ns (sa, Inr x, rb))
   \<and> (\<forall>x. puts api k (fst ((case rb of Inl e \<Rightarrow> rb_Create api | Inr old \<Rightarrow> rb_Update api) k ns x)) ns
        (sa, r, case rb of Inl e \<Rightarrow> Inr x | Inr old \<Rightarrow> Inr (if RB_RoleRef old = RB_RoleRef x then x else old))))"

definition sa_good :: "api_error + ServiceAccount \<Rightarrow> bool" where
  "sa_good r = (case r of Inl e \<Rightarrow> False | Inr x \<Rightarrow> same_labels (SA_Labels x) (SA_Labels newServiceAccount))"

definition role_good :: "api_error + Role \<Rightarrow> bool" where
  "role_good r = (case r of Inl e \<Rightarrow> False | Inr x \<Rightarrow> RO_Rules x = RO_Rules newRole \<and> same_labels (RO_Labels x) (RO_Labels newRole))"

definition binding_good :: "api_error + RoleBinding \<Rightarrow> bool" where
  "binding_good r = (case r of Inl e \<Rightarrow> False | Inr x \<Rightarrow> RB_Subjects x = RB_Subjects newRoleBinding
     \<and> RB_RoleRef x = RB_RoleRef newRoleBinding \<and> same_labels (RB_Labels x) (RB_Labels newRoleBinding))"

text \<open>A binding of another role in the way.\<close>

definition foreign_binding :: "api_error + RoleBinding \<Rightarrow> bool" where
  "foreign_binding r = (case r of Inl e \<Rightarrow> False | Inr x \<Rightarrow> RB_RoleRef x \<noteq> RB_RoleRef newRoleBinding)"

definition other_same :: "'k rbac_api \<Rightarrow> 'k \<Rightarrow> 'k \<Rightarrow> string \<Rightarrow> bool" where
  "other_same api k k' ns \<longleftrightarrow> (\<forall>n. n \<noteq> ns \<longrightarrow> rbac_view api k' n = rbac_view api k n)"

lemma rbac_worksD:
  assumes "rbac_works api" and "rbac_view api k ns = (sa, r, rb)"
  shows "puts api k (fst ((case sa of Inl e \<Rightarrow> sa_Create api | Inr old \<Rightarrow> sa_Update api) k ns a)) ns (Inr a, r, rb)"
    and "puts api k (fst ((case r of Inl e \<Rightarrow> r_Create api | Inr old \<Rightarrow> r_Update api) k ns b)) ns (sa, Inr b, rb)"
    and "puts api k (fst ((case rb of Inl e \<Rightarrow> rb_Create api | Inr old \<Rightarrow> rb_Update api) k ns c)) ns
        (sa, r, case rb of Inl e \<Rightarrow> Inr c | Inr old \<Rightarrow> Inr (if RB_RoleRef old = RB_RoleRef c then c else old))"
proof -
  have "case rbac_view api k ns of (sa, r, rb) \<Rightarrow>
     (\<forall>x. puts api k (fst ((case sa of Inl e \<Rightarrow> sa_Create api | Inr old \<Rightarrow> sa_Update api) k ns x)) ns (Inr x, r, rb))
   \<and> (\<forall>x. puts api k (fst ((case r of Inl e \<Rightarrow> r_Create api | Inr old \<Rightarrow> r_Update api) k ns x)) ns (sa, Inr x, rb))
   \<and> (\<forall>x. puts api k (fst ((case rb of Inl e \<Rightarrow> rb_Create api | Inr old \<Rightarrow> rb_Update api) k ns x)) ns
        (sa, r, case rb of Inl e \<Rightarrow> Inr x | Inr old \<Rightarrow> Inr (if RB_RoleRef old = RB_RoleRef x then x else old)))"
    using assms(1) unfolding rbac_works_def by (elim allE)
  then show "puts api k (fst ((case sa of Inl e \<Rightarrow> sa_Create api | Inr old \<Rightarrow> sa_Update api) k ns a)) ns (Inr a, r, rb)"
    "puts api k (fst ((case r of Inl e \<Rightarrow> r_Create api | Inr old \<Rightarrow> r_Update api) k ns b)) ns (sa, Inr b, rb)"
    "puts api k (fst ((case rb of Inl e \<Rightarrow> rb_Create api | Inr old \<Rightarrow> rb_Update api) k ns c)) ns
        (sa, r, case rb of Inl e \<Rightarrow> Inr c | Inr old \<Rightarrow> Inr (if RB_RoleRef old = RB_RoleRef c then c else old))"
    unfolding assms(2) by simp_all
qed

lemma createGuardReaderSA_spec:
  assumes "rbac_works api" and "k' = createGuardReaderSA api ns k"
  shows "sa_good (sa_Get api k' ns)" and "r_Get api k' ns = r_Get api k ns" and "rb_Get api k' ns = rb_Get api k ns"
    and "other_same api k k' ns" and "sa_good (sa_Get api k ns) \<Longrightarrow> k' = k"
proof -
  obtain sa r rb where v: "rbac_view api k ns = (sa, r, rb)" by (metis surj_pair)
  have p: "puts api k (fst ((case sa of Inl e \<Rightarrow> sa_Create api | Inr old \<Rightarrow> sa_Update api) k ns newServiceAccount)) ns (Inr newServiceAccount, r, rb)"
    by (rule rbac_worksD(1) [OF assms(1) v])
  have k': "k' = (if sa_good sa then k else fst ((case sa of Inl e \<Rightarrow> sa_Create api | Inr old \<Rightarrow> sa_Update api) k ns newServiceAccount))"
    using v assms(2) by (auto simp: createGuardReaderSA_def keep_resource_def rbac_view_def sa_good_def split: sum.splits)
  have "rbac_view api k' ns = (if sa_good sa then sa else Inr newServiceAccount, r, rb) \<and> other_same api k k' ns"
    using p v k' by (cases "sa_good sa") (auto simp: puts_def other_same_def)
  moreover have "sa_good (Inr newServiceAccount)" by (simp add: sa_good_def same_labels_def)
  ultimately show "sa_good (sa_Get api k' ns)" "r_Get api k' ns = r_Get api k ns" "rb_Get api k' ns = rb_Get api k ns"
    "other_same api k k' ns" "sa_good (sa_Get api k ns) \<Longrightarrow> k' = k"
    using v k' by (auto simp: rbac_view_def split: if_splits)
qed

lemma createGuardReaderR_spec:
  assumes "rbac_works api" and "k' = createGuardReaderR api ns k"
  shows "role_good (r_Get api k' ns)" and "sa_Get api k' ns = sa_Get api k ns" and "rb_Get api k' ns = rb_Get api k ns"
    and "other_same api k k' ns" and "role_good (r_Get api k ns) \<Longrightarrow> k' = k"
proof -
  obtain sa r rb where v: "rbac_view api k ns = (sa, r, rb)" by (metis surj_pair)
  have p: "puts api k (fst ((case r of Inl e \<Rightarrow> r_Create api | Inr old \<Rightarrow> r_Update api) k ns newRole)) ns (sa, Inr newRole, rb)"
    by (rule rbac_worksD(2) [OF assms(1) v])
  have k': "k' = (if role_good r then k else fst ((case r of Inl e \<Rightarrow> r_Create api | Inr old \<Rightarrow> r_Update api) k ns newRole))"
    using v assms(2) by (auto simp: createGuardReaderR_def keep_resource_def rbac_view_def role_good_def split: sum.splits)
  have "rbac_view api k' ns = (sa, if role_good r then r else Inr newRole, rb) \<and> other_same api k k' ns"
    using p v k' by (cases "role_good r") (auto simp: puts_def other_same_def)
  moreover have "role_good (Inr newRole)" by (simp add: role_good_def same_labels_def)
  ultimately show "role_good (r_Get api k' ns)" "sa_Get api k' ns = sa_Get api k ns" "rb_Get api k' ns = rb_Get api k ns"
    "other_same api k k' ns" "role_good (r_Get api k ns) \<Longrightarrow> k' = k"
    using v k' by (auto simp: rbac_view_def split: if_splits)
qed

lemma createGuardReaderRB_spec:
  assumes "rbac_works api" and "k' = createGuardReaderRB api ns k"
  shows "binding_good (rb_Get api k' ns) \<longleftrightarrow> \<not> foreign_binding (rb_Get api k ns)"
    and "sa_Get api k' ns = sa_Get api k ns" and "r_Get api k' ns = r_Get api k ns"
    and "other_same api k k' ns" and "binding_good (rb_Get api k ns) \<Longrightarrow> k' = k"
proof -
  obtain sa r rb where v: "rbac_view api k ns = (sa, r, rb)" by (metis surj_pair)
  let ?w = "case rb of Inl e \<Rightarrow> Inr newRoleBinding | Inr old \<Rightarrow> Inr (if RB_RoleRef old = RB_RoleRef newRoleBinding then newRoleBinding else old)"
  have p: "puts api k (fst ((case rb of Inl e \<Rightarrow> rb_Create api | Inr old \<Rightarrow> rb_Update api) k ns newRoleBinding)) ns (sa, r, ?w)"
    by (rule rbac_worksD(3) [OF assms(1) v])
  have k': "k' = (if binding_good rb then k else fst ((case rb of Inl e \<Rightarrow> rb_Create api | Inr old \<Rightarrow> rb_Update api) k ns newRoleBinding))"
    using v assms(2) by (auto simp: createGuardReaderRB_def keep_resource_def rbac_view_def binding_good_def split: sum.splits)
  have "rbac_view api k' ns = (sa, r, if binding_good rb then rb else ?w) \<and> other_same api k k' ns"
    using p v k' by (cases "binding_good rb") (auto simp: puts_def other_same_def)
  moreover have "binding_good (if binding_good rb then rb else ?w) \<longleftrightarrow> \<not> foreign_binding rb"
    by (auto simp: binding_good_def foreign_binding_def same_labels_def split: sum.split)
  ultimately show "binding_good (rb_Get api k' ns) \<longleftrightarrow> \<not> foreign_binding (rb_Get api k ns)" "sa_Get api k' ns = sa_Get api k ns"
    "r_Get api k' ns = r_Get api k ns" "other_same api k k' ns" "binding_good (rb_Get api k ns) \<Longrightarrow> k' = k"
    using v k' by (auto simp: rbac_view_def split: if_splits)
qed

lemma createGuardReader_stable:
  assumes "rbac_works api" and "sa_good (sa_Get api k ns)" and "role_good (r_Get api k ns)" and "binding_good (rb_Get api k ns)"
  shows "createGuardReader api res ns k = k"
  using createGuardReaderSA_spec(5) [OF assms(1) refl assms(2)] createGuardReaderR_spec(5) [OF assms(1) refl assms(3)]
    createGuardReaderRB_spec(5) [OF assms(1) refl assms(4)]
  by (cases res) (simp_all add: createGuardReader_def)

section \<open>Properties\<close>

text \<open>
  C12. A namespace seen for the first time gets the three resources, whatever was there before, except a
  binding of another role, which stays in the way; no other namespace changes, and from then on
  nothing changes any more: the watches find nothing to repair.
\<close>

theorem AddNamespace_converges:
  assumes "rbac_works api" and "ns \<notin> set (WM_namespaces m)" and "m' = AddNamespace api ns m"
  shows "sa_good (sa_Get api (WM_cluster m') ns) \<and> role_good (r_Get api (WM_cluster m') ns)
    \<and> (binding_good (rb_Get api (WM_cluster m') ns) \<longleftrightarrow> \<not> foreign_binding (rb_Get api (WM_cluster m) ns))
    \<and> other_same api (WM_cluster m) (WM_cluster m') ns
    \<and> (\<not> foreign_binding (rb_Get api (WM_cluster m) ns) \<longrightarrow>
         AddNamespace api ns m' = m' \<and> (\<forall>res. createGuardReader api res ns (WM_cluster m') = WM_cluster m'))"
proof -
  let ?k0 = "WM_cluster m"
  define k1 where "k1 = createGuardReaderSA api ns ?k0"
  define k2 where "k2 = createGuardReaderR api ns k1"
  define k3 where "k3 = createGuardReaderRB api ns k2"
  have m': "m' = m\<lparr>WM_cluster := k3, WM_namespaces := ns # WM_namespaces m\<rparr>"
    using assms(2,3) by (simp add: AddNamespace_def Let_def k1_def k2_def k3_def)
  note s1 = createGuardReaderSA_spec [OF assms(1) k1_def]
  note s2 = createGuardReaderR_spec [OF assms(1) k2_def]
  note s3 = createGuardReaderRB_spec [OF assms(1) k3_def]
  have good: "sa_good (sa_Get api k3 ns)" "role_good (r_Get api k3 ns)"
      "binding_good (rb_Get api k3 ns) \<longleftrightarrow> \<not> foreign_binding (rb_Get api ?k0 ns)"
    using s1(1,3) s2(1-3) s3(1-3) by simp_all
  moreover have "other_same api ?k0 k3 ns" using s1(4) s2(4) s3(4) by (simp add: other_same_def)
  moreover have "AddNamespace api ns m' = m'" by (simp add: AddNamespace_def m')
  ultimately show ?thesis using createGuardReader_stable [OF assms(1) good(1,2)] by (simp add: m')
qed

text \<open>A cluster in memory, for concrete runs.\<close>

type_synonym mem_cluster = "string \<Rightarrow> ServiceAccount option \<times> Role option \<times> RoleBinding option"

definition mem_get :: "'o option \<Rightarrow> api_error + 'o" where
  "mem_get x = (case x of None \<Rightarrow> Inl NotFound | Some o' \<Rightarrow> Inr o')"

definition mem_api :: "mem_cluster rbac_api" where
  "mem_api = \<lparr>sa_Get = \<lambda>k ns. mem_get (fst (k ns)),
     sa_Create = \<lambda>k ns x. (k(ns := (Some x, snd (k ns))), None), sa_Update = \<lambda>k ns x. (k(ns := (Some x, snd (k ns))), None),
     r_Get = \<lambda>k ns. mem_get (fst (snd (k ns))),
     r_Create = \<lambda>k ns x. (k(ns := (fst (k ns), Some x, snd (snd (k ns)))), None),
     r_Update = \<lambda>k ns x. (k(ns := (fst (k ns), Some x, snd (snd (k ns)))), None),
     rb_Get = \<lambda>k ns. mem_get (snd (snd (k ns))),
     rb_Create = \<lambda>k ns x. (k(ns := (fst (k ns), fst (snd (k ns)), Some x)), None),
     rb_Update = \<lambda>k ns x. (case snd (snd (k ns)) of
         Some old \<Rightarrow> if RB_RoleRef old = RB_RoleRef x then (k(ns := (fst (k ns), fst (snd (k ns)), Some x)), None) else (k, Some OtherError)
       | None \<Rightarrow> (k, Some NotFound)),
     gc_Get = \<lambda>k ns name. Inl NotFound\<rparr>"

lemma mem_get_simps [simp]: "mem_get None = Inl NotFound" "mem_get (Some x) = Inr x"
  by (simp_all add: mem_get_def)

lemma mem_api_works: "rbac_works mem_api"
  unfolding rbac_works_def
proof (intro allI)
  fix k :: mem_cluster and ns
  obtain sa r rb where k: "k ns = (sa, r, rb)" by (metis surj_pair)
  show "case rbac_view mem_api k ns of (sa, r, rb) \<Rightarrow>
     (\<forall>x. puts mem_api k (fst ((case sa of Inl e \<Rightarrow> sa_Create mem_api | Inr old \<Rightarrow> sa_Update mem_api) k ns x)) ns (Inr x, r, rb))
   \<and> (\<forall>x. puts mem_api k (fst ((case r of Inl e \<Rightarrow> r_Create mem_api | Inr old \<Rightarrow> r_Update mem_api) k ns x)) ns (sa, Inr x, rb))
   \<and> (\<forall>x. puts mem_api k (fst ((case rb of Inl e \<Rightarrow> rb_Create mem_api | Inr old \<Rightarrow> rb_Update mem_api) k ns x)) ns
        (sa, r, case rb of Inl e \<Rightarrow> Inr x | Inr old \<Rightarrow> Inr (if RB_RoleRef old = RB_RoleRef x then x else old)))"
    by (cases sa; cases r; cases rb) (auto simp: mem_api_def rbac_view_def puts_def k)
qed

theorem AddNamespace_converges_witness:
  "sa_good (sa_Get mem_api (WM_cluster (AddNamespace mem_api ''shop'' (NewKubeMgr (\<lambda>ns. (None, None, None))))) ''shop'')
   \<and> binding_good (rb_Get mem_api (WM_cluster (AddNamespace mem_api ''shop'' (NewKubeMgr (\<lambda>ns. (None, None, None))))) ''shop'')"
  using AddNamespace_converges [OF mem_api_works, of "''shop''" "NewKubeMgr (\<lambda>ns. (None, None, None))"]
  by (simp add: NewKubeMgr_def foreign_binding_def mem_api_def)

text \<open>
  A namespace is dealt with once, whether or not that worked: when its resources cannot be created
  the first time, no later event of a service in it makes the manager try again, so its guards
  stay without an account.
\<close>

theorem failed_namespace_not_retried:
  assumes "ns \<notin> set (WM_namespaces m)"
    and "\<forall>k. sa_Get api k ns = Inl e \<longrightarrow> sa_Get api (fst (sa_Create api k ns newServiceAccount)) ns = Inl e"
    and "\<forall>k. sa_Get api k ns = Inl e \<longrightarrow> sa_Get api (createGuardReaderR api ns k) ns = Inl e \<and> sa_Get api (createGuardReaderRB api ns k) ns = Inl e"
    and "sa_Get api (WM_cluster m) ns = Inl e" and "\<forall>ty obj status. Watched ty obj status \<in> set evs \<longrightarrow> obj = None \<or> obj = Some ns"
  shows "sa_Get api (WM_cluster (AddNamespace api ns m)) ns = Inl e
    \<and> fst (watchKnativeServicesOnce api' c evs (AddNamespace api ns m)) = AddNamespace api ns m"
proof -
  have "sa_Get api (createGuardReaderSA api ns (WM_cluster m)) ns = Inl e"
    using assms(2,4) by (simp add: createGuardReaderSA_def keep_resource_def)
  then have first: "sa_Get api (WM_cluster (AddNamespace api ns m)) ns = Inl e"
    using assms(1,3) by (simp add: AddNamespace_def Let_def)
  have seen: "ns \<in> set (WM_namespaces (AddNamespace api ns m))" by (simp add: AddNamespace_def Let_def)
  have "fst (watchKnativeServicesOnce api' c evs m') = m'" if "ns \<in> set (WM_namespaces m')" for m'
    using assms(5) that
  proof (induction evs)
    case (Cons ev evs)
    have same: "AddNamespace api' ns m' = m'" using Cons.prems(2) by (simp add: AddNamespace_def)
    have IH: "fst (watchKnativeServicesOnce api' c evs m') = m'"
      by (rule Cons.IH) (use Cons.prems in \<open>meson list.set_intros(2)\<close>)+
    show ?case
    proof (cases ev)
      case (Watched ty obj status)
      then have "obj = None \<or> obj = Some ns" using Cons.prems(1) by (meson list.set_intros(1))
      then show ?thesis using Watched by (auto simp: IH same)
    qed simp_all
  qed simp
  then show ?thesis using first seen by blast
qed

text \<open>A cluster in which nothing can be created.\<close>

definition denied_api :: "mem_cluster rbac_api" where
  "denied_api = mem_api\<lparr>sa_Create := \<lambda>k ns x. (k, Some OtherError), r_Create := \<lambda>k ns x. (k, Some OtherError), rb_Create := \<lambda>k ns x. (k, Some OtherError)\<rparr>"

theorem failed_namespace_not_retried_witness:
  "sa_Get denied_api (WM_cluster (AddNamespace denied_api ''shop'' (NewKubeMgr (\<lambda>ns. (None, None, None))))) ''shop'' = Inl NotFound
   \<and> fst (watchKnativeServicesOnce mem_api (updateCm id None \<lparr>GuardEnable = True, GuardForce = True, ServiceAccountEnable = True, ServiceAccountForce = True\<rparr>)
        [Watched Modified (Some ''shop'') False] (AddNamespace denied_api ''shop'' (NewKubeMgr (\<lambda>ns. (None, None, None)))))
     = AddNamespace denied_api ''shop'' (NewKubeMgr (\<lambda>ns. (None, None, None)))"
proof -
  have a: "\<forall>k. sa_Get denied_api k ''shop'' = Inl NotFound \<longrightarrow> sa_Get denied_api (fst (sa_Create denied_api k ''shop'' newServiceAccount)) ''shop'' = Inl NotFound"
    by (simp add: denied_api_def)
  have b: "\<forall>k. sa_Get denied_api k ''shop'' = Inl NotFound \<longrightarrow> sa_Get denied_api (createGuardReaderR denied_api ''shop'' k) ''shop'' = Inl NotFound
      \<and> sa_Get denied_api (createGuardReaderRB denied_api ''shop'' k) ''shop'' = Inl NotFound"
    by (auto simp: denied_api_def mem_api_def createGuardReaderR_def createGuardReaderRB_def keep_resource_def split: sum.split option.split)
  show ?thesis
    by (rule failed_namespace_not_retried [OF _ a b]) (simp_all add: NewKubeMgr_def denied_api_def mem_api_def)
qed

end
