(* ===== verification/Webhook_Certs.thy ===== *)
theory Webhook_Certs
  imports Webhook_Kube Certs
begin

text \<open>
  The start of the webhook, \<open>main\<close> of \<open>cmd/guard-webhook/main.go\<close>: the certificates it makes for itself,
  the registration with the API server, and the configuration it starts with.
\<close>

section \<open>Starting\<close>

definition webhook_caExpirationInterval :: int where
  "webhook_caExpirationInterval = 3600 * 1000000000 * 24 * 365 * 10"

definition webhook_expirationInterval :: int where
  "webhook_expirationInterval = 3600 * 1000000000 * 24 * 30"

definition sans :: "string list" where
  "sans = [''guard-webhook.knative-serving.svc'']"

text \<open>\<open>tls.X509KeyPair\<close>: both blocks are parsed, and the keys have to belong together.\<close>

definition X509KeyPair :: "('b, 'k, 'p) crypto \<Rightarrow> 'b \<Rightarrow> 'b \<Rightarrow> (('b, 'p) certificate \<times> 'k) option" where
  "X509KeyPair x certPEM keyPEM =
     (case ParseCert x certPEM keyPEM of
        Inl err \<Rightarrow> None
      | Inr (cert, key) \<Rightarrow> if CE_PublicKey cert = Some (PublicKey x key) then Some (cert, key) else None)"

datatype fatal = NoCaCerts cert_error | NoParse cert_error | NoCert cert_error | NoKeyPair | NotRegistered kube_error

text \<open>Every fatal message ends the program. What is left is the certificate served and the configuration.\<close>

definition start_webhook ::
    "('b, 'k, 'p) crypto \<Rightarrow> ('c, 'b) webhook_api \<Rightarrow> 'c rbac_api \<Rightarrow> (string \<Rightarrow> string) \<Rightarrow> int \<Rightarrow> 'k entropy \<Rightarrow> 'k entropy \<Rightarrow> conf \<Rightarrow> 'c
      \<Rightarrow> 'c \<times> (fatal + (('b, 'p) certificate \<times> 'k) \<times> conf)" where
  "start_webhook x api rapi unicode now en en' config c =
     (case CreateCACerts x now en webhook_caExpirationInterval of
        Inl err \<Rightarrow> (c, Inl (NoCaCerts err))
      | Inr caKeyPair \<Rightarrow>
          (case ParseCert x (KP_certPemBytes caKeyPair) (KP_privateKeyPemBytes caKeyPair) of
             Inl err \<Rightarrow> (c, Inl (NoParse err))
           | Inr (caCert, caPk) \<Rightarrow>
               (case CreateCert x now en' caPk caCert webhook_expirationInterval sans of
                  Inl err \<Rightarrow> (c, Inl (NoCert err))
                | Inr keyPair \<Rightarrow>
                    (case X509KeyPair x (KP_certPemBytes keyPair) (KP_privateKeyPemBytes keyPair) of
                       None \<Rightarrow> (c, Inl NoKeyPair)
                     | Some serverCert \<Rightarrow>
                         (case CreateMutatingWebhookConfiguration api (KP_certPemBytes caKeyPair) c of
                            (c, Some err) \<Rightarrow> (c, Inl (NotRegistered err))
                          | (c, None) \<Rightarrow> (c, Inr (serverCert, initial_conf unicode rapi c config)))))))"

section \<open>What the API server checks\<close>

text \<open>
  The API server calls the service of the registration by its name in the cluster. It accepts a
  certificate that names it, that is valid at the time and that the caBundle verifies.
\<close>

definition service_host :: "'b MutatingWebhookConfiguration \<Rightarrow> string" where
  "service_host mw = (case MW_Service mw of (ns, name, port, path) \<Rightarrow> name @ ''.'' @ ns @ ''.svc'')"

definition bundle_verifies :: "('b, 'k, 'p) crypto \<Rightarrow> 'b \<Rightarrow> ('b, 'p) certificate \<Rightarrow> bool" where
  "bundle_verifies x caBundle cert =
     (case pem_decode x caBundle of
        None \<Rightarrow> False
      | Some (ty, der) \<Rightarrow>
          (case x509_Parse x der of
             None \<Rightarrow> False
           | Some ca \<Rightarrow> CE_IsCA ca \<and> (case CE_PublicKey ca of None \<Rightarrow> False | Some pub \<Rightarrow> x509_Verifies x pub cert)))"

definition accepts_webhook :: "('b, 'k, 'p) crypto \<Rightarrow> 'b MutatingWebhookConfiguration \<Rightarrow> ('b, 'p) certificate \<Rightarrow> int \<Rightarrow> bool" where
  "accepts_webhook x mw cert t \<longleftrightarrow>
     service_host mw \<in> set (CE_DNSNames cert) \<and> CE_NotBefore cert \<le> t \<and> t \<le> CE_NotAfter cert
   \<and> ExtKeyUsageServerAuth \<in> set (CE_ExtKeyUsage cert) \<and> bundle_verifies x (MW_CABundle mw) cert"

section \<open>Properties\<close>

lemma bundle_of_pair:
  assumes "KeyPair_Parse x kp = Inr (ca, key)" and "CE_IsCA ca" and "CE_PublicKey ca = Some pub" and "x509_Verifies x pub cert"
  shows "bundle_verifies x (KP_certPemBytes kp) cert"
  using assms by (auto simp: bundle_verifies_def KeyPair_Parse_def ParseCert_def split: option.splits if_splits)

text \<open>
  C40. A webhook that starts is trusted: the certificate it serves is the one the API server accepts for
  the service and the caBundle it registered, from now on, but only for thirty days: it is made
  once and never renewed while the program runs, although the registration asks the API
  server to refuse services when the webhook cannot be called.
\<close>

theorem started_webhook_trusted:
  assumes "crypto_works x" and "entropy_ok en" and "entropy_ok en'" and "clock_ok now webhook_caExpirationInterval"
    and "\<And>mw. snd (mw_Create api (mw_Delete api c webhookName) mw) = None"
  shows "\<exists>c' cert key caBundle. start_webhook x api rapi unicode now en en' config c = (c', Inr ((cert, key), initial_conf unicode rapi c' config))
    \<and> c' = fst (mw_Create api (mw_Delete api c webhookName) (configuredWebhook caBundle))
    \<and> EN_key en' = Some key \<and> CE_PublicKey cert = Some (PublicKey x key)
    \<and> MW_FailurePolicy (configuredWebhook caBundle) = ''Fail''
    \<and> (\<forall>t. now \<le> t \<and> t \<le> now + webhook_expirationInterval - 1000000000 \<longrightarrow> accepts_webhook x (configuredWebhook caBundle) cert t)
    \<and> (\<forall>t. t > now + webhook_expirationInterval \<longrightarrow> \<not> accepts_webhook x (configuredWebhook caBundle) cert t)"
proof -
  obtain caKey key where keys: "EN_key en = Some caKey" "EN_key en' = Some key"
    using assms(2,3) by (auto simp: entropy_ok_def)
  from CreateCACerts_ok [OF assms(1,2,4) keys(1)] obtain kp ca
    where ca: "CreateCACerts x now en webhook_caExpirationInterval = Inr kp" "KeyPair_Parse x kp = Inr (ca, caKey)"
      "CE_PublicKey ca = Some (PublicKey x caKey)" "CE_IsCA ca"
    by blast
  have "clock_ok now webhook_expirationInterval" using assms(4) by (simp add: clock_ok_def webhook_expirationInterval_def)
  from CreateCert_ok [OF assms(1,3) this keys(2) ca(3), of sans] obtain sp cert
    where sp: "CreateCert x now en' caKey ca webhook_expirationInterval sans = Inr sp" "KeyPair_Parse x sp = Inr (cert, key)"
      "CE_PublicKey cert = Some (PublicKey x key)" "x509_Verifies x (PublicKey x caKey) cert"
      "set (CE_ExtKeyUsage cert) = {ExtKeyUsageServerAuth, ExtKeyUsageClientAuth}" "CE_DNSNames cert = sans"
      "whole_second now (CE_NotBefore cert)" "whole_second (now + webhook_expirationInterval) (CE_NotAfter cert)"
    by blast
  let ?caBundle = "KP_certPemBytes kp"
  obtain c' where c': "mw_Create api (mw_Delete api c webhookName) (configuredWebhook ?caBundle) = (c', None)"
    using assms(5) [of "configuredWebhook ?caBundle"] by (metis prod.collapse)
  have "start_webhook x api rapi unicode now en en' config c = (c', Inr ((cert, key), initial_conf unicode rapi c' config))"
    using ca sp c' by (simp add: start_webhook_def X509KeyPair_def KeyPair_Parse_def CreateMutatingWebhookConfiguration_def)
  moreover have "service_host (configuredWebhook ?caBundle) \<in> set sans"
    by (simp add: service_host_def configuredWebhook_def sans_def)
  moreover have "bundle_verifies x (MW_CABundle (configuredWebhook ?caBundle)) cert"
    using bundle_of_pair [OF ca(2,4,3) sp(4)] by (simp add: configuredWebhook_def)
  ultimately show ?thesis
    using sp c' keys(2)
    by (intro exI [of _ c'] exI [of _ cert] exI [of _ key] exI [of _ ?caBundle])
      (auto simp: accepts_webhook_def whole_second_def configuredWebhook_def)
qed

definition mem_webhook_api :: "('b MutatingWebhookConfiguration option, 'b) webhook_api" where
  "mem_webhook_api = \<lparr>mw_Delete = (\<lambda>c name. None), mw_Create = (\<lambda>c mw. (Some mw, None))\<rparr>"

definition no_rbac :: "'c rbac_api" where
  "no_rbac = \<lparr>sa_Get = \<lambda>k ns. Inl NotFound, sa_Create = \<lambda>k ns x. (k, None), sa_Update = \<lambda>k ns x. (k, None),
     r_Get = \<lambda>k ns. Inl NotFound, r_Create = \<lambda>k ns x. (k, None), r_Update = \<lambda>k ns x. (k, None),
     rb_Get = \<lambda>k ns. Inl NotFound, rb_Create = \<lambda>k ns x. (k, None), rb_Update = \<lambda>k ns x. (k, None), gc_Get = \<lambda>k ns name. Inl NotFound\<rparr>"

theorem started_webhook_trusted_witness:
  "\<exists>mw cert config. start_webhook toy_crypto mem_webhook_api no_rbac id 1700000000000000000 (toy_entropy 7) (toy_entropy 8)
        \<lparr>GuardEnable = False, GuardForce = False, ServiceAccountEnable = False, ServiceAccountForce = False\<rparr> None
      = (Some mw, Inr ((cert, 8), config))
    \<and> accepts_webhook toy_crypto mw cert 1700000001000000000 \<and> \<not> accepts_webhook toy_crypto mw cert 1800000000000000000"
proof -
  let ?now = "1700000000000000000" and ?conf = "\<lparr>GuardEnable = False, GuardForce = False, ServiceAccountEnable = False, ServiceAccountForce = False\<rparr>"
  let ?api = "mem_webhook_api :: (toy_bytes MutatingWebhookConfiguration option, toy_bytes) webhook_api"
  have e: "entropy_ok (toy_entropy 7)" "entropy_ok (toy_entropy 8)" by (simp_all add: toy_entropy_ok)
  have clock: "clock_ok ?now webhook_caExpirationInterval" by (simp add: clock_ok_def webhook_caExpirationInterval_def)
  have reg: "snd (mw_Create ?api (mw_Delete ?api None webhookName) mw) = None" for mw by (simp add: mem_webhook_api_def)
  have key: "EN_key (toy_entropy 8) = Some 8" by (simp add: toy_entropy_def)
  from started_webhook_trusted [OF toy_crypto_works e clock reg, of no_rbac id ?conf]
  obtain c' cert sk b
    where run: "start_webhook toy_crypto ?api no_rbac id ?now (toy_entropy 7) (toy_entropy 8) ?conf None = (c', Inr ((cert, sk), initial_conf id no_rbac c' ?conf))"
      and c': "c' = fst (mw_Create ?api (mw_Delete ?api None webhookName) (configuredWebhook b))" and k: "EN_key (toy_entropy 8) = Some sk"
      and good: "\<forall>t. ?now \<le> t \<and> t \<le> ?now + webhook_expirationInterval - 1000000000 \<longrightarrow> accepts_webhook toy_crypto (configuredWebhook b) cert t"
      and bad: "\<forall>t. t > ?now + webhook_expirationInterval \<longrightarrow> \<not> accepts_webhook toy_crypto (configuredWebhook b) cert t"
    by blast
  have "c' = Some (configuredWebhook b)" using c' by (simp add: mem_webhook_api_def)
  moreover have "accepts_webhook toy_crypto (configuredWebhook b) cert 1700000001000000000"
    by (rule good [rule_format]) (simp add: webhook_expirationInterval_def)
  moreover have "\<not> accepts_webhook toy_crypto (configuredWebhook b) cert 1800000000000000000"
    by (rule bad [rule_format]) (simp add: webhook_expirationInterval_def)
  moreover have "sk = 8" using k key by simp
  ultimately show ?thesis using run by (intro exI [of _ "configuredWebhook b"] exI [of _ cert] exI conjI) simp_all
qed

end
