(* ===== verification/Webhook_Start.thy ===== *)
theory Webhook_Start
  imports Webhook_Certs Cluster_Config
begin

text \<open>
  The webhook as a program: \<open>main\<close> of \<open>cmd/guard-webhook/main.go\<close> from the access to the cluster on, and the loops of
  \<open>kubeMgr.go\<close> that open a watch again when it has ended. They run for ever; a list of rounds is
  what they have seen so far.
\<close>

section \<open>The program\<close>

datatype ('b, 'p, 'k) webhook_end = WebhookFatal fatal | WebhookArguments | Serving "('b, 'p) certificate \<times> 'k" conf

definition webhook_main ::
    "'a access_env \<Rightarrow> ('b, 'k, 'p) crypto \<Rightarrow> ('c, 'b) webhook_api \<Rightarrow> 'c rbac_api \<Rightarrow> (string \<Rightarrow> string) \<Rightarrow> int \<Rightarrow> 'k entropy \<Rightarrow> 'k entropy
      \<Rightarrow> conf \<Rightarrow> 'c \<Rightarrow> ('c \<times> ('b, 'p, 'k) webhook_end) res" where
  "webhook_main ae x api rapi unicode now en en' config c =
     bind_res (webhook_InitConfigs ae [] \<lparr>WC_client = None, WC_kServClient = None\<rparr>) (\<lambda>(defs, started).
     case started of
       None \<Rightarrow> Inr (c, WebhookArguments)
     | Some k \<Rightarrow>
         (case start_webhook x api rapi unicode now en en' config c of
            (c, Inl err) \<Rightarrow> Inr (c, WebhookFatal err)
          | (c, Inr (serverCert, config)) \<Rightarrow> Inr (c, Serving serverCert config)))"

section \<open>Watching again\<close>

definition WatchGuardConfig :: "(string gomap option \<Rightarrow> 's \<Rightarrow> 's) \<Rightarrow> (string \<times> string \<times> string gomap) watched list list \<Rightarrow> 's \<Rightarrow> 's" where
  "WatchGuardConfig set_conf rounds s = fold (\<lambda>evs s. fst (watchGuardConfigOnce set_conf evs s)) rounds s"

definition WatchGuardianSA :: "'k rbac_api \<Rightarrow> resource \<Rightarrow> string watched list list \<Rightarrow> 'k \<Rightarrow> 'k" where
  "WatchGuardianSA api res rounds k = fold (\<lambda>evs k. fst (watchOnce api res evs k)) rounds k"

text \<open>The configuration may be another one in every round.\<close>

definition WatchKnativeServices :: "'k rbac_api \<Rightarrow> (conf \<times> string watched list) list \<Rightarrow> 'k WebhookMgr \<Rightarrow> 'k WebhookMgr" where
  "WatchKnativeServices api rounds m = fold (\<lambda>(c, evs) m. fst (watchKnativeServicesOnce api c evs m)) rounds m"

section \<open>The configuration follows the ConfigMap\<close>

text \<open>What a watch calls the update with: the data of the ConfigMap, None when it is deleted.\<close>

fun config_updates :: "(string \<times> string \<times> string gomap) watched list \<Rightarrow> string gomap option list" where
  "config_updates (Watched ty obj status # evs) =
     (if ty = WatchError then (if status then config_updates evs else [])
      else if ty = Bookmark then config_updates evs
      else (case obj of
          None \<Rightarrow> []
        | Some (ns, name, data) \<Rightarrow>
            (if name = config_cmName \<and> ns = cmNs then [if ty = Deleted then None else Some data] else []) @ config_updates evs))"
| "config_updates evs = []"

lemma watchGuardConfigOnce_updates: "fst (watchGuardConfigOnce f evs s) = fold f (config_updates evs) s"
proof (induction evs arbitrary: s)
  case (Cons ev evs)
  show ?case
  proof (cases ev)
    case (Watched ty obj status)
    then show ?thesis using Cons.IH by (auto split: option.split)
  qed simp_all
qed simp

lemma WatchGuardConfig_updates: "WatchGuardConfig f rounds s = fold f (concat (map config_updates rounds)) s"
  by (induction rounds arbitrary: s) (simp_all add: WatchGuardConfig_def watchGuardConfigOnce_updates)

lemma updateCm_forgets: "updateCm unicode cm c = updateCm unicode cm c'"
  by (cases c; cases c') (simp add: updateCm_def Let_def)

text \<open>
  However often the watch has ended and begun again, the configuration is what the last ConfigMap
  seen says, and nothing of earlier ones or of the start remains; the state before is
  kept as long as none was seen.
\<close>

theorem config_follows:
  "WatchGuardConfig (updateCm unicode) rounds c =
     (let seen = concat (map config_updates rounds) in
      if seen = [] then c else updateCm unicode (last seen) c')"
proof -
  have "fold (updateCm unicode) seen c = (if seen = [] then c else updateCm unicode (last seen) c')" for seen c
    by (induction seen arbitrary: c) (auto intro: updateCm_forgets)
  then show ?thesis by (simp add: WatchGuardConfig_updates Let_def)
qed

end
