(* ===== verification/Tools.thy ===== *)
theory Tools
  imports Proxies
begin

text \<open>
  The small programs beside the guard: the plug for tests (\<open>pkg/test-gate\<close>), the queue proxy that carries the
  option (\<open>cmd/queue\<close>), the sender of random messages (\<open>cmd/random-request-sender\<close>) and the level of the
  logger (\<open>pkg/guard-utils/log.go\<close>).
\<close>

section \<open>The plug for tests\<close>

record test_plug =
  TP_name :: string
  TP_version :: string
  TP_sender :: string
  TP_answer :: string

definition new_test_plug :: test_plug where
  "new_test_plug = \<lparr>TP_name = ''testgate'', TP_version = ''0.0.7'', TP_sender = '''', TP_answer = ''''\<rparr>"

definition testgate_Init :: "string gomap \<Rightarrow> test_plug \<Rightarrow> test_plug" where
  "testgate_Init config p =
     (let p = p\<lparr>TP_answer := ''CU'', TP_sender := ''someone''\<rparr> in
      if config \<noteq> None then
        (let p = (case map_get config ''sender'' of Some v \<Rightarrow> if v \<noteq> '''' then p\<lparr>TP_sender := v\<rparr> else p | None \<Rightarrow> p)
         in case map_get config ''response'' of Some v \<Rightarrow> if v \<noteq> '''' then p\<lparr>TP_answer := v\<rparr> else p | None \<Rightarrow> p)
      else p)"

text \<open>\<open>Header.Add\<close> appends to the values of the key.\<close>

definition Header_Add :: "string list gomap \<Rightarrow> string \<Rightarrow> string \<Rightarrow> string list gomap res" where
  "Header_Add h key value = map_put h key ((case map_get h key of None \<Rightarrow> [] | Some vs \<Rightarrow> vs) @ [value])"

text \<open>Requests are approved as they are; of a message only the headers matter.\<close>

definition testgate_ApproveRequest :: "test_plug \<Rightarrow> string list gomap \<Rightarrow> string list gomap \<times> bool" where
  "testgate_ApproveRequest p req = (req, True)"

definition testgate_ApproveResponse :: "test_plug \<Rightarrow> string list gomap \<Rightarrow> string list gomap \<Rightarrow> (string list gomap \<times> bool) res" where
  "testgate_ApproveResponse p req resp =
     bind_res (if map_get req ''X-Testgate-Hi'' \<noteq> None then Header_Add resp ''X-Testgate-Bye'' (TP_answer p) else Inr resp)
       (\<lambda>resp. Inr (resp, True))"

text \<open>
  Every response is approved; one to a request that greets gets the answer as one more value of
  its header, and no other header changes. It panics only when the response has no headers at all.
\<close>

theorem testgate_answers:
  "case testgate_ApproveResponse p req resp of
     Inl panic \<Rightarrow> resp = None \<and> map_get req ''X-Testgate-Hi'' \<noteq> None
   | Inr (resp', approved) \<Rightarrow> approved
       \<and> (\<forall>key. map_get resp' key =
            (if key = ''X-Testgate-Bye'' \<and> map_get req ''X-Testgate-Hi'' \<noteq> None
             then Some ((case map_get resp key of None \<Rightarrow> [] | Some vs \<Rightarrow> vs) @ [TP_answer p])
             else map_get resp key))"
  by (cases resp) (auto simp: testgate_ApproveResponse_def Header_Add_def map_put_def map_get_def)

section \<open>The queue proxy\<close>

text \<open>
  \<open>Main\<close> is that of Knative Serving: it sets the option up, serves, and returns whether there was an error.
  The gate is shut down once either way.
\<close>

definition queue_main :: "('g \<Rightarrow> 'g res) \<Rightarrow> ('g GateQPOption \<Rightarrow> 'g GateQPOption \<times> bool) \<Rightarrow> 'g GateQPOption \<times> nat" where
  "queue_main stop Main =
     (case Main NewGateQPOption of (qOpt, err) \<Rightarrow>
        if err then (qp_Shutdown stop qOpt, 1) else (qp_Shutdown stop qOpt, 0))"

section \<open>The logger\<close>

datatype log_level = DebugLevel | InfoLevel | WarnLevel | ErrorLevel

definition getLogLevel :: "string \<Rightarrow> log_level" where
  "getLogLevel level =
     (if level = ''debug'' then DebugLevel
      else if level = ''warn'' then WarnLevel
      else if level = ''error'' then ErrorLevel
      else InfoLevel)"

section \<open>The sender of random messages\<close>

text \<open>\<open>rand.Intn\<close> is a function of the state of the generator; its result is less than its argument.\<close>

fun randomVal :: "(nat \<Rightarrow> 'r \<Rightarrow> nat \<times> 'r) \<Rightarrow> nat \<Rightarrow> 'r \<Rightarrow> string \<times> 'r" where
  "randomVal Intn 0 r = ([], r)"
| "randomVal Intn (Suc n) r =
     (let (x, r) = Intn 26 r; (s, r) = randomVal Intn n r in (char_of (x + 65) # s, r))"

fun randomKeyVal :: "(nat \<Rightarrow> 'r \<Rightarrow> nat \<times> 'r) \<Rightarrow> nat \<Rightarrow> 'r \<Rightarrow> string \<times> 'r" where
  "randomKeyVal Intn 0 r =
     (let (n, r) = Intn 100 r; (v, r) = randomVal Intn n r
      in ([CHR 0x22] @ v @ [CHR 0x22], r))"
| "randomKeyVal Intn (Suc d) r =
     (let (n, r) = Intn 100 r; (k, r) = randomVal Intn n r; (v, r) = randomKeyVal Intn d r
      in (''{'' @ [CHR 0x22] @ k @ [CHR 0x22] @ '':'' @ v @ ''}'', r))"

text \<open>
  \<open>deliver\<close> says whether a message can be sent and its response be read; the first that cannot ends the
  program. The result is what was sent and the exit status.
\<close>

definition sendRandom :: "(nat \<Rightarrow> 'r \<Rightarrow> nat \<times> 'r) \<Rightarrow> 'r \<Rightarrow> string \<times> 'r" where
  "sendRandom Intn r = (let (n, r) = Intn 10 r in randomKeyVal Intn (n + 1) r)"

fun send_loop :: "(nat \<Rightarrow> 'r \<Rightarrow> nat \<times> 'r) \<Rightarrow> (string \<Rightarrow> string \<Rightarrow> bool) \<Rightarrow> string \<Rightarrow> nat \<Rightarrow> 'r \<Rightarrow> string list \<times> nat" where
  "send_loop Intn deliver url 0 r = ([], 0)"
| "send_loop Intn deliver url (Suc n) r =
     (let (body, r) = sendRandom Intn r in
      if deliver url body then (let (sent, status) = send_loop Intn deliver url n r in (body # sent, status))
      else ([body], 1))"

definition sender_main :: "(nat \<Rightarrow> 'r \<Rightarrow> nat \<times> 'r) \<Rightarrow> (string \<Rightarrow> string \<Rightarrow> bool) \<Rightarrow> string list \<Rightarrow> 'r \<Rightarrow> string list \<times> nat" where
  "sender_main Intn deliver args r =
     (if length args < 2 then ([], 1) else send_loop Intn deliver (args ! 1) 100000 r)"

section \<open>What is sent\<close>

definition draws :: "(nat \<Rightarrow> 'r \<Rightarrow> nat \<times> 'r) \<Rightarrow> bool" where
  "draws Intn \<longleftrightarrow> (\<forall>n r. 0 < n \<longrightarrow> fst (Intn n r) < n)"

lemma letter: "x < 26 \<Longrightarrow> char_of (x + 65 :: nat) \<noteq> CHR 0x22 \<and> char_of (x + 65 :: nat) \<noteq> CHR 0x5C"
proof -
  assume "x < 26"
  have "char_of (x + 65) \<noteq> c" if "(of_char c :: nat) < 65 \<or> 90 < (of_char c :: nat)" for c
  proof
    assume "char_of (x + 65) = c"
    then have "(of_char c :: nat) = x + 65" using \<open>x < 26\<close> by auto
    then show False using that \<open>x < 26\<close> by linarith
  qed
  from this [of "CHR 0x22"] this [of "CHR 0x5C"] show ?thesis by simp
qed

lemma randomVal_plain: "draws Intn \<Longrightarrow> plain (fst (randomVal Intn n r))"
proof (induction n arbitrary: r)
  case (Suc n)
  obtain x r1 where x: "Intn 26 r = (x, r1)" by fastforce
  then have "x < 26" using Suc.prems by (metis draws_def fst_conv zero_less_numeral)
  moreover obtain s r2 where "randomVal Intn n r1 = (s, r2)" by fastforce
  moreover from this have "plain s" using Suc.IH [OF Suc.prems, of r1] by simp
  ultimately show ?case using letter [of x] by (auto simp: x plain_def)
qed (simp add: plain_def)

lemma randomKeyVal_built:
  assumes "draws Intn"
  shows "\<exists>v. single v \<and> plain_val v \<and> depth v = 2 * d \<and> fst (randomKeyVal Intn d r) = buildVal (\<lambda>_ ks. ks) v"
proof (induction d arbitrary: r)
  case 0
  obtain n r1 where n: "Intn 100 r = (n, r1)" by fastforce
  obtain s r2 where s: "randomVal Intn n r1 = (s, r2)" by fastforce
  then have "plain s" using randomVal_plain [OF assms, of n r1] by simp
  then show ?case by (intro exI [of _ "JString s"]) (simp add: n s quoted_def)
next
  case (Suc d)
  obtain n r1 where n: "Intn 100 r = (n, r1)" by fastforce
  obtain k r2 where k: "randomVal Intn n r1 = (k, r2)" by fastforce
  then have "plain k" using randomVal_plain [OF assms, of n r1] by simp
  obtain v where v: "single v" "plain_val v" "depth v = 2 * d" "fst (randomKeyVal Intn d r2) = buildVal (\<lambda>_ ks. ks) v"
    using Suc.IH by blast
  moreover obtain b r3 where "randomKeyVal Intn d r2 = (b, r3)" by fastforce
  moreover have "at_site (\<lambda>_ ks. ks) k = (\<lambda>_ ks. ks)" by (simp add: at_site_def)
  ultimately show ?case
    using \<open>plain k\<close>
    by (intro exI [of _ "JMap [(k, v)]"]) (simp add: n k quoted_def range_over_single fair_def)
qed

text \<open>
  Every message sent is JSON: objects of one key each, as deep as asked for, around a string; what the
  structured profile of a gate is tried with.
\<close>

theorem random_message_json:
  assumes "draws Intn"
  shows "\<exists>v. single v \<and> depth v = 2 * d \<and> parse_json (fst (randomKeyVal Intn d r)) = Some (json_of v)"
proof -
  obtain v where v: "single v" "plain_val v" "depth v = 2 * d" "fst (randomKeyVal Intn d r) = buildVal (\<lambda>_ ks. ks) v"
    using randomKeyVal_built [OF assms] by blast
  have fr: "fair_ranger (\<lambda>_ ks. ks)" by (rule plain_fair)
  have "depth v < Suc (length (buildVal (\<lambda>_ ks. ks) v))" using depth_length [OF fr v(1)] by simp
  then have "parse_json (buildVal (\<lambda>_ ks. ks) v) = Some (json_of v)"
    using parse_single [OF fr v(2,1), of "Suc (length (buildVal (\<lambda>_ ks. ks) v))" "[]"] by (simp add: parse_json_def)
  then show ?thesis using v by auto
qed

theorem random_message_json_witness:
  "\<exists>v. single v \<and> depth v = 4 \<and> parse_json (fst (randomKeyVal (\<lambda>n (r :: nat). (r mod n, r + 7)) 2 3)) = Some (json_of v)"
  using random_message_json [of "\<lambda>n (r :: nat). (r mod n, r + 7)" 2 3] by (simp add: draws_def)

end
